(* ===== verification/Prelude.thy ===== *)
theory Prelude
  imports Main "HOL-Library.Word"
begin

text \<open>
  The prelude of the development: the names of the machine types the C++ code uses, the
  theorem collections the component theories fill and draw on, and the generic facts on
  lists, words and options they share.

  The program is built for 64-bit Linux (\<open>Makefile\<close>), so \<open>unsigned int\<close> and \<open>int\<close>
  are 32 bits wide, \<open>size_t\<close> is 64 bits wide and integers are stored low byte first.
\<close>

unbundle bit_operations_syntax

type_synonym u8 = "8 word"
type_synonym u16 = "16 word"
type_synonym u32 = "32 word"
type_synonym u64 = "64 word"
type_synonym bytes = "8 word list"

text \<open>A string literal as the bytes of a \<open>std::string\<close>.\<close>

definition ascii :: "string \<Rightarrow> bytes" where
  "ascii s = map of_char s"

lemma length_ascii [simp]: "length (ascii s) = length s"
  by (simp add: ascii_def)

text \<open>
  Collections: \<open>byte_conv\<close> holds the conversions between words and byte lists,
  \<open>header_bits\<close> the readings of frame header bits, \<open>handler_defs\<close> the handlers a
  component proof unfolds, and \<open>preserved\<close> the invariant-preservation facts.
\<close>

named_theorems byte_conv
named_theorems header_bits
named_theorems handler_defs
named_theorems preserved

subsection \<open>Lists\<close>

lemma take_min_length [simp]: "take (min n (length xs)) xs = take n xs"
  by (simp add: min_def)

lemma drop_min_length [simp]: "drop (min n (length xs)) xs = drop n xs"
  by (simp add: min_def)

lemma list2_cases:
  assumes "length xs = 2"
  obtains a b where "xs = [a, b]"
  using assms by (metis (no_types, opaque_lifting) One_nat_def Suc_1 length_0_conv length_Suc_conv)

lemma nth_map_upt0: "i < n \<Longrightarrow> map f [0..<n] ! i = f i"
  by simp

lemma map2_xor_involutive:
  fixes xs ks :: "'a::len word list"
  shows "length xs \<le> length ks \<Longrightarrow> map2 (XOR) (map2 (XOR) xs ks) ks = xs"
  by (induction xs ks rule: list_induct2') (auto simp: xor.assoc)

subsection \<open>Words\<close>

lemma unat_u8_bound [simp]: "unat (x :: u8) < 256"
  using unsigned_less [of x] by simp

lemma unat_u16_bound [simp]: "unat (x :: u16) < 65536"
  using unsigned_less [of x] by simp

lemma u64_of_nat_inj:
  "m < 2 ^ 64 \<Longrightarrow> unat (of_nat m :: u64) = m"
  by (simp add: unat_of_nat take_bit_eq_mod)

lemma u32_of_nat_inj:
  "m < 2 ^ 32 \<Longrightarrow> unat (of_nat m :: u32) = m"
  by (simp add: unat_of_nat take_bit_eq_mod)

lemma unat_ucast_u8 [simp]:
  "unat (ucast (b :: u8) :: u16) = unat b"
  "unat (ucast (b :: u8) :: u32) = unat b"
  "unat (ucast (b :: u8) :: u64) = unat b"
  by (simp_all add: unsigned_ucast_eq take_bit_nat_eq_self_iff order_less_trans [OF unat_u8_bound])

lemma unat_ucast_u16 [simp]:
  "unat (ucast (b :: u16) :: u32) = unat b"
  "unat (ucast (b :: u16) :: u64) = unat b"
  by (simp_all add: unsigned_ucast_eq take_bit_nat_eq_self_iff order_less_trans [OF unat_u16_bound])

lemma u8_of_nat_inj: "m < 256 \<Longrightarrow> unat (of_nat m :: u8) = m"
  by (simp add: unat_of_nat take_bit_eq_mod)

lemma u64_of_nat_le: "k \<le> unat (w :: u64) \<Longrightarrow> unat (of_nat k :: u64) = k"
  by (rule u64_of_nat_inj) (rule order_le_less_trans, assumption, use unsigned_less [of w] in simp)

lemma u64_minus_of_nat: "k \<le> unat (w :: u64) \<Longrightarrow> unat (w - of_nat k) = unat w - k"
  by (simp add: unat_sub word_le_nat_alt u64_of_nat_le)

lemma u64_add_no_wrap: "k + unat (w :: u64) < 2 ^ 64 \<Longrightarrow> unat (of_nat k + w) = k + unat w"
proof -
  assume "k + unat w < 2 ^ 64"
  then have "unat (of_nat (k + unat w) :: u64) = k + unat w" by (rule u64_of_nat_inj)
  then show ?thesis by simp
qed

end
