(* ===== verification/Network.thy ===== *)
theory Network
  imports Prelude
begin

text \<open>
  Byte order and the integer/byte unions: \<open>websocketpp/common/network.hpp\<close> and the
  converter unions of \<open>websocketpp/frame.hpp\<close>. A union of an integer and a byte array is
  read through the pair of functions that give one view from the other; on the little-endian
  target the byte at index 0 is the least significant one.
\<close>

fun le_word :: "bytes \<Rightarrow> 'a::len word" where
  "le_word [] = 0"
| "le_word (b # bs) = ucast b OR push_bit 8 (le_word bs)"

definition le_bytes :: "nat \<Rightarrow> 'a::len word \<Rightarrow> bytes" where
  "le_bytes n i = map (\<lambda>k. ucast (drop_bit (8 * k) i)) [0..<n]"

definition uint16_c :: "u16 \<Rightarrow> bytes" where
  "uint16_c i = le_bytes 2 i"

definition uint32_c :: "u32 \<Rightarrow> bytes" where
  "uint32_c i = le_bytes 4 i"

definition uint64_c :: "u64 \<Rightarrow> bytes" where
  "uint64_c i = le_bytes 8 i"

definition uint16_i :: "bytes \<Rightarrow> u16" where
  "uint16_i c = le_word c"

definition uint32_i :: "bytes \<Rightarrow> u32" where
  "uint32_i c = le_word c"

definition uint64_i :: "bytes \<Rightarrow> u64" where
  "uint64_i c = le_word c"

text \<open>
  \<open>is_little_endian\<close> looks at the first byte of a \<open>short\<close> holding 1; \<open>_htonll\<close> looks at
  the last byte of a 64-bit 1 and swaps the bytes pairwise unless the machine is big-endian.
\<close>

definition is_little_endian :: bool where
  "is_little_endian = (uint16_c 1 ! 0 = 1)"

definition htonll :: "u64 \<Rightarrow> u64" where
  "htonll src =
     (if uint64_c 1 ! 7 = 1 then src
      else let c = uint64_c src
           in uint64_i [c ! 7, c ! 6, c ! 5, c ! 4, c ! 3, c ! 2, c ! 1, c ! 0])"

definition ntohll :: "u64 \<Rightarrow> u64" where
  "ntohll src = htonll src"

text \<open>The C library's \<open>htons\<close> and \<open>ntohs\<close> on the same target.\<close>

definition htons :: "u16 \<Rightarrow> u16" where
  "htons i = uint16_i [uint16_c i ! 1, uint16_c i ! 0]"

definition ntohs :: "u16 \<Rightarrow> u16" where
  "ntohs i = htons i"

subsection \<open>The two views of a union agree\<close>

lemma length_le_bytes [simp]: "length (le_bytes n i) = n"
  by (simp add: le_bytes_def)

lemma bit_le_bytes:
  "k < n \<Longrightarrow> bit (le_bytes n i ! k) m \<longleftrightarrow> m < 8 \<and> bit i (8 * k + m)"
  by (auto simp: le_bytes_def bit_simps)

lemma bit_le_word:
  "bit (le_word bs :: 'a::len word) n \<longleftrightarrow>
     n < LENGTH('a) \<and> n div 8 < length bs \<and> bit (bs ! (n div 8)) (n mod 8)"
proof (induction bs arbitrary: n)
  case Nil
  then show ?case by simp
next
  case (Cons b bs)
  show ?case
  proof (cases "n < 8")
    case True
    then show ?thesis by (auto simp: bit_simps)
  next
    case False
    then obtain m where m: "n = m + 8" by (metis add.commute le_Suc_ex not_less)
    then have "n div 8 = Suc (m div 8)" "n mod 8 = m mod 8" by simp_all
    moreover have "\<not> bit b (m + 8)" using bit_imp_le_length [of b "m + 8"] by auto
    ultimately show ?thesis
      using m Cons.IH [of m] by (auto simp: bit_simps)
  qed
qed

lemma le_word_le_bytes:
  fixes i :: "'a::len word"
  assumes "LENGTH('a) \<le> 8 * n"
  shows "le_word (le_bytes n i) = i"
proof (rule bit_word_eqI)
  fix m assume m: "m < LENGTH('a)"
  with assms have k: "m div 8 < n" by arith
  have "8 * (m div 8) + m mod 8 = m" by simp
  with k m show "bit (le_word (le_bytes n i) :: 'a word) m = bit i m"
    by (simp add: bit_le_word bit_le_bytes)
qed

lemma le_bytes_le_word:
  assumes "length c = n" and "8 * n \<le> LENGTH('a::len)"
  shows "le_bytes n (le_word c :: 'a word) = c"
proof (rule nth_equalityI)
  show "length (le_bytes n (le_word c :: 'a word)) = length c" using assms by simp
next
  fix k assume "k < length (le_bytes n (le_word c :: 'a word))"
  then have k: "k < n" by simp
  show "le_bytes n (le_word c :: 'a word) ! k = c ! k"
  proof (rule bit_word_eqI)
    fix m assume "m < LENGTH(8)"
    then have m: "m < 8" by simp
    have "(8 * k + m) div 8 = k" "(8 * k + m) mod 8 = m" using m by auto
    moreover have "8 * k + m < LENGTH('a)" using k m assms(2) by linarith
    ultimately show "bit (le_bytes n (le_word c :: 'a word) ! k) m = bit (c ! k) m"
      using k m assms(1) by (simp add: bit_le_bytes bit_le_word)
  qed
qed

lemma length_uint_c [simp]:
  "length (uint16_c i) = 2" "length (uint32_c j) = 4" "length (uint64_c k) = 8"
  by (simp_all add: uint16_c_def uint32_c_def uint64_c_def)

lemma uint_i_c [simp]:
  "uint16_i (uint16_c i) = i" "uint32_i (uint32_c j) = j" "uint64_i (uint64_c k) = k"
  by (simp_all add: uint16_c_def uint32_c_def uint64_c_def uint16_i_def uint32_i_def
      uint64_i_def le_word_le_bytes)

lemma uint16_c_i [simp]: "length c = 2 \<Longrightarrow> uint16_c (uint16_i c) = c"
  by (simp add: uint16_c_def uint16_i_def le_bytes_le_word)

lemma uint32_c_i [simp]: "length c = 4 \<Longrightarrow> uint32_c (uint32_i c) = c"
  by (simp add: uint32_c_def uint32_i_def le_bytes_le_word)

lemma uint64_c_i [simp]: "length c = 8 \<Longrightarrow> uint64_c (uint64_i c) = c"
  by (simp add: uint64_c_def uint64_i_def le_bytes_le_word)

lemma little_endian [simp]: "is_little_endian"
  by (simp add: is_little_endian_def uint16_c_def le_bytes_def)

lemma rev_8:
  "length c = 8 \<Longrightarrow> rev c = [c ! 7, c ! 6, c ! 5, c ! 4, c ! 3, c ! 2, c ! 1, c ! 0]"
  by (auto simp: numeral_eq_Suc length_Suc_conv)

lemma htonll_rev: "uint64_c (htonll x) = rev (uint64_c x)"
proof -
  have "uint64_c 1 ! 7 = 0"
    by (simp add: uint64_c_def le_bytes_def)
  then have "htonll x = uint64_i (rev (uint64_c x))"
    by (simp add: htonll_def Let_def rev_8)
  then show ?thesis by simp
qed

lemma htonll_htonll [simp]: "htonll (htonll x) = x"
proof -
  have "uint64_c (htonll (htonll x)) = uint64_c x" by (simp add: htonll_rev)
  then have "uint64_i (uint64_c (htonll (htonll x))) = uint64_i (uint64_c x)" by simp
  then show ?thesis by simp
qed

lemma uint16_c_htons: "uint16_c (htons x) = rev (uint16_c x)"
proof -
  obtain a b where "uint16_c x = [a, b]" by (rule list2_cases [of "uint16_c x"]) auto
  then show ?thesis by (simp add: htons_def)
qed

lemma ntohs_htons [simp]: "ntohs (htons x) = x"
proof -
  have "uint16_i (uint16_c (htons (htons x))) = uint16_i (uint16_c x)"
    by (simp add: uint16_c_htons)
  then show ?thesis by (simp add: ntohs_def)
qed

end
