(* ===== verification/Frame.thy ===== *)
theory Frame
  imports Network
begin

text \<open>
  WebSocket frames (\<open>websocketpp/frame.hpp\<close>): opcodes, the two-byte basic header and the
  variable extended header with their accessors and constructors, and the masking routines,
  byte by byte and word by word, exact and circular. The lemmas show that building a header
  and reading it back agree, that every masking routine is the same key stream, and that
  masking in chunks is masking at once.
\<close>

subsection \<open>Opcodes\<close>

datatype opcode =
    CONTINUATION | TEXT | BINARY | RSV3 | RSV4 | RSV5 | RSV6 | RSV7
  | CLOSE | PING | PONG | CONTROL_RSVB | CONTROL_RSVC | CONTROL_RSVD | CONTROL_RSVE | CONTROL_RSVF

fun opcode_val :: "opcode \<Rightarrow> nat" where
  "opcode_val CONTINUATION = 0x0"
| "opcode_val TEXT = 0x1"
| "opcode_val BINARY = 0x2"
| "opcode_val RSV3 = 0x3"
| "opcode_val RSV4 = 0x4"
| "opcode_val RSV5 = 0x5"
| "opcode_val RSV6 = 0x6"
| "opcode_val RSV7 = 0x7"
| "opcode_val CLOSE = 0x8"
| "opcode_val PING = 0x9"
| "opcode_val PONG = 0xA"
| "opcode_val CONTROL_RSVB = 0xB"
| "opcode_val CONTROL_RSVC = 0xC"
| "opcode_val CONTROL_RSVD = 0xD"
| "opcode_val CONTROL_RSVE = 0xE"
| "opcode_val CONTROL_RSVF = 0xF"

text \<open>The cast \<open>opcode::value(n)\<close> of a four-bit number.\<close>

definition opcode_of :: "nat \<Rightarrow> opcode" where
  "opcode_of n =
     [CONTINUATION, TEXT, BINARY, RSV3, RSV4, RSV5, RSV6, RSV7, CLOSE, PING, PONG, CONTROL_RSVB,
      CONTROL_RSVC, CONTROL_RSVD, CONTROL_RSVE, CONTROL_RSVF] ! (n mod 16)"

text \<open>Enumerators compare as their values.\<close>

lemma opcode_val_inj: "opcode_val a = opcode_val b \<longleftrightarrow> a = b"
  by (cases a; cases b; simp)

instantiation opcode :: linorder
begin

definition less_eq_opcode :: "opcode \<Rightarrow> opcode \<Rightarrow> bool" where
  "less_eq_opcode a b \<longleftrightarrow> opcode_val a \<le> opcode_val b"

definition less_opcode :: "opcode \<Rightarrow> opcode \<Rightarrow> bool" where
  "less_opcode a b \<longleftrightarrow> opcode_val a < opcode_val b"

instance
  by standard (auto simp: less_eq_opcode_def less_opcode_def opcode_val_inj)

end

definition opcode_reserved :: "opcode \<Rightarrow> bool" where
  "opcode_reserved v \<longleftrightarrow>
     (v \<ge> RSV3 \<and> v \<le> RSV7) \<or> (v \<ge> CONTROL_RSVB \<and> v \<le> CONTROL_RSVF)"

definition opcode_invalid :: "opcode \<Rightarrow> bool" where
  "opcode_invalid v \<longleftrightarrow> opcode_val v > 0xF \<or> opcode_val v < 0"

definition is_control :: "opcode \<Rightarrow> bool" where
  "is_control v \<longleftrightarrow> opcode_val v \<ge> 0x8"

subsection \<open>Constants\<close>

definition BASIC_HEADER_LENGTH :: nat where "BASIC_HEADER_LENGTH = 2"
definition MAX_HEADER_LENGTH :: nat where "MAX_HEADER_LENGTH = 14"
definition MAX_EXTENDED_HEADER_LENGTH :: nat where "MAX_EXTENDED_HEADER_LENGTH = 12"

definition payload_size_basic :: u64 where "payload_size_basic = 125"
definition payload_size_extended :: u64 where "payload_size_extended = 0xFFFF"
definition payload_size_jumbo :: u64 where "payload_size_jumbo = 0x7FFFFFFFFFFFFFFF"
definition close_reason_size :: nat where "close_reason_size = 123"

definition BHB0_OPCODE :: u8 where "BHB0_OPCODE = 0x0F"
definition BHB0_RSV3 :: u8 where "BHB0_RSV3 = 0x10"
definition BHB0_RSV2 :: u8 where "BHB0_RSV2 = 0x20"
definition BHB0_RSV1 :: u8 where "BHB0_RSV1 = 0x40"
definition BHB0_FIN :: u8 where "BHB0_FIN = 0x80"
definition BHB1_PAYLOAD :: u8 where "BHB1_PAYLOAD = 0x7F"
definition BHB1_MASK :: u8 where "BHB1_MASK = 0x80"

definition payload_size_code_16bit :: u8 where "payload_size_code_16bit = 0x7E"
definition payload_size_code_64bit :: u8 where "payload_size_code_64bit = 0x7F"

lemmas header_consts =
  BHB0_OPCODE_def BHB0_RSV3_def BHB0_RSV2_def BHB0_RSV1_def BHB0_FIN_def BHB1_PAYLOAD_def
  BHB1_MASK_def payload_size_code_16bit_def payload_size_code_64bit_def

lemmas size_consts =
  BASIC_HEADER_LENGTH_def MAX_HEADER_LENGTH_def MAX_EXTENDED_HEADER_LENGTH_def
  payload_size_basic_def payload_size_extended_def

subsection \<open>Headers\<close>

record basic_header =
  b0 :: u8
  b1 :: u8

definition empty_basic_header :: basic_header where
  "empty_basic_header = \<lparr>b0 = 0x00, b1 = 0x00\<rparr>"

definition make_basic_header ::
  "opcode \<Rightarrow> u64 \<Rightarrow> bool \<Rightarrow> bool \<Rightarrow> bool \<Rightarrow> bool \<Rightarrow> bool \<Rightarrow> basic_header" where
  "make_basic_header op sz fin msk rsv1 rsv2 rsv3 =
     (let x = 0x00;
          x = (if fin then x OR BHB0_FIN else x);
          x = (if rsv1 then x OR BHB0_RSV1 else x);
          x = (if rsv2 then x OR BHB0_RSV2 else x);
          x = (if rsv3 then x OR BHB0_RSV3 else x);
          x = x OR (of_nat (opcode_val op) AND BHB0_OPCODE);
          y = 0x00;
          y = (if msk then y OR BHB1_MASK else y);
          basic_value = (if sz \<le> payload_size_basic then ucast sz
                         else if sz \<le> payload_size_extended then payload_size_code_16bit
                         else payload_size_code_64bit)
      in \<lparr>b0 = x, b1 = y OR basic_value\<rparr>)"

text \<open>The twelve bytes of the extended header; \<open>copy_payload\<close> also returns the offset after
  the length field.\<close>

record extended_header =
  eh_bytes :: bytes

definition empty_extended_header :: extended_header where
  "empty_extended_header = \<lparr>eh_bytes = replicate MAX_EXTENDED_HEADER_LENGTH 0x00\<rparr>"

definition overwrite :: "bytes \<Rightarrow> nat \<Rightarrow> bytes \<Rightarrow> bytes" where
  "overwrite dst off src = take off dst @ src @ drop (off + length src) dst"

lemma length_overwrite:
  "off + length src \<le> length dst \<Longrightarrow> length (overwrite dst off src) = length dst"
  by (simp add: overwrite_def)

definition copy_payload :: "extended_header \<Rightarrow> u64 \<Rightarrow> extended_header \<times> nat" where
  "copy_payload e payload_size =
     (let payload_offset = (if payload_size \<le> payload_size_basic then 8
                            else if payload_size \<le> payload_size_extended then 6
                            else 0);
          temp64 = htonll payload_size
      in (e\<lparr>eh_bytes := overwrite (eh_bytes e) 0 (drop payload_offset (uint64_c temp64))\<rparr>,
          8 - payload_offset))"

definition make_extended_header :: "u64 \<Rightarrow> extended_header" where
  "make_extended_header payload_size = fst (copy_payload empty_extended_header payload_size)"

definition make_extended_header_masked :: "u64 \<Rightarrow> u32 \<Rightarrow> extended_header" where
  "make_extended_header_masked payload_size masking_key =
     (let (e, offset) = copy_payload empty_extended_header payload_size
      in e\<lparr>eh_bytes := overwrite (eh_bytes e) offset (uint32_c masking_key)\<rparr>)"

definition get_fin :: "basic_header \<Rightarrow> bool" where
  "get_fin h \<longleftrightarrow> b0 h AND BHB0_FIN = BHB0_FIN"

definition set_fin :: "basic_header \<Rightarrow> bool \<Rightarrow> basic_header" where
  "set_fin h v = h\<lparr>b0 := if v then b0 h OR BHB0_FIN else b0 h AND NOT BHB0_FIN\<rparr>"

definition get_rsv1 :: "basic_header \<Rightarrow> bool" where
  "get_rsv1 h \<longleftrightarrow> b0 h AND BHB0_RSV1 = BHB0_RSV1"

definition set_rsv1 :: "basic_header \<Rightarrow> bool \<Rightarrow> basic_header" where
  "set_rsv1 h v = h\<lparr>b0 := if v then b0 h OR BHB0_RSV1 else b0 h AND NOT BHB0_RSV1\<rparr>"

definition get_rsv2 :: "basic_header \<Rightarrow> bool" where
  "get_rsv2 h \<longleftrightarrow> b0 h AND BHB0_RSV2 = BHB0_RSV2"

definition set_rsv2 :: "basic_header \<Rightarrow> bool \<Rightarrow> basic_header" where
  "set_rsv2 h v = h\<lparr>b0 := if v then b0 h OR BHB0_RSV2 else b0 h AND NOT BHB0_RSV2\<rparr>"

definition get_rsv3 :: "basic_header \<Rightarrow> bool" where
  "get_rsv3 h \<longleftrightarrow> b0 h AND BHB0_RSV3 = BHB0_RSV3"

definition set_rsv3 :: "basic_header \<Rightarrow> bool \<Rightarrow> basic_header" where
  "set_rsv3 h v = h\<lparr>b0 := if v then b0 h OR BHB0_RSV3 else b0 h AND NOT BHB0_RSV3\<rparr>"

definition get_opcode :: "basic_header \<Rightarrow> opcode" where
  "get_opcode h = opcode_of (unat (b0 h AND BHB0_OPCODE))"

definition get_masked :: "basic_header \<Rightarrow> bool" where
  "get_masked h \<longleftrightarrow> b1 h AND BHB1_MASK = BHB1_MASK"

definition set_masked :: "basic_header \<Rightarrow> bool \<Rightarrow> basic_header" where
  "set_masked h v = h\<lparr>b1 := if v then b1 h OR BHB1_MASK else b1 h AND NOT BHB1_MASK\<rparr>"

definition get_basic_size :: "basic_header \<Rightarrow> u8" where
  "get_basic_size h = b1 h AND BHB1_PAYLOAD"

definition get_masking_key_offset :: "basic_header \<Rightarrow> nat" where
  "get_masking_key_offset h =
     (if get_basic_size h = payload_size_code_16bit then 2
      else if get_basic_size h = payload_size_code_64bit then 8
      else 0)"

definition get_header_len :: "basic_header \<Rightarrow> nat" where
  "get_header_len h =
     (let sz = BASIC_HEADER_LENGTH + get_masking_key_offset h
      in if get_masked h then sz + 4 else sz)"

definition prepare_header :: "basic_header \<Rightarrow> extended_header \<Rightarrow> bytes" where
  "prepare_header h e = b0 h # b1 h # take (get_header_len h - BASIC_HEADER_LENGTH) (eh_bytes e)"

definition get_masking_key :: "basic_header \<Rightarrow> extended_header \<Rightarrow> u32" where
  "get_masking_key h e =
     (if \<not> get_masked h then 0
      else uint32_i (take 4 (drop (get_masking_key_offset h) (eh_bytes e))))"

definition get_extended_size :: "extended_header \<Rightarrow> u16" where
  "get_extended_size e = ntohs (uint16_i (take 2 (eh_bytes e)))"

definition get_jumbo_size :: "extended_header \<Rightarrow> u64" where
  "get_jumbo_size e = ntohll (uint64_i (take 8 (eh_bytes e)))"

definition get_payload_size :: "basic_header \<Rightarrow> extended_header \<Rightarrow> u64" where
  "get_payload_size h e =
     (let v = get_basic_size h
      in if ucast v \<le> payload_size_basic then ucast v
         else if v = payload_size_code_16bit then ucast (get_extended_size e)
         else get_jumbo_size e)"

subsection \<open>Masking\<close>

definition prepare_masking_key :: "u32 \<Rightarrow> u64" where
  "prepare_masking_key key = push_bit 32 (ucast key) OR ucast key"

definition circshift_prepared_key :: "u64 \<Rightarrow> nat \<Rightarrow> u64" where
  "circshift_prepared_key prepared_key offset =
     (if offset = 0 then prepared_key
      else if is_little_endian
      then drop_bit (offset * 8) prepared_key OR push_bit ((8 - offset) * 8) prepared_key
      else push_bit (offset * 8) prepared_key OR drop_bit ((8 - offset) * 8) prepared_key)"

fun byte_mask_from :: "bytes \<Rightarrow> u32 \<Rightarrow> nat \<Rightarrow> bytes" where
  "byte_mask_from [] key key_index = []"
| "byte_mask_from (b # bs) key key_index =
     (b XOR uint32_c key ! key_index) # byte_mask_from bs key (Suc key_index mod 4)"

definition byte_mask :: "bytes \<Rightarrow> u32 \<Rightarrow> nat \<Rightarrow> bytes" where
  "byte_mask input key key_offset = byte_mask_from input key (key_offset mod 4)"

text \<open>The loop over whole words: each eight bytes of the buffer read as a \<open>size_t\<close>.\<close>

definition mask_words :: "nat \<Rightarrow> bytes \<Rightarrow> u64 \<Rightarrow> bytes" where
  "mask_words n input prepared_key =
     concat (map (\<lambda>i. uint64_c (uint64_i (take 8 (drop (8 * i) input)) XOR prepared_key)) [0..<n])"

definition word_mask_exact :: "bytes \<Rightarrow> u32 \<Rightarrow> bytes" where
  "word_mask_exact input key =
     (let prepared_key = prepare_masking_key key;
          n = length input div 8
      in mask_words n input prepared_key
         @ map (\<lambda>i. input ! i XOR uint32_c key ! (i mod 4)) [n * 8..<length input])"

definition word_mask_circ :: "bytes \<Rightarrow> u64 \<Rightarrow> bytes \<times> u64" where
  "word_mask_circ input prepared_key =
     (let n = length input div 8;
          l = length input - n * 8;
          start = length input - l;
          byte_key = uint64_c prepared_key
      in (mask_words n input prepared_key
            @ map (\<lambda>i. input ! (start + i) XOR byte_key ! i) [0..<l],
          circshift_prepared_key prepared_key l))"

definition byte_mask_circ :: "bytes \<Rightarrow> u64 \<Rightarrow> bytes \<times> u64" where
  "byte_mask_circ input prepared_key =
     (let key = ucast prepared_key :: u32
      in (map (\<lambda>i. input ! i XOR uint32_c key ! (i mod 4)) [0..<length input],
          circshift_prepared_key prepared_key (length input mod 4)))"

subsection \<open>Reading header bits\<close>

lemma opcode_of_val [simp]: "opcode_of (opcode_val op) = op"
  by (cases op) (simp_all add: opcode_of_def)

lemma opcode_val_bound: "opcode_val op < 16"
  by (cases op) simp_all

lemma opcode_not_invalid [simp]: "\<not> opcode_invalid op"
  using opcode_val_bound [of op] by (simp add: opcode_invalid_def)

lemma is_control_iff:
  "is_control op \<longleftrightarrow>
     op \<in> {CLOSE, PING, PONG} \<or> op \<in> {CONTROL_RSVB, CONTROL_RSVC, CONTROL_RSVD, CONTROL_RSVE, CONTROL_RSVF}"
  by (cases op) (simp_all add: is_control_def)

lemma opcode_reserved_iff:
  "opcode_reserved op \<longleftrightarrow> op \<notin> {CONTINUATION, TEXT, BINARY, CLOSE, PING, PONG}"
  by (cases op) (simp_all add: opcode_reserved_def less_eq_opcode_def)

lemma opcode_bits: "(of_nat (opcode_val op) :: u8) AND 0x0F = of_nat (opcode_val op)"
  by (cases op) simp_all

lemma basic_header_bits [header_bits]:
  "get_fin (make_basic_header op sz fin msk r1 r2 r3) = fin"
  "get_rsv1 (make_basic_header op sz fin msk r1 r2 r3) = r1"
  "get_rsv2 (make_basic_header op sz fin msk r1 r2 r3) = r2"
  "get_rsv3 (make_basic_header op sz fin msk r1 r2 r3) = r3"
  "get_opcode (make_basic_header op sz fin msk r1 r2 r3) = op"
  by (cases op; cases fin; cases r1; cases r2; cases r3;
      simp add: make_basic_header_def Let_def header_consts get_fin_def get_rsv1_def get_rsv2_def
        get_rsv3_def get_opcode_def opcode_of_def)+

lemma small_size_bits:
  assumes "sz \<le> (125 :: u64)"
  shows "(ucast sz :: u8) AND 0x7F = ucast sz" and "(ucast sz :: u8) AND 0x80 = 0"
    and "unat (ucast sz :: u8) = unat sz"
proof -
  have s: "unat sz \<le> 125" using assms by (simp add: word_le_nat_alt)
  then show u: "unat (ucast sz :: u8) = unat sz"
    by (simp add: unsigned_ucast_eq take_bit_nat_eq_self_iff)
  have "take_bit 7 (ucast sz :: u8) = ucast sz"
    using s u by (simp add: word_unat_eq_iff unsigned_take_bit_eq take_bit_nat_eq_self_iff)
  then show a: "(ucast sz :: u8) AND 0x7F = ucast sz"
    by (simp add: take_bit_eq_mask mask_eq_exp_minus_1)
  have "(ucast sz :: u8) AND 0x80 = (ucast sz AND 0x7F) AND 0x80" by (simp only: a)
  also have "\<dots> = 0" by (simp add: and.assoc)
  finally show "(ucast sz :: u8) AND 0x80 = 0" .
qed

lemma basic_size_make [header_bits]:
  "get_basic_size (make_basic_header op sz fin msk r1 r2 r3) =
     (if sz \<le> payload_size_basic then ucast sz
      else if sz \<le> payload_size_extended then payload_size_code_16bit
      else payload_size_code_64bit)"
  by (auto simp: get_basic_size_def make_basic_header_def Let_def header_consts size_consts
        bit.conj_disj_distrib2 small_size_bits)

lemma get_masked_make [header_bits]:
  "get_masked (make_basic_header op sz fin msk r1 r2 r3) = msk"
  by (auto simp: get_masked_def make_basic_header_def Let_def header_consts size_consts
        bit.conj_disj_distrib2 small_size_bits)

subsection \<open>The extended header\<close>

lemma u64_size_classes:
  "sz \<le> payload_size_basic \<longleftrightarrow> unat sz \<le> 125"
  "sz \<le> payload_size_extended \<longleftrightarrow> unat sz \<le> 65535"
  by (simp_all add: size_consts word_le_nat_alt)

text \<open>The length field of a frame header: nothing, two bytes or eight bytes, high byte first.\<close>

definition length_field :: "u64 \<Rightarrow> bytes" where
  "length_field sz =
     (if unat sz \<le> 125 then []
      else if unat sz \<le> 65535 then rev (uint16_c (ucast sz)) else rev (uint64_c sz))"

lemma take_uint64_c: "take 2 (uint64_c sz) = uint16_c (ucast sz)"
  by (rule nth_equalityI) (auto simp: uint64_c_def uint16_c_def le_bytes_def numeral_2_eq_2
      less_Suc_eq intro!: bit_word_eqI simp: bit_simps)

lemma length_length_field: "length (length_field sz) \<le> 8"
  by (simp add: length_field_def)

lemma copy_payload_eq:
  "length (eh_bytes e) = 12 \<Longrightarrow>
   copy_payload e sz =
     (e\<lparr>eh_bytes := length_field sz @ drop (length (length_field sz)) (eh_bytes e)\<rparr>,
      length (length_field sz))"
  by (simp add: copy_payload_def Let_def u64_size_classes length_field_def overwrite_def
      htonll_rev drop_rev take_uint64_c)

lemma make_extended_header_eq:
  "eh_bytes (make_extended_header sz) = length_field sz @ replicate (12 - length (length_field sz)) 0"
  by (simp add: make_extended_header_def copy_payload_eq empty_extended_header_def size_consts)

lemma make_extended_header_masked_eq:
  "eh_bytes (make_extended_header_masked sz key) =
     length_field sz @ uint32_c key @ replicate (8 - length (length_field sz)) 0"
  using length_length_field [of sz]
  by (simp add: make_extended_header_masked_def copy_payload_eq empty_extended_header_def size_consts
      overwrite_def)

lemma masking_key_offset_make [header_bits]:
  "get_masking_key_offset (make_basic_header op sz fin msk r1 r2 r3) = length (length_field sz)"
proof -
  have "(ucast sz :: u8) \<noteq> 126 \<and> (ucast sz :: u8) \<noteq> 127" if "unat sz \<le> 125"
    using small_size_bits(3) [of sz] that by (auto simp: word_le_nat_alt)
  then show ?thesis
    by (auto simp: get_masking_key_offset_def basic_size_make u64_size_classes length_field_def
        payload_size_code_16bit_def payload_size_code_64bit_def)
qed

lemma header_len_make [header_bits]:
  "get_header_len (make_basic_header op sz fin msk r1 r2 r3) =
     2 + length (length_field sz) + (if msk then 4 else 0)"
  by (simp add: get_header_len_def masking_key_offset_make get_masked_make size_consts)

lemma ntohs_rev: "length c = 2 \<Longrightarrow> ntohs (uint16_i (rev c)) = uint16_i c"
proof -
  assume "length c = 2"
  then have "rev c = uint16_c (htons (uint16_i c))" by (simp add: uint16_c_htons)
  then show ?thesis by simp
qed

lemma ntohll_rev: "length c = 8 \<Longrightarrow> ntohll (uint64_i (rev c)) = uint64_i c"
proof -
  assume "length c = 8"
  then have "rev c = uint64_c (htonll (uint64_i c))" by (simp add: htonll_rev)
  then show ?thesis by (simp add: ntohll_def)
qed

lemma payload_size_read:
  assumes "take (length (length_field sz)) (eh_bytes e) = length_field sz"
  shows "get_payload_size (make_basic_header op sz fin msk r1 r2 r3) e = sz"
proof -
  consider "unat sz \<le> 125" | "125 < unat sz" "unat sz \<le> 65535" | "65535 < unat sz" by linarith
  then show ?thesis
  proof cases
    case 1
    then have "sz \<le> 125" by (simp add: word_le_nat_alt)
    then have "ucast (ucast sz :: u8) = sz" "unat (ucast sz :: u8) = unat sz"
      using small_size_bits(3) [of sz] by (simp_all add: word_unat_eq_iff)
    with 1 show ?thesis
      by (simp add: get_payload_size_def basic_size_make u64_size_classes)
  next
    case 2
    then have "ucast (ucast sz :: u16) = sz"
      by (simp add: word_unat_eq_iff unsigned_take_bit_eq unsigned_ucast_eq take_bit_nat_eq_self_iff)
    with 2 assms show ?thesis
      by (simp add: get_payload_size_def basic_size_make u64_size_classes get_extended_size_def
          length_field_def payload_size_code_16bit_def ntohs_rev)
  next
    case 3
    with assms show ?thesis
      by (simp add: get_payload_size_def basic_size_make u64_size_classes get_jumbo_size_def
          length_field_def payload_size_code_16bit_def payload_size_code_64bit_def ntohll_rev)
  qed
qed

lemma payload_size_make [header_bits]:
  "get_payload_size (make_basic_header op sz fin msk r1 r2 r3) (make_extended_header sz) = sz"
  "get_payload_size (make_basic_header op sz fin msk r1 r2 r3)
     (make_extended_header_masked sz key) = sz"
  by (simp_all add: payload_size_read make_extended_header_eq make_extended_header_masked_eq)

lemma masking_key_make [header_bits]:
  "get_masking_key (make_basic_header op sz fin False r1 r2 r3) e = 0"
  "get_masking_key (make_basic_header op sz fin True r1 r2 r3)
     (make_extended_header_masked sz key) = key"
  by (simp_all add: get_masking_key_def get_masked_make masking_key_offset_make
      make_extended_header_masked_eq)

lemma prepare_header_make:
  "prepare_header (make_basic_header op sz fin False r1 r2 r3) (make_extended_header sz) =
     [b0 (make_basic_header op sz fin False r1 r2 r3), b1 (make_basic_header op sz fin False r1 r2 r3)]
     @ length_field sz"
  "prepare_header (make_basic_header op sz fin True r1 r2 r3) (make_extended_header_masked sz key) =
     [b0 (make_basic_header op sz fin True r1 r2 r3), b1 (make_basic_header op sz fin True r1 r2 r3)]
     @ length_field sz @ uint32_c key"
  by (simp_all add: prepare_header_def header_len_make size_consts make_extended_header_eq
      make_extended_header_masked_eq)

text \<open>The bounds every reader of a header relies on, whatever the two bytes are.\<close>

lemma get_header_len_bounds: "2 \<le> get_header_len h" "get_header_len h \<le> MAX_HEADER_LENGTH"
  by (simp_all add: get_header_len_def get_masking_key_offset_def size_consts Let_def)

lemma get_basic_size_bound: "unat (get_basic_size h) < 128"
proof -
  have "get_basic_size h \<le> 0x7F"
    unfolding get_basic_size_def BHB1_PAYLOAD_def by (rule word_and_le1)
  then show ?thesis by (simp add: word_le_nat_alt)
qed

subsection \<open>The key stream\<close>

definition keystream :: "u64 \<Rightarrow> nat \<Rightarrow> u8" where
  "keystream k i = uint64_c k ! (i mod 8)"

definition apply_keystream :: "(nat \<Rightarrow> u8) \<Rightarrow> bytes \<Rightarrow> bytes" where
  "apply_keystream ks xs = map (\<lambda>i. xs ! i XOR ks i) [0..<length xs]"

lemma length_apply_keystream [simp]: "length (apply_keystream ks xs) = length xs"
  by (simp add: apply_keystream_def)

lemma nth_apply_keystream [simp]: "i < length xs \<Longrightarrow> apply_keystream ks xs ! i = xs ! i XOR ks i"
  by (simp add: apply_keystream_def)

lemma apply_keystream_cong: "(\<And>i. ks i = ks' i) \<Longrightarrow> apply_keystream ks xs = apply_keystream ks' xs"
  by (simp add: apply_keystream_def)

lemma apply_keystream_append:
  "apply_keystream ks (xs @ ys) =
     apply_keystream ks xs @ apply_keystream (\<lambda>i. ks (length xs + i)) ys"
  by (rule nth_equalityI) (auto simp: nth_append)

lemma apply_keystream_involutive [simp]: "apply_keystream ks (apply_keystream ks xs) = xs"
  by (rule nth_equalityI) (simp_all add: xor.assoc)

lemma keystream_inj: "(\<And>i. keystream k i = keystream k' i) \<Longrightarrow> k = k'"
proof -
  assume a: "\<And>i. keystream k i = keystream k' i"
  have "uint64_c k = uint64_c k'"
  proof (rule nth_equalityI)
    fix i assume "i < length (uint64_c k)"
    then show "uint64_c k ! i = uint64_c k' ! i" using a [of i] by (simp add: keystream_def)
  qed simp
  then show ?thesis by (metis uint_i_c(3))
qed

lemma bit_keystream: "m < 8 \<Longrightarrow> bit (keystream k i) m \<longleftrightarrow> bit k (8 * (i mod 8) + m)"
  by (simp add: keystream_def uint64_c_def bit_le_bytes)

lemma keystream_prepare: "keystream (prepare_masking_key key) i = uint32_c key ! (i mod 4)"
proof (rule bit_word_eqI)
  fix m assume "m < LENGTH(8)"
  then have m: "m < 8" by simp
  have d: "i mod 8 = i mod 4 \<or> i mod 8 = i mod 4 + 4"
    using mod_mult2_eq [of i 4 2] by (simp add: mod_2_eq_odd split: if_splits)
  have "bit (prepare_masking_key key) (8 * (i mod 8) + m) = bit key (8 * (i mod 4) + m)"
    using d m by (auto simp: prepare_masking_key_def bit_simps dest: bit_imp_le_length)
  then show "bit (keystream (prepare_masking_key key) i) m = bit (uint32_c key ! (i mod 4)) m"
    using m by (simp add: bit_keystream uint32_c_def bit_le_bytes)
qed

lemma bit_circshift:
  assumes "off < 8" and "p < 64"
  shows "bit (circshift_prepared_key k off) p =
           bit k (if p + 8 * off < 64 then p + 8 * off else p + 8 * off - 64)"
proof (cases "off = 0")
  case True
  then show ?thesis using assms by (simp add: circshift_prepared_key_def)
next
  case False
  have "bit (circshift_prepared_key k off) p \<longleftrightarrow>
      bit k (off * 8 + p) \<or> (8 - off) * 8 \<le> p \<and> bit k (p - (8 - off) * 8)"
    using False assms by (simp add: circshift_prepared_key_def bit_simps)
  moreover have "(8 - off) * 8 \<le> p \<longleftrightarrow> \<not> p + 8 * off < 64" using assms by linarith
  moreover have "p - (8 - off) * 8 = p + 8 * off - 64" using assms(1) by simp
  moreover have "\<not> p + 8 * off < 64 \<Longrightarrow> \<not> bit k (off * 8 + p)"
    using bit_imp_le_length [of k "off * 8 + p"] by auto
  ultimately show ?thesis by (simp add: add.commute mult.commute)
qed

lemma keystream_circshift:
  assumes "off < 8"
  shows "keystream (circshift_prepared_key k off) i = keystream k (off + i)"
proof (rule bit_word_eqI)
  fix m assume "m < LENGTH(8)"
  then have m: "m < 8" by simp
  define j where "j = i mod 8"
  have j: "j < 8" by (simp add: j_def)
  have "(off + i) mod 8 = (if j + off < 8 then j + off else j + off - 8)"
  proof -
    have "(off + i) mod 8 = (j + off) mod 8" by (simp add: j_def add.commute mod_simps)
    then show ?thesis using j assms by (simp add: mod_if [of "j + off" 8])
  qed
  moreover have "8 * j + m + 8 * off < 64 \<longleftrightarrow> j + off < 8" using m by linarith
  moreover have "\<not> j + off < 8 \<Longrightarrow> 8 * j + m + 8 * off - 64 = 8 * (j + off - 8) + m" by simp
  ultimately show "bit (keystream (circshift_prepared_key k off) i) m = bit (keystream k (off + i)) m"
    using m j assms by (simp add: bit_keystream bit_circshift flip: j_def) (simp add: algebra_simps)
qed

subsection \<open>Every masking routine applies the key stream\<close>

lemma byte_mask_from_keystream:
  "byte_mask_from xs key k = apply_keystream (\<lambda>i. uint32_c key ! ((k + i) mod 4)) xs"
  if "k < 4" for k
  using that
proof (induction xs arbitrary: k)
  case Nil
  then show ?case by (simp add: apply_keystream_def)
next
  case (Cons b bs)
  have "apply_keystream ks (b # bs) = (b XOR ks 0) # apply_keystream (\<lambda>i. ks (Suc i)) bs" for ks
    using apply_keystream_append [of ks "[b]" bs] by (simp add: apply_keystream_def [of _ "[_]"])
  moreover have "(Suc k mod 4 + i) mod 4 = (k + Suc i) mod 4" for i
    by (simp add: mod_simps)
  ultimately show ?case using Cons by simp
qed

lemma byte_mask_keystream:
  "byte_mask xs key off = apply_keystream (\<lambda>i. uint32_c key ! ((off + i) mod 4)) xs"
  by (simp add: byte_mask_def byte_mask_from_keystream mod_simps)

lemma uint64_c_xor: "i < 8 \<Longrightarrow> uint64_c (a XOR b) ! i = uint64_c a ! i XOR uint64_c b ! i"
  by (intro bit_word_eqI) (simp add: uint64_c_def bit_le_bytes bit_simps)

lemma mask_words_keystream:
  "8 * n \<le> length xs \<Longrightarrow> mask_words n xs k = apply_keystream (keystream k) (take (8 * n) xs)"
proof (induction n)
  case 0
  then show ?case by (simp add: mask_words_def apply_keystream_def)
next
  case (Suc n)
  let ?c = "take 8 (drop (8 * n) xs)"
  have len: "length ?c = 8" using Suc.prems by simp
  have split: "take (8 * Suc n) xs = take (8 * n) xs @ ?c"
    by (simp add: take_add [symmetric] add.commute)
  have "uint64_c (uint64_i ?c XOR k) = apply_keystream (keystream k) ?c"
    by (rule nth_equalityI) (use len in \<open>simp_all add: uint64_c_xor keystream_def\<close>)
  moreover have "keystream k (8 * n + i) = keystream k i" for i by (simp add: keystream_def)
  ultimately have "mask_words (Suc n) xs k
      = apply_keystream (keystream k) (take (8 * n) xs)
        @ apply_keystream (\<lambda>i. keystream k (8 * n + i)) ?c"
    using Suc by (simp add: mask_words_def)
  then show ?case
    using Suc.prems by (simp only: split apply_keystream_append) simp
qed

lemma words_then_bytes:
  assumes "\<And>i. 8 * (length xs div 8) \<le> i \<Longrightarrow> i < length xs \<Longrightarrow> ks i = keystream k i"
  shows "mask_words (length xs div 8) xs k
     @ map (\<lambda>i. xs ! i XOR ks i) [8 * (length xs div 8)..<length xs]
     = apply_keystream (keystream k) xs"
proof (rule nth_equalityI)
  have le: "8 * (length xs div 8) \<le> length xs" by simp
  then show "length (mask_words (length xs div 8) xs k
     @ map (\<lambda>i. xs ! i XOR ks i) [8 * (length xs div 8)..<length xs])
     = length (apply_keystream (keystream k) xs)"
    by (simp add: mask_words_keystream)
  fix i assume "i < length (mask_words (length xs div 8) xs k
     @ map (\<lambda>i. xs ! i XOR ks i) [8 * (length xs div 8)..<length xs])"
  with le have "i < length xs" by (simp add: mask_words_keystream)
  then show "(mask_words (length xs div 8) xs k
     @ map (\<lambda>i. xs ! i XOR ks i) [8 * (length xs div 8)..<length xs]) ! i
     = apply_keystream (keystream k) xs ! i"
    using assms [of i] by (auto simp: mask_words_keystream nth_append)
qed

lemma word_mask_exact_keystream:
  "word_mask_exact xs key = apply_keystream (keystream (prepare_masking_key key)) xs"
  by (simp only: word_mask_exact_def Let_def mult.commute [of _ 8])
    (rule words_then_bytes, simp add: keystream_prepare)

lemma word_mask_circ_keystream:
  "word_mask_circ xs k =
     (apply_keystream (keystream k) xs, circshift_prepared_key k (length xs mod 8))"
proof -
  let ?n = "length xs div 8" and ?l = "length xs - length xs div 8 * 8"
  have l: "?l = length xs mod 8" by (simp add: minus_div_mult_eq_mod)
  have s: "length xs - ?l = 8 * ?n" by simp
  have "map (\<lambda>i. xs ! (8 * ?n + i) XOR uint64_c k ! i) [0..<?l] =
      map (\<lambda>i. xs ! i XOR uint64_c k ! (i - 8 * ?n)) [8 * ?n..<length xs]"
    by (rule nth_equalityI) auto
  also have "mask_words ?n xs k @ \<dots> = apply_keystream (keystream k) xs"
  proof (rule words_then_bytes)
    fix i assume "8 * ?n \<le> i" "i < length xs"
    moreover have "length xs < 8 * ?n + 8" by linarith
    ultimately obtain j where "i = 8 * ?n + j" "j < 8" using le_Suc_ex [of "8 * ?n" i] by auto
    then have "i - 8 * ?n = i mod 8" by simp
    then show "uint64_c k ! (i - 8 * ?n) = keystream k i" by (simp add: keystream_def)
  qed
  finally show ?thesis by (simp only: word_mask_circ_def Let_def s, simp only: l)
qed

lemma byte_mask_circ_keystream:
  "byte_mask_circ (xs) (prepare_masking_key key) =
     (apply_keystream (keystream (prepare_masking_key key)) xs,
      circshift_prepared_key (prepare_masking_key key) (length xs mod 4))"
proof -
  have "(ucast (prepare_masking_key key) :: u32) = key"
    by (intro bit_word_eqI) (auto simp: prepare_masking_key_def bit_simps)
  then show ?thesis
    by (simp add: byte_mask_circ_def apply_keystream_def keystream_prepare)
qed

subsection \<open>The contract of a streaming mask\<close>

text \<open>
  What the reader of a frame relies on when it unmasks a payload chunk by chunk, feeding the
  returned key back: on a usable key the routine applies the key's stream and the key it
  returns continues the stream.
\<close>

fun mask_chunks :: "(bytes \<Rightarrow> u64 \<Rightarrow> bytes \<times> u64) \<Rightarrow> bytes list \<Rightarrow> u64 \<Rightarrow> bytes \<times> u64" where
  "mask_chunks mask_chunk [] k = ([], k)"
| "mask_chunks mask_chunk (c # cs) k =
     (let (out, k') = mask_chunk c k; (rest, k'') = mask_chunks mask_chunk cs k'
      in (out @ rest, k''))"

locale stream_mask =
  fixes mask_chunk :: "bytes \<Rightarrow> u64 \<Rightarrow> bytes \<times> u64"
    and usable :: "u64 \<Rightarrow> bool"
  assumes masks: "usable k \<Longrightarrow> fst (mask_chunk xs k) = apply_keystream (keystream k) xs"
    and continues: "usable k \<Longrightarrow> keystream (snd (mask_chunk xs k)) i = keystream k (length xs + i)"
    and stays_usable: "usable k \<Longrightarrow> usable (snd (mask_chunk xs k))"
begin

lemma mask_append:
  assumes "usable k"
  shows "mask_chunk (xs @ ys) k =
     (fst (mask_chunk xs k) @ fst (mask_chunk ys (snd (mask_chunk xs k))),
      snd (mask_chunk ys (snd (mask_chunk xs k))))"
proof (rule prod_eqI)
  show "fst (mask_chunk (xs @ ys) k) = fst (fst (mask_chunk xs k)
      @ fst (mask_chunk ys (snd (mask_chunk xs k))), snd (mask_chunk ys (snd (mask_chunk xs k))))"
    using assms continues [OF assms, of xs]
    by (auto simp: masks stays_usable apply_keystream_append intro!: apply_keystream_cong)
  show "snd (mask_chunk (xs @ ys) k) = snd (fst (mask_chunk xs k)
      @ fst (mask_chunk ys (snd (mask_chunk xs k))), snd (mask_chunk ys (snd (mask_chunk xs k))))"
    using assms by (intro keystream_inj) (simp add: continues stays_usable add.assoc)
qed

lemma mask_Nil: "usable k \<Longrightarrow> mask_chunk [] k = ([], k)"
  by (rule prod_eqI)
    (auto simp: masks apply_keystream_def continues intro: keystream_inj)

lemma mask_chunks_concat: "usable k \<Longrightarrow> mask_chunks mask_chunk cs k = mask_chunk (concat cs) k"
proof (induction cs arbitrary: k)
  case (Cons c cs)
  then show ?case
    using stays_usable [of k c] by (simp add: mask_append split_beta)
qed (simp add: mask_Nil)

lemma unmask: "usable k \<Longrightarrow> fst (mask_chunk (fst (mask_chunk xs k)) k) = xs"
  by (simp add: masks)

end

interpretation word_circ: stream_mask word_mask_circ "\<lambda>_. True"
proof
  fix k xs i
  show "keystream (snd (word_mask_circ xs k)) i = keystream k (length xs + i)"
    by (simp add: word_mask_circ_keystream keystream_circshift) (simp add: keystream_def mod_simps)
qed (simp_all add: word_mask_circ_keystream)

lemma keystream_period_4:
  "keystream (prepare_masking_key key) (4 + i) = keystream (prepare_masking_key key) i"
  by (simp add: keystream_prepare)

lemma circshift_prepared:
  assumes "off < 4"
  shows "\<exists>key'. circshift_prepared_key (prepare_masking_key key) off = prepare_masking_key key'"
proof -
  let ?c = "map (\<lambda>i. uint32_c key ! ((off + i) mod 4)) [0..<4]"
  have "circshift_prepared_key (prepare_masking_key key) off = prepare_masking_key (uint32_i ?c)"
    using assms by (intro keystream_inj) (simp add: keystream_circshift keystream_prepare mod_simps)
  then show ?thesis by blast
qed

interpretation byte_circ: stream_mask byte_mask_circ "\<lambda>k. \<exists>key. k = prepare_masking_key key"
proof
  fix k xs i assume "\<exists>key. k = prepare_masking_key key"
  then obtain key where k: "k = prepare_masking_key key" by blast
  show "fst (byte_mask_circ xs k) = apply_keystream (keystream k) xs"
    by (simp add: k byte_mask_circ_keystream)
  show "keystream (snd (byte_mask_circ xs k)) i = keystream k (length xs + i)"
    by (simp add: k byte_mask_circ_keystream keystream_circshift keystream_prepare mod_simps)
  show "\<exists>key. snd (byte_mask_circ xs k) = prepare_masking_key key"
    by (simp add: k byte_mask_circ_keystream circshift_prepared)
qed

subsection \<open>Properties\<close>

text \<open>A header that is built reads back: every flag, the opcode, the payload size and, when
  masked, the masking key.\<close>
theorem header_round_trip:
  "let h = make_basic_header op sz fin True r1 r2 r3; e = make_extended_header_masked sz key;
       g = make_basic_header op sz fin False r1 r2 r3; f = make_extended_header sz
   in get_opcode h = op \<and> get_fin h = fin \<and> get_masked h \<and> get_payload_size h e = sz
      \<and> get_rsv1 h = r1 \<and> get_rsv2 h = r2 \<and> get_rsv3 h = r3 \<and> get_masking_key h e = key
      \<and> get_opcode g = op \<and> get_fin g = fin \<and> \<not> get_masked g \<and> get_payload_size g f = sz
      \<and> get_masking_key g f = 0"
  by (simp add: header_bits Let_def)

text \<open>The bytes written for a header are as many as the reader computes from the first two,
  between 2 and 14.\<close>
theorem header_length:
  "length (prepare_header (make_basic_header op sz fin True r1 r2 r3)
             (make_extended_header_masked sz key))
     = get_header_len (make_basic_header op sz fin True r1 r2 r3)
   \<and> length (prepare_header (make_basic_header op sz fin False r1 r2 r3) (make_extended_header sz))
     = get_header_len (make_basic_header op sz fin False r1 r2 r3)
   \<and> BASIC_HEADER_LENGTH \<le> get_header_len h \<and> get_header_len h \<le> MAX_HEADER_LENGTH"
  using get_header_len_bounds [of h]
  by (simp add: prepare_header_make header_len_make size_consts)

text \<open>The word by word masking routine computes what the byte by byte routine does, on buffers of
  any length, and masking twice with the same key gives the data back.\<close>
theorem word_mask_is_byte_mask:
  "word_mask_exact xs key = byte_mask xs key 0 \<and> byte_mask (byte_mask xs key k) key k = xs"
proof
  show "word_mask_exact xs key = byte_mask xs key 0"
    unfolding word_mask_exact_keystream byte_mask_keystream
    by (rule apply_keystream_cong) (simp add: keystream_prepare)
  show "byte_mask (byte_mask xs key k) key k = xs"
    unfolding byte_mask_keystream by simp
qed

text \<open>Masking a message in any chunks with either circular routine, feeding the returned key to
  the next call, gives the message masked at once byte by byte.\<close>
theorem mask_in_chunks:
  "fst (mask_chunks byte_mask_circ cs (prepare_masking_key key)) = byte_mask (concat cs) key 0
   \<and> fst (mask_chunks word_mask_circ cs (prepare_masking_key key)) = byte_mask (concat cs) key 0"
proof -
  let ?k = "prepare_masking_key key"
  have k: "\<exists>key'. ?k = prepare_masking_key key'" by blast
  have "apply_keystream (keystream ?k) (concat cs) = byte_mask (concat cs) key 0"
    unfolding byte_mask_keystream by (rule apply_keystream_cong) (simp add: keystream_prepare)
  then show ?thesis
    using byte_circ.mask_chunks_concat [OF k, of cs] byte_circ.masks [OF k, of "concat cs"]
      word_circ.mask_chunks_concat [of cs ?k] word_circ.masks [of "concat cs" ?k] by simp
qed

end
