(* ===== verification/Errors.thy ===== *)
theory Errors
  imports Prelude
begin

text \<open>
  Error codes. \<open>websocketpp/error.hpp\<close> (constructors \<open>E_\<close>) and the processor errors of
  \<open>websocketpp/processors/base.hpp\<close> (constructors \<open>P_\<close>), the transport errors the connection
  tests for (\<open>T_\<close>), the errors of the disabled compression extension (\<open>X_\<close>) and those of
  \<open>permessage_deflate/enabled.hpp\<close> (\<open>D_\<close>), of the Asio transport (\<open>A_\<close>) and of its sockets
  (\<open>S_\<close>). A system error carries its message, which is the platform's. A
  \<open>lib::error_code\<close> is an option: \<open>None\<close> is the default-constructed code, no error.
\<close>

datatype ws_error =
    E_general | E_send_queue_full | E_payload_violation | E_endpoint_not_secure
  | E_endpoint_unavailable | E_invalid_uri | E_no_outgoing_buffers
  | E_no_incoming_buffers | E_invalid_state | E_bad_close_code | E_reserved_close_code
  | E_invalid_close_code | E_invalid_utf8 | E_invalid_subprotocol | E_bad_connection
  | E_test | E_con_creation_failed | E_unrequested_subprotocol | E_client_only
  | E_server_only | E_http_connection_ended | E_open_handshake_timeout
  | E_close_handshake_timeout | E_invalid_port | E_async_accept_not_listening
  | E_operation_canceled | E_rejected | E_upgrade_required | E_invalid_version
  | E_unsupported_version | E_http_parse_error | E_extension_neg_failed

datatype processor_error =
    P_general | P_bad_request | P_protocol_violation | P_message_too_big
  | P_invalid_payload | P_invalid_arguments | P_invalid_opcode | P_control_too_big
  | P_invalid_rsv_bit | P_fragmented_control | P_invalid_continuation
  | P_masking_required | P_masking_forbidden | P_non_minimal_encoding | P_requires_64bit
  | P_invalid_utf8 | P_not_implemented | P_invalid_http_method | P_invalid_http_version
  | P_invalid_http_status | P_missing_required_header | P_sha1_library
  | P_no_protocol_support | P_reserved_close_code | P_invalid_close_code
  | P_reason_requires_code | P_subprotocol_parse_error | P_extension_parse_error
  | P_extensions_disabled | P_short_key3

datatype transport_error =
    T_general | T_pass_through | T_invalid_num_bytes | T_double_read | T_operation_aborted
  | T_operation_not_supported | T_eof | T_tls_short_read | T_timeout | T_action_after_shutdown
  | T_tls_error

datatype extension_error = X_general | X_disabled

datatype deflate_error =
    D_general | D_invalid_attributes | D_invalid_attribute_value | D_invalid_mode
  | D_unsupported_attributes | D_invalid_max_window_bits | D_zlib_error | D_uninitialized

datatype asio_error =
    A_general | A_invalid_num_bytes | A_pass_through | A_proxy_failed | A_proxy_invalid
  | A_invalid_host_service

datatype socket_error =
    S_security | S_socket | S_invalid_state | S_invalid_tls_context | S_tls_handshake_timeout
  | S_pass_through | S_missing_tls_init_handler | S_tls_handshake_failed | S_tls_failed_sni_hostname

datatype system_error = Eof | Operation_aborted | Not_connected | Operation_not_supported | Other_error int

datatype error_code =
    WsError ws_error
  | ProcError processor_error
  | TransportError transport_error
  | ExtensionError extension_error
  | DeflateError deflate_error
  | AsioError asio_error
  | SocketError socket_error
  | SystemError system_error string

fun error_message :: "ws_error \<Rightarrow> string" where
  "error_message E_general = ''Generic error''"
| "error_message E_send_queue_full = ''send queue full''"
| "error_message E_payload_violation = ''payload violation''"
| "error_message E_endpoint_not_secure = ''endpoint not secure''"
| "error_message E_endpoint_unavailable = ''endpoint not available''"
| "error_message E_invalid_uri = ''invalid uri''"
| "error_message E_no_outgoing_buffers = ''no outgoing message buffers''"
| "error_message E_no_incoming_buffers = ''no incoming message buffers''"
| "error_message E_invalid_state = ''invalid state''"
| "error_message E_bad_close_code = ''Unable to extract close code''"
| "error_message E_reserved_close_code = ''Extracted close code is in a reserved range''"
| "error_message E_invalid_close_code = ''Extracted close code is in an invalid range''"
| "error_message E_invalid_utf8 = ''Invalid UTF-8''"
| "error_message E_invalid_subprotocol = ''Invalid subprotocol''"
| "error_message E_bad_connection = ''Bad Connection''"
| "error_message E_test = ''Test Error''"
| "error_message E_con_creation_failed = ''Connection creation attempt failed''"
| "error_message E_unrequested_subprotocol = ''Selected subprotocol was not requested by the client''"
| "error_message E_client_only = ''Feature not available on server endpoints''"
| "error_message E_server_only = ''Feature not available on client endpoints''"
| "error_message E_http_connection_ended = ''HTTP connection ended''"
| "error_message E_open_handshake_timeout = ''The opening handshake timed out''"
| "error_message E_close_handshake_timeout = ''The closing handshake timed out''"
| "error_message E_invalid_port = ''Invalid URI port''"
| "error_message E_async_accept_not_listening = ''Async Accept not listening''"
| "error_message E_operation_canceled = ''Operation canceled''"
| "error_message E_rejected = ''Connection rejected''"
| "error_message E_upgrade_required = ''Upgrade required''"
| "error_message E_invalid_version = ''Invalid version''"
| "error_message E_unsupported_version = ''Unsupported version''"
| "error_message E_http_parse_error = ''HTTP parse error''"
| "error_message E_extension_neg_failed = ''Extension negotiation failed''"

fun processor_message :: "processor_error \<Rightarrow> string" where
  "processor_message P_general = ''Generic processor error''"
| "processor_message P_bad_request = ''invalid user input''"
| "processor_message P_protocol_violation = ''Generic protocol violation''"
| "processor_message P_message_too_big = ''A message was too large''"
| "processor_message P_invalid_payload = ''A payload contained invalid data''"
| "processor_message P_invalid_arguments = ''invalid function arguments''"
| "processor_message P_invalid_opcode = ''invalid opcode''"
| "processor_message P_control_too_big = ''Control messages are limited to fewer than 125 characters''"
| "processor_message P_invalid_rsv_bit = ''Invalid use of reserved bits''"
| "processor_message P_fragmented_control = ''Control messages cannot be fragmented''"
| "processor_message P_invalid_continuation = ''Invalid message continuation''"
| "processor_message P_masking_required = ''Clients may not send unmasked frames''"
| "processor_message P_masking_forbidden = ''Servers may not send masked frames''"
| "processor_message P_non_minimal_encoding = ''Payload length was not minimally encoded''"
| "processor_message P_requires_64bit = ''64 bit frames are not supported on 32 bit systems''"
| "processor_message P_invalid_utf8 = ''Invalid UTF8 encoding''"
| "processor_message P_not_implemented = ''Operation required not implemented functionality''"
| "processor_message P_invalid_http_method = ''Invalid HTTP method.''"
| "processor_message P_invalid_http_version = ''Invalid HTTP version.''"
| "processor_message P_invalid_http_status = ''Invalid HTTP status.''"
| "processor_message P_missing_required_header = ''A required HTTP header is missing''"
| "processor_message P_sha1_library = ''SHA-1 library error''"
| "processor_message P_no_protocol_support = ''The WebSocket protocol version in use does not support this feature''"
| "processor_message P_reserved_close_code = ''Reserved close code used''"
| "processor_message P_invalid_close_code = ''Invalid close code used''"
| "processor_message P_reason_requires_code = ''Using a close reason requires a valid close code''"
| "processor_message P_subprotocol_parse_error = ''Error parsing subprotocol header''"
| "processor_message P_extension_parse_error = ''Error parsing extension header''"
| "processor_message P_extensions_disabled = ''Extensions are disabled''"
| "processor_message P_short_key3 = ''Short Hybi00 Key 3 read''"

fun transport_message :: "transport_error \<Rightarrow> string" where
  "transport_message T_general = ''Generic transport policy error''"
| "transport_message T_pass_through = ''Underlying Transport Error''"
| "transport_message T_invalid_num_bytes = ''async_read_at_least call requested more bytes than buffer can store''"
| "transport_message T_double_read = ''Unknown''"
| "transport_message T_operation_aborted = ''The operation was aborted''"
| "transport_message T_operation_not_supported = ''The operation is not supported by this transport''"
| "transport_message T_eof = ''End of File''"
| "transport_message T_tls_short_read = ''TLS Short Read''"
| "transport_message T_timeout = ''Timer Expired''"
| "transport_message T_action_after_shutdown = ''A transport action was requested after shutdown''"
| "transport_message T_tls_error = ''Generic TLS related error''"

fun extension_message :: "extension_error \<Rightarrow> string" where
  "extension_message X_general = ''Generic extension error''"
| "extension_message X_disabled = ''Use of methods from disabled extension''"

fun deflate_message :: "deflate_error \<Rightarrow> string" where
  "deflate_message D_general = ''Generic permessage-compress error''"
| "deflate_message D_invalid_attributes = ''Invalid extension attributes''"
| "deflate_message D_invalid_attribute_value = ''Invalid extension attribute value''"
| "deflate_message D_invalid_mode = ''Invalid permessage-deflate negotiation mode''"
| "deflate_message D_unsupported_attributes = ''Unsupported extension attributes''"
| "deflate_message D_invalid_max_window_bits = ''Invalid value for max_window_bits''"
| "deflate_message D_zlib_error = ''A zlib function returned an error''"
| "deflate_message D_uninitialized = ''Deflate extension must be initialized before use''"

fun asio_message :: "asio_error \<Rightarrow> string" where
  "asio_message A_general = ''Generic asio transport policy error''"
| "asio_message A_invalid_num_bytes = ''async_read_at_least call requested more bytes than buffer can store''"
| "asio_message A_pass_through = ''Underlying Transport Error''"
| "asio_message A_proxy_failed = ''Proxy connection failed''"
| "asio_message A_proxy_invalid = ''Invalid proxy URI''"
| "asio_message A_invalid_host_service = ''Invalid host or service''"

fun socket_message :: "socket_error \<Rightarrow> string" where
  "socket_message S_security = ''Security policy error''"
| "socket_message S_socket = ''Socket component error''"
| "socket_message S_invalid_state = ''Invalid state''"
| "socket_message S_invalid_tls_context = ''Invalid or empty TLS context supplied''"
| "socket_message S_tls_handshake_timeout = ''TLS handshake timed out''"
| "socket_message S_pass_through = ''Pass through from socket policy''"
| "socket_message S_missing_tls_init_handler = ''Required tls_init handler not present.''"
| "socket_message S_tls_handshake_failed = ''TLS handshake failed''"
| "socket_message S_tls_failed_sni_hostname = ''Failed to set TLS SNI hostname''"

text \<open>\<open>lib::error_code::message\<close> asks the category of the code.\<close>

fun code_message :: "error_code \<Rightarrow> string" where
  "code_message (WsError e) = error_message e"
| "code_message (ProcError e) = processor_message e"
| "code_message (TransportError e) = transport_message e"
| "code_message (ExtensionError e) = extension_message e"
| "code_message (DeflateError e) = deflate_message e"
| "code_message (AsioError e) = asio_message e"
| "code_message (SocketError e) = socket_message e"
| "code_message (SystemError e msg) = msg"

end
