(* ===== verification/Message.thy ===== *)
theory Message
  imports Frame Errors
begin

text \<open>
  Message buffers (\<open>websocketpp/message_buffer/message.hpp\<close>, \<open>alloc.hpp\<close>) and the interface of
  the permessage-compress extension the processors are templates over. A
  \<open>message::ptr\<close> is an option, \<open>None\<close> the null pointer; the weak pointer back to the manager is
  not modelled, the manager's \<open>get_message\<close> is \<open>get_message\<close> and \<open>get_message_op\<close> here and its
  \<open>recycle\<close> is the constant refusal of \<open>alloc.hpp\<close>.
\<close>

record message =
  m_header :: bytes
  m_extension_data :: bytes
  m_payload :: bytes
  m_opcode :: opcode
  m_prepared :: bool
  m_fin :: bool
  m_terminal :: bool
  m_compressed :: bool

type_synonym message_ptr = "message option"

text \<open>The first constructor does not initialise \<open>m_opcode\<close>: its value is an argument here.\<close>

definition empty_message :: "opcode \<Rightarrow> message" where
  "empty_message indeterminate =
     \<lparr>m_header = [], m_extension_data = [], m_payload = [], m_opcode = indeterminate,
      m_prepared = False, m_fin = True, m_terminal = False, m_compressed = False\<rparr>"

definition new_message :: "opcode \<Rightarrow> u64 \<Rightarrow> message" where
  "new_message op sz =
     \<lparr>m_header = [], m_extension_data = [], m_payload = [], m_opcode = op,
      m_prepared = False, m_fin = True, m_terminal = False, m_compressed = False\<rparr>"

definition set_prepared :: "bool \<Rightarrow> message \<Rightarrow> message" where
  "set_prepared v m = m\<lparr>m_prepared := v\<rparr>"

definition set_compressed :: "bool \<Rightarrow> message \<Rightarrow> message" where
  "set_compressed v m = m\<lparr>m_compressed := v\<rparr>"

definition set_terminal :: "bool \<Rightarrow> message \<Rightarrow> message" where
  "set_terminal v m = m\<lparr>m_terminal := v\<rparr>"

definition set_msg_fin :: "bool \<Rightarrow> message \<Rightarrow> message" where
  "set_msg_fin v m = m\<lparr>m_fin := v\<rparr>"

definition set_opcode :: "opcode \<Rightarrow> message \<Rightarrow> message" where
  "set_opcode op m = m\<lparr>m_opcode := op\<rparr>"

definition set_header :: "bytes \<Rightarrow> message \<Rightarrow> message" where
  "set_header h m = m\<lparr>m_header := h\<rparr>"

definition set_payload :: "bytes \<Rightarrow> message \<Rightarrow> message" where
  "set_payload p m = m\<lparr>m_payload := p\<rparr>"

definition append_payload :: "bytes \<Rightarrow> message \<Rightarrow> message" where
  "append_payload p m = m\<lparr>m_payload := m_payload m @ p\<rparr>"

lemmas message_setters =
  set_prepared_def set_compressed_def set_terminal_def set_msg_fin_def set_opcode_def
  set_header_def set_payload_def append_payload_def

text \<open>\<open>alloc::con_msg_manager\<close>: each request allocates, recycling is refused.\<close>

definition get_message :: "opcode \<Rightarrow> message_ptr" where
  "get_message indeterminate = Some (empty_message indeterminate)"

definition get_message_op :: "opcode \<Rightarrow> u64 \<Rightarrow> message_ptr" where
  "get_message_op op sz = Some (new_message op sz)"

definition recycle :: "message \<Rightarrow> bool" where
  "recycle m = False"

subsection \<open>The compression extension\<close>

text \<open>
  The processors call three operations of the extension object: whether it is enabled,
  decompressing a buffer onto the end of an output string, and compressing one. The object's
  state is the type variable; the enabled variant is a binding to zlib and stays a parameter,
  the disabled one (\<open>extensions/permessage_deflate/disabled.hpp\<close>) is the instance below.
\<close>

record 'd extension =
  ext_is_enabled :: "'d \<Rightarrow> bool"
  ext_decompress :: "'d \<Rightarrow> bytes \<Rightarrow> bytes \<Rightarrow> 'd \<times> bytes \<times> error_code option"
  ext_compress :: "'d \<Rightarrow> bytes \<Rightarrow> bytes \<Rightarrow> 'd \<times> bytes \<times> error_code option"

definition disabled_extension :: "unit extension" where
  "disabled_extension =
     \<lparr>ext_is_enabled = (\<lambda>_. False),
      ext_decompress = (\<lambda>d buf out. (d, out, Some (ExtensionError X_disabled))),
      ext_compress = (\<lambda>d i out. (d, out, Some (ExtensionError X_disabled)))\<rparr>"

lemma disabled_not_enabled [simp]: "\<not> ext_is_enabled disabled_extension d"
  by (simp add: disabled_extension_def)

end
