(* ===== verification/Utf8.thy ===== *)
theory Utf8
  imports Prelude
begin

text \<open>
  The streaming UTF-8 validator of \<open>websocketpp/utf8_validator.hpp\<close>: the table-driven
  decoder, the validator object and its operations, an independent specification of
  well-formed UTF-8 (a concatenation of encodings of Unicode scalar values, RFC 3629), and
  the proof that the table accepts exactly that.
\<close>

subsection \<open>The code\<close>

definition utf8_accept :: u32 where "utf8_accept = 0"
definition utf8_reject :: u32 where "utf8_reject = 1"

definition utf8d :: "u8 list" where
  "utf8d = [
    0,0,0,0,0,0,0,0,0,0,0,0,0,0,0,0,0,0,0,0,0,0,0,0,0,0,0,0,0,0,0,0,
    0,0,0,0,0,0,0,0,0,0,0,0,0,0,0,0,0,0,0,0,0,0,0,0,0,0,0,0,0,0,0,0,
    0,0,0,0,0,0,0,0,0,0,0,0,0,0,0,0,0,0,0,0,0,0,0,0,0,0,0,0,0,0,0,0,
    0,0,0,0,0,0,0,0,0,0,0,0,0,0,0,0,0,0,0,0,0,0,0,0,0,0,0,0,0,0,0,0,
    1,1,1,1,1,1,1,1,1,1,1,1,1,1,1,1,9,9,9,9,9,9,9,9,9,9,9,9,9,9,9,9,
    7,7,7,7,7,7,7,7,7,7,7,7,7,7,7,7,7,7,7,7,7,7,7,7,7,7,7,7,7,7,7,7,
    8,8,2,2,2,2,2,2,2,2,2,2,2,2,2,2,2,2,2,2,2,2,2,2,2,2,2,2,2,2,2,2,
    10,3,3,3,3,3,3,3,3,3,3,3,3,4,3,3,
    11,6,6,6,5,8,8,8,8,8,8,8,8,8,8,8,
    0,1,2,3,5,8,7,1,1,1,4,6,1,1,1,1,
    1,1,1,1,1,1,1,1,1,1,1,1,1,1,1,1,1,0,1,1,1,1,1,0,1,0,1,1,1,1,1,1,
    1,2,1,1,1,1,1,2,1,2,1,1,1,1,1,1,1,1,1,1,1,1,1,2,1,1,1,1,1,1,1,1,
    1,2,1,1,1,1,1,1,1,2,1,1,1,1,1,1,1,1,1,1,1,1,1,3,1,3,1,1,1,1,1,1,
    1,3,1,1,1,1,1,3,1,3,1,1,1,1,1,1,1,3,1,1,1,1,1,1,1,1,1,1,1,1,1,1
  ]"

record validator =
  v_state :: u32
  v_codepoint :: u32

definition new_validator :: validator where
  "new_validator = \<lparr>v_state = utf8_accept, v_codepoint = 0\<rparr>"

definition utf8_type :: "u8 \<Rightarrow> u32" where
  "utf8_type b = ucast (utf8d ! unat b)"

definition decode_byte :: "validator \<Rightarrow> u8 \<Rightarrow> validator \<times> u32" where
  "decode_byte v b =
     (let ty = utf8_type b;
          cp = (if v_state v \<noteq> utf8_accept
                then (ucast b AND 0x3f) OR push_bit 6 (v_codepoint v)
                else drop_bit (unat ty) 0xff AND ucast b);
          st = ucast (utf8d ! unat (256 + v_state v * 16 + ty))
      in (\<lparr>v_state = st, v_codepoint = cp\<rparr>, st))"

definition validator_consume :: "validator \<Rightarrow> u8 \<Rightarrow> validator \<times> bool" where
  "validator_consume v b =
     (let (v', r) = decode_byte v b in (v', r \<noteq> utf8_reject))"

fun validator_decode :: "validator \<Rightarrow> bytes \<Rightarrow> validator \<times> bool" where
  "validator_decode v [] = (v, True)"
| "validator_decode v (b # bs) =
     (let (v', result) = decode_byte v b
      in if result = utf8_reject then (v', False) else validator_decode v' bs)"

definition validator_complete :: "validator \<Rightarrow> bool" where
  "validator_complete v = (v_state v = utf8_accept)"

definition validator_reset :: "validator \<Rightarrow> validator" where
  "validator_reset v = v\<lparr>v_state := utf8_accept, v_codepoint := 0\<rparr>"

definition validate :: "bytes \<Rightarrow> bool" where
  "validate s =
     (let (v, ok) = validator_decode new_validator s
      in if \<not> ok then False else validator_complete v)"

subsection \<open>Well-formed UTF-8\<close>

definition is_scalar :: "nat \<Rightarrow> bool" where
  "is_scalar c \<longleftrightarrow> c < 0xD800 \<or> 0xDFFF < c \<and> c \<le> 0x10FFFF"

definition utf8_encode :: "nat \<Rightarrow> bytes" where
  "utf8_encode c =
     map of_nat
       (if c < 0x80 then [c]
        else if c < 0x800 then [0xC0 + c div 64, 0x80 + c mod 64]
        else if c < 0x10000 then [0xE0 + c div 4096, 0x80 + c div 64 mod 64, 0x80 + c mod 64]
        else [0xF0 + c div 262144, 0x80 + c div 4096 mod 64, 0x80 + c div 64 mod 64,
              0x80 + c mod 64])"

definition utf8_well_formed :: "bytes \<Rightarrow> bool" where
  "utf8_well_formed s \<longleftrightarrow>
     (\<exists>cps. (\<forall>c\<in>set cps. is_scalar c) \<and> s = concat (map utf8_encode cps))"

subsection \<open>The table read as ranges of bytes and a transition function\<close>

definition byte_class :: "nat \<Rightarrow> nat" where
  "byte_class b =
     (if b < 0x80 then 0 else if b < 0x90 then 1 else if b < 0xA0 then 9
      else if b < 0xC0 then 7 else if b < 0xC2 then 8 else if b < 0xE0 then 2
      else if b = 0xE0 then 10 else if b = 0xED then 4 else if b < 0xF0 then 3
      else if b = 0xF0 then 11 else if b < 0xF4 then 6 else if b = 0xF4 then 5 else 8)"

definition cont :: "nat \<Rightarrow> bool" where
  "cont b \<longleftrightarrow> 0x80 \<le> b \<and> b < 0xC0"

definition cstep :: "nat \<Rightarrow> nat \<Rightarrow> nat" where
  "cstep s k =
     (if s = 0 then [0, 1, 2, 3, 5, 8, 7, 1, 1, 1, 4, 6] ! k
      else if s = 2 \<and> k \<in> {1, 7, 9} then 0
      else if s = 3 \<and> k \<in> {1, 7, 9} then 2
      else if s = 4 \<and> k = 7 then 2
      else if s = 5 \<and> k \<in> {1, 9} then 2
      else if s = 6 \<and> k \<in> {7, 9} then 3
      else if s = 7 \<and> k \<in> {1, 7, 9} then 3
      else if s = 8 \<and> k = 1 then 3
      else 1)"

lemma length_utf8d [simp]: "length utf8d = 400"
  by (simp add: utf8d_def)

lemma utf8d_blocks:
  "utf8d =
     replicate 128 0 @ replicate 16 1 @ replicate 16 9 @ replicate 32 7 @ replicate 2 8
     @ replicate 30 2 @ [10] @ replicate 12 3 @ [4, 3, 3] @ [11, 6, 6, 6, 5] @ replicate 11 8
     @ drop 256 utf8d"
  by (simp add: utf8d_def numeral_eq_Suc)

lemma nth_utf8d_tail:
  "list_all (\<lambda>b. unat (utf8d ! b) = byte_class b) [224..<256]"
  by (simp add: utf8d_def byte_class_def upt_rec)

lemma nth_utf8d_class:
  assumes "b < 256"
  shows "unat (utf8d ! b) = byte_class b"
proof -
  consider "b < 128" | "128 \<le> b" "b < 144" | "144 \<le> b" "b < 160" | "160 \<le> b" "b < 192"
    | "192 \<le> b" "b < 194" | "194 \<le> b" "b < 224" | "b \<in> set [224..<256]"
    using assms by (metis atLeastLessThan_iff atLeastLessThan_upt not_less)
  then show ?thesis
  proof cases
    case 7
    then show ?thesis using nth_utf8d_tail unfolding list_all_iff by blast
  qed (subst utf8d_blocks, auto simp: nth_append byte_class_def)+
qed

lemma utf8d_transitions:
  "list_all (\<lambda>s. list_all (\<lambda>k. unat (utf8d ! (256 + s * 16 + k)) = cstep s k) [0..<12]) [0..<9]"
  by (simp add: utf8d_def cstep_def upt_rec)

lemma utf8_type_class: "unat (utf8_type b) = byte_class (unat b)"
  by (simp add: utf8_type_def nth_utf8d_class)

lemma byte_class_bound: "byte_class b < 12"
  by (simp add: byte_class_def)

lemma decode_byte_state:
  assumes "unat (v_state v) < 9"
  shows "unat (v_state (fst (decode_byte v b))) = cstep (unat (v_state v)) (byte_class (unat b))"
    and "snd (decode_byte v b) = v_state (fst (decode_byte v b))"
proof -
  let ?s = "unat (v_state v)" and ?k = "byte_class (unat b)"
  have k: "?k < 12" by (rule byte_class_bound)
  have "256 + v_state v * 16 + utf8_type b = of_nat (256 + ?s * 16 + ?k)"
    by (simp flip: utf8_type_class)
  moreover have "256 + ?s * 16 + ?k < 2 ^ 32" using assms k by simp
  ultimately have idx: "unat (256 + v_state v * 16 + utf8_type b) = 256 + ?s * 16 + ?k"
    by (simp only: u32_of_nat_inj)
  have "unat (utf8d ! (256 + ?s * 16 + ?k)) = cstep ?s ?k"
    using utf8d_transitions assms k by (simp add: list_all_iff)
  with idx show "unat (v_state (fst (decode_byte v b))) = cstep ?s ?k"
    by (simp add: decode_byte_def Let_def)
  show "snd (decode_byte v b) = v_state (fst (decode_byte v b))"
    by (simp add: decode_byte_def Let_def)
qed

lemma cstep_bound: "k < 12 \<Longrightarrow> cstep s k < 9"
  by (auto simp: cstep_def numeral_eq_Suc less_Suc_eq nth_Cons')

subsection \<open>The automaton accepts exactly the well-formed sequences\<close>

fun accepts :: "nat \<Rightarrow> bytes \<Rightarrow> bool" where
  "accepts s [] \<longleftrightarrow> s = 0"
| "accepts s (b # bs) \<longleftrightarrow>
     cstep s (byte_class (unat b)) \<noteq> 1 \<and> accepts (cstep s (byte_class (unat b))) bs"

lemma u32_eq_numeral_iff: "(w :: u32) = 0 \<longleftrightarrow> unat w = 0" "w = 1 \<longleftrightarrow> unat w = 1"
  by (simp_all add: word_unat_eq_iff)

lemma validator_decode_accepts:
  "unat (v_state v) < 9 \<Longrightarrow>
     (snd (validator_decode v bs) \<and> validator_complete (fst (validator_decode v bs)))
     = accepts (unat (v_state v)) bs"
proof (induction bs arbitrary: v)
  case Nil
  then show ?case by (simp add: validator_complete_def utf8_accept_def u32_eq_numeral_iff)
next
  case (Cons b bs)
  obtain v' r where d: "decode_byte v b = (v', r)" by fastforce
  with decode_byte_state [OF Cons.prems, of b]
  have s: "unat (v_state v') = cstep (unat (v_state v)) (byte_class (unat b))" "r = v_state v'"
    by simp_all
  then have "unat (v_state v') < 9" by (simp add: cstep_bound byte_class_bound)
  from Cons.IH [OF this] s d show ?case
    by (auto simp: utf8_reject_def u32_eq_numeral_iff)
qed

lemma validate_accepts: "validate s = accepts 0 s"
  using validator_decode_accepts [of new_validator s]
  by (auto simp: validate_def new_validator_def utf8_accept_def split: prod.splits)

lemma cstep_lead:
  "b < 128 \<Longrightarrow> cstep 0 (byte_class b) = 0"
  "194 \<le> b \<Longrightarrow> b < 224 \<Longrightarrow> cstep 0 (byte_class b) = 2"
  "cstep 0 (byte_class 224) = 4" "cstep 0 (byte_class 237) = 5"
  "225 \<le> b \<Longrightarrow> b < 240 \<Longrightarrow> b \<noteq> 237 \<Longrightarrow> cstep 0 (byte_class b) = 3"
  "cstep 0 (byte_class 240) = 6" "cstep 0 (byte_class 244) = 8"
  "241 \<le> b \<Longrightarrow> b < 244 \<Longrightarrow> cstep 0 (byte_class b) = 7"
  by (simp_all add: cstep_def byte_class_def)

lemma cstep_tail:
  "128 \<le> b \<Longrightarrow> b < 192 \<Longrightarrow> cstep 2 (byte_class b) = 0"
  "128 \<le> b \<Longrightarrow> b < 192 \<Longrightarrow> cstep 3 (byte_class b) = 2"
  "160 \<le> b \<Longrightarrow> b < 192 \<Longrightarrow> cstep 4 (byte_class b) = 2"
  "128 \<le> b \<Longrightarrow> b < 160 \<Longrightarrow> cstep 5 (byte_class b) = 2"
  "144 \<le> b \<Longrightarrow> b < 192 \<Longrightarrow> cstep 6 (byte_class b) = 3"
  "128 \<le> b \<Longrightarrow> b < 192 \<Longrightarrow> cstep 7 (byte_class b) = 3"
  "128 \<le> b \<Longrightarrow> b < 144 \<Longrightarrow> cstep 8 (byte_class b) = 3"
  by (simp_all add: cstep_def byte_class_def)

lemmas encode_simps = utf8_encode_def u8_of_nat_inj cstep_lead cstep_tail

lemma accepts_encode:
  assumes "is_scalar c"
  shows "accepts 0 (utf8_encode c @ bs) = accepts 0 bs"
proof -
  have m: "c mod 64 < 64" "c div 64 mod 64 < 64" "c div 4096 mod 64 < 64" by simp_all
  consider "c < 0x80" | "0x80 \<le> c" "c < 0x800" | "0x800 \<le> c" "c < 0x10000"
    | "0x10000 \<le> c" "c \<le> 0x10FFFF"
    using assms unfolding is_scalar_def by linarith
  then show ?thesis
  proof cases
    case 1
    then show ?thesis by (simp add: encode_simps)
  next
    case 2
    then have "c div 64 < 32" "2 \<le> c div 64" by auto
    with 2 m show ?thesis by (simp add: encode_simps del: of_nat_add)
  next
    case 3
    then have d: "c div 4096 < 16" by auto
    consider "c div 4096 = 0" "32 \<le> c div 64 mod 64" | "c div 4096 = 13" "c div 64 mod 64 < 32"
      | "1 \<le> c div 4096" "c div 4096 \<noteq> 13"
    proof -
      have "c div 64 = 64 * (c div 4096) + c div 64 mod 64"
        by (simp add: div_mult2_eq [of c 64 64, simplified])
      moreover have "32 \<le> c div 64" using 3 by linarith
      moreover have "c div 64 < 864 \<or> 896 \<le> c div 64"
        using assms unfolding is_scalar_def by linarith
      ultimately show ?thesis using that m(2) by linarith
    qed
    then show ?thesis
      by cases (use 3 m d in \<open>simp_all add: encode_simps del: of_nat_add\<close>)
  next
    case 4
    then have d: "c div 262144 < 5" by auto
    consider "c div 262144 = 0" "16 \<le> c div 4096 mod 64"
      | "c div 262144 = 4" "c div 4096 mod 64 < 16"
      | "1 \<le> c div 262144" "c div 262144 < 4"
    proof -
      have "c div 4096 = 64 * (c div 262144) + c div 4096 mod 64"
        by (simp add: div_mult2_eq [of c 4096 64, simplified])
      moreover have "16 \<le> c div 4096" "c div 4096 < 272" using 4 by linarith+
      ultimately show ?thesis using that m(3) d by linarith
    qed
    then show ?thesis
      by cases (use 4 m d in \<open>simp_all add: encode_simps del: of_nat_add\<close>)
  qed
qed

text \<open>Reading the automaton backwards: what a byte must be for the next state to be live.\<close>

lemma byte_class_ranges:
  "byte_class b \<in> {1, 7, 9} \<longleftrightarrow> 128 \<le> b \<and> b < 192"
  "byte_class b = 7 \<longleftrightarrow> 160 \<le> b \<and> b < 192"
  "byte_class b \<in> {1, 9} \<longleftrightarrow> 128 \<le> b \<and> b < 160"
  "byte_class b \<in> {7, 9} \<longleftrightarrow> 144 \<le> b \<and> b < 192"
  "byte_class b = 1 \<longleftrightarrow> 128 \<le> b \<and> b < 144"
  by (simp_all add: byte_class_def)

lemma cstep_live:
  "cstep 2 k \<noteq> 1 \<longleftrightarrow> k \<in> {1, 7, 9}" "cstep 3 k \<noteq> 1 \<longleftrightarrow> k \<in> {1, 7, 9}"
  "cstep 4 k \<noteq> 1 \<longleftrightarrow> k = 7" "cstep 5 k \<noteq> 1 \<longleftrightarrow> k \<in> {1, 9}"
  "cstep 6 k \<noteq> 1 \<longleftrightarrow> k \<in> {7, 9}" "cstep 7 k \<noteq> 1 \<longleftrightarrow> k \<in> {1, 7, 9}"
  "cstep 8 k \<noteq> 1 \<longleftrightarrow> k = 1"
  by (simp_all add: cstep_def)

lemma accepts_live:
  assumes "accepts s bs" and "s \<noteq> 0"
    and "\<And>b. cstep s (byte_class b) \<noteq> 1 \<longleftrightarrow> lo \<le> b \<and> b < hi"
    and "\<And>b. lo \<le> b \<Longrightarrow> b < hi \<Longrightarrow> cstep s (byte_class b) = s'"
  shows "\<exists>b bs'. bs = b # bs' \<and> lo \<le> unat b \<and> unat b < hi \<and> accepts s' bs'"
proof (cases bs)
  case Nil
  then show ?thesis using assms(1,2) by simp
next
  case (Cons b bs')
  then have "cstep s (byte_class (unat b)) \<noteq> 1" and r: "accepts (cstep s (byte_class (unat b))) bs'"
    using assms(1) by simp_all
  then have "lo \<le> unat b \<and> unat b < hi" using assms(3) by metis
  then show ?thesis using Cons r assms(4) [of "unat b"] by auto
qed

lemma accepts_tail_cases:
  "accepts 2 bs \<Longrightarrow> \<exists>b bs'. bs = b # bs' \<and> 128 \<le> unat b \<and> unat b < 192 \<and> accepts 0 bs'"
  "accepts 3 bs \<Longrightarrow> \<exists>b bs'. bs = b # bs' \<and> 128 \<le> unat b \<and> unat b < 192 \<and> accepts 2 bs'"
  "accepts 4 bs \<Longrightarrow> \<exists>b bs'. bs = b # bs' \<and> 160 \<le> unat b \<and> unat b < 192 \<and> accepts 2 bs'"
  "accepts 5 bs \<Longrightarrow> \<exists>b bs'. bs = b # bs' \<and> 128 \<le> unat b \<and> unat b < 160 \<and> accepts 2 bs'"
  "accepts 6 bs \<Longrightarrow> \<exists>b bs'. bs = b # bs' \<and> 144 \<le> unat b \<and> unat b < 192 \<and> accepts 3 bs'"
  "accepts 7 bs \<Longrightarrow> \<exists>b bs'. bs = b # bs' \<and> 128 \<le> unat b \<and> unat b < 192 \<and> accepts 3 bs'"
  "accepts 8 bs \<Longrightarrow> \<exists>b bs'. bs = b # bs' \<and> 128 \<le> unat b \<and> unat b < 144 \<and> accepts 3 bs'"
  by (erule accepts_live, simp, simp only: cstep_live byte_class_ranges, simp only: cstep_tail)+

lemma u8_eqI: "unat (a :: u8) = n \<Longrightarrow> of_nat n = a"
  by auto

text \<open>A character put together again from the payload bits of its bytes.\<close>

lemma utf8_encode_join:
  "2 \<le> x \<Longrightarrow> x < 32 \<Longrightarrow> y < 64 \<Longrightarrow>
     utf8_encode (64 * x + y) = map of_nat [192 + x, 128 + y]"
  "x < 16 \<Longrightarrow> y < 64 \<Longrightarrow> z < 64 \<Longrightarrow> 32 \<le> 64 * x + y \<Longrightarrow>
     utf8_encode (4096 * x + 64 * y + z) = map of_nat [224 + x, 128 + y, 128 + z]"
  "x < 5 \<Longrightarrow> y < 64 \<Longrightarrow> z < 64 \<Longrightarrow> w < 64 \<Longrightarrow> 16 \<le> 64 * x + y \<Longrightarrow>
     utf8_encode (262144 * x + 4096 * y + 64 * z + w)
     = map of_nat [240 + x, 128 + y, 128 + z, 128 + w]"
proof -
  assume "2 \<le> x" "x < 32" "y < 64"
  moreover from this have "(64 * x + y) div 64 = x" "(64 * x + y) mod 64 = y" by simp_all
  ultimately show "utf8_encode (64 * x + y) = map of_nat [192 + x, 128 + y]"
    by (simp add: utf8_encode_def del: of_nat_add)
next
  assume a: "x < 16" "y < 64" "z < 64" "32 \<le> 64 * x + y"
  let ?n = "4096 * x + 64 * y + z"
  have "?n = 64 * (64 * x + y) + z" by simp
  then have q: "?n div 64 = 64 * x + y" "?n mod 64 = z" using a by (simp_all only: div_mult_self4 mod_mult_self4) simp_all
  moreover have "?n div 4096 = x" "(64 * x + y) mod 64 = y" using a by auto
  moreover have "2048 \<le> ?n" "?n < 65536" using a by linarith+
  ultimately show "utf8_encode ?n = map of_nat [224 + x, 128 + y, 128 + z]"
    by (simp add: utf8_encode_def del: of_nat_add)
next
  assume a: "x < 5" "y < 64" "z < 64" "w < 64" "16 \<le> 64 * x + y"
  let ?n = "262144 * x + 4096 * y + 64 * z + w"
  have "?n = 64 * (64 * (64 * x + y) + z) + w" by simp
  then have q: "?n div 64 = 64 * (64 * x + y) + z" "?n mod 64 = w"
    using a by (simp_all only: div_mult_self4 mod_mult_self4) simp_all
  moreover have "(64 * (64 * x + y) + z) mod 64 = z" using a by (simp only: mod_mult_self4) simp
  moreover have "?n div 4096 = 64 * x + y"
  proof -
    have "?n div 4096 = ?n div 64 div 64" by (simp add: div_mult2_eq [of _ 64 64, simplified])
    then show ?thesis using a by (simp add: q)
  qed
  moreover have "(64 * x + y) mod 64 = y" "?n div 262144 = x" using a by auto
  moreover have "65536 \<le> ?n" using a by linarith
  ultimately show "utf8_encode ?n = map of_nat [240 + x, 128 + y, 128 + z, 128 + w]"
    by (simp add: utf8_encode_def del: of_nat_add)
qed

lemma accepts_first:
  assumes "accepts 0 (b # bs)"
  shows "\<exists>c bs'. is_scalar c \<and> b # bs = utf8_encode c @ bs' \<and> accepts 0 bs'"
proof -
  have c: "cstep 0 (byte_class (unat b)) \<noteq> 1" "accepts (cstep 0 (byte_class (unat b))) bs"
    using assms by simp_all
  have "unat b < 128 \<or> 194 \<le> unat b \<and> unat b < 245"
    using c(1) by (auto simp: cstep_def byte_class_def split: if_splits)
  then consider "unat b < 128" | "194 \<le> unat b" "unat b < 224" | "224 \<le> unat b" "unat b < 240"
    | "240 \<le> unat b" "unat b < 245" by linarith
  then show ?thesis
  proof cases
    case 1
    then show ?thesis using c
      by (intro exI [of _ "unat b"] exI [of _ bs]) (simp add: encode_simps is_scalar_def)
  next
    case 2
    then have "accepts 2 bs" using c by (simp add: cstep_lead)
    then obtain d bs' where d: "bs = d # bs'" "128 \<le> unat d" "unat d < 192" "accepts 0 bs'"
      using accepts_tail_cases(1) by blast
    obtain x y where xy: "unat b = 192 + x" "unat d = 128 + y"
      using le_Suc_ex [of 192 "unat b"] le_Suc_ex [of 128 "unat d"] 2 d(2) by fastforce
    then have "utf8_encode (64 * x + y) = [b, d]"
      using 2 d by (simp add: utf8_encode_join u8_eqI del: of_nat_add)
    moreover have "is_scalar (64 * x + y)" using xy 2 d by (simp add: is_scalar_def)
    ultimately show ?thesis
      using d by (intro exI [of _ "64 * x + y"] exI [of _ bs']) simp
  next
    case 3
    have "\<exists>d bs'. bs = d # bs' \<and> 128 \<le> unat d \<and> unat d < 192 \<and> accepts 2 bs'
        \<and> (unat b = 224 \<longrightarrow> 160 \<le> unat d) \<and> (unat b = 237 \<longrightarrow> unat d < 160)"
    proof -
      consider "unat b = 224" | "unat b = 237" | "225 \<le> unat b" "unat b \<noteq> 237" using 3 by linarith
      then show ?thesis
        by cases (use 3 c(2) in \<open>auto simp: cstep_lead dest!: accepts_tail_cases(2,3,4)\<close>)
    qed
    then obtain d e bs' where d: "bs = d # e # bs'" "128 \<le> unat d" "unat d < 192"
      "unat b = 224 \<longrightarrow> 160 \<le> unat d" "unat b = 237 \<longrightarrow> unat d < 160"
      "128 \<le> unat e" "unat e < 192" "accepts 0 bs'"
      using accepts_tail_cases(1) by blast
    obtain x y z where xy: "unat b = 224 + x" "unat d = 128 + y" "unat e = 128 + z"
      using 3(1) d(2,6) by (metis le_Suc_ex)
    then have "utf8_encode (4096 * x + 64 * y + z) = [b, d, e]"
      using 3 d by (subst utf8_encode_join) (auto simp: u8_eqI simp del: of_nat_add)
    moreover have "is_scalar (4096 * x + 64 * y + z)"
    proof -
      have "x < 13 \<or> x = 13 \<or> 13 < x" "x < 16" "y < 64" "z < 64" "x = 13 \<longrightarrow> y < 32"
        using xy 3 d by auto
      then show ?thesis unfolding is_scalar_def by linarith
    qed
    ultimately show ?thesis
      using d by (intro exI [of _ "4096 * x + 64 * y + z"] exI [of _ bs']) simp
  next
    case 4
    have "\<exists>d bs'. bs = d # bs' \<and> 128 \<le> unat d \<and> unat d < 192 \<and> accepts 3 bs'
        \<and> (unat b = 240 \<longrightarrow> 144 \<le> unat d) \<and> (unat b = 244 \<longrightarrow> unat d < 144)"
    proof -
      consider "unat b = 240" | "unat b = 244" | "241 \<le> unat b" "unat b < 244" using 4 by linarith
      then show ?thesis
        by cases (use 4 c(2) in \<open>auto simp: cstep_lead dest!: accepts_tail_cases(5,6,7)\<close>)
    qed
    then obtain d e f bs' where d: "bs = d # e # f # bs'" "128 \<le> unat d" "unat d < 192"
      "unat b = 240 \<longrightarrow> 144 \<le> unat d" "unat b = 244 \<longrightarrow> unat d < 144"
      "128 \<le> unat e" "unat e < 192" "128 \<le> unat f" "unat f < 192" "accepts 0 bs'"
      using accepts_tail_cases(1,2) by blast
    obtain x y z w where xy: "unat b = 240 + x" "unat d = 128 + y" "unat e = 128 + z"
      "unat f = 128 + w"
      using 4(1) d(2,6,8) by (metis le_Suc_ex)
    then have "utf8_encode (262144 * x + 4096 * y + 64 * z + w) = [b, d, e, f]"
      using 4 d by (subst utf8_encode_join) (auto simp: u8_eqI simp del: of_nat_add)
    moreover have "is_scalar (262144 * x + 4096 * y + 64 * z + w)"
    proof -
      have "x < 4 \<or> x = 4" "0 < x \<or> 16 \<le> y" "y < 64" "z < 64" "w < 64" "x = 4 \<longrightarrow> y < 16"
        using xy 4 d by auto
      then show ?thesis unfolding is_scalar_def by linarith
    qed
    ultimately show ?thesis
      using d by (intro exI [of _ "262144 * x + 4096 * y + 64 * z + w"] exI [of _ bs']) simp
  qed
qed

lemma accepts_imp_well_formed: "accepts 0 s \<Longrightarrow> utf8_well_formed s"
proof (induction s rule: length_induct)
  case (1 s)
  show ?case
  proof (cases s)
    case Nil
    then show ?thesis by (auto simp: utf8_well_formed_def intro: exI [of _ "[]"])
  next
    case (Cons b bs)
    with 1 obtain c bs' where c: "is_scalar c" "s = utf8_encode c @ bs'" "accepts 0 bs'"
      using accepts_first by metis
    moreover have "length bs' < length s" using c(2) by (simp add: utf8_encode_def)
    ultimately obtain cps where "\<forall>c\<in>set cps. is_scalar c" "bs' = concat (map utf8_encode cps)"
      using 1(1) unfolding utf8_well_formed_def by blast
    with c show ?thesis
      unfolding utf8_well_formed_def by (intro exI [of _ "c # cps"]) simp
  qed
qed

lemma well_formed_imp_accepts: "utf8_well_formed s \<Longrightarrow> accepts 0 s"
proof -
  have "(\<forall>c\<in>set cps. is_scalar c) \<Longrightarrow> accepts 0 (concat (map utf8_encode cps))" for cps
    by (induction cps) (simp_all add: accepts_encode)
  then show "utf8_well_formed s \<Longrightarrow> accepts 0 s" by (auto simp: utf8_well_formed_def)
qed

lemma accepts_iff_well_formed: "accepts 0 s \<longleftrightarrow> utf8_well_formed s"
  using accepts_imp_well_formed well_formed_imp_accepts by blast

subsection \<open>Streaming\<close>

lemma validator_decode_append:
  "validator_decode v (xs @ ys) =
     (let (v', ok) = validator_decode v xs
      in if ok then validator_decode v' ys else (v', False))"
  by (induction xs arbitrary: v) (auto simp: Let_def split: prod.splits)

lemma validator_decode_bound:
  "unat (v_state v) < 9 \<Longrightarrow> unat (v_state (fst (validator_decode v bs))) < 9"
proof (induction bs arbitrary: v)
  case (Cons b bs)
  then show ?case
    using decode_byte_state(1) [OF Cons.prems, of b]
    by (auto simp: cstep_bound byte_class_bound split: prod.splits)
qed simp

lemma validator_reset_new [simp]: "validator_reset v = new_validator"
  by (simp add: validator_reset_def new_validator_def)

lemma new_validator_bound [simp]: "unat (v_state new_validator) < 9"
  by (simp add: new_validator_def utf8_accept_def)

lemma new_validator_complete [simp]: "validator_complete new_validator"
  by (simp add: new_validator_def validator_complete_def)

subsection \<open>Properties\<close>

text \<open>C6: \<open>validate\<close> accepts exactly the well-formed UTF-8 sequences: concatenations of the
  encodings of Unicode scalar values, so no overlong form, no surrogate and nothing above
  U+10FFFF.\<close>
theorem validate_correct: "validate s \<longleftrightarrow> utf8_well_formed s"
  by (simp add: validate_accepts accepts_iff_well_formed)

text \<open>Whatever bytes a fresh validator has been given, its state is one of the nine of the
  table, and decoding one more byte reads the table inside its bounds.\<close>
theorem table_index_in_bounds:
  "unat (v_state (fst (validator_decode new_validator bs))) < 9
   \<and> unat b < length utf8d
   \<and> unat (256 + v_state (fst (validator_decode new_validator bs)) * 16 + utf8_type b) < length utf8d"
proof -
  let ?v = "v_state (fst (validator_decode new_validator bs))"
  have s: "unat ?v < 9" by (rule validator_decode_bound) simp
  have k: "byte_class (unat b) < 12" by (rule byte_class_bound)
  have "256 + ?v * 16 + utf8_type b = of_nat (256 + unat ?v * 16 + byte_class (unat b))"
    by (simp flip: utf8_type_class)
  then have "unat (256 + ?v * 16 + utf8_type b) = 256 + unat ?v * 16 + byte_class (unat b)"
    using s k by (simp only:) (rule u32_of_nat_inj, simp)
  moreover have "unat b < length utf8d" using unat_u8_bound [of b] unfolding length_utf8d by linarith
  ultimately show ?thesis using s k by simp
qed

text \<open>Feeding a text to the validator in two pieces validates it as a whole: the state left by
  the first piece is all that is needed.\<close>
theorem validate_streaming:
  "utf8_well_formed (xs @ ys) \<longleftrightarrow>
     snd (validator_decode new_validator xs)
     \<and> snd (validator_decode (fst (validator_decode new_validator xs)) ys)
     \<and> validator_complete (fst (validator_decode (fst (validator_decode new_validator xs)) ys))"
  unfolding accepts_iff_well_formed [symmetric] validate_accepts [symmetric]
  by (auto simp: validate_def validator_decode_append Let_def split: prod.splits)

end
