(* ===== verification/CloseStatus.thy ===== *)
theory CloseStatus
  imports Network Errors Utf8
begin

text \<open>
  Close codes (\<open>websocketpp/close.hpp\<close>): the named status values, the classification of a
  code as reserved, invalid or terminal, the extraction of code and reason from the payload of
  a close frame, and \<open>to_ws\<close> of \<open>websocketpp/processors/base.hpp\<close>, which turns a processor
  error into the code to close with. A \<open>lib::error_code\<close> out-parameter is the second
  component of the result.
\<close>

type_synonym close_code = u16

definition blank :: close_code where "blank = 0"
definition omit_handshake :: close_code where "omit_handshake = 1"
definition force_tcp_drop :: close_code where "force_tcp_drop = 2"
definition normal_close :: close_code where "normal_close = 1000"
definition going_away :: close_code where "going_away = 1001"
definition protocol_error :: close_code where "protocol_error = 1002"
definition unsupported_data :: close_code where "unsupported_data = 1003"
definition no_status :: close_code where "no_status = 1005"
definition abnormal_close :: close_code where "abnormal_close = 1006"
definition invalid_payload :: close_code where "invalid_payload = 1007"
definition policy_violation :: close_code where "policy_violation = 1008"
definition message_too_big :: close_code where "message_too_big = 1009"
definition extension_required :: close_code where "extension_required = 1010"
definition internal_endpoint_error :: close_code where "internal_endpoint_error = 1011"
definition service_restart :: close_code where "service_restart = 1012"
definition try_again_later :: close_code where "try_again_later = 1013"
definition bad_gateway :: close_code where "bad_gateway = 1014"
definition tls_handshake :: close_code where "tls_handshake = 1015"
definition subprotocol_error :: close_code where "subprotocol_error = 3000"
definition invalid_subprotocol_data :: close_code where "invalid_subprotocol_data = 3001"
definition rsv_start :: close_code where "rsv_start = 1016"
definition rsv_end :: close_code where "rsv_end = 2999"
definition invalid_low :: close_code where "invalid_low = 999"
definition invalid_high :: close_code where "invalid_high = 5000"

lemmas close_code_defs =
  blank_def omit_handshake_def force_tcp_drop_def normal_close_def going_away_def
  protocol_error_def unsupported_data_def no_status_def abnormal_close_def invalid_payload_def
  policy_violation_def message_too_big_def extension_required_def internal_endpoint_error_def
  service_restart_def try_again_later_def bad_gateway_def tls_handshake_def
  subprotocol_error_def invalid_subprotocol_data_def rsv_start_def rsv_end_def invalid_low_def
  invalid_high_def

definition status_reserved :: "close_code \<Rightarrow> bool" where
  "status_reserved code \<longleftrightarrow> (code \<ge> rsv_start \<and> code \<le> rsv_end) \<or> code = 1004"

definition status_invalid :: "close_code \<Rightarrow> bool" where
  "status_invalid code \<longleftrightarrow>
     code \<le> invalid_low \<or> code \<ge> invalid_high \<or>
     code = no_status \<or> code = abnormal_close \<or> code = tls_handshake"

definition status_terminal :: "close_code \<Rightarrow> bool" where
  "status_terminal code \<longleftrightarrow>
     code = protocol_error \<or> code = invalid_payload \<or>
     code = policy_violation \<or> code = message_too_big \<or> code = internal_endpoint_error"

definition get_string :: "close_code \<Rightarrow> string" where
  "get_string code =
     (if code = normal_close then ''Normal close''
      else if code = going_away then ''Going away''
      else if code = protocol_error then ''Protocol error''
      else if code = unsupported_data then ''Unsupported data''
      else if code = no_status then ''No status set''
      else if code = abnormal_close then ''Abnormal close''
      else if code = invalid_payload then ''Invalid payload''
      else if code = policy_violation then ''Policy violoation''
      else if code = message_too_big then ''Message too big''
      else if code = extension_required then ''Extension required''
      else if code = internal_endpoint_error then ''Internal endpoint error''
      else if code = service_restart then ''Service restart''
      else if code = try_again_later then ''Try again later''
      else if code = bad_gateway then ''Bad gateway''
      else if code = tls_handshake then ''TLS handshake failure''
      else if code = subprotocol_error then ''Generic subprotocol error''
      else if code = invalid_subprotocol_data then ''Invalid subprotocol data''
      else ''Unknown'')"

definition extract_code :: "bytes \<Rightarrow> close_code \<times> error_code option" where
  "extract_code payload =
     (if length payload = 0 then (no_status, None)
      else if length payload = 1 then (protocol_error, Some (WsError E_bad_close_code))
      else
        let code = ntohs (uint16_i [payload ! 0, payload ! 1]);
            ec = (if status_invalid code then Some (WsError E_invalid_close_code) else None);
            ec = (if status_reserved code then Some (WsError E_reserved_close_code) else ec)
        in (code, ec))"

definition extract_reason :: "bytes \<Rightarrow> bytes \<times> error_code option" where
  "extract_reason payload =
     (let reason = (if length payload > 2 then drop 2 payload else [])
      in (reason, if \<not> validate reason then Some (WsError E_invalid_utf8) else None))"

definition to_ws :: "error_code option \<Rightarrow> close_code" where
  "to_ws ec =
     (case ec of
        Some (ProcError e) \<Rightarrow>
          (if e \<in> {P_protocol_violation, P_control_too_big, P_invalid_opcode, P_invalid_rsv_bit,
                   P_fragmented_control, P_invalid_continuation, P_masking_required,
                   P_masking_forbidden, P_reserved_close_code, P_invalid_close_code}
           then protocol_error
           else if e \<in> {P_invalid_payload, P_invalid_utf8} then invalid_payload
           else if e = P_message_too_big then message_too_big
           else internal_endpoint_error)
      | _ \<Rightarrow> blank)"

subsection \<open>Classification\<close>

lemma code_le_iff: "(a :: u16) \<le> b \<longleftrightarrow> unat a \<le> unat b"
  by (rule word_le_nat_alt)

lemma code_eq_iff: "(a :: u16) = b \<longleftrightarrow> unat a = unat b"
  by (rule word_unat_eq_iff)

text \<open>What the two predicates leave: the codes RFC 6455 (section 7.4) lets on the wire.\<close>

definition sendable :: "close_code \<Rightarrow> bool" where
  "sendable code \<longleftrightarrow> unat code \<in> {1000..1003} \<union> {1007..1014} \<union> {3000..4999}"

lemma sendable_iff: "sendable code \<longleftrightarrow> \<not> status_invalid code \<and> \<not> status_reserved code"
  by (simp add: sendable_def status_invalid_def status_reserved_def close_code_defs
      code_le_iff code_eq_iff) linarith

lemma terminal_sendable: "status_terminal code \<Longrightarrow> sendable code"
  by (auto simp: status_terminal_def sendable_def close_code_defs)

text \<open>The payload of a close frame built from a code and a reason reads back.\<close>

lemma extract_code_encode:
  "extract_code (uint16_c (htons code) @ reason) =
     (code,
      if status_reserved code then Some (WsError E_reserved_close_code)
      else if status_invalid code then Some (WsError E_invalid_close_code) else None)"
proof -
  obtain a b where ab: "uint16_c (htons code) = [a, b]"
    by (rule list2_cases [of "uint16_c (htons code)"]) auto
  then have "uint16_i [a, b] = htons code" by (metis uint_i_c(1))
  with ab show ?thesis by (simp add: extract_code_def Let_def)
qed

lemma extract_reason_encode:
  "extract_reason (uint16_c (htons code) @ reason) =
     (reason, if validate reason then None else Some (WsError E_invalid_utf8))"
  by (auto simp: extract_reason_def Let_def)

lemma extract_code_none:
  "snd (extract_code payload) = None \<longleftrightarrow>
     payload = [] \<or> 2 \<le> length payload \<and> sendable (fst (extract_code payload))"
  by (cases payload rule: remdups_adj.cases) (auto simp: extract_code_def Let_def sendable_iff)

lemma to_ws_cases:
  "to_ws ec = blank \<longleftrightarrow> (\<forall>e. ec \<noteq> Some (ProcError e))"
  "to_ws ec \<noteq> blank \<Longrightarrow> status_terminal (to_ws ec)"
  by (auto simp: to_ws_def status_terminal_def close_code_defs split: option.splits error_code.splits)

subsection \<open>Properties\<close>

text \<open>The codes that pass both the validity and the reservation test are the ones RFC 6455 lets
  an endpoint send: 1000 to 1003, 1007 to 1014 and 3000 to 4999.\<close>
theorem codes_on_the_wire:
  "\<not> status_invalid code \<and> \<not> status_reserved code \<longleftrightarrow>
     unat code \<in> {1000..1003} \<union> {1007..1014} \<union> {3000..4999}"
  using sendable_iff [of code] by (simp add: sendable_def)

text \<open>\<open>extract_code\<close> reports no error exactly for an empty payload and for one that begins with
  a code that may be sent; a one-byte payload is a protocol error.\<close>
theorem extract_code_no_error:
  "snd (extract_code payload) = None \<longleftrightarrow>
     payload = [] \<or> 2 \<le> length payload \<and> sendable (fst (extract_code payload))"
  by (rule extract_code_none)

text \<open>Every error of a frame processor closes the connection with a terminal code that may be
  sent; errors of any other category give the blank code.\<close>
theorem processor_errors_are_terminal:
  "status_terminal (to_ws (Some (ProcError e))) \<and> sendable (to_ws (Some (ProcError e)))
   \<and> to_ws (Some (WsError w)) = blank \<and> to_ws None = blank"
proof -
  have "status_terminal (to_ws (Some (ProcError e)))"
    by (rule to_ws_cases(2)) (simp add: to_ws_cases(1))
  then show ?thesis by (simp add: terminal_sendable to_ws_cases(1))
qed

end
