(* ===== verification/Hybi13.thy ===== *)
theory Hybi13
  imports Message CloseStatus
begin

text \<open>
  The RFC 6455 frame processor (\<open>websocketpp/processors/hybi13.hpp\<close>): the state machine that
  turns received bytes into messages (\<open>consume\<close> and what it calls) and the preparation of
  outgoing data and control frames. One turn of the loop in \<open>consume\<close> is \<open>consume_iter\<close>;
  the loop is the recursive \<open>consume_loop\<close>. A dereference of a null or unset message pointer,
  or a copy past the end of the extended header, is the outcome \<open>Undefined\<close>.
\<close>

subsection \<open>State\<close>

datatype proc_state = HEADER_BASIC | HEADER_EXTENDED | EXTENSION | APPLICATION | READY | FATAL_ERROR

record msg_metadata =
  msg_ptr :: message_ptr
  prepared_key :: u64
  md_validator :: validator

definition no_metadata :: msg_metadata where
  "no_metadata = \<lparr>msg_ptr = None, prepared_key = 0, md_validator = new_validator\<rparr>"

definition make_metadata :: "message_ptr \<Rightarrow> u32 \<Rightarrow> msg_metadata" where
  "make_metadata m p =
     \<lparr>msg_ptr = m, prepared_key = prepare_masking_key p, md_validator = new_validator\<rparr>"

text \<open>\<open>m_current_msg\<close> points to one of the two metadata members, or has not been set yet.\<close>

datatype current = Unset | CurData | CurControl

record 'd hybi13 =
  p_server :: bool
  m_max_message_size :: u64
  m_basic_header :: basic_header
  m_bytes_needed :: u64
  m_cursor :: nat
  m_data_msg :: msg_metadata
  m_control_msg :: msg_metadata
  m_current_msg :: current
  m_extended_header :: extended_header
  m_state :: proc_state
  m_permessage_deflate :: 'd

definition reset_headers :: "'d hybi13 \<Rightarrow> 'd hybi13" where
  "reset_headers s =
     s\<lparr>m_state := HEADER_BASIC,
       m_bytes_needed := of_nat BASIC_HEADER_LENGTH,
       m_basic_header := \<lparr>b0 = 0x00, b1 = 0x00\<rparr>,
       m_extended_header := \<lparr>eh_bytes = replicate MAX_EXTENDED_HEADER_LENGTH 0x00\<rparr>\<rparr>"

definition new_hybi13 :: "bool \<Rightarrow> u64 \<Rightarrow> 'd \<Rightarrow> 'd hybi13" where
  "new_hybi13 is_server max_size ext =
     reset_headers
       \<lparr>p_server = is_server, m_max_message_size = max_size,
        m_basic_header = empty_basic_header, m_bytes_needed = 0, m_cursor = 0,
        m_data_msg = no_metadata, m_control_msg = no_metadata, m_current_msg = Unset,
        m_extended_header = empty_extended_header, m_state = HEADER_BASIC,
        m_permessage_deflate = ext\<rparr>"

definition current_metadata :: "'d hybi13 \<Rightarrow> msg_metadata option" where
  "current_metadata s =
     (case m_current_msg s of
        Unset \<Rightarrow> None | CurData \<Rightarrow> Some (m_data_msg s) | CurControl \<Rightarrow> Some (m_control_msg s))"

definition set_current_metadata :: "msg_metadata \<Rightarrow> 'd hybi13 \<Rightarrow> 'd hybi13" where
  "set_current_metadata md s =
     (case m_current_msg s of
        Unset \<Rightarrow> s | CurData \<Rightarrow> s\<lparr>m_data_msg := md\<rparr> | CurControl \<Rightarrow> s\<lparr>m_control_msg := md\<rparr>)"

subsection \<open>Reading headers\<close>

definition copy_basic_header_bytes :: "'d hybi13 \<Rightarrow> bytes \<Rightarrow> 'd hybi13 \<times> nat" where
  "copy_basic_header_bytes s buf =
     (if length buf = 0 \<or> m_bytes_needed s = 0 then (s, 0)
      else if length buf > 1 then
        (if m_bytes_needed s = 2
         then (s\<lparr>m_basic_header := \<lparr>b0 = buf ! 0, b1 = buf ! 1\<rparr>,
                 m_bytes_needed := m_bytes_needed s - 2\<rparr>, 2)
         else (s\<lparr>m_basic_header := (m_basic_header s)\<lparr>b1 := buf ! 0\<rparr>,
                 m_bytes_needed := m_bytes_needed s - 1\<rparr>, 1))
      else
        (if m_bytes_needed s = 2
         then (s\<lparr>m_basic_header := (m_basic_header s)\<lparr>b0 := buf ! 0\<rparr>,
                 m_bytes_needed := m_bytes_needed s - 1\<rparr>, 1)
         else (s\<lparr>m_basic_header := (m_basic_header s)\<lparr>b1 := buf ! 0\<rparr>,
                 m_bytes_needed := m_bytes_needed s - 1\<rparr>, 1)))"

definition copy_extended_header_bytes :: "'d hybi13 \<Rightarrow> bytes \<Rightarrow> ('d hybi13 \<times> nat) option" where
  "copy_extended_header_bytes s buf =
     (let bytes_to_read = min (unat (m_bytes_needed s)) (length buf)
      in if m_cursor s + bytes_to_read > MAX_EXTENDED_HEADER_LENGTH then None
         else Some
           (s\<lparr>m_extended_header :=
                \<lparr>eh_bytes = overwrite (eh_bytes (m_extended_header s)) (m_cursor s)
                              (take bytes_to_read buf)\<rparr>,
              m_cursor := m_cursor s + bytes_to_read,
              m_bytes_needed := m_bytes_needed s - of_nat bytes_to_read\<rparr>,
            bytes_to_read))"

definition validate_incoming_basic_header ::
  "'d extension \<Rightarrow> 'd hybi13 \<Rightarrow> basic_header \<Rightarrow> bool \<Rightarrow> bool \<Rightarrow> error_code option" where
  "validate_incoming_basic_header E s h is_server new_msg =
     (let op = get_opcode h
      in if is_control op \<and> ucast (get_basic_size h) > payload_size_basic
         then Some (ProcError P_control_too_big)
         else if get_rsv1 h \<and>
                 (\<not> ext_is_enabled E (m_permessage_deflate s) \<or> is_control op)
         then Some (ProcError P_invalid_rsv_bit)
         else if get_rsv2 h \<or> get_rsv3 h then Some (ProcError P_invalid_rsv_bit)
         else if opcode_reserved op then Some (ProcError P_invalid_opcode)
         else if opcode_invalid op then Some (ProcError P_invalid_opcode)
         else if is_control op \<and> \<not> get_fin h then Some (ProcError P_fragmented_control)
         else if new_msg \<and> op = CONTINUATION then Some (ProcError P_invalid_continuation)
         else if \<not> new_msg \<and> \<not> is_control op \<and> op \<noteq> CONTINUATION
         then Some (ProcError P_invalid_continuation)
         else if is_server \<and> \<not> get_masked h then Some (ProcError P_masking_required)
         else if \<not> is_server \<and> get_masked h then Some (ProcError P_masking_forbidden)
         else None)"

text \<open>The check for lengths over 32 bits is compiled in for four-byte \<open>size_t\<close> only.\<close>

definition sizeof_size_t :: nat where "sizeof_size_t = 8"

definition validate_incoming_extended_header ::
  "basic_header \<Rightarrow> extended_header \<Rightarrow> error_code option" where
  "validate_incoming_extended_header h e =
     (let basic_size = get_basic_size h;
          payload_size = get_payload_size h e
      in if basic_size = payload_size_code_16bit \<and> payload_size \<le> payload_size_basic
         then Some (ProcError P_non_minimal_encoding)
         else if basic_size = payload_size_code_64bit \<and> payload_size \<le> payload_size_extended
         then Some (ProcError P_non_minimal_encoding)
         else if sizeof_size_t = 4 \<and> drop_bit 32 payload_size \<noteq> 0
         then Some (ProcError P_requires_64bit)
         else None)"

subsection \<open>Payload\<close>

definition process_payload_bytes ::
  "'d extension \<Rightarrow> 'd hybi13 \<Rightarrow> bytes \<Rightarrow> ('d hybi13 \<times> nat \<times> error_code option) option" where
  "process_payload_bytes E s buf =
     (case current_metadata s of
        None \<Rightarrow> None
      | Some md0 \<Rightarrow>
          let (buf', md) =
                (if get_masked (m_basic_header s)
                 then let (out, key) = byte_mask_circ buf (prepared_key md0)
                      in (out, md0\<lparr>prepared_key := key\<rparr>)
                 else (buf, md0))
          in case msg_ptr md of
               None \<Rightarrow> None
             | Some m \<Rightarrow>
                 let out = m_payload m;
                     offset = length out;
                     (d, out', ec) =
                       (if ext_is_enabled E (m_permessage_deflate s) \<and> m_compressed m
                        then ext_decompress E (m_permessage_deflate s) buf' out
                        else (m_permessage_deflate s, out @ buf', None));
                     md = md\<lparr>msg_ptr := Some (m\<lparr>m_payload := out'\<rparr>)\<rparr>;
                     s' = (set_current_metadata md s)\<lparr>m_permessage_deflate := d\<rparr>
                 in if ec \<noteq> None then Some (s', 0, ec)
                    else if m_opcode m = TEXT then
                      let (v, ok) = validator_decode (md_validator md) (drop offset out');
                          s'' = set_current_metadata (md\<lparr>md_validator := v\<rparr>) s'
                      in if \<not> ok then Some (s'', 0, Some (ProcError P_invalid_utf8))
                         else Some (s''\<lparr>m_bytes_needed := m_bytes_needed s - of_nat (length buf)\<rparr>,
                                    length buf, None)
                    else Some (s'\<lparr>m_bytes_needed := m_bytes_needed s - of_nat (length buf)\<rparr>,
                               length buf, None))"

definition finalize_message ::
  "'d extension \<Rightarrow> 'd hybi13 \<Rightarrow> ('d hybi13 \<times> error_code option) option" where
  "finalize_message E s =
     (case current_metadata s of
        None \<Rightarrow> None
      | Some md \<Rightarrow>
          (case msg_ptr md of
             None \<Rightarrow> None
           | Some m \<Rightarrow>
               let (d, out, ec) =
                     (if ext_is_enabled E (m_permessage_deflate s) \<and> m_compressed m
                      then ext_decompress E (m_permessage_deflate s) [0x00, 0x00, 0xff, 0xff]
                             (m_payload m)
                      else (m_permessage_deflate s, m_payload m, None));
                   s' = (set_current_metadata (md\<lparr>msg_ptr := Some (m\<lparr>m_payload := out\<rparr>)\<rparr>) s)
                          \<lparr>m_permessage_deflate := d\<rparr>
               in if ec \<noteq> None then Some (s', ec)
                  else if get_opcode (m_basic_header s) = TEXT
                          \<and> \<not> validator_complete (md_validator md)
                  then Some (s', Some (ProcError P_invalid_utf8))
                  else Some (s'\<lparr>m_state := READY\<rparr>, None)))"

subsection \<open>The loop\<close>

text \<open>
  One turn: \<open>Next s n\<close> goes round again having read \<open>n\<close> bytes, \<open>Break s n ec\<close> leaves the
  loop.
\<close>

datatype 'd turn = Next "'d hybi13" nat | Break "'d hybi13" nat "error_code option" | Undefined

definition start_message :: "'d extension \<Rightarrow> 'd hybi13 \<Rightarrow> nat \<Rightarrow> 'd turn" where
  "start_message E s n =
     (let op = get_opcode (m_basic_header s);
          key = get_masking_key (m_basic_header s) (m_extended_header s)
      in if is_control op then
           Next (s\<lparr>m_control_msg := make_metadata (get_message_op op (m_bytes_needed s)) key,
                   m_current_msg := CurControl\<rparr>) n
         else
           (case msg_ptr (m_data_msg s) of
              None \<Rightarrow>
                if m_bytes_needed s > m_max_message_size s
                then Break s n (Some (ProcError P_message_too_big))
                else
                  let m = new_message op (m_bytes_needed s);
                      m = (if ext_is_enabled E (m_permessage_deflate s)
                           then set_compressed (get_rsv1 (m_basic_header s)) m else m)
                  in Next (s\<lparr>m_data_msg := make_metadata (Some m) key,
                             m_current_msg := CurData\<rparr>) n
            | Some m \<Rightarrow>
                if of_nat (length (m_payload m)) + m_bytes_needed s > m_max_message_size s
                then Break s n (Some (ProcError P_message_too_big))
                else
                  Next (s\<lparr>m_data_msg := (m_data_msg s)\<lparr>prepared_key := prepare_masking_key key\<rparr>,
                          m_current_msg := CurData\<rparr>) n))"

definition consume_iter :: "'d extension \<Rightarrow> 'd hybi13 \<Rightarrow> bytes \<Rightarrow> 'd turn" where
  "consume_iter E s buf =
     (case m_state s of
        HEADER_BASIC \<Rightarrow>
          let (s, n) = copy_basic_header_bytes s buf
          in if m_bytes_needed s > 0 then Next s n
             else
               (case validate_incoming_basic_header E s (m_basic_header s) (p_server s)
                       (msg_ptr (m_data_msg s) = None) of
                  Some ec \<Rightarrow> Break s n (Some ec)
                | None \<Rightarrow>
                    Next (s\<lparr>m_state := HEADER_EXTENDED, m_cursor := 0,
                            m_bytes_needed :=
                              of_nat (get_header_len (m_basic_header s) - BASIC_HEADER_LENGTH)\<rparr>) n)
      | HEADER_EXTENDED \<Rightarrow>
          (case copy_extended_header_bytes s buf of
             None \<Rightarrow> Undefined
           | Some (s, n) \<Rightarrow>
               if m_bytes_needed s > 0 then Next s n
               else
                 (case validate_incoming_extended_header (m_basic_header s) (m_extended_header s) of
                    Some ec \<Rightarrow> Break s n (Some ec)
                  | None \<Rightarrow>
                      start_message E
                        (s\<lparr>m_state := APPLICATION,
                           m_bytes_needed :=
                             get_payload_size (m_basic_header s) (m_extended_header s)\<rparr>) n))
      | EXTENSION \<Rightarrow> Next (s\<lparr>m_state := APPLICATION\<rparr>) 0
      | APPLICATION \<Rightarrow>
          let bytes_to_process = min (unat (m_bytes_needed s)) (length buf)
          in (case (if bytes_to_process > 0
                    then process_payload_bytes E s (take bytes_to_process buf)
                    else Some (s, 0, None)) of
                None \<Rightarrow> Undefined
              | Some (s, n, Some ec) \<Rightarrow> Break s n (Some ec)
              | Some (s, n, None) \<Rightarrow>
                  if m_bytes_needed s > 0 then Next s n
                  else if get_fin (m_basic_header s) then
                    (case finalize_message E s of
                       None \<Rightarrow> Undefined
                     | Some (s, Some ec) \<Rightarrow> Break s n (Some ec)
                     | Some (s, None) \<Rightarrow> Next s n)
                  else Next (reset_headers s) n)
      | _ \<Rightarrow> Break s 0 (Some (ProcError P_general)))"

definition consume_guard :: "'d hybi13 \<Rightarrow> bytes \<Rightarrow> bool" where
  "consume_guard s buf \<longleftrightarrow>
     m_state s \<noteq> READY \<and> m_state s \<noteq> FATAL_ERROR \<and> (buf \<noteq> [] \<or> m_bytes_needed s = 0)"

subsection \<open>Termination of the loop\<close>

text \<open>Turns that read nothing climb the states, so they cannot go on for ever.\<close>

definition turn_rank :: "'d hybi13 \<Rightarrow> nat" where
  "turn_rank s =
     (case m_state s of
        HEADER_BASIC \<Rightarrow> if m_bytes_needed s = 0 then 5 else 1
      | HEADER_EXTENDED \<Rightarrow> 4 | EXTENSION \<Rightarrow> 3 | APPLICATION \<Rightarrow> 2 | _ \<Rightarrow> 0)"

lemma reset_headers_rank [simp]: "turn_rank (reset_headers s) = 1"
  by (simp add: turn_rank_def reset_headers_def size_consts)

lemma copy_basic_read:
  "copy_basic_header_bytes s buf = (s', n) \<Longrightarrow>
     m_state s' = m_state s \<and> n \<le> length buf \<and> (buf \<noteq> [] \<and> m_bytes_needed s \<noteq> 0 \<longrightarrow> 0 < n)"
  by (cases buf) (auto simp: copy_basic_header_bytes_def Suc_le_eq split: if_splits)

lemma copy_extended_read:
  "copy_extended_header_bytes s buf = Some (s', n) \<Longrightarrow>
     m_state s' = m_state s \<and> n = min (unat (m_bytes_needed s)) (length buf)"
  by (auto simp: copy_extended_header_bytes_def Let_def split: if_splits)

lemma set_current_metadata_fields [simp]:
  "m_state (set_current_metadata md s) = m_state s"
  "m_bytes_needed (set_current_metadata md s) = m_bytes_needed s"
  "m_basic_header (set_current_metadata md s) = m_basic_header s"
  "m_extended_header (set_current_metadata md s) = m_extended_header s"
  "m_cursor (set_current_metadata md s) = m_cursor s"
  "m_current_msg (set_current_metadata md s) = m_current_msg s"
  "p_server (set_current_metadata md s) = p_server s"
  "m_max_message_size (set_current_metadata md s) = m_max_message_size s"
  "m_permessage_deflate (set_current_metadata md s) = m_permessage_deflate s"
  by (simp_all add: set_current_metadata_def split: current.split)

lemma process_payload_read:
  "process_payload_bytes E s buf = Some (s', n, None) \<Longrightarrow>
     m_state s' = m_state s \<and> n = length buf
     \<and> m_bytes_needed s' = m_bytes_needed s - of_nat (length buf)"
  by (auto simp: process_payload_bytes_def Let_def split: option.splits prod.splits if_splits)

lemma finalize_message_state:
  "finalize_message E s = Some (s', None) \<Longrightarrow> m_state s' = READY \<and> turn_rank s' = 0"
  by (auto simp: finalize_message_def turn_rank_def Let_def split: option.splits prod.splits if_splits)

lemma start_message_next:
  "start_message E s n = Next s' n' \<Longrightarrow> m_state s' = m_state s \<and> n' = n"
  by (auto simp: start_message_def Let_def split: option.splits if_splits)

lemma consume_iter_progress:
  assumes "consume_guard s buf" and "consume_iter E s buf = Next s' n"
  shows "n \<le> length buf" and "0 < n \<or> turn_rank s' < turn_rank s"
proof -
  have "n \<le> length buf \<and> (0 < n \<or> turn_rank s' < turn_rank s)"
  proof (cases "m_state s")
    case HEADER_BASIC
    obtain s1 n1 where c: "copy_basic_header_bytes s buf = (s1, n1)" by fastforce
    then have "n = n1" "m_bytes_needed s = 0 \<Longrightarrow> s1 = s"
      using assms(2) HEADER_BASIC
      by (auto simp: consume_iter_def copy_basic_header_bytes_def split: if_splits option.splits)
    then show ?thesis
      using assms HEADER_BASIC c copy_basic_read [OF c]
      by (auto simp: consume_iter_def consume_guard_def turn_rank_def split: if_splits option.splits)
  next
    case HEADER_EXTENDED
    then obtain s1 n1 where c: "copy_extended_header_bytes s buf = Some (s1, n1)"
      using assms(2) by (auto simp: consume_iter_def split: option.splits)
    have z: "m_bytes_needed s = 0 \<Longrightarrow> m_bytes_needed s1 = 0"
      using c by (auto simp: copy_extended_header_bytes_def Let_def split: if_splits)
    show ?thesis
      using assms HEADER_EXTENDED c copy_extended_read [OF c] z
      by (auto simp: consume_iter_def consume_guard_def turn_rank_def word_gt_0 unat_gt_0
          split: if_splits option.splits dest!: start_message_next)
  next
    case EXTENSION
    then show ?thesis using assms by (auto simp: consume_iter_def turn_rank_def)
  next
    case APPLICATION
    show ?thesis
    proof (cases "min (unat (m_bytes_needed s)) (length buf) = 0")
      case True
      then have "m_bytes_needed s = 0"
        using assms(1)
        by (auto simp: consume_guard_def min_def word_unat_eq_iff split: if_splits)
      with True show ?thesis
        using assms APPLICATION turn_rank_def [of s]
        by (auto simp: consume_iter_def split: if_splits option.splits dest!: finalize_message_state)
    next
      case False
      with APPLICATION assms(2) show ?thesis
        by (auto simp: consume_iter_def min_def split: if_splits option.splits prod.splits
            dest!: process_payload_read)
    qed
  qed (use assms in \<open>auto simp: consume_guard_def\<close>)
  then show "n \<le> length buf" "0 < n \<or> turn_rank s' < turn_rank s" by blast+
qed

function consume_loop ::
  "'d extension \<Rightarrow> 'd hybi13 \<Rightarrow> bytes \<Rightarrow> nat \<Rightarrow> ('d hybi13 \<times> nat \<times> error_code option) option"
where
  "consume_loop E s buf p =
     (if consume_guard s buf
      then (case consume_iter E s buf of
              Next s' n \<Rightarrow> consume_loop E s' (drop n buf) (p + n)
            | Break s' n ec \<Rightarrow> Some (s', p + n, ec)
            | Undefined \<Rightarrow> None)
      else Some (s, p, None))"
  by pat_completeness auto

termination
proof (relation "measures [\<lambda>(E, s, buf, p). length buf, \<lambda>(E, s, buf, p). turn_rank s]", goal_cases)
  case (2 E s buf p s' n)
  then show ?case using consume_iter_progress [OF 2(1,2)] by auto
qed simp

declare consume_loop.simps [simp del]

text \<open>\<open>consume\<close>: the state after, the number of bytes processed and the error code.\<close>

definition consume ::
  "'d extension \<Rightarrow> 'd hybi13 \<Rightarrow> bytes \<Rightarrow> ('d hybi13 \<times> nat \<times> error_code option) option" where
  "consume E s buf = consume_loop E s buf 0"

subsection \<open>The message that is ready\<close>

definition ready :: "'d hybi13 \<Rightarrow> bool" where
  "ready s \<longleftrightarrow> m_state s = READY"

definition get_ready_message :: "'d hybi13 \<Rightarrow> ('d hybi13 \<times> message_ptr) option" where
  "get_ready_message s =
     (if \<not> ready s then Some (s, None)
      else
        (case current_metadata s of
           None \<Rightarrow> None
         | Some md \<Rightarrow>
             (case msg_ptr md of
                None \<Rightarrow> None
              | Some ret \<Rightarrow>
                  let s = set_current_metadata (md\<lparr>msg_ptr := None\<rparr>) s;
                      s = (if is_control (m_opcode ret)
                           then s\<lparr>m_control_msg := (m_control_msg s)\<lparr>msg_ptr := None\<rparr>\<rparr>
                           else s\<lparr>m_data_msg := (m_data_msg s)\<lparr>msg_ptr := None\<rparr>\<rparr>)
                  in Some (reset_headers s, Some ret))))"

definition get_error :: "'d hybi13 \<Rightarrow> bool" where
  "get_error s \<longleftrightarrow> m_state s = FATAL_ERROR"

definition get_bytes_needed :: "'d hybi13 \<Rightarrow> u64" where
  "get_bytes_needed s = m_bytes_needed s"

subsection \<open>Preparing frames\<close>

text \<open>
  \<open>key\<close> is the value the random number generator returns when the frame is masked. The output
  message is returned together with the error code; it is written in place in the code, so on
  an error it keeps what was written before.
\<close>

definition masked_copy :: "bytes \<Rightarrow> u32 \<Rightarrow> bytes" where
  "masked_copy i key = byte_mask i key 0"

definition resize :: "bytes \<Rightarrow> nat \<Rightarrow> bytes" where
  "resize xs n = take n xs @ replicate (n - length xs) 0"

definition prepare_data_frame ::
  "'d extension \<Rightarrow> 'd hybi13 \<Rightarrow> u32 \<Rightarrow> message_ptr \<Rightarrow> message_ptr
     \<Rightarrow> 'd hybi13 \<times> message_ptr \<times> error_code option" where
  "prepare_data_frame E s rng inp outp =
     (case (inp, outp) of
        (Some i, Some out) \<Rightarrow>
          let op = m_opcode i
          in if is_control op then (s, Some out, Some (ProcError P_invalid_opcode))
             else if op = TEXT \<and> \<not> validate (m_payload i)
             then (s, Some out, Some (ProcError P_invalid_payload))
             else
               let masked = (\<not> p_server s);
                   compressed = (ext_is_enabled E (m_permessage_deflate s) \<and> m_compressed i);
                   fin = m_fin i;
                   key = (if masked then rng else 0);
                   (s, out, ec) =
                     (if compressed then
                        let (d, o', _) = ext_compress E (m_permessage_deflate s) (m_payload i)
                                           (m_payload out);
                            s = s\<lparr>m_permessage_deflate := d\<rparr>
                        in if length o' < 4
                           then (s, out\<lparr>m_payload := o'\<rparr>, Some (ProcError P_general))
                           else let o' = resize o' (length o' - 4)
                                in (s, out\<lparr>m_payload := if masked then masked_copy o' key else o'\<rparr>,
                                    None)
                      else (s, out\<lparr>m_payload := if masked then masked_copy (m_payload i) key
                                                  else m_payload i\<rparr>, None))
               in if ec \<noteq> None then (s, Some out, ec)
                  else
                    let o_size = of_nat (length (m_payload out));
                        h = make_basic_header op o_size fin masked compressed False False;
                        hdr = (if masked
                               then prepare_header h (make_extended_header_masked o_size key)
                               else prepare_header h (make_extended_header o_size))
                    in (s, Some (set_opcode op (set_prepared True (set_header hdr out))), None)
      | _ \<Rightarrow> (s, outp, Some (ProcError P_invalid_arguments)))"

definition prepare_control ::
  "'d hybi13 \<Rightarrow> u32 \<Rightarrow> opcode \<Rightarrow> bytes \<Rightarrow> message_ptr \<Rightarrow> message_ptr \<times> error_code option" where
  "prepare_control s rng op payload outp =
     (case outp of
        None \<Rightarrow> (None, Some (ProcError P_invalid_arguments))
      | Some out \<Rightarrow>
          if \<not> is_control op then (Some out, Some (ProcError P_invalid_opcode))
          else if length payload > unat payload_size_basic
          then (Some out, Some (ProcError P_control_too_big))
          else
            let masked = (\<not> p_server s);
                h = make_basic_header op (of_nat (length payload)) True masked False False False;
                out = (if masked
                       then let e = make_extended_header_masked (of_nat (length payload)) rng
                            in out\<lparr>m_header := prepare_header h e,
                                   m_payload := masked_copy payload rng\<rparr>
                       else let e = make_extended_header (of_nat (length payload))
                            in out\<lparr>m_header := prepare_header h e, m_payload := payload\<rparr>)
            in (Some (set_prepared True (set_opcode op out)), None))"

definition prepare_ping ::
  "'d hybi13 \<Rightarrow> u32 \<Rightarrow> bytes \<Rightarrow> message_ptr \<Rightarrow> message_ptr \<times> error_code option" where
  "prepare_ping s rng i out = prepare_control s rng PING i out"

definition prepare_pong ::
  "'d hybi13 \<Rightarrow> u32 \<Rightarrow> bytes \<Rightarrow> message_ptr \<Rightarrow> message_ptr \<times> error_code option" where
  "prepare_pong s rng i out = prepare_control s rng PONG i out"

definition prepare_close ::
  "'d hybi13 \<Rightarrow> u32 \<Rightarrow> close_code \<Rightarrow> bytes \<Rightarrow> message_ptr \<Rightarrow> message_ptr \<times> error_code option" where
  "prepare_close s rng code reason out =
     (if status_reserved code then (out, Some (ProcError P_reserved_close_code))
      else if status_invalid code \<and> code \<noteq> no_status
      then (out, Some (ProcError P_invalid_close_code))
      else if code = no_status \<and> length reason > 0
      then (out, Some (ProcError P_reason_requires_code))
      else if length reason > unat payload_size_basic - 2
      then (out, Some (ProcError P_control_too_big))
      else
        let payload = (if code \<noteq> no_status then uint16_c (htons code) @ reason else [])
        in prepare_control s rng CLOSE payload out)"

end
