(* ===== verification/Text.thy ===== *)
theory Text
  imports Prelude
begin

text \<open>
  What the sources use of the standard library on strings of bytes: decimal printing and reading,
  character classes of the C locale, case folding and searching.
\<close>

subsection \<open>Numbers\<close>

fun digits :: "nat \<Rightarrow> bytes" where
  "digits n = (if n < 10 then [of_nat (48 + n)] else digits (n div 10) @ [of_nat (48 + n mod 10)])"

declare digits.simps [simp del]

definition decimal :: "int \<Rightarrow> bytes" where
  "decimal i = (if i < 0 then 0x2D # digits (nat (- i)) else digits (nat i))"

definition c_string :: "bytes \<Rightarrow> bytes" where
  "c_string buf = takeWhile (\<lambda>b. b \<noteq> 0) buf"

definition isspace :: "u8 \<Rightarrow> bool" where "isspace c \<longleftrightarrow> c = 32 \<or> (9 \<le> c \<and> c \<le> 13)"
definition isdigit :: "u8 \<Rightarrow> bool" where "isdigit c \<longleftrightarrow> 48 \<le> c \<and> c \<le> 57"

definition digits_val :: "bytes \<Rightarrow> nat" where
  "digits_val ds = foldl (\<lambda>n c. 10 * n + (unat c - 48)) 0 ds"

text \<open>
  The common part of \<open>strtol\<close>, \<open>strtoul\<close> and the stream operators: white space, an optional
  sign, digits. The result is the sign and the digits.
\<close>

definition scan_number :: "bytes \<Rightarrow> bool \<times> bytes" where
  "scan_number s =
     (let s = dropWhile isspace s
      in case s of
           [] \<Rightarrow> (False, [])
         | c # t \<Rightarrow> if c = 0x2D then (True, takeWhile isdigit t)
                   else if c = 0x2B then (False, takeWhile isdigit t)
                   else (False, takeWhile isdigit s))"

definition signed_val :: "bool \<times> bytes \<Rightarrow> int" where
  "signed_val = (\<lambda>(neg, ds). if neg then - int (digits_val ds) else int (digits_val ds))"

text \<open>\<open>atoi\<close> is \<open>strtol\<close>, which saturates at 64 bits, cut to \<open>int\<close>; here as \<open>unsigned int\<close>.\<close>

definition atoi :: "bytes \<Rightarrow> u32" where
  "atoi s = word_of_int (max (- (2 ^ 63)) (min (2 ^ 63 - 1) (signed_val (scan_number (c_string s)))))"

text \<open>\<open>strtoul\<close> saturates, and negates a number with a minus sign.\<close>

definition strtoul :: "bytes \<Rightarrow> u64" where
  "strtoul s =
     (case scan_number (c_string s) of (neg, ds) \<Rightarrow>
        if 2 ^ 64 \<le> digits_val ds then - 1
        else if neg then - of_nat (digits_val ds) else of_nat (digits_val ds))"

text \<open>
  \<open>ss >> n\<close>: the extraction fails without digits and out of range; into an unsigned variable a
  number with a minus sign is negated.
\<close>

definition extract_int :: "bytes \<Rightarrow> int option" where
  "extract_int s =
     (let v = signed_val (scan_number s)
      in if snd (scan_number s) = [] \<or> v < - (2 ^ 31) \<or> 2 ^ 31 \<le> v then None else Some v)"

definition extract_size :: "bytes \<Rightarrow> u64 option" where
  "extract_size s =
     (case scan_number s of (neg, ds) \<Rightarrow>
        if ds = [] \<or> 2 ^ 64 \<le> digits_val ds then None
        else Some (if neg then - of_nat (digits_val ds) else of_nat (digits_val ds)))"

subsection \<open>Case and search\<close>

definition tolower :: "u8 \<Rightarrow> u8" where "tolower c = (if 65 \<le> c \<and> c \<le> 90 then c + 32 else c)"
definition toupper :: "u8 \<Rightarrow> u8" where "toupper c = (if 97 \<le> c \<and> c \<le> 122 then c - 32 else c)"

text \<open>\<open>std::search\<close>: what precedes and what follows the first occurrence of \<open>p\<close>.\<close>

fun split_on :: "bytes \<Rightarrow> bytes \<Rightarrow> (bytes \<times> bytes) option" where
  "split_on p [] = (if p = [] then Some ([], []) else None)"
| "split_on p (c # s) =
     (if take (length p) (c # s) = p then Some ([], drop (length p) (c # s))
      else case split_on p s of None \<Rightarrow> None | Some (a, b) \<Rightarrow> Some (c # a, b))"

definition crlf :: bytes where "crlf = [13, 10]"

subsection \<open>Facts\<close>

lemma digit_code: "d < 10 \<Longrightarrow> unat (of_nat (48 + d) :: u8) = 48 + d"
  by (rule u8_of_nat_inj) simp

lemma isdigit_code: "d < 10 \<Longrightarrow> isdigit (of_nat (48 + d))"
  using digit_code [of d] by (simp add: isdigit_def word_le_nat_alt)

lemma digits_isdigit: "c \<in> set (digits n) \<Longrightarrow> isdigit c"
proof (induction n rule: digits.induct)
  case (1 n)
  have "isdigit (of_nat (48 + m mod 10))" for m by (rule isdigit_code) simp
  with 1 show ?case
    by (subst (asm) digits.simps) (auto split: if_splits intro: isdigit_code simp del: of_nat_add)
qed

lemma digits_nonempty [simp]: "digits n \<noteq> []"
  by (subst digits.simps) simp

lemma digits_val_digits [simp]: "digits_val (digits n) = n"
proof (induction n rule: digits.induct)
  case (1 n)
  have d: "unat (of_nat (48 + m mod 10) :: u8) = 48 + m mod 10" for m by (rule digit_code) simp
  show ?case
  proof (cases "n < 10")
    case True
    then show ?thesis using d [of n] by (subst digits.simps) (simp add: digits_val_def)
  next
    case False
    then show ?thesis using 1 d [of n] by (subst digits.simps) (simp add: digits_val_def)
  qed
qed

lemma isdigit_not: "isdigit c \<Longrightarrow> \<not> isspace c \<and> c \<noteq> 0x2D \<and> c \<noteq> 0x2B \<and> c \<noteq> 0 \<and> c \<noteq> 13 \<and> c \<noteq> 10 \<and> c \<noteq> 32
    \<and> c \<noteq> 58 \<and> c \<noteq> 47"
  by (auto simp: isdigit_def isspace_def word_le_nat_alt)

lemma scan_digits:
  assumes "\<forall>c \<in> set t. \<not> isdigit c" "t = [] \<or> \<not> isdigit (hd t)"
  shows "scan_number (digits n @ t) = (False, digits n)"
proof -
  obtain c cs where d: "digits n = c # cs" by (cases "digits n") auto
  then have "isdigit c" using digits_isdigit [of c n] by simp
  moreover have "takeWhile isdigit (digits n @ t) = digits n"
    using assms digits_isdigit by (simp add: takeWhile_append) (cases t; simp)
  ultimately show ?thesis
    using d isdigit_not [of c] by (simp add: scan_number_def Let_def)
qed

lemma split_on_append: "split_on p s = Some (a, b) \<Longrightarrow> s = a @ p @ b"
  by (induction s arbitrary: a) (auto split: if_splits option.splits, metis append_take_drop_id)

lemma split_on_length: "split_on p s = Some (a, b) \<Longrightarrow> length s = length a + length p + length b"
  using split_on_append [of p s a b] by simp

end
