(* ===== verification/Http.thy ===== *)
theory Http
  imports Text
begin

text \<open>
  The parts all HTTP messages share: \<open>http/constants.hpp\<close>, the extraction functions and the class
  \<open>parser\<close> of \<open>http/parser.hpp\<close> and \<open>http/impl/parser.hpp\<close>, and \<open>utilities.hpp\<close>. An iterator into a
  string is the rest of the string from it; two iterators of one string are equal when the rests
  have the same length. Exceptions are values; an object whose method throws is not used again.
\<close>

subsection \<open>Constants\<close>

definition max_header_size :: nat where "max_header_size = 16000"
definition max_body_size :: u64 where "max_body_size = 32000000"
definition istream_buffer :: nat where "istream_buffer = 512"

definition header_token :: "nat list" where
  "header_token =
    [0,0,0,0,0,0,0,0,0,0,0,0,0,0,0,0,
     0,0,0,0,0,0,0,0,0,0,0,0,0,0,0,0,
     0,1,0,1,1,1,1,1,0,0,1,1,0,1,1,0,
     1,1,1,1,1,1,1,1,1,1,0,0,0,0,0,0,
     0,1,1,1,1,1,1,1,1,1,1,1,1,1,1,1,
     1,1,1,1,1,1,1,1,1,1,1,0,0,0,1,1,
     1,1,1,1,1,1,1,1,1,1,1,1,1,1,1,1,
     1,1,1,1,1,1,1,1,1,1,1,0,1,0,1,0] @ replicate 128 0"

definition is_token_char :: "u8 \<Rightarrow> bool" where "is_token_char c \<longleftrightarrow> header_token ! unat c = 1"
definition is_not_token_char :: "u8 \<Rightarrow> bool" where "is_not_token_char c \<longleftrightarrow> header_token ! unat c = 0"
definition is_whitespace_char :: "u8 \<Rightarrow> bool" where "is_whitespace_char c \<longleftrightarrow> c = 9 \<or> c = 32"
definition is_not_whitespace_char :: "u8 \<Rightarrow> bool" where "is_not_whitespace_char c \<longleftrightarrow> c \<noteq> 9 \<and> c \<noteq> 32"

text \<open>Status codes are the numbers of the enumeration; any \<open>int\<close> can be cast to it.\<close>

type_synonym status = int

definition status_strings :: "(status \<times> string) list" where
  "status_strings =
    [(0, ''Uninitialized''), (100, ''Continue''), (101, ''Switching Protocols''), (200, ''OK''),
     (201, ''Created''), (202, ''Accepted''), (203, ''Non Authoritative Information''),
     (204, ''No Content''), (205, ''Reset Content''), (206, ''Partial Content''),
     (300, ''Multiple Choices''), (301, ''Moved Permanently''), (302, ''Found''), (303, ''See Other''),
     (304, ''Not Modified''), (305, ''Use Proxy''), (307, ''Temporary Redirect''),
     (400, ''Bad Request''), (401, ''Unauthorized''), (402, ''Payment Required''), (403, ''Forbidden''),
     (404, ''Not Found''), (405, ''Method Not Allowed''), (406, ''Not Acceptable''),
     (407, ''Proxy Authentication Required''), (408, ''Request Timeout''), (409, ''Conflict''),
     (410, ''Gone''), (411, ''Length Required''), (412, ''Precondition Failed''),
     (413, ''Request Entity Too Large''), (414, ''Request-URI Too Long''),
     (415, ''Unsupported Media Type''), (416, ''Requested Range Not Satisfiable''),
     (417, ''Expectation Failed''), (418, ''I'' @ [CHR 0x27] @ ''m a teapot''), (426, ''Upgrade Required''),
     (428, ''Precondition Required''), (429, ''Too Many Requests''),
     (431, ''Request Header Fields Too Large''), (500, ''Internal Server Error''),
     (501, ''Not Implemented''), (502, ''Bad Gateway''), (503, ''Service Unavailable''),
     (504, ''Gateway Timeout''), (505, ''HTTP Version Not Supported''), (510, ''Not Extended''),
     (511, ''Network Authentication Required'')]"

definition status_get_string :: "status \<Rightarrow> bytes" where
  "status_get_string c = ascii (case map_of status_strings c of None \<Rightarrow> ''Unknown'' | Some s \<Rightarrow> s)"

text \<open>
  \<open>http::exception\<close> with its message and status; \<open>Length_error\<close> is the exception of a string
  constructed from a reversed range, \<open>Out_of_range\<close> a read outside an object.
\<close>

datatype exn = Http_exception string status | Length_error | Out_of_range

type_synonym 'a result = "exn + 'a"

subsection \<open>Extraction\<close>

definition extract_token :: "bytes \<Rightarrow> bytes \<times> bytes" where
  "extract_token s = (takeWhile (\<lambda>c. \<not> is_not_token_char c) s, dropWhile (\<lambda>c. \<not> is_not_token_char c) s)"

text \<open>The loop of \<open>extract_quoted_string\<close> from the marker on: the next quote ends the string
  unless a backslash precedes it.\<close>

function quoted_from :: "bytes \<Rightarrow> bytes \<Rightarrow> (bytes \<times> bytes) option" where
  "quoted_from s acc =
     (let pre = takeWhile (\<lambda>c. c \<noteq> 0x22) s; rest = dropWhile (\<lambda>c. c \<noteq> 0x22) s
      in case rest of
           [] \<Rightarrow> None
         | _ # rest \<Rightarrow>
             if pre \<noteq> [] \<and> last pre = 0x5C then quoted_from rest (acc @ butlast pre @ [0x22])
             else Some (acc @ pre, rest))"
  by pat_completeness auto
termination
  by (relation "measure (\<lambda>(s, _). length s)")
    (auto, metis Suc_le_lessD length_Cons length_dropWhile_le)

declare quoted_from.simps [simp del]

definition extract_quoted_string :: "bytes \<Rightarrow> bytes \<times> bytes" where
  "extract_quoted_string s =
     (case s of
        [] \<Rightarrow> ([], s)
      | c # t \<Rightarrow> if c \<noteq> 0x22 then ([], s)
                else (case quoted_from t [] of None \<Rightarrow> ([], s) | Some r \<Rightarrow> r))"

definition extract_lws :: "bytes \<Rightarrow> bytes" where
  "extract_lws s =
     dropWhile is_whitespace_char
       (if length s > 2 \<and> s ! 0 = 13 \<and> s ! 1 = 10 \<and> is_whitespace_char (s ! 2) then drop 3 s else s)"

lemma extract_lws_length: "length (extract_lws s) \<le> length s"
  by (auto simp: extract_lws_def intro: order_trans [OF length_dropWhile_le])

function extract_all_lws :: "bytes \<Rightarrow> bytes" where
  "extract_all_lws old =
     (let new = extract_lws old
      in if new \<noteq> [] \<and> length old \<noteq> length new then extract_all_lws new else new)"
  by pat_completeness auto
termination
  by (relation "measure length")
    (auto simp: order_less_le extract_lws_length)

declare extract_all_lws.simps [simp del]

type_synonym attribute_list = "(bytes \<times> bytes) list"
type_synonym parameter_list = "(bytes \<times> attribute_list) list"

text \<open>\<open>attributes[name] = value\<close> on a sorted map of strings.\<close>

fun bytes_less :: "bytes \<Rightarrow> bytes \<Rightarrow> bool" where
  "bytes_less _ [] = False"
| "bytes_less [] (_ # _) = True"
| "bytes_less (a # as) (b # bs) = (a < b \<or> (\<not> b < a \<and> bytes_less as bs))"

fun set_attribute :: "bytes \<Rightarrow> bytes \<Rightarrow> attribute_list \<Rightarrow> attribute_list" where
  "set_attribute k v [] = [(k, v)]"
| "set_attribute k v ((h, w) # as) =
     (if bytes_less h k then (h, w) # set_attribute k v as
      else if bytes_less k h then (k, v) # (h, w) # as
      else (h, v) # as)"

lemma extract_all_lws_length: "length (extract_all_lws s) \<le> length s"
proof (induction s rule: extract_all_lws.induct)
  case (1 old)
  then show ?case
    using extract_lws_length [of old] by (subst extract_all_lws.simps) (auto simp: Let_def intro: order_trans)
qed

lemma extract_token_length:
  assumes "extract_token s = (name, rest)"
  shows "length rest \<le> length s" and "name \<noteq> [] \<Longrightarrow> length rest < length s"
proof -
  have e: "s = name @ rest" using assms by (auto simp: extract_token_def)
  show "length rest \<le> length s" unfolding e by simp
  show "name \<noteq> [] \<Longrightarrow> length rest < length s" unfolding e by simp
qed

lemma quoted_from_length: "quoted_from s acc = Some (r, t) \<Longrightarrow> length t < length s"
proof (induction s acc rule: quoted_from.induct)
  case (1 s acc)
  let ?pre = "takeWhile (\<lambda>c. c \<noteq> 0x22) s" and ?rest = "dropWhile (\<lambda>c. c \<noteq> 0x22) s"
  have le: "length ?rest \<le> length s" by (rule length_dropWhile_le)
  show ?case
  proof (cases ?rest)
    case Nil
    then show ?thesis
      using 1(2) by (subst (asm) quoted_from.simps) (simp only: Let_def Nil list.case option.distinct)
  next
    case (Cons q u)
    show ?thesis
    proof (cases "?pre \<noteq> [] \<and> last ?pre = 0x5C")
      case True
      then have "quoted_from u (acc @ butlast ?pre @ [0x22]) = Some (r, t)"
        using 1(2) Cons by (simp add: quoted_from.simps [of s acc] Let_def)
      then show ?thesis using 1(1) [OF refl refl Cons True] Cons le by simp
    next
      case False
      then have "t = u"
        using 1(2) Cons by (auto simp: quoted_from.simps [of s acc] Let_def split: if_splits)
      then show ?thesis using Cons le by simp
    qed
  qed
qed

lemma extract_quoted_length: "length (snd (extract_quoted_string s)) \<le> length s"
  by (auto simp: extract_quoted_string_def dest: quoted_from_length split: list.splits option.splits)

text \<open>
  One round of the loop of \<open>extract_attributes\<close>: go on from a cursor (\<open>Inl\<close>), or return; \<open>None\<close> is a
  return of \<open>begin\<close> after a syntax error.
\<close>

definition attribute_step ::
  "bool \<Rightarrow> bytes \<Rightarrow> attribute_list \<Rightarrow> bytes \<times> attribute_list + bytes option \<times> attribute_list" where
  "attribute_step first cursor attrs =
     (let cursor = extract_all_lws cursor
      in if cursor = [] then Inr (Some cursor, attrs)
         else if \<not> first \<and> hd cursor \<noteq> 0x3B then Inr (Some cursor, attrs)
         else
           let cursor = extract_all_lws (if first then cursor else tl cursor);
               (name, cursor) = extract_token cursor
           in if name = [] then Inr (None, attrs)
              else
                let cursor = extract_all_lws cursor
                in if cursor = [] \<or> hd cursor \<noteq> 0x3D then Inl (cursor, set_attribute name [] attrs)
                   else
                     let cursor = extract_all_lws (tl cursor)
                     in if cursor = [] then Inr (None, attrs)
                        else
                          let (val, rest) = extract_quoted_string cursor
                          in if length rest \<noteq> length cursor then Inl (rest, set_attribute name val attrs)
                             else
                               let (val, rest) = extract_token cursor
                               in if val = [] then Inr (None, attrs)
                                  else Inl (rest, set_attribute name val attrs))"

lemma attribute_step_shorter:
  assumes "attribute_step first cursor attrs = Inl (cursor', attrs')"
  shows "length cursor' < length cursor"
proof -
  let ?c1 = "extract_all_lws cursor"
  let ?c2 = "extract_all_lws (if first then ?c1 else tl ?c1)"
  obtain name c3 where n: "extract_token ?c2 = (name, c3)" by (cases "extract_token ?c2")
  let ?c4 = "extract_all_lws c3"
  let ?c5 = "extract_all_lws (tl ?c4)"
  obtain v r where q: "extract_quoted_string ?c5 = (v, r)" by (cases "extract_quoted_string ?c5")
  obtain v' r' where k: "extract_token ?c5 = (v', r')" by (cases "extract_token ?c5")
  have "length ?c2 \<le> length cursor"
    using extract_all_lws_length [of cursor] extract_all_lws_length [of ?c1]
      extract_all_lws_length [of "tl ?c1"] by (cases first; simp; linarith)
  moreover have "name \<noteq> [] \<Longrightarrow> length c3 < length ?c2" using extract_token_length [OF n] by simp
  moreover have "length ?c4 \<le> length c3" "length ?c5 \<le> length ?c4"
    using extract_all_lws_length [of c3] extract_all_lws_length [of "tl ?c4"] by simp_all
  moreover have "length r \<le> length ?c5" "length r' \<le> length ?c5"
    using extract_quoted_length [of ?c5] q extract_token_length [OF k] by simp_all
  ultimately show ?thesis
    using assms n q k by (simp add: attribute_step_def Let_def split: if_split_asm)
qed

function attributes_loop :: "bool \<Rightarrow> bytes \<Rightarrow> attribute_list \<Rightarrow> bytes option \<times> attribute_list" where
  "attributes_loop first cursor attrs =
     (if cursor = [] then (Some cursor, attrs)
      else case attribute_step first cursor attrs of
             Inl (cursor, attrs) \<Rightarrow> attributes_loop False cursor attrs
           | Inr r \<Rightarrow> r)"
  by pat_completeness auto
termination
  by (relation "measure (\<lambda>(_, s, _). length s)") (auto dest: attribute_step_shorter)

declare attributes_loop.simps [simp del]

text \<open>A range of length 0 is returned at once.\<close>

definition extract_attributes :: "bytes \<Rightarrow> attribute_list \<Rightarrow> bytes \<times> attribute_list" where
  "extract_attributes begin attrs =
     (if begin = [] then (begin, attrs)
      else case attributes_loop True begin attrs of
             (None, attrs) \<Rightarrow> (begin, attrs)
           | (Some cursor, attrs) \<Rightarrow> (cursor, attrs))"

lemma attributes_loop_length: "attributes_loop f s as = (Some t, as') \<Longrightarrow> length t \<le> length s"
proof (induction f s as rule: attributes_loop.induct)
  case (1 f s as)
  show ?case
  proof (cases "attribute_step f s as")
    case (Inl p)
    obtain c a where p: "p = (c, a)" by (cases p)
    show ?thesis
      using 1 Inl p attribute_step_shorter [of f s as c a]
      by (cases "s = []") (auto simp: attributes_loop.simps [of f s], meson less_imp_le order_trans)
  next
    case (Inr p)
    have "length t \<le> length s" if "p = (Some t, as')"
      using Inr that extract_all_lws_length [of s]
      by (auto simp: attribute_step_def Let_def split: if_split_asm prod.splits)
    then show ?thesis using 1(2) Inr by (auto simp: attributes_loop.simps [of f s] split: if_splits)
  qed
qed

lemma extract_attributes_length: "length (fst (extract_attributes s as)) \<le> length s"
  by (auto simp: extract_attributes_def dest: attributes_loop_length split: prod.splits option.splits)

text \<open>One round of the loop of \<open>extract_parameters\<close>, with the same results.\<close>

definition parameter_step ::
  "bytes \<Rightarrow> parameter_list \<Rightarrow> bytes \<times> parameter_list + bytes option \<times> parameter_list" where
  "parameter_step cursor ps =
     (let cursor = extract_all_lws cursor
      in if cursor = [] then Inr (Some cursor, ps)
         else
           let (name, cursor) = extract_token cursor
           in if name = [] then Inr (None, ps)
              else
                let cursor = extract_all_lws cursor
                in if cursor = [] then Inr (Some cursor, ps @ [(name, [])])
                   else
                     let (ok, cursor, attrs) =
                           (if hd cursor = 0x3B then
                              let (acursor, attrs) = extract_attributes (tl cursor) []
                              in (length acursor \<noteq> length (tl cursor), acursor, attrs)
                            else (True, cursor, []))
                     in if \<not> ok then Inr (None, ps)
                        else
                          let ps = ps @ [(name, attrs)]; cursor = extract_all_lws cursor
                          in if cursor = [] then Inr (Some cursor, ps)
                             else if hd cursor \<noteq> 0x2C then Inr (Some cursor, ps)
                             else if tl cursor = [] then Inr (None, ps)
                             else Inl (tl cursor, ps))"

lemma parameter_step_shorter:
  assumes "parameter_step cursor ps = Inl (cursor', ps')"
  shows "length cursor' < length cursor"
proof -
  let ?c1 = "extract_all_lws cursor"
  obtain name c2 where n: "extract_token ?c1 = (name, c2)" by (cases "extract_token ?c1")
  let ?c3 = "extract_all_lws c2"
  obtain c4 attrs where a: "extract_attributes (tl ?c3) [] = (c4, attrs)"
    by (cases "extract_attributes (tl ?c3) []")
  have "length ?c1 \<le> length cursor" by (rule extract_all_lws_length)
  moreover have "name \<noteq> [] \<Longrightarrow> length c2 < length ?c1" using extract_token_length [OF n] by simp
  moreover have "length ?c3 \<le> length c2" by (rule extract_all_lws_length)
  moreover have "length c4 \<le> length ?c3" using extract_attributes_length [of "tl ?c3" "[]"] a by simp
  moreover have "length (extract_all_lws ?c3) \<le> length ?c3" "length (extract_all_lws c4) \<le> length c4"
    by (rule extract_all_lws_length)+
  moreover have "name \<noteq> [] \<and> (cursor' = tl (extract_all_lws ?c3) \<or> cursor' = tl (extract_all_lws c4))"
    using assms n a by (auto simp: parameter_step_def Let_def split: if_split_asm)
  ultimately show ?thesis by (elim conjE disjE) auto
qed

function parameters_loop :: "bytes \<Rightarrow> parameter_list \<Rightarrow> bytes option \<times> parameter_list" where
  "parameters_loop cursor ps =
     (if cursor = [] then (Some cursor, ps)
      else case parameter_step cursor ps of
             Inl (cursor, ps) \<Rightarrow> parameters_loop cursor ps
           | Inr r \<Rightarrow> r)"
  by pat_completeness auto
termination
  by (relation "measure (\<lambda>(s, _). length s)") (auto dest: parameter_step_shorter)

declare parameters_loop.simps [simp del]

definition extract_parameters :: "bytes \<Rightarrow> parameter_list \<Rightarrow> bytes \<times> parameter_list" where
  "extract_parameters begin ps =
     (if begin = [] then (begin, ps)
      else case parameters_loop begin ps of
             (None, ps) \<Rightarrow> (begin, ps)
           | (Some cursor, ps) \<Rightarrow> (cursor, ps))"

text \<open>
  \<open>strip_lws\<close>: white space is skipped from the front and, with reverse iterators, from the back;
  the string between is constructed from the two positions.
\<close>

definition strip_lws :: "bytes \<Rightarrow> bytes result" where
  "strip_lws input =
     (let b = extract_all_lws input; r = extract_all_lws (rev input)
      in if b = [] then Inr []
         else if r = [] then Inr []
         else let first = length input - length b; last = length r
              in if last < first then Inl Length_error
                 else Inr (take (last - first) (drop first input)))"

subsection \<open>Header lists\<close>

text \<open>\<open>ci_less\<close>: lexicographic comparison of the lower-case characters.\<close>

fun ci_less :: "bytes \<Rightarrow> bytes \<Rightarrow> bool" where
  "ci_less _ [] = False"
| "ci_less [] (_ # _) = True"
| "ci_less (a # as) (b # bs) =
     (tolower a < tolower b \<or> (\<not> tolower b < tolower a \<and> ci_less as bs))"

type_synonym header_list = "(bytes \<times> bytes) list"

text \<open>A \<open>std::map\<close> ordered by \<open>ci_less\<close>: a sorted list; the key of an entry stays as it was
  first written.\<close>

fun find_header :: "bytes \<Rightarrow> header_list \<Rightarrow> bytes option" where
  "find_header k [] = None"
| "find_header k ((h, v) # hs) =
     (if ci_less h k then find_header k hs else if ci_less k h then None else Some v)"

fun put_header :: "bytes \<Rightarrow> bytes \<Rightarrow> header_list \<Rightarrow> header_list" where
  "put_header k v [] = [(k, v)]"
| "put_header k v ((h, w) # hs) =
     (if ci_less h k then (h, w) # put_header k v hs
      else if ci_less k h then (k, v) # (h, w) # hs
      else (h, v) # hs)"

fun erase_header :: "bytes \<Rightarrow> header_list \<Rightarrow> header_list" where
  "erase_header k [] = []"
| "erase_header k ((h, w) # hs) =
     (if ci_less h k then (h, w) # erase_header k hs
      else if ci_less k h then (h, w) # hs
      else hs)"

datatype body_encoding = Encoding_unknown | Plain | Chunked

record parser =
  m_version :: bytes
  m_headers :: header_list
  m_header_bytes :: nat
  m_body :: bytes
  m_body_bytes_needed :: u64
  m_body_bytes_max :: u64
  m_body_encoding :: body_encoding

definition get_header :: "bytes \<Rightarrow> 'a parser_scheme \<Rightarrow> bytes" where
  "get_header key p = (case find_header key (m_headers p) of None \<Rightarrow> [] | Some v \<Rightarrow> v)"

definition parse_parameter_list :: "bytes \<Rightarrow> bool \<times> parameter_list" where
  "parse_parameter_list s =
     (if s = [] then (False, [])
      else case extract_parameters s [] of (it, out) \<Rightarrow> (length it = length s, out))"

definition get_header_as_plist :: "bytes \<Rightarrow> 'a parser_scheme \<Rightarrow> bool \<times> parameter_list" where
  "get_header_as_plist key p =
     (case find_header key (m_headers p) of
        None \<Rightarrow> (False, [])
      | Some v \<Rightarrow> if v = [] then (False, []) else parse_parameter_list v)"

definition replace_header :: "bytes \<Rightarrow> bytes \<Rightarrow> 'a parser_scheme \<Rightarrow> 'a parser_scheme" where
  "replace_header key val p = p\<lparr>m_headers := put_header key val (m_headers p)\<rparr>"

definition remove_header :: "bytes \<Rightarrow> 'a parser_scheme \<Rightarrow> 'a parser_scheme" where
  "remove_header key p = p\<lparr>m_headers := erase_header key (m_headers p)\<rparr>"

definition append_header :: "bytes \<Rightarrow> bytes \<Rightarrow> 'a parser_scheme \<Rightarrow> 'a parser_scheme result" where
  "append_header key val p =
     (if list_ex is_not_token_char key then Inl (Http_exception ''Invalid header name'' 400)
      else if get_header key p = [] then Inr (replace_header key val p)
      else Inr (replace_header key (get_header key p @ ascii '', '' @ val) p))"

definition set_body :: "bytes \<Rightarrow> 'a parser_scheme \<Rightarrow> 'a parser_scheme" where
  "set_body value p =
     (if value = [] then (remove_header (ascii ''Content-Length'') p)\<lparr>m_body := []\<rparr>
      else (replace_header (ascii ''Content-Length'') (digits (length value)) p)\<lparr>m_body := value\<rparr>)"

definition prepare_body :: "'a parser_scheme \<Rightarrow> (bool \<times> 'a parser_scheme) result" where
  "prepare_body p =
     (let cl = get_header (ascii ''Content-Length'') p
      in if cl \<noteq> [] then
           let p = p\<lparr>m_body_bytes_needed := strtoul cl\<rparr>
           in if m_body_bytes_max p < m_body_bytes_needed p
              then Inl (Http_exception ''HTTP message body too large'' 413)
              else Inr (True, p\<lparr>m_body_encoding := Plain\<rparr>)
         else Inr (False, p))"

definition process_body :: "bytes \<Rightarrow> 'a parser_scheme \<Rightarrow> (nat \<times> 'a parser_scheme) result" where
  "process_body buf p =
     (case m_body_encoding p of
        Plain \<Rightarrow>
          let n = min (unat (m_body_bytes_needed p)) (length buf)
          in Inr (n, p\<lparr>m_body := m_body p @ take n buf,
                     m_body_bytes_needed := m_body_bytes_needed p - of_nat n\<rparr>)
      | _ \<Rightarrow> Inl (Http_exception ''Unexpected body encoding'' 500))"

definition body_ready :: "'a parser_scheme \<Rightarrow> bool" where
  "body_ready p \<longleftrightarrow> m_body_bytes_needed p = 0"

definition process_header :: "bytes \<Rightarrow> 'a parser_scheme \<Rightarrow> 'a parser_scheme result" where
  "process_header line p =
     (case split_on (ascii '':'') line of
        None \<Rightarrow> Inl (Http_exception ''Invalid header line'' 400)
      | Some (name, val) \<Rightarrow>
          (case strip_lws name of
             Inl e \<Rightarrow> Inl e
           | Inr name \<Rightarrow>
               (case strip_lws val of Inl e \<Rightarrow> Inl e | Inr val \<Rightarrow> append_header name val p)))"

definition raw_headers :: "'a parser_scheme \<Rightarrow> bytes" where
  "raw_headers p = concat (map (\<lambda>(h, v). h @ ascii '': '' @ v @ crlf) (m_headers p))"

subsection \<open>\<open>utilities.hpp\<close>\<close>

text \<open>The position of the first occurrence up to case, or the length of the text.\<close>

fun ci_find_substr :: "bytes \<Rightarrow> bytes \<Rightarrow> nat" where
  "ci_find_substr [] needle = 0"
| "ci_find_substr (c # s) needle =
     (if map toupper (take (length needle) (c # s)) = map toupper needle then 0
      else Suc (ci_find_substr s needle))"

definition to_lower :: "bytes \<Rightarrow> bytes" where "to_lower s = map tolower s"

definition hex_digits :: bytes where "hex_digits = ascii ''0123456789ABCDEF''"

definition to_hex :: "bytes \<Rightarrow> bytes" where
  "to_hex input = concat (map (\<lambda>c. [hex_digits ! unat (drop_bit 4 (c AND 0xF0)),
                                    hex_digits ! unat (c AND 0x0F), 32]) input)"

end
