(* ===== verification/HeaderMap.thy ===== *)
theory HeaderMap
  imports Http "HOL-Library.List_Lexorder"
begin

text \<open>
  The header list as a map: the contract of the container the messages keep their headers in, the
  sorted list that fulfils it, and what the searching and stripping functions of Http guarantee.
\<close>

subsection \<open>The contract\<close>

text \<open>
  A store of headers: \<open>find\<close> sees the last value set under any spelling of the name, \<open>ok\<close> is kept
  by every operation.
\<close>

locale header_store =
  fixes find :: "bytes \<Rightarrow> 's \<Rightarrow> bytes option"
    and set_value :: "bytes \<Rightarrow> bytes \<Rightarrow> 's \<Rightarrow> 's"
    and erase :: "bytes \<Rightarrow> 's \<Rightarrow> 's"
    and ok :: "'s \<Rightarrow> bool"
  assumes find_set: "ok s \<Longrightarrow> find k (set_value h v s) = (if to_lower k = to_lower h then Some v else find k s)"
    and find_erase: "ok s \<Longrightarrow> find k (erase h s) = (if to_lower k = to_lower h then None else find k s)"
    and set_ok: "ok s \<Longrightarrow> ok (set_value h v s)"
    and erase_ok: "ok s \<Longrightarrow> ok (erase h s)"
    and find_case: "to_lower k = to_lower h \<Longrightarrow> find k s = find h s"
begin

lemma set_twice: "ok s \<Longrightarrow> find k (set_value h v (set_value h w s)) = find k (set_value h v s)"
  by (simp add: find_set set_ok)

lemma set_commutes:
  "\<lbrakk>ok s; to_lower h \<noteq> to_lower g\<rbrakk> \<Longrightarrow>
    find k (set_value h v (set_value g w s)) = find k (set_value g w (set_value h v s))"
  by (simp add: find_set set_ok)

lemma set_erase: "ok s \<Longrightarrow> find k (set_value h v (erase h s)) = find k (set_value h v s)"
  by (simp add: find_set find_erase erase_ok)

lemma sets_ok: "ok s \<Longrightarrow> ok (fold (\<lambda>(h, v). set_value h v) hs s)"
  by (induction hs arbitrary: s) (auto simp: set_ok)

end

subsection \<open>The sorted list\<close>

lemma ci_less_lower: "ci_less a b \<longleftrightarrow> to_lower a < to_lower b"
  by (induction a b rule: ci_less.induct) (auto simp: to_lower_def)

definition headers_ok :: "header_list \<Rightarrow> bool" where
  "headers_ok hs \<longleftrightarrow> sorted_wrt (<) (map (\<lambda>(h, v). to_lower h) hs)"

definition header_map :: "header_list \<Rightarrow> bytes \<Rightarrow> bytes option" where
  "header_map hs = map_of (map (\<lambda>(h, v). (to_lower h, v)) hs)"

lemma headers_ok_Nil [simp]: "headers_ok []"
  by (simp add: headers_ok_def)

lemma headers_ok_Cons:
  "headers_ok ((h, v) # hs) \<longleftrightarrow> (\<forall>(k, _) \<in> set hs. to_lower h < to_lower k) \<and> headers_ok hs"
  by (auto simp: headers_ok_def)

lemma header_map_Cons [simp]:
  "header_map [] = Map.empty"
  "header_map ((h, v) # hs) = (header_map hs)(to_lower h \<mapsto> v)"
  by (auto simp: header_map_def)

lemma header_map_below:
  "\<forall>(k, _) \<in> set hs. x < to_lower k \<Longrightarrow> header_map hs x = None"
  by (induction hs) auto

lemma find_header_map: "headers_ok hs \<Longrightarrow> find_header k hs = header_map hs (to_lower k)"
proof (induction hs)
  case (Cons p hs)
  obtain h v where p: "p = (h, v)" by (cases p)
  then have le: "\<forall>(q, _) \<in> set hs. to_lower h < to_lower q" and ok: "headers_ok hs"
    using Cons.prems by (simp_all add: headers_ok_Cons)
  consider "to_lower h < to_lower k" | "to_lower k < to_lower h" | "to_lower k = to_lower h"
    by (metis linorder_cases)
  then show ?case
  proof cases
    case 2
    then have "header_map hs (to_lower k) = None"
      using le by (intro header_map_below) auto
    then show ?thesis using 2 p by (auto simp: ci_less_lower)
  qed (use p ok Cons.IH in \<open>auto simp: ci_less_lower\<close>)
qed simp

lemma put_header_names:
  "(q, w) \<in> set (put_header k v hs) \<Longrightarrow> (\<exists>w'. (q, w') \<in> set hs) \<or> q = k"
  by (induction k v hs rule: put_header.induct) (auto split: if_splits)

lemma put_header_ok: "headers_ok hs \<Longrightarrow> headers_ok (put_header k v hs)"
proof (induction k v hs rule: put_header.induct)
  case (2 k v h w hs)
  have le: "\<forall>(q, _) \<in> set hs. to_lower h < to_lower q" and ok: "headers_ok hs"
    using 2(2) by (simp_all add: headers_ok_Cons)
  show ?case
  proof (cases "ci_less h k")
    case True
    have "\<forall>(q, _) \<in> set (put_header k v hs). to_lower h < to_lower q"
      using le True put_header_names [of _ _ k v hs] by (fastforce simp: ci_less_lower)
    then show ?thesis using 2(1) [OF True ok] True by (simp add: headers_ok_Cons)
  next
    case False
    then show ?thesis using 2(2) le by (auto simp: headers_ok_Cons ci_less_lower)
  qed
qed (simp add: headers_ok_Cons)

lemma put_header_map: "headers_ok hs \<Longrightarrow> header_map (put_header k v hs) = (header_map hs)(to_lower k \<mapsto> v)"
proof (induction k v hs rule: put_header.induct)
  case (2 k v h w hs)
  then show ?case by (auto simp: headers_ok_Cons ci_less_lower not_less_iff_gr_or_eq intro!: ext)
qed simp

lemma erase_header_subset: "set (erase_header k hs) \<subseteq> set hs"
  by (induction k hs rule: erase_header.induct) auto

lemma erase_header_ok: "headers_ok hs \<Longrightarrow> headers_ok (erase_header k hs)"
proof (induction k hs rule: erase_header.induct)
  case (2 k h w hs)
  then show ?case using erase_header_subset [of k hs] by (fastforce simp: headers_ok_Cons)
qed simp

lemma erase_header_map: "headers_ok hs \<Longrightarrow> header_map (erase_header k hs) = (header_map hs)(to_lower k := None)"
proof (induction k hs rule: erase_header.induct)
  case (2 k h w hs)
  have le: "\<forall>(q, _) \<in> set hs. to_lower h < to_lower q" and ok: "headers_ok hs"
    using 2(2) by (simp_all add: headers_ok_Cons)
  consider "to_lower h < to_lower k" | "to_lower k < to_lower h" | "to_lower k = to_lower h"
    by (metis linorder_cases)
  then show ?case
  proof cases
    case 1
    then show ?thesis using 2(1) ok by (auto simp: ci_less_lower intro!: ext)
  next
    case 2
    then have "header_map hs (to_lower k) = None" using le by (intro header_map_below) auto
    then show ?thesis using 2 by (auto simp: ci_less_lower intro!: ext)
  next
    case 3
    have "header_map hs (to_lower k) = None" using le 3 by (intro header_map_below) auto
    then show ?thesis using 3 by (auto simp: ci_less_lower)
  qed
qed simp

lemma find_header_case: "to_lower k = to_lower h \<Longrightarrow> find_header k hs = find_header h hs"
  by (induction hs) (auto simp: ci_less_lower)

interpretation headers: header_store find_header put_header erase_header headers_ok
  by unfold_locales
    (simp_all add: find_header_map put_header_ok put_header_map erase_header_ok erase_header_map,
     rule find_header_case)

subsection \<open>Splitting\<close>

lemma split_on_None: "p \<noteq> [] \<Longrightarrow> split_on p s = None \<longleftrightarrow> (\<forall>a b. s \<noteq> a @ p @ b)"
proof
  assume p: "p \<noteq> []"
  show "split_on p s = None \<Longrightarrow> \<forall>a b. s \<noteq> a @ p @ b"
  proof (induction s)
    case Nil
    then show ?case using p by auto
  next
    case (Cons c s)
    then have n: "take (length p) (c # s) \<noteq> p" "split_on p s = None"
      by (auto split: if_splits option.splits)
    show ?case
    proof (intro allI notI)
      fix a b assume e: "c # s = a @ p @ b"
      show False
      proof (cases a)
        case Nil
        then show ?thesis using e n(1) by simp
      next
        case (Cons d a')
        then show ?thesis using e Cons.IH [OF n(2)] by simp
      qed
    qed
  qed
  show "\<forall>a b. s \<noteq> a @ p @ b \<Longrightarrow> split_on p s = None"
    using split_on_append [of p s] by (cases "split_on p s") auto
qed

definition no_crlf :: "bytes \<Rightarrow> bool" where "no_crlf s \<longleftrightarrow> split_on crlf s = None"

lemma no_crlf_iff: "no_crlf s \<longleftrightarrow> (\<forall>a b. s \<noteq> a @ crlf @ b)"
  by (simp add: no_crlf_def split_on_None crlf_def)

lemma no_crlf_part: "no_crlf (a @ b @ c) \<Longrightarrow> no_crlf b"
  unfolding no_crlf_iff by (metis append.assoc)

lemma no_crlf_parts: "no_crlf (a @ b) \<Longrightarrow> no_crlf a" "no_crlf (a @ b) \<Longrightarrow> no_crlf b"
  using no_crlf_part [of "[]" a b] no_crlf_part [of a b "[]"] by simp_all

lemma no_crlf_Nil [simp]: "no_crlf []"
  by (simp add: no_crlf_iff crlf_def)

lemma split_on_first:
  assumes "split_on p s = Some (a, b)" "p \<noteq> []"
  shows "\<forall>c d. a @ butlast p \<noteq> c @ p @ d"
  using assms
proof (induction s arbitrary: a)
  case (Cons x s)
  show ?case
  proof (cases "take (length p) (x # s) = p")
    case True
    then have "a = []" using Cons.prems by simp
    then show ?thesis
      using Cons.prems(2) by (metis append_Nil butlast_append length_append length_butlast
          append_butlast_last_id not_add_less1 length_append_singleton less_Suc_eq add_lessD1 add.commute)
  next
    case False
    then obtain a' where a: "a = x # a'" "split_on p s = Some (a', b)"
      using Cons.prems by (auto split: option.splits)
    have s: "s = a' @ p @ b" using split_on_append [OF a(2)] .
    show ?thesis
    proof (intro allI notI)
      fix c d assume e: "a @ butlast p = c @ p @ d"
      show False
      proof (cases c)
        case Nil
        then have "take (length p) (a @ butlast p) = p" using e by simp
        moreover have "take (length p) (x # s) = take (length p) (a @ butlast p)"
          unfolding a(1) s using Cons.prems(2)
          by (cases p rule: rev_cases) (auto simp: take_Cons' take_append)
        ultimately show ?thesis using False by simp
      next
        case (Cons y c')
        then have "a' @ butlast p = c' @ p @ d" using e a(1) by simp
        then show ?thesis using Cons.IH [OF a(2) Cons.prems(2)] by blast
      qed
    qed
  qed
qed simp

lemma split_line:
  assumes "split_on crlf s = Some (a, b)"
  shows "no_crlf a" "s = a @ crlf @ b"
proof -
  have "\<forall>c d. a @ [13] \<noteq> c @ crlf @ d" using split_on_first [OF assms] by (simp add: crlf_def)
  then show "no_crlf a" unfolding no_crlf_iff by (metis append.assoc)
  show "s = a @ crlf @ b" by (rule split_on_append [OF assms])
qed

subsection \<open>White space\<close>

lemma extract_lws_suffix: "\<exists>pre. s = pre @ extract_lws s"
proof -
  have "\<exists>pre. s = pre @ dropWhile is_whitespace_char s"
    by (rule exI [of _ "takeWhile is_whitespace_char s"]) simp
  moreover have "\<exists>pre. s = pre @ dropWhile is_whitespace_char (drop 3 s)"
    by (rule exI [of _ "take 3 s @ takeWhile is_whitespace_char (drop 3 s)"]) simp
  ultimately show ?thesis by (simp add: extract_lws_def)
qed

lemma extract_all_lws_suffix: "\<exists>pre. s = pre @ extract_all_lws s"
proof (induction s rule: extract_all_lws.induct)
  case (1 s)
  obtain pre where p: "s = pre @ extract_lws s" using extract_lws_suffix by blast
  show ?case
  proof (cases "extract_lws s \<noteq> [] \<and> length s \<noteq> length (extract_lws s)")
    case True
    then obtain pre' where q: "extract_lws s = pre' @ extract_all_lws (extract_lws s)" using 1 by blast
    have "extract_all_lws s = extract_all_lws (extract_lws s)"
      using True by (simp add: extract_all_lws.simps [of s] Let_def)
    then have "s = (pre @ pre') @ extract_all_lws s" using p q by simp
    then show ?thesis by blast
  next
    case False
    then have "extract_all_lws s = extract_lws s" by (auto simp: extract_all_lws.simps [of s] Let_def)
    then show ?thesis using p by auto
  qed
qed

lemma extract_lws_head: "extract_lws s = c # t \<Longrightarrow> \<not> is_whitespace_char c"
  by (simp add: extract_lws_def dropWhile_eq_Cons_conv)

lemma extract_all_lws_head: "extract_all_lws s = c # t \<Longrightarrow> \<not> is_whitespace_char c"
proof (induction s rule: extract_all_lws.induct)
  case (1 s)
  then show ?case
    using extract_lws_head [of s c t]
    by (cases "extract_lws s \<noteq> [] \<and> length s \<noteq> length (extract_lws s)")
      (auto simp: extract_all_lws.simps [of s] Let_def)
qed

lemma extract_lws_plain: "no_crlf s \<Longrightarrow> extract_lws s = dropWhile is_whitespace_char s"
proof -
  assume n: "no_crlf s"
  have "\<not> (length s > 2 \<and> s ! 0 = 13 \<and> s ! 1 = 10)"
  proof
    assume "length s > 2 \<and> s ! 0 = 13 \<and> s ! 1 = 10"
    then have "s = [] @ crlf @ drop 2 s"
      by (cases s; cases "tl s") (auto simp: crlf_def)
    then show False using n unfolding no_crlf_iff by blast
  qed
  then show ?thesis by (auto simp: extract_lws_def)
qed

lemma no_crlf_dropWhile: "no_crlf s \<Longrightarrow> no_crlf (dropWhile P s)"
  by (metis no_crlf_parts(2) takeWhile_dropWhile_id)

lemma extract_all_lws_plain: "no_crlf s \<Longrightarrow> extract_all_lws s = dropWhile is_whitespace_char s"
proof (induction s rule: extract_all_lws.induct)
  case (1 s)
  then show ?case
    using extract_lws_plain [of s] no_crlf_dropWhile [of s is_whitespace_char]
    by (auto simp: extract_all_lws.simps [of s] Let_def dropWhile_idem)
qed

lemma strip_lws_line:
  assumes "no_crlf s"
  shows "\<exists>r a b. strip_lws s = Inr r \<and> s = a @ r @ b"
proof -
  let ?b = "extract_all_lws s" and ?r = "extract_all_lws (rev s)"
  have b: "?b = dropWhile is_whitespace_char s" by (rule extract_all_lws_plain [OF assms])
  obtain u where u: "rev s = u @ ?r" using extract_all_lws_suffix by blast
  have s: "s = takeWhile is_whitespace_char s @ ?b" using b by simp
  have "length s - length ?b \<le> length ?r" if ne: "?r \<noteq> []"
  proof (rule ccontr)
    assume "\<not> ?thesis"
    then have l: "length ?r < length (takeWhile is_whitespace_char s)"
      using arg_cong [OF s, of length] by simp
    have "s = rev ?r @ rev u" using u by (metis rev_append rev_rev_ident)
    then have "rev ?r = take (length ?r) (takeWhile is_whitespace_char s)"
      using l by (metis append_eq_conv_conj length_rev less_imp_le s take_append diff_is_0_eq take0 append_Nil2)
    then have "set ?r \<subseteq> set (takeWhile is_whitespace_char s)"
      by (metis set_rev set_take_subset)
    then have "\<forall>c \<in> set ?r. is_whitespace_char c" by (auto dest: set_takeWhileD)
    moreover obtain c t where "?r = c # t" using ne by (cases ?r) auto
    ultimately show False using extract_all_lws_head by fastforce
  qed
  then show ?thesis
    unfolding strip_lws_def Let_def
    by (auto intro: exI [of _ "take _ s"]) (metis append_take_drop_id)+
qed

text \<open>A text that begins and ends with visible characters, maybe after one space, is left as it is.\<close>

definition visible :: "u8 \<Rightarrow> bool" where
  "visible c \<longleftrightarrow> \<not> is_whitespace_char c \<and> c \<noteq> 13 \<and> c \<noteq> 10"

definition trimmed :: "bytes \<Rightarrow> bool" where
  "trimmed v \<longleftrightarrow> no_crlf v \<and> (v \<noteq> [] \<longrightarrow> visible (hd v) \<and> visible (last v))"

lemma extract_all_lws_visible: "visible (hd s) \<Longrightarrow> s \<noteq> [] \<Longrightarrow> extract_all_lws s = s"
  by (cases s; subst extract_all_lws.simps) (auto simp: extract_lws_def visible_def Let_def)

lemma strip_trimmed:
  assumes "trimmed v"
  shows "strip_lws v = Inr v" "strip_lws (32 # v) = Inr v"
proof -
  show "strip_lws v = Inr v"
    using assms extract_all_lws_visible [of v] extract_all_lws_visible [of "rev v"]
    by (cases "v = []") (auto simp: trimmed_def strip_lws_def Let_def hd_rev extract_all_lws.simps [of "[]"]
        extract_lws_def)
  show "strip_lws (32 # v) = Inr v"
  proof (cases "v = []")
    case True
    then show ?thesis
      by (simp add: strip_lws_def extract_all_lws.simps [of "[32]"] extract_lws_def is_whitespace_char_def Let_def)
  next
    case False
    have v: "visible (hd v)" "visible (last v)" using assms False by (simp_all add: trimmed_def)
    have "extract_lws (32 # v) = v"
      using False v by (cases v) (auto simp: extract_lws_def is_whitespace_char_def visible_def)
    then have "extract_all_lws (32 # v) = v"
      using False v extract_all_lws_visible [of v] by (subst extract_all_lws.simps) simp
    moreover have "extract_all_lws (rev v @ [32]) = rev v @ [32]"
      using False v by (intro extract_all_lws_visible) (simp_all add: hd_append hd_rev)
    ultimately show ?thesis using False by (simp add: strip_lws_def Let_def)
  qed
qed

end
