(* ===== verification/Request.thy ===== *)
theory Request
  imports HeaderMap
begin

text \<open>
  \<open>http/request.hpp\<close> and \<open>http/impl/request.hpp\<close>: reading a request from the wire in portions, and
  writing it. The record extends \<open>parser\<close> as the class does. \<open>Length_error\<close> and \<open>Out_of_range\<close> are
  what the code must not reach: the former an exception the callers do not catch, the latter a use
  of the freed buffer or a read behind the bytes given.
\<close>

subsection \<open>The class\<close>

record request = parser +
  m_buf :: "bytes option"
  m_method :: bytes
  m_uri :: bytes
  m_ready :: bool

definition new_request :: request where
  "new_request =
     \<lparr>m_version = [], m_headers = [], m_header_bytes = 0, m_body = [], m_body_bytes_needed = 0,
      m_body_bytes_max = max_body_size, m_body_encoding = Encoding_unknown, m_buf = Some [],
      m_method = [], m_uri = [], m_ready = False\<rparr>"

definition set_method :: "bytes \<Rightarrow> request \<Rightarrow> request result" where
  "set_method m r =
     (if list_ex is_not_token_char m then Inl (Http_exception ''Invalid method token.'' 400)
      else Inr (r\<lparr>m_method := m\<rparr>))"

definition process_request_line :: "bytes \<Rightarrow> request \<Rightarrow> request result" where
  "process_request_line line r =
     (case split_on [32] line of
        None \<Rightarrow> Inl (Http_exception ''Invalid request line1'' 400)
      | Some (m, rest) \<Rightarrow>
          (case set_method m r of
             Inl e \<Rightarrow> Inl e
           | Inr r \<Rightarrow>
               (case split_on [32] rest of
                  None \<Rightarrow> Inl (Http_exception ''Invalid request line2'' 400)
                | Some (u, v) \<Rightarrow> Inr (r\<lparr>m_uri := u, m_version := v\<rparr>))))"

text \<open>A blank line; \<open>rest\<close> is what follows it in the buffer, \<open>inp\<close> the bytes of this call.\<close>

definition blank_line :: "bytes \<Rightarrow> bytes \<Rightarrow> request \<Rightarrow> (nat \<times> request) result" where
  "blank_line inp rest r =
     (if m_method r = [] \<or> get_header (ascii ''Host'') r = []
      then Inl (Http_exception ''Incomplete Request'' 400)
      else if length inp < length rest then Inl Out_of_range
      else
        let n = length inp - length rest; r = r\<lparr>m_buf := None\<rparr>
        in case prepare_body r of
             Inl e \<Rightarrow> Inl e
           | Inr (False, r) \<Rightarrow> Inr (n, r\<lparr>m_ready := True\<rparr>)
           | Inr (True, r) \<Rightarrow>
               (case process_body (drop n inp) r of
                  Inl e \<Rightarrow> Inl e
                | Inr (k, r) \<Rightarrow> Inr (n + k, if body_ready r then r\<lparr>m_ready := True\<rparr> else r)))"

text \<open>
  The loop over the lines of the buffer. The size of the delimiter array, which is added for each
  line, includes its terminating zero.
\<close>

function head_loop :: "bytes \<Rightarrow> bytes \<Rightarrow> request \<Rightarrow> (nat \<times> request) result" where
  "head_loop inp rest r =
     (let found = split_on crlf rest;
          n = (case found of None \<Rightarrow> length rest | Some (line, _) \<Rightarrow> length line);
          r = r\<lparr>m_header_bytes := m_header_bytes r + (n + 3)\<rparr>
      in if max_header_size < m_header_bytes r
         then Inl (Http_exception ''Maximum header size exceeded.'' 431)
         else case found of
                None \<Rightarrow>
                  Inr (length inp, r\<lparr>m_buf := Some rest, m_header_bytes := m_header_bytes r - length rest\<rparr>)
              | Some (line, rest) \<Rightarrow>
                  if line = [] then blank_line inp rest r
                  else case (if m_method r = [] then process_request_line line r else process_header line r) of
                         Inl e \<Rightarrow> Inl e
                       | Inr r \<Rightarrow> head_loop inp rest r)"
  by pat_completeness auto
termination
  by (relation "measure (\<lambda>(_, rest, _). length rest)") (auto simp: crlf_def dest: split_on_length [OF sym])

declare head_loop.simps [simp del]

definition consume_request :: "bytes \<Rightarrow> request \<Rightarrow> (nat \<times> request) result" where
  "consume_request inp r =
     (if m_ready r then Inr (0, r)
      else if 0 < m_body_bytes_needed r then
        (case process_body inp r of
           Inl e \<Rightarrow> Inl e
         | Inr (n, r) \<Rightarrow> Inr (n, if body_ready r then r\<lparr>m_ready := True\<rparr> else r))
      else case m_buf r of
             None \<Rightarrow> Inl Out_of_range
           | Some buf \<Rightarrow> head_loop inp (buf @ inp) r)"

definition raw_head :: "request \<Rightarrow> bytes" where
  "raw_head r = m_method r @ [32] @ m_uri r @ [32] @ m_version r @ crlf @ raw_headers r @ crlf"

definition raw_request :: "request \<Rightarrow> bytes" where
  "raw_request r = raw_head r @ m_body r"

subsection \<open>Well-formed requests\<close>

definition token :: "bytes \<Rightarrow> bool" where "token s \<longleftrightarrow> \<not> list_ex is_not_token_char s"

text \<open>
  What every request read from the wire satisfies: the type of its parts, and the state of the
  reader, which is in the head, in the body or done.
\<close>

definition well_typed :: "request \<Rightarrow> bool" where
  "well_typed r \<longleftrightarrow> token (m_method r) \<and> 32 \<notin> set (m_uri r) \<and> headers_ok (m_headers r)
     \<and> (\<forall>(h, v) \<in> set (m_headers r). token h)"

definition reader_ok :: "request \<Rightarrow> bool" where
  "reader_ok r \<longleftrightarrow>
     (case m_buf r of
        Some buf \<Rightarrow> no_crlf buf \<and> length buf \<le> max_header_size \<and> m_body_bytes_needed r = 0
                    \<and> \<not> m_ready r \<and> m_body r = []
      | None \<Rightarrow> (m_ready r \<longleftrightarrow> m_body_bytes_needed r = 0)
                 \<and> (0 < m_body_bytes_needed r \<longrightarrow> m_body_encoding r = Plain)
                 \<and> m_method r \<noteq> [] \<and> get_header (ascii ''Host'') r \<noteq> []
                 \<and> length (m_body r) + unat (m_body_bytes_needed r) \<le> unat (m_body_bytes_max r))"

lemma split_char_parts:
  assumes "split_on [c] line = Some (a, b)" "no_crlf line"
  shows "no_crlf a" "no_crlf b" "c \<notin> set a"
proof -
  have l: "line = a @ [c] @ b" by (rule split_on_append [OF assms(1)])
  then have "no_crlf (a @ [c] @ b)" using assms(2) by simp
  then show "no_crlf a" "no_crlf b" using no_crlf_parts(2) [of "a @ [c]" b] no_crlf_parts(1) by auto
  have "\<forall>x y. a \<noteq> x @ [c] @ y" using split_on_first [OF assms(1)] by simp
  then show "c \<notin> set a" by (metis append_Cons append_Nil in_set_conv_decomp)
qed

lemma process_header_result:
  assumes "no_crlf line"
  shows "(\<exists>m c. process_header line p = Inl (Http_exception m c))
    \<or> (\<exists>k v. process_header line p = Inr (replace_header k v p) \<and> token k)"
proof (cases "split_on (ascii '':'') line")
  case None
  then show ?thesis by (simp add: process_header_def)
next
  case (Some ab)
  obtain a b where ab: "ab = (a, b)" by (cases ab)
  have c: "ascii '':'' = [58]" by (simp add: ascii_def)
  have "no_crlf a" "no_crlf b" using split_char_parts [of 58 line a b] Some ab assms c by auto
  then obtain k v where "strip_lws a = Inr k" "strip_lws b = Inr v" using strip_lws_line by blast
  then show ?thesis
    using Some ab by (auto simp: process_header_def append_header_def token_def)
qed

lemma process_request_line_result:
  assumes "no_crlf line"
  shows "(\<exists>m c. process_request_line line r = Inl (Http_exception m c))
    \<or> (\<exists>m u v. process_request_line line r = Inr (r\<lparr>m_method := m, m_uri := u, m_version := v\<rparr>)
         \<and> token m \<and> 32 \<notin> set u)"
proof (cases "split_on [32] line")
  case None
  then show ?thesis by (simp add: process_request_line_def)
next
  case (Some ab)
  obtain a b where ab: "ab = (a, b)" by (cases ab)
  then have "no_crlf b" using split_char_parts [of 32 line a b] Some assms by auto
  then show ?thesis
    using Some ab split_char_parts(3) [of 32 b]
    by (auto simp: process_request_line_def set_method_def token_def split: option.splits)
qed

lemma well_typed_simps [simp]:
  "well_typed (r\<lparr>m_header_bytes := n\<rparr>) = well_typed r" "well_typed (r\<lparr>m_buf := b\<rparr>) = well_typed r"
  "well_typed (r\<lparr>m_ready := x\<rparr>) = well_typed r" "well_typed (r\<lparr>m_body_bytes_needed := w\<rparr>) = well_typed r"
  "well_typed (r\<lparr>m_body_encoding := e\<rparr>) = well_typed r" "well_typed (r\<lparr>m_body := bs\<rparr>) = well_typed r"
  by (simp_all add: well_typed_def)

lemma well_typed_header: "\<lbrakk>well_typed r; token k\<rbrakk> \<Longrightarrow> well_typed (replace_header k v r)"
  using put_header_names [of _ _ k v "m_headers r"]
  by (fastforce simp: well_typed_def replace_header_def put_header_ok)

lemma well_typed_line:
  "\<lbrakk>well_typed r; token m; 32 \<notin> set u\<rbrakk> \<Longrightarrow> well_typed (r\<lparr>m_method := m, m_uri := u, m_version := v\<rparr>)"
  by (simp add: well_typed_def)

text \<open>The body, from the counter to the result.\<close>

lemma process_body_ok:
  assumes "m_body_encoding r = Plain" and "process_body inp r = Inr (n, r')" and "well_typed r"
    and "length (m_body r) + unat (m_body_bytes_needed r) \<le> unat (m_body_bytes_max r)"
    and "m_buf r = None" and "\<not> m_ready r" and "m_method r \<noteq> []" and "get_header (ascii ''Host'') r \<noteq> []"
  shows "let r'' = (if body_ready r' then r'\<lparr>m_ready := True\<rparr> else r')
    in well_typed r'' \<and> reader_ok r'' \<and> n \<le> length inp \<and> m_body_bytes_max r'' = m_body_bytes_max r
       \<and> (\<not> m_ready r'' \<longrightarrow> n = length inp)"
proof -
  let ?k = "min (unat (m_body_bytes_needed r)) (length inp)"
  have u: "unat (m_body_bytes_needed r - of_nat ?k) = unat (m_body_bytes_needed r) - ?k"
    by (rule u64_minus_of_nat) simp
  have r': "n = ?k" "r' = r\<lparr>m_body := m_body r @ take ?k inp,
      m_body_bytes_needed := m_body_bytes_needed r - of_nat ?k\<rparr>"
    using assms(1,2) by (auto simp: process_body_def Let_def)
  have z: "m_body_bytes_needed r - of_nat ?k = 0 \<longleftrightarrow> unat (m_body_bytes_needed r) \<le> length inp"
    using u by (auto simp: unat_eq_0 [symmetric] min_def split: if_splits)
  show ?thesis
    using assms u z unfolding r' reader_ok_def body_ready_def Let_def
    by (auto simp: word_gt_0 min_def get_header_def split: if_splits)
qed

definition good_result :: "bytes \<Rightarrow> request \<Rightarrow> (nat \<times> request) result \<Rightarrow> bool" where
  "good_result inp r res \<longleftrightarrow>
     (case res of
        Inl e \<Rightarrow> (case e of Http_exception m c \<Rightarrow> True | _ \<Rightarrow> False)
      | Inr (n, r') \<Rightarrow> well_typed r' \<and> reader_ok r' \<and> n \<le> length inp
          \<and> m_body_bytes_max r' = m_body_bytes_max r \<and> (\<not> m_ready r' \<longrightarrow> n = length inp))"

lemma good_result_count [simp]: "good_result inp (r\<lparr>m_header_bytes := n\<rparr>) = good_result inp r"
  by (intro ext) (auto simp: good_result_def split: sum.splits exn.splits prod.splits)

lemma good_result_max: "m_body_bytes_max r' = m_body_bytes_max r \<Longrightarrow> good_result inp r' = good_result inp r"
  by (intro ext) (simp only: good_result_def)

lemma get_header_buf [simp]: "get_header k (r\<lparr>m_buf := b\<rparr>) = get_header k r"
  "get_header k (r\<lparr>m_body_bytes_needed := w\<rparr>) = get_header k r"
  "get_header k (r\<lparr>m_body_encoding := e\<rparr>) = get_header k r"
  "get_header k (r\<lparr>m_header_bytes := m\<rparr>) = get_header k r"
  "get_header k (r\<lparr>m_ready := x\<rparr>) = get_header k r" for r :: request
  by (simp_all add: get_header_def)

lemma blank_line_ok:
  assumes "well_typed r" "m_body_bytes_needed r = 0" "\<not> m_ready r" "m_body r = []"
    and "length rest \<le> length inp"
  shows "good_result inp r (blank_line inp rest r)"
proof (cases "m_method r = [] \<or> get_header (ascii ''Host'') r = []")
  case True
  then show ?thesis by (auto simp: blank_line_def good_result_def)
next
  case False
  let ?r = "r\<lparr>m_buf := None\<rparr>" and ?n = "length inp - length rest"
  let ?cl = "get_header (ascii ''Content-Length'') ?r"
  show ?thesis
  proof (cases "?cl = []")
    case True
    then show ?thesis
      using False assms by (simp add: blank_line_def good_result_def prepare_body_def reader_ok_def Let_def)
  next
    case cl: False
    show ?thesis
    proof (cases "m_body_bytes_max r < strtoul ?cl")
      case True
      then show ?thesis
        using False cl assms by (simp add: blank_line_def good_result_def prepare_body_def Let_def)
    next
      case fits: False
      let ?r2 = "?r\<lparr>m_body_bytes_needed := strtoul ?cl, m_body_encoding := Plain\<rparr>"
      obtain k r3 where b: "process_body (drop ?n inp) ?r2 = Inr (k, r3)"
        by (cases "process_body (drop ?n inp) ?r2") (auto simp: process_body_def Let_def)
      have "length (m_body ?r2) + unat (m_body_bytes_needed ?r2) \<le> unat (m_body_bytes_max ?r2)"
        using fits assms(4) by (simp add: not_less word_le_nat_alt)
      from process_body_ok [OF _ b _ this] False assms
      have "let r'' = (if body_ready r3 then r3\<lparr>m_ready := True\<rparr> else r3)
        in well_typed r'' \<and> reader_ok r'' \<and> k \<le> length (drop ?n inp)
           \<and> m_body_bytes_max r'' = m_body_bytes_max r
           \<and> (\<not> m_ready r'' \<longrightarrow> k = length (drop ?n inp))" by simp
      then show ?thesis
        using False cl fits assms(5) b
        by (auto simp: blank_line_def good_result_def prepare_body_def Let_def)
    qed
  qed
qed

lemma split_behind_buffer:
  assumes "split_on crlf (buf @ inp) = Some (a, b)" "no_crlf buf"
  shows "length b \<le> length inp"
proof (rule ccontr)
  assume "\<not> ?thesis"
  moreover have e: "buf @ inp = (a @ crlf) @ b" using split_on_append [OF assms(1)] by simp
  ultimately obtain x where "buf = (a @ crlf) @ x"
    by (auto simp: append_eq_append_conv2)
  then show False using assms(2) by (auto simp: no_crlf_iff)
qed

lemma head_loop_ok:
  assumes "well_typed r" "m_body_bytes_needed r = 0" "\<not> m_ready r" "m_body r = []"
    and "length rest \<le> length inp \<or> (\<exists>buf. rest = buf @ inp \<and> no_crlf buf)"
  shows "good_result inp r (head_loop inp rest r)"
  using assms
proof (induction inp rest r rule: head_loop.induct)
  case (1 inp rest r)
  show ?case
  proof (cases "split_on crlf rest")
    case None
    then show ?thesis
      using 1(2-5) by (subst head_loop.simps)
        (auto simp: good_result_def reader_ok_def no_crlf_def Let_def)
  next
    case (Some ab)
    obtain line rest' where ab: "ab = (line, rest')" by (cases ab)
    let ?r = "r\<lparr>m_header_bytes := m_header_bytes r + (length line + 3)\<rparr>"
    have l: "no_crlf line" using split_line Some ab by simp
    have le: "length rest' \<le> length inp"
      using 1(6) split_behind_buffer split_on_length [of crlf rest line rest'] Some ab by auto
    show ?thesis
    proof (cases "max_header_size < m_header_bytes ?r")
      case True
      then show ?thesis
        using Some ab by (subst head_loop.simps) (simp add: good_result_def Let_def)
    next
      case size: False
      show ?thesis
      proof (cases "line = []")
        case True
        have "good_result inp ?r (blank_line inp rest' ?r)"
          using 1(2-5) le by (intro blank_line_ok) simp_all
        then show ?thesis
          using True Some ab size by (subst head_loop.simps) (simp add: Let_def)
      next
        case line: False
        let ?p = "if m_method ?r = [] then process_request_line line ?r else process_header line ?r"
        have p: "(\<exists>m c. ?p = Inl (Http_exception m c))
          \<or> (\<exists>r'. ?p = Inr r' \<and> well_typed r' \<and> m_body_bytes_needed r' = 0 \<and> \<not> m_ready r'
               \<and> m_body r' = [] \<and> m_body_bytes_max r' = m_body_bytes_max r)"
          using process_request_line_result [OF l, of ?r] process_header_result [OF l, of ?r] 1(2-5)
            well_typed_header [of ?r] well_typed_line [of ?r]
          by (auto simp: replace_header_def)
        then show ?thesis
        proof
          assume "\<exists>m c. ?p = Inl (Http_exception m c)"
          then show ?thesis
            using Some ab size line by (subst head_loop.simps) (auto simp: good_result_def Let_def)
        next
          assume "\<exists>r'. ?p = Inr r' \<and> well_typed r' \<and> m_body_bytes_needed r' = 0 \<and> \<not> m_ready r'
               \<and> m_body r' = [] \<and> m_body_bytes_max r' = m_body_bytes_max r"
          then obtain r' where r': "?p = Inr r'" "well_typed r'" "m_body_bytes_needed r' = 0" "\<not> m_ready r'"
            "m_body r' = []" "m_body_bytes_max r' = m_body_bytes_max r" by blast
          have "good_result inp r' (head_loop inp rest' r')"
            by (rule 1(1) [OF refl refl refl, of ab line rest' r']) (use size Some ab line r' le in auto)
          moreover have "head_loop inp rest r = head_loop inp rest' r'"
            using Some ab size line r'(1)
            by (subst head_loop.simps) (cases "m_method r = []"; simp add: Let_def)
          ultimately show ?thesis using good_result_max [OF r'(6)] by simp
        qed
      qed
    qed
  qed
qed

lemma consume_request_good:
  assumes "well_typed r" "reader_ok r"
  shows "good_result inp r (consume_request inp r)"
proof (cases "m_buf r")
  case None
  show ?thesis
  proof (cases "0 < m_body_bytes_needed r")
    case True
    obtain k r' where b: "process_body inp r = Inr (k, r')"
      using assms(2) True None by (cases "process_body inp r") (auto simp: process_body_def reader_ok_def Let_def)
    have "\<not> m_ready r" using assms(2) True None by (auto simp: reader_ok_def)
    then show ?thesis
      using process_body_ok [OF _ b] assms True None b
      by (auto simp: reader_ok_def consume_request_def good_result_def Let_def)
  next
    case False
    then show ?thesis using assms None by (auto simp: reader_ok_def consume_request_def good_result_def word_gt_0)
  qed
next
  case (Some buf)
  then have b: "no_crlf buf" "m_body_bytes_needed r = 0" "\<not> m_ready r" "m_body r = []"
    using assms(2) by (simp_all add: reader_ok_def)
  then show ?thesis
    using head_loop_ok [of r "buf @ inp" inp] assms(1) Some by (auto simp: consume_request_def)
qed

text \<open>C23: reading a request never raises anything but an HTTP exception, for any bytes in any
  portions; a request read so far is well typed, its body within the limit, and unless it is complete
  all bytes are used.\<close>

theorem consume_request_safe:
  assumes "well_typed r" "reader_ok r"
  shows "good_result inp r (consume_request inp r)"
  using consume_request_good [OF assms] .

lemma consume_request_safe_witness:
  "good_result (ascii ''GET /'') new_request (consume_request (ascii ''GET /'') new_request)"
  by (rule consume_request_safe)
    (simp_all add: well_typed_def reader_ok_def new_request_def token_def crlf_def)

subsection \<open>Writing and reading\<close>

lemma not_token_chars: "is_not_token_char 58" "is_not_token_char 13" "is_not_token_char 10"
  "is_not_token_char 32" "is_not_token_char 9"
  by (code_simp, code_simp, code_simp, code_simp, code_simp)

lemma token_chars: "\<lbrakk>token s; c \<in> set s\<rbrakk> \<Longrightarrow> visible c \<and> c \<noteq> 58 \<and> c \<noteq> 13 \<and> c \<noteq> 32"
  using not_token_chars by (auto simp: token_def list_ex_iff visible_def is_whitespace_char_def)

lemma no_crlf_no_cr: "13 \<notin> set s \<Longrightarrow> no_crlf s"
  by (auto simp: no_crlf_iff crlf_def)

lemma token_trimmed: "token s \<Longrightarrow> trimmed s"
  using token_chars [of s] no_crlf_no_cr [of s] by (auto simp: trimmed_def)

lemma split_char_here: "c \<notin> set a \<Longrightarrow> split_on [c] (a @ c # b) = Some (a, b)"
  by (induction a) auto

lemma split_crlf_here: "no_crlf a \<Longrightarrow> split_on crlf (a @ crlf @ b) = Some (a, b)"
proof (induction a)
  case (Cons c a)
  have "no_crlf a" using Cons.prems no_crlf_parts(2) [of "[c]" a] by simp
  moreover have "take 2 (c # a @ crlf @ b) \<noteq> crlf"
  proof
    assume "take 2 (c # a @ crlf @ b) = crlf"
    then have "c = 13" "hd (a @ crlf) = 10" by (cases a; simp add: crlf_def)+
    then have "c # a = [] @ crlf @ tl a" by (cases a) (simp_all add: crlf_def)
    then show False using Cons.prems unfolding no_crlf_iff by blast
  qed
  ultimately show ?case using Cons.IH by (simp add: crlf_def)
qed (simp add: crlf_def)

text \<open>One line of the head, the size limit aside.\<close>

lemma head_loop_line:
  assumes "no_crlf line" "line \<noteq> []" and "m_header_bytes r + (length line + 3) \<le> max_header_size"
    and "(if m_method r = [] then process_request_line line (r\<lparr>m_header_bytes := m_header_bytes r + (length line + 3)\<rparr>)
          else process_header line (r\<lparr>m_header_bytes := m_header_bytes r + (length line + 3)\<rparr>)) = Inr r'"
  shows "head_loop inp (line @ crlf @ rest) r = head_loop inp rest r'"
  using assms split_crlf_here [OF assms(1), of rest]
  by (subst head_loop.simps) (cases "m_method r = []"; simp add: Let_def not_less)

text \<open>A request that can be sent: its parts keep to the syntax of the wire.\<close>

definition request_sendable :: "request \<Rightarrow> bool" where
  "request_sendable r \<longleftrightarrow> token (m_method r) \<and> m_method r \<noteq> [] \<and> 32 \<notin> set (m_uri r) \<and> 13 \<notin> set (m_uri r)
     \<and> 13 \<notin> set (m_version r) \<and> headers_ok (m_headers r)
     \<and> (\<forall>(h, v) \<in> set (m_headers r). token h \<and> trimmed v)
     \<and> get_header (ascii ''Host'') r \<noteq> [] \<and> get_header (ascii ''Content-Length'') r = []
     \<and> length (raw_head r) + length (m_headers r) + 2 \<le> max_header_size"

lemma put_header_last: "\<forall>(h, w) \<in> set hs. to_lower h < to_lower k \<Longrightarrow> put_header k v hs = hs @ [(k, v)]"
  by (induction hs) (auto simp: ci_less_lower)

lemma header_map_above: "\<forall>(k, w) \<in> set hs. to_lower k < x \<Longrightarrow> header_map hs x = None"
  by (induction hs) auto

lemma process_header_line:
  assumes "token h" "trimmed v" and new: "\<forall>(k, w) \<in> set (m_headers r). to_lower k < to_lower h"
    and ok: "headers_ok (m_headers r)"
  shows "process_header (h @ ascii '': '' @ v) r = Inr (r\<lparr>m_headers := m_headers r @ [(h, v)]\<rparr>)"
proof -
  have c: "ascii '':'' = [58]" "ascii '': '' = [58, 32]" by (simp_all add: ascii_def)
  have "58 \<notin> set h" using token_chars [OF assms(1)] by blast
  then have "split_on [58] (h @ 58 # 32 # v) = Some (h, 32 # v)" by (rule split_char_here)
  moreover have "get_header h r = []"
    using ok header_map_above [OF new] by (simp add: get_header_def find_header_map)
  ultimately show ?thesis
    using assms strip_trimmed [OF token_trimmed [OF assms(1)]] strip_trimmed [OF assms(2)] put_header_last [OF new]
    by (simp add: process_header_def c append_header_def token_def replace_header_def)
qed

lemma no_crlf_after: "13 \<notin> set a \<Longrightarrow> no_crlf b \<Longrightarrow> no_crlf (a @ b)"
proof (induction a)
  case (Cons c a)
  then have "split_on crlf (a @ b) = None" by (simp add: no_crlf_def)
  then show ?case using Cons.prems(1) by (simp add: no_crlf_def crlf_def)
qed simp

definition header_line :: "bytes \<times> bytes \<Rightarrow> bytes" where
  "header_line = (\<lambda>(h, v). h @ ascii '': '' @ v)"

lemma header_line_ok:
  assumes "token h" "trimmed v"
  shows "no_crlf (header_line (h, v))" "header_line (h, v) \<noteq> []"
proof -
  have "13 \<notin> set (h @ ascii '': '')" using token_chars [OF assms(1)] by (auto simp: ascii_def)
  then have "no_crlf ((h @ ascii '': '') @ v)" using assms(2) by (intro no_crlf_after) (auto simp: trimmed_def)
  then show "no_crlf (header_line (h, v))" by (simp add: header_line_def)
  show "header_line (h, v) \<noteq> []" by (simp add: header_line_def ascii_def)
qed

text \<open>All header lines, in the order of the list.\<close>

lemma head_loop_headers:
  assumes "m_method r \<noteq> []" and "headers_ok (m_headers r @ hs)"
    and "\<forall>(h, v) \<in> set hs. token h \<and> trimmed v"
    and "m_header_bytes r + sum_list (map (\<lambda>p. length (header_line p) + 3) hs) \<le> max_header_size"
  shows "head_loop inp (concat (map (\<lambda>p. header_line p @ crlf) hs) @ rest) r =
    head_loop inp rest (r\<lparr>m_headers := m_headers r @ hs,
      m_header_bytes := m_header_bytes r + sum_list (map (\<lambda>p. length (header_line p) + 3) hs)\<rparr>)"
  using assms
proof (induction hs arbitrary: r)
  case (Cons p hs)
  obtain h v where p: "p = (h, v)" by (cases p)
  then have hv: "token h" "trimmed v" using Cons.prems(3) by auto
  let ?n = "m_header_bytes r + (length (header_line p) + 3)"
  let ?r = "r\<lparr>m_header_bytes := ?n, m_headers := m_headers r @ [(h, v)]\<rparr>"
  have srt: "\<forall>(k, w) \<in> set (m_headers r). to_lower k < to_lower h" "headers_ok (m_headers r)"
    using Cons.prems(2) p by (auto simp: headers_ok_def sorted_wrt_append)
  have "process_header (header_line p) (r\<lparr>m_header_bytes := ?n\<rparr>) = Inr ?r"
    using process_header_line [OF hv, of "r\<lparr>m_header_bytes := ?n\<rparr>"] srt p by (simp add: header_line_def)
  then have "head_loop inp (header_line p @ crlf @ concat (map (\<lambda>p. header_line p @ crlf) hs) @ rest) r
      = head_loop inp (concat (map (\<lambda>p. header_line p @ crlf) hs) @ rest) ?r"
    using header_line_ok [OF hv] p Cons.prems(1,4) by (intro head_loop_line) simp_all
  also have "\<dots> = head_loop inp rest (?r\<lparr>m_headers := m_headers ?r @ hs,
      m_header_bytes := m_header_bytes ?r + sum_list (map (\<lambda>p. length (header_line p) + 3) hs)\<rparr>)"
    using Cons.prems p by (intro Cons.IH) auto
  finally show ?case using p by (simp add: add.assoc)
qed simp

lemma raw_headers_lines: "raw_headers p = concat (map (\<lambda>p. header_line p @ crlf) (m_headers p))"
proof -
  have "(\<lambda>(h, v). h @ ascii '': '' @ v @ crlf) = (\<lambda>p. header_line p @ crlf)"
    by (auto simp: header_line_def)
  then show ?thesis by (simp add: raw_headers_def)
qed

lemma raw_headers_length:
  "sum_list (map (\<lambda>p. length (header_line p) + 3) hs) =
    length (concat (map (\<lambda>p. header_line p @ crlf) hs)) + length hs"
  by (induction hs) (auto simp: crlf_def)

lemma request_line_here:
  assumes "token m" "m \<noteq> []" "32 \<notin> set u"
  shows "process_request_line (m @ [32] @ u @ [32] @ v) r = Inr (r\<lparr>m_method := m, m_uri := u, m_version := v\<rparr>)"
proof -
  have "32 \<notin> set m" using token_chars [OF assms(1)] by blast
  then have "split_on [32] (m @ 32 # u @ 32 # v) = Some (m, u @ 32 # v)" by (rule split_char_here)
  moreover have "split_on [32] (u @ 32 # v) = Some (u, v)" by (rule split_char_here [OF assms(3)])
  ultimately show ?thesis using assms by (simp add: process_request_line_def set_method_def token_def)
qed

text \<open>A portion that ends no line: it is kept, and the counter of header bytes grows by three.\<close>

lemma portion_kept:
  assumes "\<not> m_ready r" "m_body_bytes_needed r = 0" "m_buf r = Some buf" "no_crlf (buf @ inp)"
  shows "consume_request inp r =
    (if max_header_size < m_header_bytes r + length (buf @ inp) + 3
     then Inl (Http_exception ''Maximum header size exceeded.'' 431)
     else Inr (length inp, r\<lparr>m_buf := Some (buf @ inp), m_header_bytes := m_header_bytes r + 3\<rparr>))"
  using assms by (subst consume_request_def) (simp add: head_loop.simps no_crlf_def Let_def)

text \<open>Portions that follow each other, the read loop of the connection without its other effects.\<close>

fun consume_portions :: "bytes list \<Rightarrow> request \<Rightarrow> request result" where
  "consume_portions [] r = Inr r"
| "consume_portions (p # ps) r =
     (case consume_request p r of Inl e \<Rightarrow> Inl e | Inr (_, r) \<Rightarrow> consume_portions ps r)"

lemma portions_kept:
  assumes "\<not> m_ready r" "m_body_bytes_needed r = 0" "m_buf r = Some buf" "no_crlf (buf @ concat ps)"
    and "ps \<noteq> [] \<Longrightarrow> m_header_bytes r + length (buf @ concat ps) + 3 * length ps \<le> max_header_size"
  shows "consume_portions ps r =
    Inr (r\<lparr>m_buf := Some (buf @ concat ps), m_header_bytes := m_header_bytes r + 3 * length ps\<rparr>)"
  using assms
proof (induction ps arbitrary: r buf)
  case (Cons p ps)
  let ?r = "r\<lparr>m_buf := Some (buf @ p), m_header_bytes := m_header_bytes r + 3\<rparr>"
  have "no_crlf ((buf @ p) @ concat ps)" using Cons.prems(4) by simp
  then have "no_crlf (buf @ p)" by (rule no_crlf_parts(1))
  then have "consume_request p r = Inr (length p, ?r)"
    using portion_kept [OF Cons.prems(1-3), of p] Cons.prems(5) by simp
  moreover have "consume_portions ps ?r =
    Inr (?r\<lparr>m_buf := Some ((buf @ p) @ concat ps), m_header_bytes := m_header_bytes ?r + 3 * length ps\<rparr>)"
    using Cons.prems by (intro Cons.IH) simp_all
  ultimately show ?case by (simp add: algebra_simps)
qed simp

lemma portions_decide:
  fixes line :: bytes
  assumes "13 \<notin> set line" "4000 < length line" "length line \<le> 15997"
  shows "\<exists>r. consume_portions [line] new_request = Inr r"
    and "consume_portions (map (\<lambda>c. [c]) line) new_request =
      Inl (Http_exception ''Maximum header size exceeded.'' 431)"
proof -
  have n: "\<not> m_ready new_request" "m_body_bytes_needed new_request = 0" "m_buf new_request = Some []"
    "m_header_bytes new_request = 0" by (simp_all add: new_request_def)
  show "\<exists>r. consume_portions [line] new_request = Inr r"
    using portions_kept [OF n(1-3), of "[line]"] assms n(4) no_crlf_no_cr [of line]
    by (simp add: max_header_size_def)
  let ?a = "map (\<lambda>c. [c]) (take 4000 line)" and ?b = "map (\<lambda>c. [c]) (drop 4000 line)"
  have a: "concat (map (\<lambda>c. [c]) xs) = xs" for xs :: bytes by (induction xs) auto
  have "13 \<notin> set (take 4000 line)" using assms(1) by (auto dest: in_set_takeD)
  then have ok: "consume_portions ?a new_request = Inr (new_request\<lparr>m_buf := Some (take 4000 line),
    m_header_bytes := 12000\<rparr>)"
    using portions_kept [OF n(1-3), of ?a] assms n(4) no_crlf_no_cr by (simp add: a max_header_size_def)
  have split: "consume_portions (ps @ qs) r =
    (case consume_portions ps r of Inl e \<Rightarrow> Inl e | Inr r \<Rightarrow> consume_portions qs r)" for ps qs r
    by (induction ps arbitrary: r) (auto split: sum.splits)
  obtain c cs where c: "drop 4000 line = c # cs" using assms(2) by (cases "drop 4000 line") auto
  have "13 \<notin> set (take 4000 line @ [c])"
    using assms(1) c by (auto dest: in_set_takeD) (metis in_set_dropD list.set_intros(1))
  then have "consume_request [c] (new_request\<lparr>m_buf := Some (take 4000 line), m_header_bytes := 12000\<rparr>) =
      Inl (Http_exception ''Maximum header size exceeded.'' 431)"
    using portion_kept [of "new_request\<lparr>m_buf := Some (take 4000 line), m_header_bytes := 12000\<rparr>"
        "take 4000 line" "[c]"] no_crlf_no_cr n assms(2) by (simp add: max_header_size_def)
  then have "consume_portions (?a @ ?b) new_request = Inl (Http_exception ''Maximum header size exceeded.'' 431)"
    unfolding split ok by (simp add: c)
  then show "consume_portions (map (\<lambda>c. [c]) line) new_request =
      Inl (Http_exception ''Maximum header size exceeded.'' 431)"
    by (simp flip: map_append)
qed

text \<open>the limit on the size of the head counts three bytes for every portion that ends no line,
  so whether a request is accepted depends on how the network cuts it: a line of a few thousand bytes is
  accepted in one portion and rejected when it comes byte by byte.\<close>

theorem limit_depends_on_portions:
  fixes line :: bytes
  assumes "13 \<notin> set line" "4000 < length line" "length line \<le> 15997"
  shows "(\<exists>r. consume_portions [line] new_request = Inr r)
    \<and> consume_portions (map (\<lambda>c. [c]) line) new_request =
      Inl (Http_exception ''Maximum header size exceeded.'' 431)"
  using portions_decide [OF assms] by blast

lemma limit_depends_on_portions_witness:
  "(\<exists>r. consume_portions [replicate 4001 65] new_request = Inr r)
   \<and> consume_portions (map (\<lambda>c. [c]) (replicate 4001 65)) new_request =
      Inl (Http_exception ''Maximum header size exceeded.'' 431)"
  using limit_depends_on_portions [of "replicate 4001 65"] by simp

lemma request_read:
  assumes "request_sendable r"
  shows "\<exists>r'. consume_request (raw_head r @ tail) new_request = Inr (length (raw_head r), r') \<and> m_ready r'
    \<and> m_method r' = m_method r \<and> m_uri r' = m_uri r \<and> m_version r' = m_version r
    \<and> m_headers r' = m_headers r \<and> raw_head r' = raw_head r"
proof -
  let ?line = "m_method r @ [32] @ m_uri r @ [32] @ m_version r"
  let ?inp = "raw_head r @ tail"
  let ?h = "sum_list (map (\<lambda>p. length (header_line p) + 3) (m_headers r))"
  let ?r1 = "new_request\<lparr>m_header_bytes := length ?line + 3, m_method := m_method r, m_uri := m_uri r,
    m_version := m_version r\<rparr>"
  let ?r2 = "?r1\<lparr>m_headers := m_headers r, m_header_bytes := length ?line + 3 + ?h\<rparr>"
  have s: "token (m_method r)" "m_method r \<noteq> []" "32 \<notin> set (m_uri r)" "13 \<notin> set (m_uri r)"
    "13 \<notin> set (m_version r)" "headers_ok (m_headers r)" "\<forall>(h, v) \<in> set (m_headers r). token h \<and> trimmed v"
    "get_header (ascii ''Host'') r \<noteq> []" "get_header (ascii ''Content-Length'') r = []"
    using assms by (simp_all add: request_sendable_def)
  have size: "length ?line + 3 + ?h + 3 \<le> max_header_size"
    using assms by (simp add: request_sendable_def raw_head_def raw_headers_lines raw_headers_length crlf_def)
  have "13 \<notin> set ?line" using s token_chars [OF s(1)] by auto
  then have line: "no_crlf ?line" "?line \<noteq> []" by (auto intro: no_crlf_no_cr)
  have "consume_request ?inp new_request = head_loop ?inp (?line @ crlf @ raw_headers r @ crlf @ tail) new_request"
    by (simp add: consume_request_def new_request_def raw_head_def)
  also have "\<dots> = head_loop ?inp (raw_headers r @ crlf @ tail) ?r1"
    using line size s request_line_here [OF s(1-3), of "m_version r"]
    by (intro head_loop_line) (simp_all add: new_request_def)
  also have "\<dots> = head_loop ?inp (crlf @ tail) ?r2"
    using head_loop_headers [of ?r1 "m_headers r" ?inp "crlf @ tail"] s size
    by (simp add: raw_headers_lines new_request_def)
  also have "\<dots> = blank_line ?inp tail (?r2\<lparr>m_header_bytes := m_header_bytes ?r2 + 3\<rparr>)"
    using size split_crlf_here [OF no_crlf_Nil, of tail] by (subst head_loop.simps) (simp add: Let_def)
  finally have e: "consume_request ?inp new_request = blank_line ?inp tail (?r2\<lparr>m_header_bytes := m_header_bytes ?r2 + 3\<rparr>)" .
  have g: "get_header k (?r2\<lparr>m_header_bytes := n\<rparr>) = get_header k r" "get_header k (?r2\<lparr>m_header_bytes := n, m_buf := None\<rparr>) = get_header k r" for k n
    by (simp_all add: get_header_def)
  show ?thesis
    unfolding e using s g
    by (simp add: blank_line_def prepare_body_def Let_def raw_head_def raw_headers_def)
qed

text \<open>reading what a request writes gives back its method, URI, version and headers, the request
  is complete, and exactly its head is used, whatever follows it in the same portion.\<close>

theorem request_round_trip:
  assumes "request_sendable r"
  shows "\<exists>r'. consume_request (raw_head r @ tail) new_request = Inr (length (raw_head r), r') \<and> m_ready r'
    \<and> m_method r' = m_method r \<and> m_uri r' = m_uri r \<and> m_version r' = m_version r
    \<and> m_headers r' = m_headers r \<and> raw_head r' = raw_head r"
  using request_read [OF assms] .

definition sample_request :: request where
  "sample_request = new_request
     \<lparr>m_method := ascii ''GET'', m_uri := ascii ''/chat'', m_version := ascii ''HTTP/1.1'',
      m_headers := [(ascii ''Connection'', ascii ''Upgrade''), (ascii ''Host'', ascii ''localhost:9002'')]\<rparr>"

lemma sample_sendable: "request_sendable sample_request"
  by code_simp

lemma request_round_trip_witness:
  "\<exists>r'. consume_request (raw_head sample_request @ []) new_request = Inr (length (raw_head sample_request), r')
    \<and> m_ready r' \<and> m_method r' = m_method sample_request \<and> m_uri r' = m_uri sample_request
    \<and> m_version r' = m_version sample_request \<and> m_headers r' = m_headers sample_request
    \<and> raw_head r' = raw_head sample_request"
  by (rule request_round_trip [OF sample_sendable])

end
