(* ===== verification/Response.thy ===== *)
theory Response
  imports Request
begin

text \<open>
  \<open>http/response.hpp\<close> and \<open>http/impl/response.hpp\<close>: reading a response in portions or from a
  stream, and writing it. The members \<open>m_buf\<close> and \<open>m_state\<close> are \<open>resp_buf\<close> and \<open>resp_state\<close> here, next to
  those of the other classes.
\<close>

subsection \<open>The class\<close>

datatype response_state = RESPONSE_LINE | HEADERS | BODY | DONE

record response = parser +
  m_status_msg :: bytes
  m_read :: u64
  resp_buf :: "bytes option"
  m_status_code :: status
  resp_state :: response_state

definition new_response :: response where
  "new_response =
     \<lparr>m_version = [], m_headers = [], m_header_bytes = 0, m_body = [], m_body_bytes_needed = 0,
      m_body_bytes_max = max_body_size, m_body_encoding = Encoding_unknown, m_status_msg = [],
      m_read = 0, resp_buf = Some [], m_status_code = 0, resp_state = RESPONSE_LINE\<rparr>"

definition response_ready :: "response \<Rightarrow> bool" where
  "response_ready r \<longleftrightarrow> resp_state r = DONE"

definition headers_ready :: "response \<Rightarrow> bool" where
  "headers_ready r \<longleftrightarrow> resp_state r = BODY \<or> resp_state r = DONE"

definition set_status :: "status \<Rightarrow> response \<Rightarrow> response" where
  "set_status code r = r\<lparr>m_status_code := code, m_status_msg := status_get_string code\<rparr>"

definition set_status_msg :: "status \<Rightarrow> bytes \<Rightarrow> response \<Rightarrow> response" where
  "set_status_msg code msg r = r\<lparr>m_status_code := code, m_status_msg := msg\<rparr>"

definition process_response_line :: "bytes \<Rightarrow> response \<Rightarrow> response result" where
  "process_response_line line r =
     (case split_on [32] line of
        None \<Rightarrow> Inl (Http_exception ''Invalid response line'' 400)
      | Some (v, rest) \<Rightarrow>
          let r = r\<lparr>m_version := v\<rparr>
          in case split_on [32] rest of
               None \<Rightarrow> Inl (Http_exception ''Invalid request line'' 400)
             | Some (c, msg) \<Rightarrow>
                 (case extract_int c of
                    None \<Rightarrow> Inl (Http_exception ''Unable to parse response code'' 400)
                  | Some code \<Rightarrow> Inr (set_status_msg code msg r)))"

definition response_body :: "bytes \<Rightarrow> response \<Rightarrow> nat \<times> response" where
  "response_body inp r =
     (if m_read r = 0 then (0, r\<lparr>resp_state := DONE\<rparr>)
      else
        let r' = (if unat (m_read r) \<le> length inp then r\<lparr>resp_state := DONE\<rparr> else r);
            k = (if unat (m_read r) \<le> length inp then unat (m_read r) else length inp)
        in (k, r'\<lparr>m_body := m_body r' @ take k inp, m_read := m_read r' - of_nat k\<rparr>))"

text \<open>A blank line; \<open>rest\<close> is what follows it in the buffer, \<open>inp\<close> the bytes of this call.\<close>

definition response_blank_line :: "bytes \<Rightarrow> bytes \<Rightarrow> response \<Rightarrow> (nat \<times> response) result" where
  "response_blank_line inp rest r =
     (if resp_state r = RESPONSE_LINE then Inl (Http_exception ''Incomplete Request'' 400)
      else
        let cl = get_header (ascii ''Content-Length'') r
        in case (if cl = [] then Some 0 else extract_size cl) of
             None \<Rightarrow> Inl (Http_exception ''Unable to parse Content-Length header'' 400)
           | Some m \<Rightarrow>
               if length inp < length rest then Inl Out_of_range
               else
                 let r = r\<lparr>m_read := m, resp_state := BODY\<rparr>; n = length inp - length rest;
                     (k, r) = (if n < length inp then response_body (drop n inp) r else (0, r))
                 in Inr (n + k, r\<lparr>resp_buf := None\<rparr>))"

text \<open>One line of the head of a response.\<close>

definition response_line_step :: "bytes \<Rightarrow> response \<Rightarrow> response result" where
  "response_line_step line r =
     (if resp_state r = RESPONSE_LINE
      then map_sum id (\<lambda>r. r\<lparr>resp_state := HEADERS\<rparr>) (process_response_line line r)
      else process_header line r)"

function response_loop :: "bytes \<Rightarrow> bytes \<Rightarrow> response \<Rightarrow> (nat \<times> response) result" where
  "response_loop inp rest r =
     (let found = split_on crlf rest;
          n = (case found of None \<Rightarrow> length rest | Some (line, _) \<Rightarrow> length line);
          r = r\<lparr>m_header_bytes := m_header_bytes r + (n + 3)\<rparr>
      in if max_header_size < m_header_bytes r
         then Inl (Http_exception ''Maximum header size exceeded.'' 431)
         else case found of
                None \<Rightarrow>
                  Inr (length inp, r\<lparr>resp_buf := Some rest, m_read := m_read r + of_nat (length inp),
                    m_header_bytes := m_header_bytes r - length rest\<rparr>)
              | Some (line, rest) \<Rightarrow>
                  if line = [] then response_blank_line inp rest r
                  else case response_line_step line r of
                         Inl e \<Rightarrow> Inl e
                       | Inr r \<Rightarrow> response_loop inp rest r)"
  by pat_completeness auto
termination
  by (relation "measure (\<lambda>(_, rest, _). length rest)") (auto simp: crlf_def dest: split_on_length [OF sym])

declare response_loop.simps [simp del]

definition consume_response :: "bytes \<Rightarrow> response \<Rightarrow> (nat \<times> response) result" where
  "consume_response inp r =
     (if resp_state r = DONE then Inr (0, r)
      else if resp_state r = BODY then Inr (response_body inp r)
      else case resp_buf r of
             None \<Rightarrow> Inl Out_of_range
           | Some buf \<Rightarrow> response_loop inp (buf @ inp) r)"

definition raw_response_head :: "response \<Rightarrow> bytes" where
  "raw_response_head r =
     m_version r @ [32] @ decimal (m_status_code r) @ [32] @ m_status_msg r @ crlf @ raw_headers r @ crlf"

definition raw_response :: "response \<Rightarrow> bytes" where
  "raw_response r = raw_response_head r @ m_body r"

subsection \<open>Reading a stream\<close>

text \<open>
  \<open>getline\<close> on a stream whose bytes are given: the bytes stored and counted, whether the stream is
  still good, and the rest. It stops at the end of the stream, at a newline, which it counts but
  does not store, or when the buffer is full.
\<close>

definition getline :: "nat \<Rightarrow> bytes \<Rightarrow> bytes \<times> nat \<times> bool \<times> bytes" where
  "getline cap s =
     (let line = takeWhile (\<lambda>c. c \<noteq> 10) s
      in if length line < cap
         then (case drop (length line) s of
                 [] \<Rightarrow> (line, length line, False, [])
               | _ # rest \<Rightarrow> (line, length line + 1, True, rest))
         else (take (cap - 1) s, cap - 1, False, drop (cap - 1) s))"

lemma getline_less: "getline cap s = (b, n, True, rest) \<Longrightarrow> length rest < length s"
proof -
  assume "getline cap s = (b, n, True, rest)"
  then obtain c where "drop (length b) s = c # rest"
    by (auto simp: getline_def Let_def split: if_splits list.splits)
  then show "length rest < length s"
    using length_drop [of "length b" s] by (metis Suc_le_eq diff_le_self length_Cons)
qed

text \<open>A good stream after \<open>getline\<close> has met the newline, which is put back behind the line.\<close>

function consume_stream :: "bytes \<Rightarrow> nat \<Rightarrow> response \<Rightarrow> (nat \<times> response) result" where
  "consume_stream s taken r =
     (case getline istream_buffer s of (b, n, good, rest) \<Rightarrow>
        let inp = (if good then b @ [10] else b)
        in case consume_response inp r of
             Inl e \<Rightarrow> Inl e
           | Inr (k, r) \<Rightarrow>
               if k \<noteq> n \<or> \<not> good then Inr (taken + k, r) else consume_stream rest (taken + k) r)"
  by pat_completeness auto
termination
  by (relation "measure (\<lambda>(s, _, _). length s)") (auto dest: getline_less [OF sym])

declare consume_stream.simps [simp del]

subsection \<open>Well-formed responses\<close>

definition response_ok :: "response \<Rightarrow> bool" where
  "response_ok r \<longleftrightarrow>
     headers_ok (m_headers r) \<and> (\<forall>(h, v) \<in> set (m_headers r). token h)
     \<and> - (2 ^ 31) \<le> m_status_code r \<and> m_status_code r < 2 ^ 31
     \<and> (case resp_buf r of
          Some buf \<Rightarrow> no_crlf buf \<and> length buf \<le> max_header_size \<and> \<not> headers_ready r
        | None \<Rightarrow> headers_ready r)"

lemma extract_int_range: "extract_int s = Some c \<Longrightarrow> - (2 ^ 31) \<le> c \<and> c < 2 ^ 31"
  by (auto simp: extract_int_def Let_def split: if_splits)

lemma process_response_line_result:
  "(\<exists>m c. process_response_line line r = Inl (Http_exception m c))
    \<or> (\<exists>v c m. process_response_line line r = Inr (r\<lparr>m_version := v, m_status_code := c, m_status_msg := m\<rparr>)
         \<and> - (2 ^ 31) \<le> c \<and> c < 2 ^ 31)"
  using extract_int_range
  by (auto simp: process_response_line_def set_status_msg_def Let_def split: option.splits)

lemma response_body_ok:
  assumes "response_ok r" "resp_state r = BODY" "resp_buf r = None"
  shows "case response_body inp r of (k, r') \<Rightarrow> response_ok r' \<and> resp_buf r' = None \<and> k \<le> length inp"
  using assms by (auto simp: response_body_def response_ok_def headers_ready_def Let_def)

definition good_response :: "bytes \<Rightarrow> (nat \<times> response) result \<Rightarrow> bool" where
  "good_response inp res \<longleftrightarrow>
     (case res of
        Inl e \<Rightarrow> (case e of Http_exception m c \<Rightarrow> True | _ \<Rightarrow> False)
      | Inr (n, r) \<Rightarrow> response_ok r \<and> n \<le> length inp \<and> (\<not> headers_ready r \<longrightarrow> n = length inp))"

lemma response_blank_line_ok:
  assumes "response_ok (r\<lparr>resp_buf := None, resp_state := BODY\<rparr>)" "length rest \<le> length inp"
  shows "good_response inp (response_blank_line inp rest r)"
proof (cases "resp_state r = RESPONSE_LINE")
  case True
  then show ?thesis by (simp add: response_blank_line_def good_response_def)
next
  case False
  let ?cl = "get_header (ascii ''Content-Length'') r"
  show ?thesis
  proof (cases "if ?cl = [] then Some 0 else extract_size ?cl")
    case None
    then show ?thesis using False by (simp add: response_blank_line_def good_response_def Let_def)
  next
    case (Some m)
    let ?r = "r\<lparr>m_read := m, resp_state := BODY\<rparr>" and ?n = "length inp - length rest"
    obtain k r' where k: "response_body (drop ?n inp) ?r = (k, r')" by fastforce
    have "response_ok (r'\<lparr>resp_buf := None\<rparr>) \<and> headers_ready (r'\<lparr>resp_buf := None\<rparr>) \<and> k \<le> length rest"
      using assms k by (auto simp: response_body_def response_ok_def headers_ready_def Let_def split: if_splits)
    moreover have "response_ok (?r\<lparr>resp_buf := None\<rparr>) \<and> headers_ready (?r\<lparr>resp_buf := None\<rparr>)"
      using assms(1) by (auto simp: response_ok_def headers_ready_def)
    moreover from calculation have "length inp - length rest + k \<le> length inp" using assms(2) by linarith
    ultimately show ?thesis
      using False assms(2) k
      by (simp add: response_blank_line_def Some Let_def good_response_def split: if_splits)
  qed
qed

lemma response_ok_header:
  assumes "response_ok (r\<lparr>resp_buf := Some []\<rparr>)" "token k"
  shows "response_ok (replace_header k v r\<lparr>resp_buf := Some []\<rparr>)"
proof -
  have "\<forall>(h, w) \<in> set (put_header k v (m_headers r)). token h"
    using assms put_header_names [of _ _ k v "m_headers r"] by (fastforce simp: response_ok_def)
  then show ?thesis
    using assms(1) by (simp add: response_ok_def replace_header_def headers_ready_def put_header_ok)
qed

lemma response_line_step_ok:
  assumes "no_crlf line" "response_ok (r\<lparr>resp_buf := Some []\<rparr>)"
  shows "(\<exists>m c. response_line_step line r = Inl (Http_exception m c))
    \<or> (\<exists>r'. response_line_step line r = Inr r' \<and> response_ok (r'\<lparr>resp_buf := Some []\<rparr>))"
proof (cases "resp_state r = RESPONSE_LINE")
  case True
  then show ?thesis
    using process_response_line_result [of line r] assms(2)
    by (auto simp: response_line_step_def response_ok_def headers_ready_def)
next
  case False
  then show ?thesis
    using process_header_result [OF assms(1), of r] response_ok_header [OF assms(2)]
    by (auto simp: response_line_step_def)
qed

lemma response_loop_ok:
  assumes "response_ok (r\<lparr>resp_buf := Some []\<rparr>)"
    and "length rest \<le> length inp \<or> (\<exists>buf. rest = buf @ inp \<and> no_crlf buf)"
  shows "good_response inp (response_loop inp rest r)"
  using assms
proof (induction inp rest r rule: response_loop.induct)
  case (1 inp rest r)
  note prems = 1(2,3)
  show ?case
  proof (cases "split_on crlf rest")
    case None
    then show ?thesis
      using prems by (subst response_loop.simps)
        (auto simp: good_response_def response_ok_def no_crlf_def headers_ready_def Let_def)
  next
    case (Some ab)
    obtain line rest' where ab: "ab = (line, rest')" by (cases ab)
    let ?r = "r\<lparr>m_header_bytes := m_header_bytes r + (length line + 3)\<rparr>"
    have l: "no_crlf line" using split_line Some ab by simp
    have le: "length rest' \<le> length inp"
      using prems(2) split_behind_buffer split_on_length [of crlf rest line rest'] Some ab by auto
    show ?thesis
    proof (cases "max_header_size < m_header_bytes ?r")
      case True
      then show ?thesis
        using Some ab by (subst response_loop.simps) (simp add: good_response_def Let_def)
    next
      case size: False
      show ?thesis
      proof (cases "line = []")
        case True
        have "response_ok (?r\<lparr>resp_buf := None, resp_state := BODY\<rparr>)"
          using prems(1) by (auto simp: response_ok_def headers_ready_def)
        then have "good_response inp (response_blank_line inp rest' ?r)"
          using le by (rule response_blank_line_ok)
        then show ?thesis
          using True Some ab size by (subst response_loop.simps) (simp add: Let_def)
      next
        case line: False
        let ?p = "response_line_step line ?r"
        have "response_ok (?r\<lparr>resp_buf := Some []\<rparr>)"
          using prems(1) by (simp add: response_ok_def headers_ready_def)
        with l have "(\<exists>m c. ?p = Inl (Http_exception m c))
            \<or> (\<exists>r'. ?p = Inr r' \<and> response_ok (r'\<lparr>resp_buf := Some []\<rparr>))"
          by (rule response_line_step_ok)
        then show ?thesis
        proof (elim disjE exE conjE)
          fix m c assume "?p = Inl (Http_exception m c)"
          then show ?thesis
            using Some ab size line by (subst response_loop.simps) (simp add: good_response_def Let_def)
        next
          fix r' assume r': "?p = Inr r'" "response_ok (r'\<lparr>resp_buf := Some []\<rparr>)"
          have "good_response inp (response_loop inp rest' r')"
            by (rule 1(1) [OF refl refl refl, of ab line rest' r']) (use size Some ab line r' le in auto)
          moreover have "response_loop inp rest r = response_loop inp rest' r'"
            using Some ab size line r'(1)
            by (subst response_loop.simps) (simp add: Let_def)
          ultimately show ?thesis by simp
        qed
      qed
    qed
  qed
qed

text \<open>reading a response never raises anything but an HTTP exception, for any bytes in any
  portions, and keeps the response well formed.\<close>

theorem consume_response_safe:
  assumes "response_ok r"
  shows "good_response inp (consume_response inp r)"
proof (cases "headers_ready r")
  case True
  then have b: "resp_buf r = None" using assms by (auto simp: response_ok_def split: option.splits)
  show ?thesis
  proof (cases "resp_state r = DONE")
    case True
    then show ?thesis using assms by (simp add: consume_response_def good_response_def headers_ready_def)
  next
    case False
    then have "resp_state r = BODY" using True by (simp add: headers_ready_def)
    moreover obtain k r' where "response_body inp r = (k, r')" by fastforce
    ultimately show ?thesis
      using response_body_ok [OF assms _ b, of inp]
      by (auto simp: consume_response_def good_response_def response_ok_def)
  qed
next
  case False
  then obtain buf where b: "resp_buf r = Some buf" "no_crlf buf"
    using assms by (auto simp: response_ok_def split: option.splits)
  then have "good_response inp (response_loop inp (buf @ inp) r)"
    using assms False by (intro response_loop_ok) (auto simp: response_ok_def headers_ready_def)
  then show ?thesis using b False by (simp add: consume_response_def headers_ready_def)
qed

lemma consume_response_safe_witness:
  "good_response (ascii ''HTTP/1.1 101'') (consume_response (ascii ''HTTP/1.1 101'') new_response)"
  by (rule consume_response_safe)
    (simp add: response_ok_def new_response_def headers_ready_def)

subsection \<open>Writing and reading\<close>

lemma scan_decimal: "scan_number (decimal c) = (c < 0, digits (nat \<bar>c\<bar>))"
proof (cases "c < 0")
  case True
  have "takeWhile isdigit (digits n) = digits n" for n
    using digits_isdigit by (simp add: takeWhile_eq_all_conv)
  then show ?thesis using True by (simp add: decimal_def scan_number_def isspace_def)
next
  case False
  then show ?thesis using scan_digits [of "[]" "nat c"] by (simp add: decimal_def)
qed

lemma extract_decimal: "\<lbrakk>- (2 ^ 31) \<le> c; c < 2 ^ 31\<rbrakk> \<Longrightarrow> extract_int (decimal c) = Some c"
  by (simp add: extract_int_def scan_decimal signed_val_def Let_def)

lemma decimal_chars: "b \<in> set (decimal c) \<Longrightarrow> b \<noteq> 32 \<and> b \<noteq> 13"
  using digits_isdigit isdigit_not by (fastforce simp: decimal_def split: if_splits)

lemma response_loop_line:
  assumes "no_crlf line" "line \<noteq> []" "m_header_bytes r + (length line + 3) \<le> max_header_size"
    and "response_line_step line (r\<lparr>m_header_bytes := m_header_bytes r + (length line + 3)\<rparr>) = Inr r'"
  shows "response_loop inp (line @ crlf @ rest) r = response_loop inp rest r'"
  using assms split_crlf_here [OF assms(1), of rest] by (subst response_loop.simps) (simp add: Let_def)

lemma response_loop_headers:
  assumes "resp_state r = HEADERS" and "headers_ok (m_headers r @ hs)"
    and "\<forall>(h, v) \<in> set hs. token h \<and> trimmed v"
    and "m_header_bytes r + sum_list (map (\<lambda>p. length (header_line p) + 3) hs) \<le> max_header_size"
  shows "response_loop inp (concat (map (\<lambda>p. header_line p @ crlf) hs) @ rest) r =
    response_loop inp rest (r\<lparr>m_headers := m_headers r @ hs,
      m_header_bytes := m_header_bytes r + sum_list (map (\<lambda>p. length (header_line p) + 3) hs)\<rparr>)"
  using assms
proof (induction hs arbitrary: r)
  case (Cons p hs)
  obtain h v where p: "p = (h, v)" by (cases p)
  then have hv: "token h" "trimmed v" using Cons.prems(3) by auto
  let ?n = "m_header_bytes r + (length (header_line p) + 3)"
  let ?r = "r\<lparr>m_header_bytes := ?n, m_headers := m_headers r @ [(h, v)]\<rparr>"
  have srt: "\<forall>(k, w) \<in> set (m_headers r). to_lower k < to_lower h" "headers_ok (m_headers r)"
    using Cons.prems(2) p by (auto simp: headers_ok_def sorted_wrt_append)
  have "response_line_step (header_line p) (r\<lparr>m_header_bytes := ?n\<rparr>) = Inr ?r"
    using process_header_line [OF hv, of "r\<lparr>m_header_bytes := ?n\<rparr>"] srt p Cons.prems(1)
    by (simp add: header_line_def response_line_step_def)
  then have "response_loop inp (header_line p @ crlf @ concat (map (\<lambda>p. header_line p @ crlf) hs) @ rest) r
      = response_loop inp (concat (map (\<lambda>p. header_line p @ crlf) hs) @ rest) ?r"
    using header_line_ok [OF hv] p Cons.prems(4) by (intro response_loop_line) simp_all
  also have "\<dots> = response_loop inp rest (?r\<lparr>m_headers := m_headers ?r @ hs,
      m_header_bytes := m_header_bytes ?r + sum_list (map (\<lambda>p. length (header_line p) + 3) hs)\<rparr>)"
    using Cons.prems p by (intro Cons.IH) auto
  finally show ?case using p by (simp add: add.assoc)
qed simp

definition response_sendable :: "response \<Rightarrow> bool" where
  "response_sendable r \<longleftrightarrow> 32 \<notin> set (m_version r) \<and> 13 \<notin> set (m_version r) \<and> 13 \<notin> set (m_status_msg r)
     \<and> - (2 ^ 31) \<le> m_status_code r \<and> m_status_code r < 2 ^ 31
     \<and> headers_ok (m_headers r) \<and> (\<forall>(h, v) \<in> set (m_headers r). token h \<and> trimmed v)
     \<and> get_header (ascii ''Content-Length'') r = []
     \<and> length (raw_response_head r) + length (m_headers r) + 2 \<le> max_header_size"

lemma response_line_here:
  assumes "32 \<notin> set v" "- (2 ^ 31) \<le> c" "c < 2 ^ 31"
  shows "process_response_line (v @ [32] @ decimal c @ [32] @ msg) r =
    Inr (r\<lparr>m_version := v, m_status_code := c, m_status_msg := msg\<rparr>)"
proof -
  have "split_on [32] (v @ 32 # decimal c @ 32 # msg) = Some (v, decimal c @ 32 # msg)"
    by (rule split_char_here [OF assms(1)])
  moreover have "split_on [32] (decimal c @ 32 # msg) = Some (decimal c, msg)"
    by (rule split_char_here) (use decimal_chars in blast)
  ultimately show ?thesis
    using extract_decimal [OF assms(2,3)] by (simp add: process_response_line_def set_status_msg_def Let_def)
qed

lemma response_read:
  assumes "response_sendable r"
  shows "\<exists>r'. consume_response (raw_response_head r @ tail) new_response = Inr (length (raw_response_head r), r')
    \<and> m_version r' = m_version r \<and> m_status_code r' = m_status_code r \<and> m_status_msg r' = m_status_msg r
    \<and> m_headers r' = m_headers r \<and> headers_ready r' \<and> (response_ready r' \<longleftrightarrow> tail \<noteq> [])"
proof -
  let ?line = "m_version r @ [32] @ decimal (m_status_code r) @ [32] @ m_status_msg r"
  let ?inp = "raw_response_head r @ tail"
  let ?h = "sum_list (map (\<lambda>p. length (header_line p) + 3) (m_headers r))"
  let ?r1 = "new_response\<lparr>m_header_bytes := length ?line + 3, m_version := m_version r,
    m_status_code := m_status_code r, m_status_msg := m_status_msg r, resp_state := HEADERS\<rparr>"
  let ?r2 = "?r1\<lparr>m_headers := m_headers r, m_header_bytes := length ?line + 3 + ?h\<rparr>"
  have s: "32 \<notin> set (m_version r)" "- (2 ^ 31) \<le> m_status_code r" "m_status_code r < 2 ^ 31"
    "headers_ok (m_headers r)" "\<forall>(h, v) \<in> set (m_headers r). token h \<and> trimmed v"
    "get_header (ascii ''Content-Length'') r = []"
    using assms by (simp_all add: response_sendable_def)
  have size: "length ?line + 3 + ?h + 3 \<le> max_header_size"
    using assms by (simp add: response_sendable_def raw_response_head_def raw_headers_lines raw_headers_length crlf_def)
  have "13 \<notin> set ?line" using assms decimal_chars by (auto simp: response_sendable_def)
  then have line: "no_crlf ?line" "?line \<noteq> []" by (auto intro: no_crlf_no_cr)
  have "consume_response ?inp new_response =
      response_loop ?inp (?line @ crlf @ raw_headers r @ crlf @ tail) new_response"
    by (simp add: consume_response_def new_response_def raw_response_head_def)
  also have "\<dots> = response_loop ?inp (raw_headers r @ crlf @ tail) ?r1"
    using line size response_line_here [OF s(1-3), of "m_status_msg r"]
    by (intro response_loop_line) (simp_all add: new_response_def response_line_step_def)
  also have "\<dots> = response_loop ?inp (crlf @ tail) ?r2"
    using response_loop_headers [of ?r1 "m_headers r" ?inp "crlf @ tail"] s size
    by (simp add: raw_headers_lines new_response_def)
  also have "\<dots> = response_blank_line ?inp tail (?r2\<lparr>m_header_bytes := m_header_bytes ?r2 + 3\<rparr>)"
    using size split_crlf_here [OF no_crlf_Nil, of tail] by (subst response_loop.simps) (simp add: Let_def)
  finally have e: "consume_response ?inp new_response =
    response_blank_line ?inp tail (?r2\<lparr>m_header_bytes := m_header_bytes ?r2 + 3\<rparr>)" .
  have g: "get_header k (?r2\<lparr>m_header_bytes := n\<rparr>) = get_header k r" for k n
    by (simp add: get_header_def)
  show ?thesis
    unfolding e using s g
    by (simp add: response_blank_line_def response_body_def headers_ready_def response_ready_def Let_def)
qed

text \<open>reading what a response without a body writes gives back its version, status and headers,
  and exactly its head is used; the response becomes ready as soon as another byte follows, although
  the documentation of the class says that it never does without a content length.\<close>

theorem response_round_trip:
  assumes "response_sendable r"
  shows "\<exists>r'. consume_response (raw_response_head r @ tail) new_response = Inr (length (raw_response_head r), r')
    \<and> m_version r' = m_version r \<and> m_status_code r' = m_status_code r \<and> m_status_msg r' = m_status_msg r
    \<and> m_headers r' = m_headers r \<and> headers_ready r' \<and> (response_ready r' \<longleftrightarrow> tail \<noteq> [])"
  using response_read [OF assms] .

definition sample_response :: response where
  "sample_response = set_status 101 (new_response
     \<lparr>m_version := ascii ''HTTP/1.1'',
      m_headers := [(ascii ''Connection'', ascii ''upgrade''), (ascii ''Upgrade'', ascii ''websocket'')]\<rparr>)"

lemma sample_response_sendable: "response_sendable sample_response"
  by code_simp

lemma response_round_trip_witness:
  "\<exists>r'. consume_response (raw_response_head sample_response @ [0x81]) new_response =
      Inr (length (raw_response_head sample_response), r')
    \<and> m_version r' = m_version sample_response \<and> m_status_code r' = m_status_code sample_response
    \<and> m_status_msg r' = m_status_msg sample_response \<and> m_headers r' = m_headers sample_response
    \<and> headers_ready r' \<and> (response_ready r' \<longleftrightarrow> [0x81] \<noteq> ([] :: bytes))"
  by (rule response_round_trip [OF sample_response_sendable])

text \<open>
  A line that does not fit into the buffer of the stream version sets the stream's fail bit, and the
  loop ends: what follows is not read.
\<close>

lemma long_line_stops:
  assumes "10 \<notin> set (take 511 s)" "511 < length s" "s ! 511 \<noteq> 10" "consume_response (take 511 s) r = Inr (k, r')"
  shows "consume_stream s taken r = Inr (taken + k, r')"
proof -
  have "\<not> length (takeWhile (\<lambda>c. c \<noteq> 10) s) < 512"
  proof
    assume l: "length (takeWhile (\<lambda>c. c \<noteq> 10) s) < 512"
    let ?n = "length (takeWhile (\<lambda>c. c \<noteq> 10) s)"
    have n: "?n < length s" using l assms(2) by linarith
    then have c: "s ! ?n = 10" using nth_length_takeWhile by blast
    show False
    proof (cases "?n = 511")
      case True
      then show ?thesis using c assms(3) by simp
    next
      case False
      then have "?n < length (take 511 s)" using l n by simp
      then have "take 511 s ! ?n \<in> set (take 511 s)" by (rule nth_mem)
      then show ?thesis using c assms(1) False l by simp
    qed
  qed
  then have "getline istream_buffer s = (take 511 s, 511, False, drop 511 s)"
    by (simp add: getline_def istream_buffer_def Let_def)
  then show ?thesis using assms(4) by (subst consume_stream.simps) simp
qed

end
