(* ===== verification/Uri.thy ===== *)
theory Uri
  imports Text Errors
begin

text \<open>
  \<open>uri.hpp\<close>: parsing a URI, building one from its parts and printing it. The members \<open>m_port\<close> and
  \<open>m_secure\<close> are not initialised before the parser sets them; their first values are arguments.
\<close>

subsection \<open>The class\<close>

record uri =
  m_scheme :: bytes
  m_host :: bytes
  m_resource :: bytes
  m_port :: u16
  m_secure :: bool
  m_valid :: bool

definition uri_default_port :: u16 where "uri_default_port = 80"
definition uri_default_secure_port :: u16 where "uri_default_secure_port = 443"

definition default_port :: "bool \<Rightarrow> u16" where
  "default_port secure = (if secure then uri_default_secure_port else uri_default_port)"

text \<open>The port is cut to 16 bits whether or not it is in range.\<close>

definition get_port_from_string :: "bool \<Rightarrow> bytes \<Rightarrow> u16 \<times> error_code option" where
  "get_port_from_string secure port =
     (if port = [] then (default_port secure, None)
      else
        let t_port = atoi port
        in (ucast t_port, if 65535 < t_port \<or> t_port = 0 then Some (WsError E_invalid_port) else None))"

text \<open>The scheme, and whether it is secure; at least one byte follows it.\<close>

definition parse_scheme :: "bytes \<Rightarrow> (bool \<times> bytes \<times> bytes) option" where
  "parse_scheme s =
     (if 7 \<le> length s \<and> take 6 s = ascii ''wss://'' then Some (True, ascii ''wss'', drop 6 s)
      else if 6 \<le> length s \<and> take 5 s = ascii ''ws://'' then Some (False, ascii ''ws'', drop 5 s)
      else if 8 \<le> length s \<and> take 7 s = ascii ''http://'' then Some (False, ascii ''http'', drop 7 s)
      else if 9 \<le> length s \<and> take 8 s = ascii ''https://'' then Some (True, ascii ''https'', drop 8 s)
      else None)"

text \<open>The loop over the host: what it appends to the host, whether a port follows, and the rest.\<close>

fun host_loop :: "bytes \<Rightarrow> bytes \<Rightarrow> bytes \<times> bool \<times> bytes" where
  "host_loop host [] = (host, False, [])"
| "host_loop host (c # it) =
     (if c = 0x2F then (host, False, it)
      else if c = 0x3A then (host, True, it)
      else host_loop (host @ [c]) it)"

fun port_loop :: "bytes \<Rightarrow> bytes \<Rightarrow> bytes \<times> bytes" where
  "port_loop port [] = (port, [])"
| "port_loop port (c # it) = (if c = 0x2F then (port, it) else port_loop (port @ [c]) it)"

text \<open>
  The host: an IPv6 literal, stored without its brackets, or what precedes a colon or slash. The
  result is the host, and, unless the constructor returns here, whether a port follows and the rest.
\<close>

definition parse_host :: "bytes \<Rightarrow> bytes \<times> (bool \<times> bytes) option" where
  "parse_host it =
     (if it \<noteq> [] \<and> hd it = 0x5B then
        (case split_on [0x5D] (tl it) of
           None \<Rightarrow> ([], None)
         | Some (host, rest) \<Rightarrow>
             (host,
              case rest of
                [] \<Rightarrow> Some (False, [])
              | c # it \<Rightarrow> if c = 0x2F then Some (False, it)
                         else if c = 0x3A then Some (True, it)
                         else None))
      else case host_loop [] it of (host, port, it) \<Rightarrow> (host, Some (port, it)))"

definition uri_of_string :: "u16 \<Rightarrow> bool \<Rightarrow> bytes \<Rightarrow> uri" where
  "uri_of_string port0 secure0 uri_string =
     (let u = \<lparr>m_scheme = [], m_host = [], m_resource = [], m_port = port0, m_secure = secure0, m_valid = False\<rparr>
      in case parse_scheme uri_string of
           None \<Rightarrow> u
         | Some (secure, scheme, it) \<Rightarrow>
             let u = u\<lparr>m_scheme := scheme, m_secure := secure\<rparr>
             in case parse_host it of
                  (host, None) \<Rightarrow> u\<lparr>m_host := host\<rparr>
                | (host, Some (has_port, it)) \<Rightarrow>
                    let (port, it) = (if has_port then port_loop [] it else ([], it));
                        (p, ec) = get_port_from_string (m_secure u) port;
                        u = u\<lparr>m_host := host, m_port := p\<rparr>
                    in if ec \<noteq> None then u
                       else u\<lparr>m_resource := 0x2F # it, m_valid := True\<rparr>)"

definition resource_of :: "bytes \<Rightarrow> bytes" where
  "resource_of resource = (if resource = [] then ascii ''/'' else resource)"

definition scheme_secure :: "bytes \<Rightarrow> bool" where
  "scheme_secure scheme \<longleftrightarrow> scheme = ascii ''wss'' \<or> scheme = ascii ''https''"

definition uri_of_scheme_port :: "bytes \<Rightarrow> bytes \<Rightarrow> u16 \<Rightarrow> bytes \<Rightarrow> uri" where
  "uri_of_scheme_port scheme host port resource =
     \<lparr>m_scheme = scheme, m_host = host, m_resource = resource_of resource, m_port = port,
      m_secure = scheme_secure scheme, m_valid = True\<rparr>"

definition uri_of_scheme :: "bytes \<Rightarrow> bytes \<Rightarrow> bytes \<Rightarrow> uri" where
  "uri_of_scheme scheme host resource =
     \<lparr>m_scheme = scheme, m_host = host, m_resource = resource_of resource,
      m_port = default_port (scheme_secure scheme), m_secure = scheme_secure scheme, m_valid = True\<rparr>"

definition uri_of_scheme_port_string :: "bytes \<Rightarrow> bytes \<Rightarrow> bytes \<Rightarrow> bytes \<Rightarrow> uri" where
  "uri_of_scheme_port_string scheme host port resource =
     (case get_port_from_string (scheme_secure scheme) port of (p, ec) \<Rightarrow>
        \<lparr>m_scheme = scheme, m_host = host, m_resource = resource_of resource, m_port = p,
         m_secure = scheme_secure scheme, m_valid = (ec = None)\<rparr>)"

definition uri_of_secure_port :: "bool \<Rightarrow> bytes \<Rightarrow> u16 \<Rightarrow> bytes \<Rightarrow> uri" where
  "uri_of_secure_port secure host port resource =
     \<lparr>m_scheme = (if secure then ascii ''wss'' else ascii ''ws''), m_host = host,
      m_resource = resource_of resource, m_port = port, m_secure = secure, m_valid = True\<rparr>"

definition uri_of_secure :: "bool \<Rightarrow> bytes \<Rightarrow> bytes \<Rightarrow> uri" where
  "uri_of_secure secure host resource =
     \<lparr>m_scheme = (if secure then ascii ''wss'' else ascii ''ws''), m_host = host,
      m_resource = resource_of resource, m_port = default_port secure, m_secure = secure, m_valid = True\<rparr>"

definition uri_of_secure_port_string :: "bool \<Rightarrow> bytes \<Rightarrow> bytes \<Rightarrow> bytes \<Rightarrow> uri" where
  "uri_of_secure_port_string secure host port resource =
     (case get_port_from_string secure port of (p, ec) \<Rightarrow>
        \<lparr>m_scheme = (if secure then ascii ''wss'' else ascii ''ws''), m_host = host,
         m_resource = resource_of resource, m_port = p, m_secure = secure, m_valid = (ec = None)\<rparr>)"

definition get_port_str :: "uri \<Rightarrow> bytes" where
  "get_port_str u = digits (unat (m_port u))"

definition get_host_port :: "uri \<Rightarrow> bytes" where
  "get_host_port u =
     (if m_port u = default_port (m_secure u) then m_host u else m_host u @ ascii '':'' @ get_port_str u)"

definition get_authority :: "uri \<Rightarrow> bytes" where
  "get_authority u = m_host u @ ascii '':'' @ get_port_str u"

definition uri_str :: "uri \<Rightarrow> bytes" where
  "uri_str u =
     m_scheme u @ ascii ''://'' @ m_host u
     @ (if m_port u = default_port (m_secure u) then [] else ascii '':'' @ get_port_str u) @ m_resource u"

definition get_query :: "uri \<Rightarrow> bytes" where
  "get_query u = (case split_on (ascii ''?'') (m_resource u) of None \<Rightarrow> [] | Some (_, query) \<Rightarrow> query)"

subsection \<open>Ports\<close>

lemma digits_plain: "c \<in> set (digits n) \<Longrightarrow> c \<noteq> 0 \<and> c \<noteq> 0x2F \<and> c \<noteq> 0x3A \<and> c \<noteq> 0x5D \<and> c \<noteq> 0x5B"
  using digits_isdigit [of c n] by (auto simp: isdigit_def word_le_nat_alt)

lemma atoi_digits: "n < 2 ^ 32 \<Longrightarrow> atoi (digits n) = of_nat n"
proof -
  assume n: "n < 2 ^ 32"
  have "c_string (digits n) = digits n"
    using digits_plain [of _ n] by (simp add: c_string_def takeWhile_eq_all_conv)
  then show ?thesis
    using n scan_digits [of "[]" n] by (simp add: atoi_def signed_val_def)
qed

lemma get_port_digits:
  assumes "p \<noteq> 0"
  shows "get_port_from_string secure (digits (unat p)) = (p, None)"
proof -
  have "atoi (digits (unat p)) = of_nat (unat p)"
    by (rule atoi_digits) (rule less_trans [OF unat_u16_bound], simp)
  then have a: "unat (atoi (digits (unat p))) = unat p" "atoi (digits (unat p)) = ucast p"
    by (simp_all add: u32_of_nat_inj less_trans [OF unat_u16_bound])
  have "ucast (ucast p :: u32) = p" by (rule bit_word_eqI) (auto simp: bit_simps)
  moreover have "\<not> 65535 < (ucast p :: u32)"
  proof -
    have "unat p \<le> 65535" using unat_u16_bound [of p] by linarith
    then show ?thesis by (simp add: word_less_nat_alt not_less)
  qed
  moreover have "(ucast p :: u32) \<noteq> 0" using assms by (metis a unat_0 unat_eq_zero)
  ultimately show ?thesis by (simp add: get_port_from_string_def a Let_def)
qed

subsection \<open>Reading what is printed\<close>

lemma host_loop_host:
  "\<lbrakk>0x2F \<notin> set h; 0x3A \<notin> set h\<rbrakk> \<Longrightarrow> host_loop acc (h @ s) = host_loop (acc @ h) s"
  by (induction h arbitrary: acc) auto

lemma port_loop_port: "0x2F \<notin> set p \<Longrightarrow> port_loop acc (p @ s) = port_loop (acc @ p) s"
  by (induction p arbitrary: acc) auto

text \<open>A URI of a host that is no IPv6 literal, as the constructors make it.\<close>

definition plain_uri :: "uri \<Rightarrow> bool" where
  "plain_uri u \<longleftrightarrow> m_valid u \<and> m_scheme u \<in> {ascii ''ws'', ascii ''wss'', ascii ''http'', ascii ''https''}
     \<and> m_secure u = scheme_secure (m_scheme u)
     \<and> 0x2F \<notin> set (m_host u) \<and> 0x3A \<notin> set (m_host u) \<and> (m_host u \<noteq> [] \<longrightarrow> hd (m_host u) \<noteq> 0x5B)
     \<and> m_port u \<noteq> 0 \<and> (\<exists>r. m_resource u = 0x2F # r)"

lemma parse_scheme_here:
  assumes "scheme \<in> {ascii ''ws'', ascii ''wss'', ascii ''http'', ascii ''https''}" "s \<noteq> []"
  shows "parse_scheme (scheme @ ascii ''://'' @ s) = Some (scheme_secure scheme, scheme, s)"
proof -
  have l: "1 \<le> length s" using assms(2) by (cases s) auto
  have a: "ascii ''ws'' = [0x77, 0x73]" "ascii ''wss'' = [0x77, 0x73, 0x73]"
    "ascii ''http'' = [0x68, 0x74, 0x74, 0x70]" "ascii ''https'' = [0x68, 0x74, 0x74, 0x70, 0x73]"
    "ascii ''://'' = [0x3A, 0x2F, 0x2F]" "ascii ''wss://'' = [0x77, 0x73, 0x73, 0x3A, 0x2F, 0x2F]"
    "ascii ''ws://'' = [0x77, 0x73, 0x3A, 0x2F, 0x2F]"
    "ascii ''http://'' = [0x68, 0x74, 0x74, 0x70, 0x3A, 0x2F, 0x2F]"
    "ascii ''https://'' = [0x68, 0x74, 0x74, 0x70, 0x73, 0x3A, 0x2F, 0x2F]"
    by code_simp+
  show ?thesis
    using assms(1) l by (elim insertE emptyE) (simp_all add: parse_scheme_def scheme_secure_def a)
qed

text \<open>parsing the printed form of a URI whose host is a name or an IPv4 address gives the URI
  back, with the default port left out or any other port written.\<close>

theorem uri_round_trip:
  assumes "plain_uri u"
  shows "uri_of_string port0 secure0 (uri_str u) = u"
proof -
  obtain r where r: "m_resource u = 0x2F # r" using assms by (auto simp: plain_uri_def)
  let ?port = "if m_port u = default_port (m_secure u) then [] else ascii '':'' @ get_port_str u"
  let ?s = "m_host u @ ?port @ m_resource u"
  have h: "0x2F \<notin> set (m_host u)" "0x3A \<notin> set (m_host u)" using assms by (simp_all add: plain_uri_def)
  have sch: "parse_scheme (uri_str u) = Some (m_secure u, m_scheme u, ?s)"
    using parse_scheme_here [of "m_scheme u" ?s] assms r by (auto simp: plain_uri_def uri_str_def)
  have c: "ascii '':'' = [0x3A]" by (simp add: ascii_def)
  have "hd ?s \<noteq> 0x5B"
    using assms r c by (cases "m_host u") (auto simp: plain_uri_def)
  then have host: "parse_host ?s = (m_host u, Some (if m_port u = default_port (m_secure u) then (False, r)
      else (True, get_port_str u @ 0x2F # r)))"
    using h r c by (simp add: parse_host_def host_loop_host)
  have port: "port_loop [] (get_port_str u @ 0x2F # r) = (get_port_str u, r)"
    using digits_plain [of "0x2F"] by (subst port_loop_port) (auto simp: get_port_str_def)
  have valid: "m_valid u" "m_port u \<noteq> 0" using assms by (simp_all add: plain_uri_def)
  have get: "get_port_from_string (m_secure u) (get_port_str u) = (m_port u, None)"
    using get_port_digits [OF valid(2)] by (simp add: get_port_str_def)
  show ?thesis
    using sch host port get valid(1) r
    by (cases u) (auto simp: uri_of_string_def get_port_from_string_def [of _ "[]"] Let_def)
qed

definition sample_uri :: uri where
  "sample_uri = uri_of_scheme_port (ascii ''ws'') (ascii ''localhost'') 9002 (ascii ''/chat'')"

lemma uri_round_trip_witness: "uri_of_string 0 True (uri_str sample_uri) = sample_uri"
proof (rule uri_round_trip)
  have "plain_uri u \<longleftrightarrow> m_valid u \<and> m_scheme u \<in> {ascii ''ws'', ascii ''wss'', ascii ''http'', ascii ''https''}
     \<and> m_secure u = scheme_secure (m_scheme u)
     \<and> 0x2F \<notin> set (m_host u) \<and> 0x3A \<notin> set (m_host u) \<and> (m_host u \<noteq> [] \<longrightarrow> hd (m_host u) \<noteq> 0x5B)
     \<and> m_port u \<noteq> 0 \<and> (case m_resource u of c # _ \<Rightarrow> c = 0x2F | [] \<Rightarrow> False)" for u
    by (auto simp: plain_uri_def split: list.splits)
  then show "plain_uri sample_uri"
    by (simp add: sample_uri_def uri_of_scheme_port_def resource_of_def scheme_secure_def ascii_def)
qed

text \<open>an IPv6 literal does not survive: its brackets are dropped when it is parsed and not
  printed, so the printed form is a URI with another host, cut at the first colon, or not valid.\<close>

theorem ipv6_host_is_lost:
  assumes "host = a @ 0x3A # b" "0x2F \<notin> set host" "0x3A \<notin> set a" "0x5D \<notin> set host" "0x5B \<notin> set a"
  shows "let u = uri_of_string port0 secure0 (ascii ''ws://['' @ host @ ascii '']/'' @ r)
    in m_valid u \<and> m_host u = host \<and> m_host (uri_of_string port0 secure0 (uri_str u)) = a"
proof -
  let ?u = "uri_of_string port0 secure0 (ascii ''ws://['' @ host @ ascii '']/'' @ r)"
  have "parse_scheme (ascii ''ws'' @ ascii ''://'' @ (0x5B # host @ 0x5D # 0x2F # r)) =
      Some (False, ascii ''ws'', 0x5B # host @ 0x5D # 0x2F # r)"
    by (subst parse_scheme_here) (simp_all add: scheme_secure_def ascii_def)
  then have p: "parse_scheme (ascii ''ws://['' @ host @ ascii '']/'' @ r) =
      Some (False, ascii ''ws'', 0x5B # host @ 0x5D # 0x2F # r)"
    by (simp add: ascii_def)
  have "\<And>c s t. c \<notin> set s \<Longrightarrow> split_on [c] (s @ c # t) = Some (s, t)"
    subgoal for c s t by (induction s) auto done
  then have "split_on [0x5D] (host @ 0x5D # 0x2F # r) = Some (host, 0x2F # r)"
    using assms(4) by simp
  then have h: "parse_host (0x5B # host @ 0x5D # 0x2F # r) = (host, Some (False, r))"
    by (simp add: parse_host_def)
  have u: "?u = \<lparr>m_scheme = ascii ''ws'', m_host = host, m_resource = 0x2F # r, m_port = 80,
      m_secure = False, m_valid = True\<rparr>"
    by (simp add: uri_of_string_def p h get_port_from_string_def default_port_def uri_default_port_def Let_def)
  have "uri_str ?u = ascii ''ws'' @ ascii ''://'' @ a @ 0x3A # b @ 0x2F # r"
    unfolding u by (simp add: uri_str_def default_port_def uri_default_port_def assms(1))
  moreover have "parse_host (a @ 0x3A # b @ 0x2F # r) = (a, Some (True, b @ 0x2F # r))"
    using assms by (cases a) (auto simp: parse_host_def host_loop_host)
  moreover have "port_loop [] (b @ 0x2F # r) = (b, r)"
    using assms(1,2) by (simp add: port_loop_port)
  ultimately have "m_host (uri_of_string port0 secure0 (uri_str ?u)) = a"
    using parse_scheme_here [of "ascii ''ws''" "a @ 0x3A # b @ 0x2F # r"]
    by (simp add: uri_of_string_def Let_def split: prod.split)
  moreover have "m_valid ?u" "m_host ?u = host" unfolding u by simp_all
  ultimately show ?thesis unfolding Let_def by blast
qed

lemma ipv6_host_is_lost_witness:
  "let u = uri_of_string 0 True (ascii ''ws://['' @ ascii ''::1'' @ ascii '']/'' @ [])
    in m_valid u \<and> m_host u = ascii ''::1'' \<and> m_host (uri_of_string 0 True (uri_str u)) = []"
  using ipv6_host_is_lost [of "ascii ''::1''" "[]" "ascii '':1''" 0 True "[]"] by (simp add: ascii_def)

end
