(* ===== verification/Sha1.thy ===== *)
theory Sha1
  imports Prelude
begin

text \<open>
  \<open>sha1/sha1.hpp\<close>. The round buffer \<open>w\<close> is a list of 80 words; its content before the first block
  is not initialised in the code and is an argument here.
\<close>

subsection \<open>The code\<close>

definition rol :: "u32 \<Rightarrow> nat \<Rightarrow> u32" where
  "rol value steps = push_bit steps value OR drop_bit (32 - steps) value"

definition clearWBuffert :: "u32 list \<Rightarrow> u32 list" where
  "clearWBuffert buffert = replicate 16 0 @ drop 16 buffert"

type_synonym regs = "u32 \<times> u32 \<times> u32 \<times> u32 \<times> u32"

definition sha1macro :: "(u32 \<Rightarrow> u32 \<Rightarrow> u32 \<Rightarrow> u32) \<Rightarrow> u32 \<Rightarrow> u32 \<Rightarrow> regs \<Rightarrow> regs" where
  "sha1macro func val w = (\<lambda>(a, b, c, d, e). (rol a 5 + func b c d + e + val + w, a, rol b 30, c, d))"

definition next_word :: "nat \<Rightarrow> u32 list \<Rightarrow> u32 list" where
  "next_word round w =
     w[round := rol (w ! (round - 3) XOR w ! (round - 8) XOR w ! (round - 14) XOR w ! (round - 16)) 1]"

text \<open>One of the five loops, over the rounds given; only the first does not extend \<open>w\<close>.\<close>

definition rounds ::
  "bool \<Rightarrow> (u32 \<Rightarrow> u32 \<Rightarrow> u32 \<Rightarrow> u32) \<Rightarrow> u32 \<Rightarrow> nat list \<Rightarrow> regs \<times> u32 list \<Rightarrow> regs \<times> u32 list" where
  "rounds extend func val =
     fold (\<lambda>round (r, w).
       let w = (if extend then next_word round w else w) in (sha1macro func val (w ! round) r, w))"

definition chosen :: "u32 \<Rightarrow> u32 \<Rightarrow> u32 \<Rightarrow> u32" where "chosen b c d = (b AND c) OR ((NOT b) AND d)"
definition parity :: "u32 \<Rightarrow> u32 \<Rightarrow> u32 \<Rightarrow> u32" where "parity b c d = b XOR c XOR d"
definition majority :: "u32 \<Rightarrow> u32 \<Rightarrow> u32 \<Rightarrow> u32" where
  "majority b c d = (b AND c) OR (b AND d) OR (c AND d)"

definition add_regs :: "regs \<Rightarrow> regs \<Rightarrow> regs" where
  "add_regs = (\<lambda>(a, b, c, d, e) (a', b', c', d', e'). (a + a', b + b', c + c', d + d', e + e'))"

definition innerHash :: "regs \<Rightarrow> u32 list \<Rightarrow> regs \<times> u32 list" where
  "innerHash result w =
     (let (r, w) = (rounds True parity 0xca62c1d6 [60..<80]
            \<circ> rounds True majority 0x8f1bbcdc [40..<60]
            \<circ> rounds True parity 0x6ed9eba1 [20..<40]
            \<circ> rounds True chosen 0x5a827999 [16..<20]
            \<circ> rounds False chosen 0x5a827999 [0..<16]) (result, w)
      in (add_regs result r, w))"

text \<open>Four bytes as a word, the first the most significant.\<close>

definition word_at :: "bytes \<Rightarrow> nat \<Rightarrow> u32" where
  "word_at s p = ucast (s ! (p + 3)) OR push_bit 8 (ucast (s ! (p + 2)))
     OR push_bit 16 (ucast (s ! (p + 1))) OR push_bit 24 (ucast (s ! p))"

definition load_block :: "bytes \<Rightarrow> u32 list \<Rightarrow> u32 list" where
  "load_block s w = map (\<lambda>i. word_at s (4 * i)) [0..<16] @ drop 16 w"

text \<open>The loop over the full blocks; what is left is shorter than a block.\<close>

function full_blocks :: "bytes \<Rightarrow> regs \<Rightarrow> u32 list \<Rightarrow> bytes \<times> regs \<times> u32 list" where
  "full_blocks s result w =
     (if 64 \<le> length s then
        let (result, w) = innerHash result (load_block s w) in full_blocks (drop 64 s) result w
      else (s, result, w))"
  by pat_completeness auto
termination by (relation "measure (\<lambda>(s, _, _). length s)") auto

declare full_blocks.simps [simp del]

text \<open>A byte is or-ed into its place of the buffer.\<close>

definition put_byte :: "nat \<Rightarrow> u8 \<Rightarrow> u32 list \<Rightarrow> u32 list" where
  "put_byte k b w = w[k div 4 := w ! (k div 4) OR push_bit (8 * (3 - k mod 4)) (ucast b)]"

definition put_bytes :: "bytes \<Rightarrow> u32 list \<Rightarrow> u32 list" where
  "put_bytes s = fold (\<lambda>k. put_byte k (s ! k)) [0..<length s]"

definition initial_hash :: regs where
  "initial_hash = (0x67452301, 0xefcdab89, 0x98badcfe, 0x10325476, 0xc3d2e1f0)"

definition store_hash :: "regs \<Rightarrow> bytes" where
  "store_hash = (\<lambda>(a, b, c, d, e).
     map (\<lambda>i. ucast (drop_bit (8 * (3 - i mod 4)) ([a, b, c, d, e] ! (i div 4)) AND 0xff)) [0..<20])"

definition calc :: "u32 list \<Rightarrow> bytes \<Rightarrow> bytes" where
  "calc w src =
     (let (rest, result, w) = full_blocks src initial_hash w;
          w = put_byte (length rest) 0x80 (put_bytes rest (clearWBuffert w));
          (result, w) = (if 56 \<le> length rest then
                           let (result, w) = innerHash result w in (result, clearWBuffert w)
                         else (result, w));
          w = w[15 := push_bit 3 (of_nat (length src))];
          (result, w) = innerHash result w
      in store_hash result)"

subsection \<open>The standard\<close>

text \<open>
  FIPS 180-4: the functions and constants by round, the message schedule as a recursive function
  of the block, the padded message and the fold of the compression over its blocks.
\<close>

definition fips_f :: "nat \<Rightarrow> u32 \<Rightarrow> u32 \<Rightarrow> u32 \<Rightarrow> u32" where
  "fips_f t x y z =
     (if t < 20 then (x AND y) XOR ((NOT x) AND z)
      else if t < 40 then x XOR y XOR z
      else if t < 60 then (x AND y) XOR (x AND z) XOR (y AND z)
      else x XOR y XOR z)"

definition fips_K :: "nat \<Rightarrow> u32" where
  "fips_K t = (if t < 20 then 0x5a827999 else if t < 40 then 0x6ed9eba1
               else if t < 60 then 0x8f1bbcdc else 0xca62c1d6)"

fun fips_W :: "u32 list \<Rightarrow> nat \<Rightarrow> u32" where
  "fips_W M t =
     (if t < 16 then M ! t
      else word_rotl 1 (fips_W M (t - 3) XOR fips_W M (t - 8) XOR fips_W M (t - 14) XOR fips_W M (t - 16)))"

declare fips_W.simps [simp del]

definition fips_round :: "u32 list \<Rightarrow> nat \<Rightarrow> regs \<Rightarrow> regs" where
  "fips_round M t = (\<lambda>(a, b, c, d, e).
     (word_rotl 5 a + fips_f t b c d + e + fips_K t + fips_W M t, a, word_rotl 30 b, c, d))"

definition fips_block :: "u32 list \<Rightarrow> regs \<Rightarrow> regs" where
  "fips_block M H = add_regs H (fold (fips_round M) [0..<80] H)"

definition fips_pad :: "bytes \<Rightarrow> bytes" where
  "fips_pad s =
     (let l = length s; k = (119 - l mod 64) mod 64
      in s @ [0x80] @ replicate k 0 @ map (\<lambda>i. of_nat (8 * l div 256 ^ i mod 256)) [7, 6, 5, 4, 3, 2, 1, 0])"

definition block_words :: "bytes \<Rightarrow> u32 list" where
  "block_words s = map (\<lambda>i. word_at s (4 * i)) [0..<16]"

fun fips_blocks :: "bytes \<Rightarrow> regs \<Rightarrow> regs" where
  "fips_blocks s H = (if s = [] then H else fips_blocks (drop 64 s) (fips_block (block_words s) H))"

declare fips_blocks.simps [simp del]

definition fips_sha1 :: "bytes \<Rightarrow> bytes" where
  "fips_sha1 s = store_hash (fips_blocks (fips_pad s) initial_hash)"

lemma rol_rotl: "rol v n = word_rotl n v" if "n < 32"
proof (rule bit_word_eqI)
  fix k assume "k < LENGTH(32)"
  then show "bit (rol v n) k = bit (word_rotl n v) k"
    using that by (cases "k < n") (auto simp: rol_def bit_word_rotl_iff bit_simps mod_if add.commute [of 32]
      dest: bit_imp_le_length)
qed

lemma chosen_fips: "chosen b c d = (b AND c) XOR ((NOT b) AND d)"
  by (rule bit_word_eqI) (auto simp: chosen_def bit_simps)

lemma majority_fips: "majority b c d = (b AND c) XOR (b AND d) XOR (c AND d)"
  by (rule bit_word_eqI) (auto simp: majority_def bit_simps)

subsection \<open>The rounds\<close>

definition after_rounds :: "u32 list \<Rightarrow> regs \<Rightarrow> nat \<Rightarrow> regs \<times> u32 list \<Rightarrow> bool" where
  "after_rounds M H n = (\<lambda>(r, w). length w = 80 \<and> (\<forall>i < max n 16. w ! i = fips_W M i)
     \<and> r = fold (fips_round M) [0..<n] H)"

lemma one_round:
  assumes "after_rounds M H n (r, w)" and "n < 80" and "extend \<longleftrightarrow> 16 \<le> n"
    and "func = fips_f n" and "val = fips_K n"
  shows "after_rounds M H (Suc n) (rounds extend func val [n] (r, w))"
proof -
  let ?w = "if extend then next_word n w else w"
  have w: "length w = 80" "\<And>i. i < max n 16 \<Longrightarrow> w ! i = fips_W M i"
    and r: "r = fold (fips_round M) [0..<n] H" using assms(1) by (auto simp: after_rounds_def)
  have "?w ! i = fips_W M i" if "i < max (Suc n) 16" for i
  proof (cases "i = n \<and> extend")
    case True
    then have "n - 3 < n" "n - 8 < n" "n - 14 < n" "n - 16 < n" "16 \<le> n" using assms(3) by auto
    then show ?thesis
      using True w assms(2) by (simp add: next_word_def fips_W.simps [of M n] rol_rotl)
  next
    case False
    then have "?w ! i = w ! i" by (auto simp: next_word_def)
    moreover have "i < max n 16" using that False assms(3) by (auto simp: max_def split: if_splits)
    ultimately show ?thesis using w by simp
  qed
  moreover from this have "sha1macro func val (?w ! n) r = fips_round M n r"
    using assms(4,5) by (simp add: sha1macro_def fips_round_def rol_rotl split: prod.splits)
  moreover have "length ?w = 80" using w by (simp add: next_word_def)
  ultimately show ?thesis using r by (simp add: after_rounds_def rounds_def Let_def)
qed

lemma rounds_append: "rounds x f v (as @ bs) s = rounds x f v bs (rounds x f v as s)"
  by (simp add: rounds_def)

lemma rounds_loop:
  assumes "lo \<le> hi" and "hi \<le> 80" and "\<And>t. \<lbrakk>lo \<le> t; t < hi\<rbrakk> \<Longrightarrow> (extend \<longleftrightarrow> 16 \<le> t) \<and> func = fips_f t \<and> val = fips_K t"
    and "after_rounds M H lo s"
  shows "after_rounds M H hi (rounds extend func val [lo..<hi] s)"
  using assms(1-3)
proof (induction hi rule: dec_induct)
  case base
  then show ?case using assms(4) by (simp add: rounds_def)
next
  case (step n)
  then have "after_rounds M H n (rounds extend func val [lo..<n] s)" by auto
  then show ?case
    using one_round [of M H n _ _ extend func val] step
    by (cases "rounds extend func val [lo..<n] s") (simp add: rounds_append)
qed

lemma fips_f_code:
  "t < 20 \<Longrightarrow> chosen = fips_f t \<and> 0x5a827999 = fips_K t"
  "\<lbrakk>20 \<le> t; t < 40\<rbrakk> \<Longrightarrow> parity = fips_f t \<and> 0x6ed9eba1 = fips_K t"
  "\<lbrakk>40 \<le> t; t < 60\<rbrakk> \<Longrightarrow> majority = fips_f t \<and> 0x8f1bbcdc = fips_K t"
  "60 \<le> t \<Longrightarrow> parity = fips_f t \<and> 0xca62c1d6 = fips_K t"
  by (auto simp: fips_f_def fips_K_def chosen_fips majority_fips parity_def intro!: ext)

lemma innerHash_fips:
  assumes "length w = 80" and "take 16 w = M"
  shows "fst (innerHash H w) = fips_block M H" "length (snd (innerHash H w)) = 80"
proof -
  have M: "w ! i = M ! i" if "i < 16" for i using that assms(2) by (metis nth_take)
  have 0: "after_rounds M H 0 (H, w)"
    using assms M by (simp add: after_rounds_def fips_W.simps)
  let ?s1 = "rounds False chosen 0x5a827999 [0..<16] (H, w)"
  let ?s2 = "rounds True chosen 0x5a827999 [16..<20] ?s1"
  let ?s3 = "rounds True parity 0x6ed9eba1 [20..<40] ?s2"
  let ?s4 = "rounds True majority 0x8f1bbcdc [40..<60] ?s3"
  let ?s5 = "rounds True parity 0xca62c1d6 [60..<80] ?s4"
  have "after_rounds M H 16 ?s1" by (rule rounds_loop [OF _ _ _ 0]) (simp_all add: fips_f_code)
  then have "after_rounds M H 20 ?s2" by (rule rounds_loop [rotated 3]) (simp_all add: fips_f_code)
  then have "after_rounds M H 40 ?s3" by (rule rounds_loop [rotated 3]) (simp_all add: fips_f_code)
  then have "after_rounds M H 60 ?s4" by (rule rounds_loop [rotated 3]) (simp_all add: fips_f_code)
  then have "after_rounds M H 80 ?s5" by (rule rounds_loop [rotated 3]) (simp_all add: fips_f_code)
  then show "fst (innerHash H w) = fips_block M H" "length (snd (innerHash H w)) = 80"
    by (simp_all add: innerHash_def fips_block_def after_rounds_def Let_def split: prod.splits)
qed

subsection \<open>The full blocks\<close>

lemma block_words_append: "64 \<le> length s \<Longrightarrow> block_words (s @ t) = block_words s"
  by (auto simp: block_words_def word_at_def nth_append)

lemma fips_blocks_full:
  assumes "64 \<le> length s"
  shows "fips_blocks (s @ t) H = fips_blocks (drop 64 s @ t) (fips_block (block_words s) H)"
  using assms by (subst fips_blocks.simps) (auto simp: block_words_append)

lemma load_block_words: "length w = 80 \<Longrightarrow> take 16 (load_block s w) = block_words s \<and> length (load_block s w) = 80"
  by (simp add: load_block_def block_words_def)

lemma full_blocks_fips:
  assumes "length w = 80" and "full_blocks s H w = (rest, H', w')"
  shows "rest = drop (64 * (length s div 64)) s \<and> length w' = 80
    \<and> fips_blocks (s @ t) H = fips_blocks (rest @ t) H'"
  using assms
proof (induction s H w rule: full_blocks.induct)
  case (1 s H w)
  show ?case
  proof (cases "64 \<le> length s")
    case True
    obtain H1 w1 where i: "innerHash H (load_block s w) = (H1, w1)" by (cases "innerHash H (load_block s w)")
    have l: "take 16 (load_block s w) = block_words s" "length (load_block s w) = 80"
      using load_block_words [OF 1(2)] by simp_all
    have H1: "H1 = fips_block (block_words s) H" "length w1 = 80"
      using innerHash_fips [OF l(2,1), of H] i by simp_all
    have "full_blocks (drop 64 s) H1 w1 = (rest, H', w')"
      using 1(3) True i by (subst (asm) full_blocks.simps) simp
    from 1(1) [OF True i [symmetric] _ H1(2) this] i
    have "rest = drop (64 * ((length s - 64) div 64)) (drop 64 s) \<and> length w' = 80
      \<and> fips_blocks (drop 64 s @ t) H1 = fips_blocks (rest @ t) H'" by simp
    moreover have "64 * (length s div 64) = 64 * ((length s - 64) div 64) + 64"
      using True by (simp add: le_div_geq)
    ultimately show ?thesis using True H1 fips_blocks_full [OF True, of t H] by simp
  next
    case False
    then show ?thesis using 1(2,3) by (simp add: full_blocks.simps [of s])
  qed
qed

subsection \<open>The last block\<close>

definition words_of :: "bytes \<Rightarrow> u32 list" where
  "words_of s = block_words (s @ replicate (64 - length s) 0)"

lemma word_at_append:
  "length u = p \<Longrightarrow> word_at (u @ v) p = word_at v 0"
  "length u = p \<Longrightarrow> word_at (u @ v) (p + q) = word_at v q"
  by (simp_all add: word_at_def nth_append numeral_2_eq_2)

lemma or_byte:
  assumes "length v = m" and "m < 4" and "4 \<le> n + m"
  shows "word_at (v @ replicate n 0) 0 OR push_bit (8 * (3 - m)) (ucast b)
    = word_at (v @ [b] @ replicate (n - 1) 0) 0"
proof -
  obtain x y z where "v = [] \<or> v = [x] \<or> v = [x, y] \<or> v = [x, y, z]"
    using assms(1,2) by (cases v; cases "tl v"; cases "tl (tl v)") auto
  then show ?thesis
    using assms by (elim disjE) (auto simp: word_at_def nth_append nth_Cons or.commute or.left_commute or.assoc)
qed

lemma put_byte_words:
  assumes "length s < 64" and "length w = 80" and "take 16 w = words_of s"
  shows "take 16 (put_byte (length s) b w) = words_of (s @ [b])" "length (put_byte (length s) b w) = 80"
proof -
  let ?k = "length s div 4"
  have k: "?k < 16" using assms(1) by simp
  have w: "w ! i = word_at (s @ replicate (64 - length s) 0) (4 * i)" if "i < 16" for i
    using assms(3) that by (metis (no_types, lifting) nth_take words_of_def block_words_def
        diff_zero length_upt nth_map nth_upt plus_nat.add_0)
  have other: "word_at (s @ replicate (64 - length s) 0) (4 * i)
      = word_at (s @ [b] @ replicate (63 - length s) 0) (4 * i)" if "i < 16" "i \<noteq> ?k" for i
    using that assms(1) by (auto simp: word_at_def nth_append nth_Cons split: nat.splits)
  have here: "word_at (s @ replicate (64 - length s) 0) (4 * ?k) OR push_bit (8 * (3 - length s mod 4)) (ucast b)
      = word_at (s @ [b] @ replicate (63 - length s) 0) (4 * ?k)"
  proof -
    let ?u = "take (4 * ?k) s" and ?v = "drop (4 * ?k) s"
    have s: "s = ?u @ ?v" "length ?u = 4 * ?k" "length ?v = length s mod 4"
      by (simp_all add: minus_div_mult_eq_mod [symmetric] mult.commute)
    have at: "word_at (s @ z) (4 * ?k) = word_at (?v @ z) 0" for z
      using word_at_append(1) [OF s(2), of "?v @ z"] s(1) by (metis append_assoc)
    have "4 \<le> 64 - length s + length s mod 4" using assms(1) by presburger
    then show ?thesis
      using or_byte [OF s(3), of "64 - length s" b] by (simp add: at)
  qed
  show "take 16 (put_byte (length s) b w) = words_of (s @ [b])"
    using assms(1,2) other here k
    by (intro nth_equalityI) (auto simp: put_byte_def words_of_def block_words_def w nth_list_update)
  show "length (put_byte (length s) b w) = 80" using assms(2) by (simp add: put_byte_def)
qed

lemma put_bytes_words:
  assumes "length s < 64" and "length w = 80"
  shows "take 16 (put_bytes s (clearWBuffert w)) = words_of s \<and> length (put_bytes s (clearWBuffert w)) = 80"
proof -
  let ?f = "\<lambda>n. fold (\<lambda>k. put_byte k (s ! k)) [0..<n] (clearWBuffert w)"
  have "take 16 (?f n) = words_of (take n s) \<and> length (?f n) = 80" if "n \<le> length s" for n
    using that
  proof (induction n)
    case 0
    show ?case using assms(2)
      by (auto simp: clearWBuffert_def words_of_def block_words_def word_at_def intro!: nth_equalityI)
  next
    case (Suc n)
    then have "length (take n s) = n" "take (Suc n) s = take n s @ [s ! n]"
      by (simp_all add: take_Suc_conv_app_nth)
    then show ?case
      using put_byte_words [of "take n s" "?f n" "s ! n"] Suc assms(1) by simp
  qed
  from this [of "length s"] show ?thesis by (simp add: put_bytes_def)
qed

subsection \<open>The padding\<close>

lemma length_word:
  assumes "n < 2 ^ 32"
  shows "word_at (map (\<lambda>i. of_nat (n div 256 ^ i mod 256)) [7, 6, 5, 4, 3, 2, 1, 0]) 0 = 0"
    "word_at (map (\<lambda>i. of_nat (n div 256 ^ i mod 256)) [7, 6, 5, 4, 3, 2, 1, 0]) 4 = of_nat n"
proof -
  have "n div 256 ^ i = 0" if "4 \<le> i" for i
    using assms that power_increasing [of 4 i "256 :: nat"] by (simp add: order_less_le_trans)
  from this [of 4] this [of 5] this [of 6] this [of 7]
  show "word_at (map (\<lambda>i. of_nat (n div 256 ^ i mod 256)) [7, 6, 5, 4, 3, 2, 1, 0]) 0 = 0"
    by (simp add: word_at_def)
  have b: "bit (of_nat (n div 256 ^ i mod 256) :: u8) j \<longleftrightarrow> j < 8 \<and> bit n (8 * i + j)" for i j
  proof -
    have "n div 256 ^ i mod 256 = take_bit 8 (drop_bit (8 * i) n)"
      by (simp add: take_bit_eq_mod drop_bit_eq_div power_mult)
    then show ?thesis by (auto simp: bit_simps)
  qed
  show "word_at (map (\<lambda>i. of_nat (n div 256 ^ i mod 256)) [7, 6, 5, 4, 3, 2, 1, 0]) 4 = of_nat n"
  proof (rule bit_word_eqI)
    fix j assume "j < LENGTH(32)"
    then have j: "j < 32" by simp
    show "bit (word_at (map (\<lambda>i. of_nat (n div 256 ^ i mod 256)) [7, 6, 5, 4, 3, 2, 1, 0]) 4) j
      = bit (of_nat n :: u32) j"
      using j b [of 0 j] b [of 1 "j - 8"] b [of 2 "j - 16"] b [of 3 "j - 24"]
      by (cases "j < 8"; cases "j < 16"; cases "j < 24")
        (auto simp: word_at_def bit_simps simp del: power_one_right of_nat_mod)
  qed
qed

lemma block_word: "i < 16 \<Longrightarrow> block_words s ! i = word_at s (4 * i)"
  by (simp add: block_words_def)

lemma block_with_length:
  assumes "length s \<le> 56" and "length l = 8" and "word_at l 0 = 0" and "take 16 w = words_of s"
    and "length w = 80"
  shows "take 16 (w[15 := word_at l 4]) = block_words (s @ replicate (56 - length s) 0 @ l)"
proof (rule nth_equalityI)
  fix i assume "i < length (take 16 (w[15 := word_at l 4]))"
  then have i: "i < 16" by simp
  let ?p = "s @ replicate (56 - length s) 0"
  have p: "length ?p = 56" using assms(1) by simp
  have w: "w ! i = word_at (s @ replicate (64 - length s) 0) (4 * i)"
    using assms(4) i block_word by (metis nth_take words_of_def)
  have "word_at (?p @ l) (4 * i) = (if i = 15 then word_at l 4 else w ! i)"
  proof (cases "i < 14")
    case True
    have "(?p @ l) ! q = (s @ replicate (64 - length s) 0) ! q" if "q < 56" for q
      using that p assms(1) by (auto simp: nth_append)
    then have "word_at (?p @ l) (4 * i) = word_at (s @ replicate (64 - length s) 0) (4 * i)"
      using True by (simp add: word_at_def)
    then show ?thesis using True w by simp
  next
    case False
    then consider "i = 14" | "i = 15" using i by linarith
    then show ?thesis
    proof cases
      case 1
      have "word_at (s @ replicate (64 - length s) 0) 56 = 0"
        using assms(1) by (simp add: word_at_def nth_append)
      then show ?thesis using 1 w word_at_append(1) [OF p, of l] assms(3) by simp
    next
      case 2
      then show ?thesis using word_at_append(2) [OF p, of l 4] by simp
    qed
  qed
  then show "take 16 (w[15 := word_at l 4]) ! i = block_words (s @ replicate (56 - length s) 0 @ l) ! i"
    using i assms(5) by (simp add: block_word nth_list_update)
qed (use assms(5) in \<open>simp add: block_words_def\<close>)

lemma last_block_fips:
  assumes "length w = 80" and "take 16 w = block_words s" and "length s = 64"
  shows "fst (innerHash H w) = fips_blocks s H"
proof -
  have "s \<noteq> []" using assms(3) by auto
  then show ?thesis
    using innerHash_fips(1) [OF assms(1,2)] assms(3)
    by (subst fips_blocks.simps) (simp add: fips_blocks.simps [of "[]"])
qed

subsection \<open>Properties\<close>

lemma calc_fips:
  assumes "length w = 80" and "length src < 2 ^ 29"
  shows "calc w src = fips_sha1 src"
proof -
  define l :: bytes where "l = map (\<lambda>i. of_nat (8 * length src div 256 ^ i mod 256)) [7, 6, 5, 4, 3, 2, 1, 0]"
  have "8 * length src < 2 ^ 32" using assms(2) by simp
  note len = length_word [OF this, folded l_def]
  have l: "length l = 8" "word_at l 0 = 0" "push_bit 3 (of_nat (length src)) = word_at l 4"
    unfolding len by (simp_all add: l_def push_bit_eq_mult)
  define k where "k = (119 - length src mod 64) mod 64"
  obtain rest H1 w1 where f: "full_blocks src initial_hash w = (rest, H1, w1)"
    by (cases "full_blocks src initial_hash w")
  have rest: "rest = drop (64 * (length src div 64)) src" "length w1 = 80"
    using full_blocks_fips [OF assms(1) f] by blast+
  then have r: "length rest = length src mod 64" by (simp add: minus_mult_div_eq_mod)
  let ?t = "rest @ [0x80]"
  have spec: "fips_sha1 src = store_hash (fips_blocks (?t @ replicate k 0 @ l) H1)"
    using full_blocks_fips [OF assms(1) f, of "[0x80] @ replicate k 0 @ l"]
    by (simp add: fips_sha1_def fips_pad_def l_def k_def Let_def)
  define w2 where "w2 = put_byte (length rest) 0x80 (put_bytes rest (clearWBuffert w1))"
  have "length rest < 64" using r by simp
  then have w2: "take 16 w2 = words_of ?t" "length w2 = 80"
    using put_bytes_words [OF _ rest(2), of rest] put_byte_words [of rest] by (simp_all add: w2_def)
  show ?thesis
  proof (cases "56 \<le> length rest")
    case False
    then have k: "k = 56 - length ?t" unfolding k_def r [symmetric] by (simp add: mod_if)
    have "take 16 (w2[15 := word_at l 4]) = block_words (?t @ replicate k 0 @ l)"
      unfolding k by (rule block_with_length [OF _ l(1,2) w2]) (use False in simp)
    from last_block_fips [OF _ this, of H1] spec show ?thesis
      using False f w2(2) l k by (simp add: calc_def w2_def [symmetric] case_prod_beta)
  next
    case True
    then have k: "k = (63 - length rest) + 56" unfolding k_def r [symmetric]
      using \<open>length rest < 64\<close> by simp
    let ?b = "?t @ replicate (63 - length rest) 0"
    obtain H2 w3 where i: "innerHash H1 w2 = (H2, w3)" by (cases "innerHash H1 w2")
    have b: "length ?b = 64" "block_words ?b = words_of ?t"
      using \<open>length rest < 64\<close> by (simp_all add: words_of_def)
    have H2: "H2 = fips_block (block_words ?b) H1" "length w3 = 80"
      using innerHash_fips [OF w2(2,1), of H1] i b by simp_all
    have z: "take 16 (clearWBuffert w3) = words_of []" "length (clearWBuffert w3) = 80"
      using put_bytes_words [of "[]" w3] H2(2) by (simp_all add: put_bytes_def)
    from block_with_length [OF _ l(1,2) z]
    have "take 16 ((clearWBuffert w3)[15 := word_at l 4]) = block_words (replicate 56 0 @ l)" by simp
    from last_block_fips [OF _ this, of H2]
    have "fst (innerHash H2 ((clearWBuffert w3)[15 := word_at l 4])) = fips_blocks (replicate 56 0 @ l) H2"
      using z(2) l(1) by simp
    moreover have "fips_blocks (?t @ replicate k 0 @ l) H1 = fips_blocks (replicate 56 0 @ l) H2"
      using fips_blocks_full [of ?b "replicate 56 0 @ l" H1] b H2(1) unfolding k replicate_add by simp
    ultimately show ?thesis
      using True f i l(3) spec by (simp add: calc_def w2_def [symmetric] case_prod_beta)
  qed
qed

text \<open>C22: for inputs below 512 MB the routine computes the SHA-1 hash of the standard, whatever the
  round buffer holds at first.\<close>

theorem calc_is_sha1:
  assumes "length w = 80" and "length src < 2 ^ 29"
  shows "calc w src = fips_sha1 src"
  using calc_fips [OF assms] .

theorem calc_is_sha1_witness:
  "calc (replicate 80 0xdeadbeef) (ascii ''abc'') = fips_sha1 (ascii ''abc'')"
  by (rule calc_is_sha1) simp_all

end
