(* ===== verification/Base64.thy ===== *)
theory Base64
  imports Prelude
begin

text \<open>
  \<open>base64/base64.hpp\<close>. Characters are bytes. The arrays of three and four characters hold the part
  written so far, so their index \<open>i\<close> is the length of the list; values are cut to
  \<open>unsigned char\<close> where the code stores them.
\<close>

subsection \<open>The routines\<close>

definition base64_chars :: bytes where
  "base64_chars = ascii ''ABCDEFGHIJKLMNOPQRSTUVWXYZabcdefghijklmnopqrstuvwxyz0123456789+/''"

definition is_base64 :: "u8 \<Rightarrow> bool" where
  "is_base64 c \<longleftrightarrow> c = 43 \<or> (47 \<le> c \<and> c \<le> 57) \<or> (65 \<le> c \<and> c \<le> 90) \<or> (97 \<le> c \<and> c \<le> 122)"

text \<open>\<open>find\<close> gives the first position, or \<open>npos\<close>, which becomes 255.\<close>

fun find_from :: "nat \<Rightarrow> bytes \<Rightarrow> u8 \<Rightarrow> u8" where
  "find_from n [] c = 255"
| "find_from n (x # xs) c = (if x = c then of_nat n else find_from (Suc n) xs c)"

definition find_char :: "u8 \<Rightarrow> u8" where
  "find_char c = find_from 0 base64_chars c"

definition to_array_4 :: "bytes \<Rightarrow> bytes" where
  "to_array_4 a =
     [drop_bit 2 (a ! 0 AND 0xfc),
      push_bit 4 (a ! 0 AND 0x03) + drop_bit 4 (a ! 1 AND 0xf0),
      push_bit 2 (a ! 1 AND 0x0f) + drop_bit 6 (a ! 2 AND 0xc0),
      a ! 2 AND 0x3f]"

definition to_array_3 :: "bytes \<Rightarrow> bytes" where
  "to_array_3 a =
     [push_bit 2 (a ! 0) + drop_bit 4 (a ! 1 AND 0x30),
      push_bit 4 (a ! 1 AND 0xf) + drop_bit 2 (a ! 2 AND 0x3c),
      push_bit 6 (a ! 2 AND 0x3) + a ! 3]"

definition char_of :: "u8 \<Rightarrow> u8" where
  "char_of v = base64_chars ! unat v"

text \<open>The loops give the characters pending in the array and the output.\<close>

fun encode_loop :: "bytes \<Rightarrow> bytes \<Rightarrow> bytes \<Rightarrow> bytes \<times> bytes" where
  "encode_loop [] arr ret = (arr, ret)"
| "encode_loop (c # cs) arr ret =
     (let arr = arr @ [c]
      in if length arr = 3 then encode_loop cs [] (ret @ map char_of (to_array_4 arr))
         else encode_loop cs arr ret)"

definition base64_encode :: "bytes \<Rightarrow> bytes" where
  "base64_encode input =
     (let (arr, ret) = encode_loop input [] []; i = length arr
      in if i \<noteq> 0 then
           ret @ map char_of (take (i + 1) (to_array_4 (arr @ replicate (3 - i) 0)))
             @ replicate (3 - i) 0x3D
         else ret)"

fun decode_loop :: "bytes \<Rightarrow> bytes \<Rightarrow> bytes \<Rightarrow> bytes \<times> bytes" where
  "decode_loop [] arr ret = (arr, ret)"
| "decode_loop (c # cs) arr ret =
     (if c \<noteq> 0x3D \<and> is_base64 c then
        let arr = arr @ [c]
        in if length arr = 4 then decode_loop cs [] (ret @ to_array_3 (map find_char arr))
           else decode_loop cs arr ret
      else (arr, ret))"

definition base64_decode :: "bytes \<Rightarrow> bytes" where
  "base64_decode input =
     (let (arr, ret) = decode_loop input [] []; i = length arr
      in if i \<noteq> 0 then
           ret @ take (i - 1) (to_array_3 (map find_char (arr @ replicate (4 - i) 0)))
         else ret)"

subsection \<open>Three bytes and four characters\<close>

lemma find_nth: "\<lbrakk>distinct xs; k < length xs\<rbrakk> \<Longrightarrow> find_from n xs (xs ! k) = of_nat (n + k)"
  by (induction xs arbitrary: n k) (auto simp: nth_Cons split: nat.splits)

lemma base64_chars_props:
  "length base64_chars = 64" "distinct base64_chars"
  "list_all (\<lambda>c. is_base64 c \<and> c \<noteq> 0x3D) base64_chars"
  by (code_simp, code_simp, code_simp)

lemma char_of_table:
  assumes "v \<le> 63"
  shows "find_char (char_of v) = v" "is_base64 (char_of v)" "char_of v \<noteq> 0x3D"
proof -
  have v: "unat v < length base64_chars"
    using assms by (simp add: word_le_nat_alt base64_chars_props)
  show "find_char (char_of v) = v"
    using find_nth [OF base64_chars_props(2) v, of 0] by (simp add: find_char_def char_of_def)
  show "is_base64 (char_of v)" "char_of v \<noteq> 0x3D"
    using base64_chars_props(3) nth_mem [OF v] by (auto simp: list_all_iff char_of_def)
qed

lemma bits_8:
  fixes v w :: u8
  assumes "bit v 0 = bit w 0" "bit v 1 = bit w 1" "bit v 2 = bit w 2" "bit v 3 = bit w 3"
    "bit v 4 = bit w 4" "bit v 5 = bit w 5" "bit v 6 = bit w 6" "bit v 7 = bit w 7"
  shows "v = w"
proof (rule bit_word_eqI)
  fix n assume "n < LENGTH(8)"
  then have "n < 8" by simp
  then have "n = 0 \<or> n = 1 \<or> n = 2 \<or> n = 3 \<or> n = 4 \<or> n = 5 \<or> n = 6 \<or> n = 7"
    by presburger
  then show "bit v n = bit w n" using assms by (elim disjE) (simp_all only:)
qed

lemma bit_beyond: "8 \<le> n \<Longrightarrow> \<not> bit v n" for v :: u8
  using bit_imp_le_length [of v n] by auto

lemma no_carry:
  "push_bit 4 (a AND 0x03) + drop_bit 4 (b AND 0xf0) = push_bit 4 (a AND 0x03) OR drop_bit 4 (b AND 0xf0)"
  "push_bit 2 (b AND 0x0f) + drop_bit 6 (c AND 0xc0) = push_bit 2 (b AND 0x0f) OR drop_bit 6 (c AND 0xc0)"
  for a b c :: u8
  by (rule disjunctive_add_eq_or; rule bits_8; simp only: bit_simps; simp add: bit_beyond bit_simps)+

text \<open>Hence the numbers: the sextets of the code are those of the 24-bit group.\<close>

lemma low_bits:
  "a AND 0xfc = push_bit 2 (drop_bit 2 a)" "a AND 0xf0 = push_bit 4 (drop_bit 4 a)"
  "a AND 0xc0 = push_bit 6 (drop_bit 6 a)" "a AND 0x30 = push_bit 4 (take_bit 2 (drop_bit 4 a))"
  "a AND 0x3c = push_bit 2 (take_bit 4 (drop_bit 2 a))"
  "a AND 0x03 = take_bit 2 a" "a AND 0x0f = take_bit 4 a" "a AND 0x3f = take_bit 6 a" for a :: u8
  by (rule bits_8; simp only: bit_simps; simp add: bit_beyond bit_simps)+

lemma unat_parts:
  "unat (drop_bit 2 (a AND 0xfc)) = unat a div 4" "unat (drop_bit 4 (a AND 0xf0)) = unat a div 16"
  "unat (drop_bit 6 (a AND 0xc0)) = unat a div 64"
  "unat (push_bit 4 (a AND 0x03)) = unat a mod 4 * 16"
  "unat (push_bit 2 (a AND 0x0f)) = unat a mod 16 * 4"
  "unat (a AND 0x3f) = unat a mod 64" for a :: u8
proof -
  have d: "drop_bit 2 (a AND 0xfc) = drop_bit 2 a" "drop_bit 4 (a AND 0xf0) = drop_bit 4 a"
    "drop_bit 6 (a AND 0xc0) = drop_bit 6 a"
    by (rule bits_8; simp only: bit_simps; simp add: bit_beyond bit_simps)+
  show "unat (drop_bit 2 (a AND 0xfc)) = unat a div 4" "unat (drop_bit 4 (a AND 0xf0)) = unat a div 16"
    "unat (drop_bit 6 (a AND 0xc0)) = unat a div 64"
    unfolding d unat_drop_bit_eq by (simp_all add: drop_bit_eq_div)
  have "unat a mod 4 * 16 < 256" "unat a mod 16 * 4 < 256" by simp_all
  then show "unat (push_bit 4 (a AND 0x03)) = unat a mod 4 * 16"
    "unat (push_bit 2 (a AND 0x0f)) = unat a mod 16 * 4"
    unfolding low_bits unsigned_push_bit_eq unsigned_take_bit_eq
    by (simp_all add: take_bit_eq_mod push_bit_eq_mult)
  show "unat (a AND 0x3f) = unat a mod 64"
    unfolding low_bits unsigned_take_bit_eq by (simp add: take_bit_eq_mod)
qed

lemma unat_plus_small: "unat x + unat y < 256 \<Longrightarrow> unat (x + y) = unat x + unat y" for x y :: u8
  by (simp add: unat_word_ariths)

lemma nth_small:
  "[a, b, c] ! 0 = a" "[a, b, c] ! 1 = b" "[a, b, c] ! 2 = c"
  "[a, b, c, d] ! 0 = a" "[a, b, c, d] ! 1 = b" "[a, b, c, d] ! 2 = c" "[a, b, c, d] ! 3 = d"
  by simp_all

lemma sextets:
  "unat (to_array_4 [a, b, c] ! 0) = unat a div 4"
  "unat (to_array_4 [a, b, c] ! 1) = unat a mod 4 * 16 + unat b div 16"
  "unat (to_array_4 [a, b, c] ! 2) = unat b mod 16 * 4 + unat c div 64"
  "unat (to_array_4 [a, b, c] ! 3) = unat c mod 64"
proof -
  have "unat b div 16 < 16" "unat c div 64 < 4" by (simp_all add: less_mult_imp_div_less)
  moreover have "unat a mod 4 < 4" "unat b mod 16 < 16" by simp_all
  ultimately have "unat a mod 4 * 16 + unat b div 16 < 256" "unat b mod 16 * 4 + unat c div 64 < 256"
    by linarith+
  then show "unat (to_array_4 [a, b, c] ! 1) = unat a mod 4 * 16 + unat b div 16"
    "unat (to_array_4 [a, b, c] ! 2) = unat b mod 16 * 4 + unat c div 64"
    unfolding to_array_4_def nth_small
    by (subst unat_plus_small; simp only: unat_parts)+
  show "unat (to_array_4 [a, b, c] ! 0) = unat a div 4"
    "unat (to_array_4 [a, b, c] ! 3) = unat c mod 64"
    unfolding to_array_4_def nth_small by (simp_all only: unat_parts)
qed

lemma four_sextets:
  "to_array_4 v = [to_array_4 v ! 0, to_array_4 v ! 1, to_array_4 v ! 2, to_array_4 v ! 3]"
  unfolding to_array_4_def nth_small ..

lemma octets_back: "to_array_3 (to_array_4 [a, b, c]) = [a, b, c]"
proof -
  have 0: "push_bit 2 x + drop_bit 4 (y AND 0x30) = push_bit 2 x OR drop_bit 4 (y AND 0x30)"
    "push_bit 4 (x AND 0xf) + drop_bit 2 (y AND 0x3c) = push_bit 4 (x AND 0xf) OR drop_bit 2 (y AND 0x3c)"
    for x y :: u8
    by (rule disjunctive_add_eq_or; rule bits_8; simp only: bit_simps; simp add: bit_beyond bit_simps)+
  have 3: "push_bit 6 (x AND 0x3) + (y AND 0x3f) = push_bit 6 (x AND 0x3) OR (y AND 0x3f)" for x y :: u8
    by (rule disjunctive_add_eq_or; rule bits_8; simp only: bit_simps; simp add: bit_beyond bit_simps)
  let ?s = "\<lambda>a b. push_bit 4 (a AND 0x03) OR drop_bit 4 (b AND (0xf0 :: u8))"
  let ?t = "\<lambda>b c. push_bit 2 (b AND 0x0f) OR drop_bit 6 (c AND (0xc0 :: u8))"
  have "push_bit 2 (drop_bit 2 (a AND 0xfc)) OR drop_bit 4 (?s a b AND 0x30) = a"
    "push_bit 4 (?s a b AND 0xf) OR drop_bit 2 (?t b c AND 0x3c) = b"
    "push_bit 6 (?t b c AND 0x3) OR (c AND 0x3f) = c"
    by (rule bits_8; simp only: bit_simps; simp add: bit_beyond bit_simps)+
  then show ?thesis by (simp only: to_array_3_def to_array_4_def no_carry nth_small 0 3)
qed

lemma sextet_bound: "v \<in> set (to_array_4 [a, b, c]) \<Longrightarrow> v \<le> 63"
proof -
  assume "v \<in> set (to_array_4 [a, b, c])"
  then consider "v = to_array_4 [a, b, c] ! 0" | "v = to_array_4 [a, b, c] ! 1"
    | "v = to_array_4 [a, b, c] ! 2" | "v = to_array_4 [a, b, c] ! 3"
    by (subst (asm) four_sextets) auto
  moreover have "unat a div 4 < 64" "unat b div 16 < 16" "unat c div 64 < 4"
    by (simp_all add: less_mult_imp_div_less)
  moreover have "unat a mod 4 < 4" "unat b mod 16 < 16" "unat c mod 64 < 64" by simp_all
  ultimately have "unat v \<le> 63"
    using sextets [of a b c] by cases (hypsubst, linarith)+
  then show ?thesis by (simp add: word_le_nat_alt)
qed

subsection \<open>The loops, three bytes at a time\<close>

lemma encode_loop_3:
  "encode_loop (a # b # c # xs) [] ret = encode_loop xs [] (ret @ map char_of (to_array_4 [a, b, c]))"
  by simp

lemma encode_loop_ret:
  "encode_loop xs arr ret = (fst (encode_loop xs arr []), ret @ snd (encode_loop xs arr []))"
proof (induction xs arbitrary: arr ret)
  case (Cons x xs)
  show ?case
    by (cases "length (arr @ [x]) = 3")
      (simp_all add: Let_def Cons [of "[]" "ret @ _"] Cons [of "[]" "map char_of _"] Cons [of "arr @ [x]" ret])
qed simp

lemma encode_3:
  "base64_encode (a # b # c # xs) = map char_of (to_array_4 [a, b, c]) @ base64_encode xs"
proof -
  obtain arr ret where e: "encode_loop xs [] [] = (arr, ret)" by (cases "encode_loop xs [] []")
  have "encode_loop (a # b # c # xs) [] [] = (arr, map char_of (to_array_4 [a, b, c]) @ ret)"
    unfolding encode_loop_3 using encode_loop_ret [of xs "[]" "map char_of (to_array_4 [a, b, c])"] e
    by simp
  then show ?thesis using e by (simp add: base64_encode_def Let_def)
qed

text \<open>The encoding of RFC 4648: groups of 24 bits, four digits of base 64 each, padded with \<open>=\<close>.\<close>

definition group_24 :: "u8 \<Rightarrow> u8 \<Rightarrow> u8 \<Rightarrow> bytes" where
  "group_24 a b c =
     (let n = unat a * 65536 + unat b * 256 + unat c
      in map (\<lambda>k. base64_chars ! (n div 64 ^ k mod 64)) [3, 2, 1, 0])"

fun rfc4648 :: "bytes \<Rightarrow> bytes" where
  "rfc4648 [] = []"
| "rfc4648 [a] = take 2 (group_24 a 0 0) @ [0x3D, 0x3D]"
| "rfc4648 [a, b] = take 3 (group_24 a b 0) @ [0x3D]"
| "rfc4648 (a # b # c # xs) = group_24 a b c @ rfc4648 xs"

lemma digits_64:
  fixes a b c :: nat
  assumes "a < 256" "b < 256" "c < 256"
  shows "(a * 65536 + b * 256 + c) div 262144 mod 64 = a div 4"
    "(a * 65536 + b * 256 + c) div 4096 mod 64 = a mod 4 * 16 + b div 16"
    "(a * 65536 + b * 256 + c) div 64 mod 64 = b mod 16 * 4 + c div 64"
    "(a * 65536 + b * 256 + c) mod 64 = c mod 64"
proof -
  define p u q r s t where d: "p = a div 4" "u = a mod 4" "q = b div 16" "r = b mod 16"
    "s = c div 64" "t = c mod 64"
  have e: "a = 4 * p + u" "b = 16 * q + r" "c = 64 * s + t" by (simp_all add: d)
  have l: "p < 64" "u < 4" "q < 16" "r < 16" "s < 4" "t < 64"
    using assms by (simp_all add: d less_mult_imp_div_less)
  have "(a * 65536 + b * 256 + c) div 262144 = p"
    "(a * 65536 + b * 256 + c) div 4096 = p * 64 + (u * 16 + q)"
    "(a * 65536 + b * 256 + c) div 64 = (p * 64 + (u * 16 + q)) * 64 + (r * 4 + s)"
    unfolding e by (rule div_nat_eqI; use l in simp)+
  moreover have "u * 16 + q < 64" "r * 4 + s < 64" using l by linarith+
  moreover have "a * 65536 + b * 256 + c = t + 64 * ((p * 64 + (u * 16 + q)) * 64 + (r * 4 + s))"
    unfolding e by simp
  then have "(a * 65536 + b * 256 + c) mod 64 = t" using l(6) by (simp only: mod_mult_self2 mod_less)
  moreover have "(k * 64 + m) mod 64 = m" if "m < 64" for k m :: nat
    using that by (simp only: mod_mult_self3 mod_less)
  ultimately show "(a * 65536 + b * 256 + c) div 262144 mod 64 = a div 4"
    "(a * 65536 + b * 256 + c) div 4096 mod 64 = a mod 4 * 16 + b div 16"
    "(a * 65536 + b * 256 + c) div 64 mod 64 = b mod 16 * 4 + c div 64"
    "(a * 65536 + b * 256 + c) mod 64 = c mod 64"
    using l(1) by (simp_all only: d [symmetric] mod_less)
qed

lemma group_24_code: "group_24 a b c = map char_of (to_array_4 [a, b, c])"
proof -
  have m: "map char_of (to_array_4 [a, b, c]) =
      map (\<lambda>k. base64_chars ! unat (to_array_4 [a, b, c] ! k)) [0, 1, 2, 3]"
    by (subst four_sextets) (simp only: list.map char_of_def)
  have p: "(64 :: nat) ^ 3 = 262144" "(64 :: nat) ^ 2 = 4096" "(64 :: nat) ^ 1 = 64" "(64 :: nat) ^ 0 = 1"
    by simp_all
  have d: "unat x < 256" for x :: u8 using unsigned_less [of x] by simp
  show ?thesis
    unfolding m group_24_def Let_def list.map p div_by_1 sextets digits_64 [OF d d d] ..
qed

lemma encode_short:
  "base64_encode [] = []"
  "base64_encode [a] = take 2 (map char_of (to_array_4 [a, 0, 0])) @ [0x3D, 0x3D]"
  "base64_encode [a, b] = take 3 (map char_of (to_array_4 [a, b, 0])) @ [0x3D]"
  by (simp_all add: base64_encode_def Let_def take_map numeral_2_eq_2 numeral_3_eq_3)

lemma decode_loop_4:
  assumes "\<And>i. i \<in> {x, y, z, w} \<Longrightarrow> i \<le> 63"
  shows "decode_loop (map char_of [x, y, z, w] @ cs) [] ret = decode_loop cs [] (ret @ to_array_3 [x, y, z, w])"
  using assms char_of_table by simp

lemma decode_loop_ret:
  "decode_loop xs arr ret = (fst (decode_loop xs arr []), ret @ snd (decode_loop xs arr []))"
proof (induction xs arbitrary: arr ret)
  case (Cons x xs)
  show ?case
    by (cases "length (arr @ [x]) = 4")
      (simp_all add: Let_def Cons [of "[]" "ret @ _"] Cons [of "[]" "to_array_3 _"] Cons [of "arr @ [x]" ret])
qed simp

lemma decode_group:
  "base64_decode (map char_of (to_array_4 [a, b, c]) @ cs) = [a, b, c] @ base64_decode cs"
proof -
  obtain x y z w where s: "to_array_4 [a, b, c] = [x, y, z, w]"
    using four_sextets by blast
  then have "i \<le> 63" if "i \<in> {x, y, z, w}" for i
    using sextet_bound [of i a b c] that by simp
  from decode_loop_4 [OF this, where cs = cs and ret = "[]"] s octets_back [of a b c]
  have "decode_loop (map char_of (to_array_4 [a, b, c]) @ cs) [] []
      = (fst (decode_loop cs [] []), [a, b, c] @ snd (decode_loop cs [] []))"
    by (simp add: decode_loop_ret [of cs "[]" "[a, b, c]"])
  then show ?thesis by (simp add: base64_decode_def Let_def split: prod.splits)
qed

text \<open>The induction of both: three bytes, or the end.\<close>

lemma triple_induct [case_names three short]:
  fixes xs :: bytes
  assumes "\<And>a b c xs. P xs \<Longrightarrow> P (a # b # c # xs)" and "\<And>xs. length xs < 3 \<Longrightarrow> P xs"
  shows "P xs"
  by (induction xs rule: rfc4648.induct) (auto intro: assms)

lemma short_cases:
  assumes "length xs < 3"
  obtains "xs = []" | a where "xs = [a]" | a b where "xs = [a, b]"
  using assms by (cases xs; cases "tl xs"; cases "tl (tl xs)") auto

subsection \<open>Properties\<close>

text \<open>the encoder gives the encoding of RFC 4648.\<close>

theorem base64_encode_rfc4648: "base64_encode xs = rfc4648 xs"
proof (induction xs rule: triple_induct)
  case (three a b c xs)
  then show ?case by (simp add: encode_3 group_24_code)
next
  case (short xs)
  then show ?case by (rule short_cases) (simp_all add: encode_short group_24_code)
qed

text \<open>In the last group the first bytes do not depend on the missing characters.\<close>

lemma decode_tail:
  "base64_decode (take 2 (map char_of (to_array_4 [a, 0, 0])) @ 0x3D # cs) = [a]"
  "base64_decode (take 3 (map char_of (to_array_4 [a, b, 0])) @ 0x3D # cs) = [a, b]"
proof -
  have v: "i \<in> set (to_array_4 [a, b, c]) \<Longrightarrow> find_char (char_of i) = i \<and> is_base64 (char_of i)
      \<and> char_of i \<noteq> 0x3D" for a b c i
    using char_of_table sextet_bound by blast
  obtain x y z w where s: "to_array_4 [a, 0, 0] = [x, y, z, w]" using four_sextets by blast
  then show "base64_decode (take 2 (map char_of (to_array_4 [a, 0, 0])) @ 0x3D # cs) = [a]"
    using octets_back [of a 0 0] v [of _ a 0 0]
    by (simp add: base64_decode_def to_array_3_def numeral_2_eq_2 Let_def)
  obtain x y z w where s: "to_array_4 [a, b, 0] = [x, y, z, w]" using four_sextets by blast
  then show "base64_decode (take 3 (map char_of (to_array_4 [a, b, 0])) @ 0x3D # cs) = [a, b]"
    using octets_back [of a b 0] v [of _ a b 0]
    by (simp add: base64_decode_def to_array_3_def numeral_2_eq_2 numeral_3_eq_3 Let_def)
qed

text \<open>decoding what was encoded gives the bytes back.\<close>

theorem base64_round_trip: "base64_decode (base64_encode xs) = xs"
proof (induction xs rule: triple_induct)
  case (three a b c xs)
  then show ?case by (simp only: encode_3 decode_group) simp
next
  case (short xs)
  then show ?case
    by (rule short_cases) (simp_all only: encode_short decode_tail, simp add: base64_decode_def)
qed

end
