(* ===== verification/Handshake.thy ===== *)
theory Handshake
  imports Hybi13 Response Uri Sha1 Base64
begin

text \<open>
  The opening handshake of RFC 6455: the functions of \<open>processors/processor.hpp\<close> on any request and
  the handshake part of \<open>processors/hybi13.hpp\<close>, on both sides. The round buffer of the hash routine,
  which is not initialised, is an argument, as are the values the random number generator gives.
\<close>

subsection \<open>\<open>processors/processor.hpp\<close>\<close>

definition upgrade_token :: bytes where "upgrade_token = ascii ''websocket''"
definition connection_token :: bytes where "connection_token = ascii ''Upgrade''"
definition handshake_guid :: bytes where "handshake_guid = ascii ''258EAFA5-E914-47DA-95CA-C5AB0DC85B11''"

definition has_token :: "bytes \<Rightarrow> bytes \<Rightarrow> bool" where
  "has_token header needle \<longleftrightarrow> ci_find_substr header needle \<noteq> length header"

definition is_websocket_handshake :: "'a parser_scheme \<Rightarrow> bool" where
  "is_websocket_handshake r \<longleftrightarrow>
     has_token (get_header (ascii ''Upgrade'') r) upgrade_token
     \<and> has_token (get_header (ascii ''Connection'') r) connection_token"

definition get_websocket_version :: "request \<Rightarrow> int" where
  "get_websocket_version r =
     (if \<not> m_ready r then - 2
      else if get_header (ascii ''Sec-WebSocket-Version'') r = [] then 0
      else case extract_int (get_header (ascii ''Sec-WebSocket-Version'') r) of None \<Rightarrow> - 1 | Some v \<Rightarrow> v)"

text \<open>\<open>rfind\<close> of one character.\<close>

definition rfind :: "u8 \<Rightarrow> bytes \<Rightarrow> nat option" where
  "rfind c s = (if c \<in> set s then Some (length s - 1 - length (takeWhile (\<lambda>x. x \<noteq> c) (rev s))) else None)"

definition get_uri_from_host :: "request \<Rightarrow> bytes \<Rightarrow> uri" where
  "get_uri_from_host r scheme =
     (let h = get_header (ascii ''Host'') r
      in case rfind 0x3A h of
           None \<Rightarrow> uri_of_scheme scheme h (m_uri r)
         | Some last_colon \<Rightarrow>
             if (case rfind 0x5D h of Some last_sbrace \<Rightarrow> last_colon < last_sbrace | None \<Rightarrow> False)
             then uri_of_scheme scheme h (m_uri r)
             else uri_of_scheme_port_string scheme (take last_colon h) (drop (last_colon + 1) h) (m_uri r))"

subsection \<open>Extensions\<close>

text \<open>What negotiation calls of the extension object, besides what reading frames does.\<close>

record 'd negotiation = "'d extension" +
  ext_is_implemented :: bool
  ext_negotiate :: "'d \<Rightarrow> attribute_list \<Rightarrow> 'd \<times> error_code option \<times> bytes"
  ext_init :: "'d \<Rightarrow> bool \<Rightarrow> 'd \<times> error_code option"
  ext_offer :: "'d \<Rightarrow> bytes"

definition disabled_negotiation :: "unit negotiation" where
  "disabled_negotiation =
     \<lparr>ext_is_enabled = (\<lambda>_. False),
      ext_decompress = (\<lambda>d buf out. (d, out, Some (ExtensionError X_disabled))),
      ext_compress = (\<lambda>d i out. (d, out, Some (ExtensionError X_disabled))),
      ext_is_implemented = False,
      ext_negotiate = (\<lambda>d _. (d, Some (ExtensionError X_disabled), [])),
      ext_init = (\<lambda>d _. (d, None)),
      ext_offer = (\<lambda>_. [])\<rparr>"

fun negotiate_loop ::
  "'d negotiation \<Rightarrow> bool \<Rightarrow> parameter_list \<Rightarrow> 'd \<Rightarrow> 'd \<times> error_code option \<times> bytes" where
  "negotiate_loop E server [] d = (d, None, [])"
| "negotiate_loop E server ((name, attrs) # ps) d =
     (if name \<noteq> ascii ''permessage-deflate'' then negotiate_loop E server ps d
      else if ext_is_enabled E d then negotiate_loop E server ps d
      else case ext_negotiate E d attrs of
             (d, Some _, _) \<Rightarrow> negotiate_loop E server ps d
           | (d, None, reply) \<Rightarrow>
               (case ext_init E d server of
                  (d, Some ec) \<Rightarrow> (d, Some ec, [])
                | (d, None) \<Rightarrow> (d, None, reply)))"

definition negotiate_extensions_helper ::
  "bool \<Rightarrow> 'd negotiation \<Rightarrow> bool \<Rightarrow> 'd \<Rightarrow> 'a parser_scheme \<Rightarrow> 'd \<times> error_code option \<times> bytes" where
  "negotiate_extensions_helper enable_extensions E server d header =
     (if \<not> enable_extensions then (d, Some (ProcError P_extensions_disabled), [])
      else case get_header_as_plist (ascii ''Sec-WebSocket-Extensions'') header of
             (True, _) \<Rightarrow> (d, Some (ProcError P_extension_parse_error), [])
           | (False, p) \<Rightarrow>
               if p = [] then (d, None, [])
               else if ext_is_implemented E then negotiate_loop E server p d
               else (d, None, []))"

subsection \<open>\<open>processors/hybi13.hpp\<close>\<close>

definition process_handshake_key :: "u32 list \<Rightarrow> bytes \<Rightarrow> bytes \<times> error_code option" where
  "process_handshake_key w key =
     (let key = key @ handshake_guid; message_digest = calc w key
      in (base64_encode message_digest, None))"

definition validate_handshake :: "request \<Rightarrow> error_code option" where
  "validate_handshake r =
     (if m_method r \<noteq> ascii ''GET'' then Some (ProcError P_invalid_http_method)
      else if m_version r \<noteq> ascii ''HTTP/1.1'' then Some (ProcError P_invalid_http_version)
      else if get_header (ascii ''Sec-WebSocket-Key'') r = [] then Some (ProcError P_missing_required_header)
      else None)"

definition process_handshake ::
  "u32 list \<Rightarrow> request \<Rightarrow> bytes \<Rightarrow> response \<Rightarrow> (error_code option \<times> response) result" where
  "process_handshake w req subprotocol res =
     (case process_handshake_key w (get_header (ascii ''Sec-WebSocket-Key'') req) of
        (_, Some ec) \<Rightarrow> Inr (Some ec, res)
      | (server_key, None) \<Rightarrow>
          let res = replace_header (ascii ''Sec-WebSocket-Accept'') server_key res
          in case append_header (ascii ''Upgrade'') upgrade_token res of
               Inl e \<Rightarrow> Inl e
             | Inr res \<Rightarrow>
                 (case append_header (ascii ''Connection'') connection_token res of
                    Inl e \<Rightarrow> Inl e
                  | Inr res \<Rightarrow>
                      Inr (None, if subprotocol \<noteq> []
                                 then replace_header (ascii ''Sec-WebSocket-Protocol'') subprotocol res
                                 else res)))"

fun join_protocols :: "bytes list \<Rightarrow> bytes" where
  "join_protocols [] = []"
| "join_protocols [p] = p"
| "join_protocols (p # q # ps) = p @ ascii '', '' @ join_protocols (q # ps)"

text \<open>The four values are those the generator gives next.\<close>

definition client_handshake_request ::
  "'d negotiation \<Rightarrow> 'd \<Rightarrow> (nat \<Rightarrow> u32) \<Rightarrow> uri \<Rightarrow> bytes list \<Rightarrow> request \<Rightarrow> (error_code option \<times> request) result" where
  "client_handshake_request E d rng u subprotocols req =
     (case set_method (ascii ''GET'') req of
        Inl e \<Rightarrow> Inl e
      | Inr req \<Rightarrow>
          let req = req\<lparr>m_uri := m_resource u, m_version := ascii ''HTTP/1.1''\<rparr>
          in case append_header (ascii ''Upgrade'') (ascii ''websocket'') req of
               Inl e \<Rightarrow> Inl e
             | Inr req \<Rightarrow>
                 (case append_header (ascii ''Connection'') (ascii ''Upgrade'') req of
                    Inl e \<Rightarrow> Inl e
                  | Inr req \<Rightarrow>
                      let req = replace_header (ascii ''Sec-WebSocket-Version'') (ascii ''13'') req;
                          req = replace_header (ascii ''Host'') (get_host_port u) req;
                          req = (if subprotocols \<noteq> []
                                 then replace_header (ascii ''Sec-WebSocket-Protocol'') (join_protocols subprotocols) req
                                 else req);
                          raw_key = concat (map (\<lambda>i. uint32_c (rng i)) [0..<4]);
                          req = replace_header (ascii ''Sec-WebSocket-Key'') (base64_encode raw_key) req;
                          req = (if ext_is_implemented E \<and> ext_offer E d \<noteq> []
                                 then replace_header (ascii ''Sec-WebSocket-Extensions'') (ext_offer E d) req
                                 else req)
                      in Inr (None, req)))"

definition validate_server_handshake_response ::
  "u32 list \<Rightarrow> request \<Rightarrow> response \<Rightarrow> error_code option" where
  "validate_server_handshake_response w req res =
     (if m_status_code res \<noteq> 101 then Some (ProcError P_invalid_http_status)
      else if \<not> has_token (get_header (ascii ''Upgrade'') res) upgrade_token
      then Some (ProcError P_missing_required_header)
      else if \<not> has_token (get_header (ascii ''Connection'') res) connection_token
      then Some (ProcError P_missing_required_header)
      else case process_handshake_key w (get_header (ascii ''Sec-WebSocket-Key'') req) of
             (key, ec) \<Rightarrow>
               if ec \<noteq> None \<or> key \<noteq> get_header (ascii ''Sec-WebSocket-Accept'') res
               then Some (ProcError P_missing_required_header)
               else None)"

definition get_origin :: "request \<Rightarrow> bytes" where
  "get_origin r = get_header (ascii ''Origin'') r"

text \<open>The protocols are appended to those of the list given.\<close>

definition extract_subprotocols :: "request \<Rightarrow> bytes list \<Rightarrow> error_code option \<times> bytes list" where
  "extract_subprotocols req subprotocol_list =
     (if get_header (ascii ''Sec-WebSocket-Protocol'') req \<noteq> [] then
        (case get_header_as_plist (ascii ''Sec-WebSocket-Protocol'') req of
           (False, p) \<Rightarrow> (None, subprotocol_list @ map fst p)
         | (True, _) \<Rightarrow> (Some (ProcError P_subprotocol_parse_error), subprotocol_list))
      else (None, subprotocol_list))"

definition get_uri :: "bool \<Rightarrow> request \<Rightarrow> uri" where
  "get_uri secure r = get_uri_from_host r (if secure then ascii ''wss'' else ascii ''ws'')"

subsection \<open>The key\<close>

text \<open>C25: the key of the answer is the Base64 encoding of the SHA-1 hash of the key of the request and
  the identifier of the protocol, as RFC 6455 has it, whatever the buffers of the hash routine hold.\<close>

theorem accept_key_rfc6455:
  assumes "length w = 80" "length key < 2 ^ 28"
  shows "process_handshake_key w key = (rfc4648 (fips_sha1 (key @ handshake_guid)), None)"
  using assms calc_fips [OF assms(1), of "key @ handshake_guid"]
  by (simp add: process_handshake_key_def base64_encode_rfc4648 handshake_guid_def Let_def)

lemma base64_length: "length (base64_encode xs) = 4 * ((length xs + 2) div 3)"
proof -
  have g: "length (group_24 x y z) = 4" for x y z by (simp add: group_24_def Let_def)
  have d: "(n + 3 + 2) div 3 = Suc ((n + 2) div 3)" for n :: nat
    using div_add_self2 [of 3 "n + 2"] by (simp add: add.commute add.left_commute)
  have "length (rfc4648 xs) = 4 * ((length xs + 2) div 3)" for xs
    by (induction xs rule: rfc4648.induct) (simp_all add: g d [simplified])
  then show ?thesis by (simp add: base64_encode_rfc4648)
qed

lemma handshake_key_length: "length (base64_encode (concat (map (\<lambda>i. uint32_c (rng i)) [0..<4]))) = 24"
  by (simp add: base64_length upt_rec)

lemma base64_visible: "c \<in> set (base64_encode xs) \<Longrightarrow> visible c"
proof -
  have "list_all visible base64_chars" by code_simp
  moreover have "length base64_chars = 64" by (simp add: base64_chars_def)
  ultimately have "visible (base64_chars ! (n mod 64))" for n by (simp add: list_all_length)
  then have g: "visible c" if "c \<in> set (group_24 x y z)" for c x y z
    using that by (auto simp: group_24_def Let_def)
  have "c \<in> set (rfc4648 xs) \<Longrightarrow> visible c"
    by (induction xs rule: rfc4648.induct)
      (auto dest!: in_set_takeD g simp: visible_def is_whitespace_char_def)
  then show "c \<in> set (base64_encode xs) \<Longrightarrow> visible c" by (simp add: base64_encode_rfc4648)
qed

subsection \<open>The headers\<close>

text \<open>What a request for a connection must be made of; the URI names a host, and the head must fit.\<close>

definition connectable :: "uri \<Rightarrow> bytes list \<Rightarrow> bool" where
  "connectable u ps \<longleftrightarrow> plain_uri u \<and> m_scheme u = (if m_secure u then ascii ''wss'' else ascii ''ws'')
     \<and> 32 \<notin> set (m_resource u) \<and> 13 \<notin> set (m_resource u)
     \<and> m_host u \<noteq> [] \<and> (\<forall>c \<in> set (m_host u). visible c \<and> c \<noteq> 0x5D)
     \<and> (\<forall>p \<in> set ps. token p \<and> p \<noteq> [])
     \<and> length (m_host u) + length (m_resource u) + length (join_protocols ps) \<le> 15000"

definition client_headers :: "uri \<Rightarrow> bytes list \<Rightarrow> bytes \<Rightarrow> header_list" where
  "client_headers u ps key =
     [(ascii ''Connection'', ascii ''Upgrade''), (ascii ''Host'', get_host_port u),
      (ascii ''Sec-WebSocket-Key'', key)]
     @ (if ps = [] then [] else [(ascii ''Sec-WebSocket-Protocol'', join_protocols ps)])
     @ [(ascii ''Sec-WebSocket-Version'', ascii ''13''), (ascii ''Upgrade'', ascii ''websocket'')]"

lemma tokens_here: "list_ex is_not_token_char (ascii ''GET'') = False"
  "list_ex is_not_token_char (ascii ''Upgrade'') = False"
  "list_ex is_not_token_char (ascii ''Connection'') = False"
  "list_ex is_not_token_char (ascii ''Host'') = False"
  "list_ex is_not_token_char (ascii ''Sec-WebSocket-Key'') = False"
  "list_ex is_not_token_char (ascii ''Sec-WebSocket-Accept'') = False"
  "list_ex is_not_token_char (ascii ''Sec-WebSocket-Protocol'') = False"
  "list_ex is_not_token_char (ascii ''Sec-WebSocket-Version'') = False"
  by code_simp+

definition client_key :: "(nat \<Rightarrow> u32) \<Rightarrow> bytes" where
  "client_key rng = base64_encode (concat (map (\<lambda>i. uint32_c (rng i)) [0..<4]))"

text \<open>The order of the names, which decides where each header is put.\<close>

lemma names_less:
  "ci_less (ascii ''Connection'') (ascii ''Host'')" "ci_less (ascii ''Connection'') (ascii ''Sec-WebSocket-Accept'')"
  "ci_less (ascii ''Connection'') (ascii ''Sec-WebSocket-Key'')" "ci_less (ascii ''Connection'') (ascii ''Sec-WebSocket-Protocol'')"
  "ci_less (ascii ''Connection'') (ascii ''Sec-WebSocket-Version'')" "ci_less (ascii ''Connection'') (ascii ''Upgrade'')"
  "\<not> ci_less (ascii ''Host'') (ascii ''Connection'')" "ci_less (ascii ''Host'') (ascii ''Sec-WebSocket-Key'')"
  "ci_less (ascii ''Host'') (ascii ''Sec-WebSocket-Protocol'')" "ci_less (ascii ''Host'') (ascii ''Sec-WebSocket-Version'')"
  "ci_less (ascii ''Host'') (ascii ''Upgrade'')" "\<not> ci_less (ascii ''Sec-WebSocket-Accept'') (ascii ''Connection'')"
  "ci_less (ascii ''Sec-WebSocket-Accept'') (ascii ''Sec-WebSocket-Protocol'')" "ci_less (ascii ''Sec-WebSocket-Accept'') (ascii ''Upgrade'')"
  "\<not> ci_less (ascii ''Sec-WebSocket-Key'') (ascii ''Connection'')" "\<not> ci_less (ascii ''Sec-WebSocket-Key'') (ascii ''Host'')"
  "ci_less (ascii ''Sec-WebSocket-Key'') (ascii ''Sec-WebSocket-Protocol'')" "ci_less (ascii ''Sec-WebSocket-Key'') (ascii ''Sec-WebSocket-Version'')"
  "ci_less (ascii ''Sec-WebSocket-Key'') (ascii ''Upgrade'')" "\<not> ci_less (ascii ''Sec-WebSocket-Protocol'') (ascii ''Connection'')"
  "\<not> ci_less (ascii ''Sec-WebSocket-Protocol'') (ascii ''Host'')" "\<not> ci_less (ascii ''Sec-WebSocket-Protocol'') (ascii ''Sec-WebSocket-Accept'')"
  "\<not> ci_less (ascii ''Sec-WebSocket-Protocol'') (ascii ''Sec-WebSocket-Key'')" "ci_less (ascii ''Sec-WebSocket-Protocol'') (ascii ''Sec-WebSocket-Version'')"
  "ci_less (ascii ''Sec-WebSocket-Protocol'') (ascii ''Upgrade'')" "\<not> ci_less (ascii ''Sec-WebSocket-Version'') (ascii ''Connection'')"
  "\<not> ci_less (ascii ''Sec-WebSocket-Version'') (ascii ''Host'')" "\<not> ci_less (ascii ''Sec-WebSocket-Version'') (ascii ''Sec-WebSocket-Key'')"
  "\<not> ci_less (ascii ''Sec-WebSocket-Version'') (ascii ''Sec-WebSocket-Protocol'')" "ci_less (ascii ''Sec-WebSocket-Version'') (ascii ''Upgrade'')"
  "\<not> ci_less (ascii ''Upgrade'') (ascii ''Connection'')" "\<not> ci_less (ascii ''Upgrade'') (ascii ''Host'')"
  "\<not> ci_less (ascii ''Upgrade'') (ascii ''Sec-WebSocket-Accept'')" "\<not> ci_less (ascii ''Upgrade'') (ascii ''Sec-WebSocket-Key'')"
  "\<not> ci_less (ascii ''Upgrade'') (ascii ''Sec-WebSocket-Protocol'')" "\<not> ci_less (ascii ''Upgrade'') (ascii ''Sec-WebSocket-Version'')"
  by code_simp+

lemma content_length_less:
  "ci_less (ascii ''Connection'') (ascii ''Content-Length'')"
  "\<not> ci_less (ascii ''Host'') (ascii ''Content-Length'')" "ci_less (ascii ''Content-Length'') (ascii ''Host'')"
  "\<not> ci_less (ascii ''Sec-WebSocket-Accept'') (ascii ''Content-Length'')"
  "ci_less (ascii ''Content-Length'') (ascii ''Sec-WebSocket-Accept'')"
  by code_simp+

lemma name_irrefl: "\<not> ci_less k k"
  by (simp add: ci_less_lower)

lemma client_handshake_request_result:
  "client_handshake_request disabled_negotiation d rng u ps new_request =
    Inr (None, new_request\<lparr>m_method := ascii ''GET'', m_uri := m_resource u, m_version := ascii ''HTTP/1.1'',
      m_headers := client_headers u ps (client_key rng)\<rparr>)"
  by (simp add: client_handshake_request_def set_method_def append_header_def replace_header_def get_header_def
      new_request_def tokens_here names_less name_irrefl disabled_negotiation_def client_headers_def
      client_key_def Let_def)

lemma client_headers_find:
  "find_header (ascii ''Host'') (client_headers u ps key) = Some (get_host_port u)"
  "find_header (ascii ''Sec-WebSocket-Key'') (client_headers u ps key) = Some key"
  "find_header (ascii ''Upgrade'') (client_headers u ps key) = Some (ascii ''websocket'')"
  "find_header (ascii ''Connection'') (client_headers u ps key) = Some (ascii ''Upgrade'')"
  "find_header (ascii ''Sec-WebSocket-Version'') (client_headers u ps key) = Some (ascii ''13'')"
  "find_header (ascii ''Sec-WebSocket-Protocol'') (client_headers u ps key) =
    (if ps = [] then None else Some (join_protocols ps))"
  "find_header (ascii ''Content-Length'') (client_headers u ps key) = None"
  by (simp_all add: client_headers_def names_less name_irrefl content_length_less)

lemma visible_trimmed: "\<forall>c \<in> set v. visible c \<Longrightarrow> trimmed v"
  using no_crlf_no_cr [of v] by (auto simp: trimmed_def visible_def)

lemma digits_visible: "c \<in> set (digits n) \<Longrightarrow> visible c"
  using digits_isdigit [of c n] isdigit_not [of c]
  by (auto simp: visible_def is_whitespace_char_def isspace_def)

lemma digits_short: "n < 100000 \<Longrightarrow> length (digits n) \<le> 5"
  by (simp add: digits.simps [of n] digits.simps [of "n div 10"] digits.simps [of "n div 10 div 10"]
      digits.simps [of "n div 10 div 10 div 10"] digits.simps [of "n div 10 div 10 div 10 div 10"])

lemma host_port_ok:
  assumes "connectable u ps"
  shows "trimmed (get_host_port u)" "get_host_port u \<noteq> []" "length (get_host_port u) \<le> length (m_host u) + 6"
proof -
  have "unat (m_port u) < 100000" using unat_u16_bound [of "m_port u"] by linarith
  then have "length (get_port_str u) \<le> 5" by (simp add: get_port_str_def digits_short)
  then show "length (get_host_port u) \<le> length (m_host u) + 6" by (simp add: get_host_port_def)
  have "visible 0x3A" by (simp add: visible_def is_whitespace_char_def)
  then have "\<forall>c \<in> set (get_host_port u). visible c"
    using assms digits_visible by (auto simp: get_host_port_def get_port_str_def connectable_def ascii_def)
  then show "trimmed (get_host_port u)" by (rule visible_trimmed)
  show "get_host_port u \<noteq> []" using assms by (simp add: get_host_port_def connectable_def)
qed

lemma join_chars: "c \<in> set (join_protocols ps) \<Longrightarrow> c = 44 \<or> c = 32 \<or> (\<exists>p \<in> set ps. c \<in> set p)"
  by (induction ps rule: join_protocols.induct) (auto simp: ascii_def)

lemma join_ends:
  assumes "\<forall>p \<in> set ps. token p \<and> p \<noteq> []" "ps \<noteq> []"
  shows "join_protocols ps \<noteq> [] \<and> visible (hd (join_protocols ps)) \<and> visible (last (join_protocols ps))"
  using assms
proof (induction ps rule: join_protocols.induct)
  case (2 p)
  then have "hd p \<in> set p" "last p \<in> set p" "token p" by simp_all
  then show ?case using 2 token_chars [of p] by simp
next
  case (3 p q ps)
  then have "hd p \<in> set p" "token p" "p \<noteq> []" by simp_all
  then show ?case using 3 token_chars [of p] by (simp add: ascii_def)
qed simp

lemma join_trimmed:
  assumes "\<forall>p \<in> set ps. token p \<and> p \<noteq> []"
  shows "trimmed (join_protocols ps)"
proof -
  have "13 \<notin> set (join_protocols ps)"
    using join_chars [of 13 ps] assms token_chars by fastforce
  then have "no_crlf (join_protocols ps)" by (rule no_crlf_no_cr)
  then show ?thesis
    using join_ends [OF assms] by (cases "ps = []") (auto simp: trimmed_def)
qed

text \<open>The protocols a server finds in the header are those the client joined.\<close>

lemma extract_token_here:
  assumes "token p" "rest = [] \<or> is_not_token_char (hd rest)"
  shows "extract_token (p @ rest) = (p, rest)"
  using assms by (cases rest) (auto simp: extract_token_def token_def list_ex_iff takeWhile_append dropWhile_append)

lemma skip_nothing: "extract_all_lws [] = []"
  by (subst extract_all_lws.simps) (simp add: extract_lws_def)

lemma skip_space: "visible c \<Longrightarrow> extract_all_lws (32 # c # s) = c # s"
proof -
  assume c: "visible c"
  have "extract_lws (32 # c # s) = c # s"
    using c by (auto simp: extract_lws_def visible_def is_whitespace_char_def)
  then show ?thesis
    using extract_all_lws_visible [of "c # s"] c by (subst extract_all_lws.simps) simp
qed

lemma comma: "is_not_token_char 44" "visible 44"
  by (code_simp, simp add: visible_def is_whitespace_char_def)

lemma parameters_joined:
  assumes "\<forall>p \<in> set ps. token p \<and> p \<noteq> []" "ps \<noteq> []" "pre = [] \<or> pre = [32]"
  shows "parameters_loop (pre @ join_protocols ps) acc = (Some [], acc @ map (\<lambda>p. (p, [])) ps)"
  using assms
proof (induction ps arbitrary: pre acc rule: join_protocols.induct)
  case (2 p)
  then obtain c s where p: "p = c # s" "visible c" "token p"
    using token_chars [of p] by (cases p) auto
  have "extract_all_lws (pre @ p) = p"
    using 2(3) p skip_space [of c s] extract_all_lws_visible [of p] by auto
  moreover have "extract_token p = (p, [])" using extract_token_here [OF p(3), of "[]"] by simp
  ultimately have "parameter_step (pre @ p) acc = Inr (Some [], acc @ [(p, [])])"
    using p(1) by (simp add: parameter_step_def skip_nothing Let_def)
  then show ?case using p(1) by (simp add: parameters_loop.simps)
next
  case (3 p q ps)
  let ?rest = "44 # 32 # join_protocols (q # ps)"
  have e: "join_protocols (p # q # ps) = p @ ?rest" by (simp add: ascii_def)
  obtain c s where p: "p = c # s" "visible c" "token p"
    using 3(2) token_chars [of p] by (cases p) auto
  have "extract_all_lws (pre @ p @ ?rest) = p @ ?rest"
    using 3(4) p skip_space [of c "s @ ?rest"] extract_all_lws_visible [of "p @ ?rest"] by auto
  moreover have "extract_token (p @ ?rest) = (p, ?rest)"
    using extract_token_here [OF p(3), of ?rest] comma by simp
  moreover have "extract_all_lws ?rest = ?rest" using extract_all_lws_visible [of ?rest] comma by simp
  ultimately have s: "parameter_step (pre @ p @ ?rest) acc =
      Inl ([32] @ join_protocols (q # ps), acc @ [(p, [])])"
    using p(1) by (simp add: parameter_step_def Let_def)
  have "parameters_loop ([32] @ join_protocols (q # ps)) (acc @ [(p, [])]) =
      (Some [], (acc @ [(p, [])]) @ map (\<lambda>p. (p, [])) (q # ps))"
    using 3(2) by (intro 3(1)) simp_all
  then show ?case
    using s p(1) unfolding e by (subst parameters_loop.simps) simp
qed simp

lemma subprotocols_found:
  assumes "\<forall>p \<in> set ps. token p \<and> p \<noteq> []"
    and h: "find_header (ascii ''Sec-WebSocket-Protocol'') (m_headers r) = (if ps = [] then None else Some (join_protocols ps))"
  shows "extract_subprotocols r [] = (None, ps)"
proof (cases "ps = []")
  case True
  then show ?thesis using h by (simp add: extract_subprotocols_def get_header_def)
next
  case False
  have n: "join_protocols ps \<noteq> []" using join_ends [OF assms(1) False] by simp
  have "parameters_loop (join_protocols ps) [] = (Some [], map (\<lambda>p. (p, [])) ps)"
    using parameters_joined [OF assms(1) False, of "[]" "[]"] by simp
  then show ?thesis
    using n h False
    by (simp add: extract_subprotocols_def get_header_def get_header_as_plist_def parse_parameter_list_def
        extract_parameters_def comp_def)
qed

text \<open>The URI a server reconstructs is the one the client was given.\<close>

lemma rfind_none: "c \<notin> set s \<Longrightarrow> rfind c s = None"
  by (simp add: rfind_def)

lemma rfind_here: "c \<notin> set b \<Longrightarrow> rfind c (a @ c # b) = Some (length a)"
proof -
  assume "c \<notin> set b"
  then have "takeWhile (\<lambda>x. x \<noteq> c) (rev (a @ c # b)) = rev b"
    by (simp add: takeWhile_append)
  then show ?thesis by (simp add: rfind_def)
qed

lemma uri_found:
  assumes "connectable u ps" and "find_header (ascii ''Host'') (m_headers r) = Some (get_host_port u)"
    and "m_uri r = m_resource u"
  shows "get_uri (m_secure u) r = u"
proof -
  let ?scheme = "if m_secure u then ascii ''wss'' else ascii ''ws''"
  have p: "plain_uri u" "m_scheme u = ?scheme" using assms(1) by (simp_all add: connectable_def)
  then have host: "0x3A \<notin> set (m_host u)" and u: "m_valid u" "m_port u \<noteq> 0" "scheme_secure ?scheme = m_secure u"
    and res: "resource_of (m_resource u) = m_resource u"
    by (auto simp: plain_uri_def resource_of_def)
  have c: "ascii '':'' = [0x3A]" by (simp add: ascii_def)
  have d: "0x3A \<notin> set (get_port_str u)" "0x5D \<notin> set (get_port_str u)"
    using digits_plain by (auto simp: get_port_str_def)
  have "0x5D \<notin> set (m_host u)" using assms(1) by (auto simp: connectable_def)
  then have b: "rfind 0x5D (get_host_port u) = None"
    using d by (intro rfind_none) (simp add: get_host_port_def c)
  show ?thesis
  proof (cases "m_port u = default_port (m_secure u)")
    case True
    then have "rfind 0x3A (get_host_port u) = None"
      using host by (intro rfind_none) (simp add: get_host_port_def)
    then show ?thesis
      using True assms(2,3) u p(2) res
      by (cases u) (simp add: get_uri_def get_uri_from_host_def get_header_def get_host_port_def uri_of_scheme_def)
  next
    case False
    then have h: "get_host_port u = m_host u @ 0x3A # get_port_str u" by (simp add: get_host_port_def c)
    have "rfind 0x3A (get_host_port u) = Some (length (m_host u))"
      unfolding h by (rule rfind_here [OF d(1)])
    moreover have "get_port_from_string (m_secure u) (get_port_str u) = (m_port u, None)"
      using get_port_digits [OF u(2)] by (simp add: get_port_str_def)
    moreover have "take (length (m_host u)) (get_host_port u) = m_host u"
      "drop (length (m_host u) + 1) (get_host_port u) = get_port_str u" by (simp_all add: h)
    ultimately have "get_uri (m_secure u) r =
        uri_of_scheme_port_string ?scheme (m_host u) (get_port_str u) (m_resource u)"
      using b assms(2,3) by (simp add: get_uri_def get_uri_from_host_def get_header_def Let_def)
    also have "\<dots> = u"
      using \<open>get_port_from_string (m_secure u) (get_port_str u) = (m_port u, None)\<close> u p(2) res
      by (intro uri.equality) (simp_all only: uri_of_scheme_port_string_def prod.case uri.simps simp_thms, simp)
    finally show ?thesis .
  qed
qed

subsection \<open>Both sides\<close>

definition client_request :: "uri \<Rightarrow> bytes list \<Rightarrow> (nat \<Rightarrow> u32) \<Rightarrow> request" where
  "client_request u ps rng = new_request\<lparr>m_method := ascii ''GET'', m_uri := m_resource u,
     m_version := ascii ''HTTP/1.1'', m_headers := client_headers u ps (client_key rng)\<rparr>"

lemma client_headers_ok: "headers_ok (client_headers u ps key)"
  using names_less by (auto simp: headers_ok_def client_headers_def ci_less_lower)

lemma client_key_ok: "length (client_key rng) = 24" "trimmed (client_key rng)" "client_key rng \<noteq> []"
  using handshake_key_length [of rng] visible_trimmed base64_visible
  by (auto simp: client_key_def)

lemma tokens: "token (ascii ''GET'')" "token (ascii ''Upgrade'')" "token (ascii ''Connection'')" "token (ascii ''Host'')"
  "token (ascii ''Sec-WebSocket-Key'')" "token (ascii ''Sec-WebSocket-Accept'')"
  "token (ascii ''Sec-WebSocket-Protocol'')" "token (ascii ''Sec-WebSocket-Version'')"
  by (simp_all add: token_def tokens_here)

lemma values_trimmed: "trimmed (ascii ''Upgrade'')" "trimmed (ascii ''websocket'')" "trimmed (ascii ''13'')"
  by code_simp+

lemma client_sendable:
  assumes "connectable u ps"
  shows "request_sendable (client_request u ps rng)"
proof -
  have c: "32 \<notin> set (m_resource u)" "13 \<notin> set (m_resource u)" "\<forall>p \<in> set ps. token p \<and> p \<noteq> []"
    "length (m_host u) + length (m_resource u) + length (join_protocols ps) \<le> 15000"
    using assms by (simp_all add: connectable_def)
  have "length (raw_head (client_request u ps rng)) + length (client_headers u ps (client_key rng)) + 2 \<le> max_header_size"
    using host_port_ok(3) [OF assms] client_key_ok(1) [of rng] c(4)
    by (simp add: raw_head_def raw_headers_def client_request_def client_headers_def crlf_def max_header_size_def)
  moreover have "\<forall>(h, v) \<in> set (client_headers u ps (client_key rng)). token h \<and> trimmed v"
    using host_port_ok(1) [OF assms] client_key_ok(2) [of rng] join_trimmed [OF c(3)]
    by (simp add: client_headers_def tokens values_trimmed)
  moreover have "13 \<notin> set (ascii ''HTTP/1.1'')" "ascii ''GET'' \<noteq> []" by (simp_all add: ascii_def)
  ultimately show ?thesis
    using c(1,2) tokens(1) client_headers_ok host_port_ok(2) [OF assms]
    by (simp add: request_sendable_def client_request_def get_header_def client_headers_find)
qed

text \<open>What the server makes of the request.\<close>

lemma has_tokens: "has_token (ascii ''websocket'') upgrade_token" "has_token (ascii ''Upgrade'') connection_token"
  by code_simp+

lemma server_accepts:
  assumes "connectable u ps" and "m_method r = ascii ''GET''" "m_version r = ascii ''HTTP/1.1''"
    "m_uri r = m_resource u" "m_headers r = client_headers u ps (client_key rng)" "m_ready r"
  shows "is_websocket_handshake r" "get_websocket_version r = 13" "validate_handshake r = None"
    "get_uri (m_secure u) r = u" "extract_subprotocols r [] = (None, ps)"
proof -
  have e: "extract_int (ascii ''13'') = Some 13" "ascii ''13'' \<noteq> []" by code_simp+
  show "is_websocket_handshake r" "get_websocket_version r = 13" "validate_handshake r = None"
    using assms(2,3,5,6) has_tokens e client_key_ok(3)
    by (simp_all add: is_websocket_handshake_def get_websocket_version_def validate_handshake_def
        get_header_def client_headers_find)
  show "get_uri (m_secure u) r = u"
    using assms by (intro uri_found) (simp_all add: client_headers_find)
  show "extract_subprotocols r [] = (None, ps)"
    using assms by (intro subprotocols_found) (simp_all add: client_headers_find connectable_def)
qed

definition server_headers :: "bytes \<Rightarrow> bytes \<Rightarrow> header_list" where
  "server_headers sub accept =
     [(ascii ''Connection'', connection_token), (ascii ''Sec-WebSocket-Accept'', accept)]
     @ (if sub = [] then [] else [(ascii ''Sec-WebSocket-Protocol'', sub)])
     @ [(ascii ''Upgrade'', upgrade_token)]"

lemma process_handshake_result:
  "process_handshake w r sub new_response =
    Inr (None, new_response\<lparr>m_headers :=
      server_headers sub (fst (process_handshake_key w (get_header (ascii ''Sec-WebSocket-Key'') r)))\<rparr>)"
  by (simp add: process_handshake_def process_handshake_key_def append_header_def replace_header_def
      get_header_def new_response_def tokens_here names_less name_irrefl server_headers_def Let_def)

lemma server_headers_find:
  "find_header (ascii ''Upgrade'') (server_headers sub k) = Some upgrade_token"
  "find_header (ascii ''Connection'') (server_headers sub k) = Some connection_token"
  "find_header (ascii ''Sec-WebSocket-Accept'') (server_headers sub k) = Some k"
  "find_header (ascii ''Sec-WebSocket-Protocol'') (server_headers sub k) = (if sub = [] then None else Some sub)"
  "find_header (ascii ''Content-Length'') (server_headers sub k) = None"
  by (simp_all add: server_headers_def names_less name_irrefl content_length_less)

lemma server_headers_ok: "headers_ok (server_headers sub k)"
  using names_less by (auto simp: headers_ok_def server_headers_def ci_less_lower)

lemma accept_ok:
  "length (fst (process_handshake_key w key)) = 28" "trimmed (fst (process_handshake_key w key))"
proof -
  have "length (calc w src) = 20" for src
    by (simp add: calc_def store_hash_def case_prod_beta Let_def)
  then show "length (fst (process_handshake_key w key)) = 28"
    by (simp add: process_handshake_key_def Let_def base64_length)
  show "trimmed (fst (process_handshake_key w key))"
    using base64_visible by (intro visible_trimmed) (auto simp: process_handshake_key_def Let_def)
qed

lemma join_length: "p \<in> set ps \<Longrightarrow> length p \<le> length (join_protocols ps)"
  by (induction ps rule: join_protocols.induct) auto

text \<open>The response the connection completes with the status and the version.\<close>

definition switching :: "response \<Rightarrow> response" where
  "switching res = (set_status 101 res)\<lparr>m_version := ascii ''HTTP/1.1''\<rparr>"

lemma server_sendable:
  assumes "token sub" "length sub \<le> 15000"
  shows "response_sendable (switching (new_response\<lparr>m_headers := server_headers sub (fst (process_handshake_key w key))\<rparr>))"
proof -
  let ?r = "switching (new_response\<lparr>m_headers := server_headers sub (fst (process_handshake_key w key))\<rparr>)"
  have d: "decimal 101 = ascii ''101''" and s: "status_get_string 101 = ascii ''Switching Protocols''" by code_simp+
  have "length (raw_response_head ?r) + length (m_headers ?r) + 2 \<le> max_header_size"
    using accept_ok(1) [of w key] assms(2)
    by (simp add: raw_response_head_def raw_headers_def switching_def set_status_def server_headers_def crlf_def
        max_header_size_def d s upgrade_token_def connection_token_def)
  moreover have "\<forall>(h, v) \<in> set (server_headers sub (fst (process_handshake_key w key))). token h \<and> trimmed v"
    using accept_ok(2) [of w key] token_trimmed [OF assms(1)]
    by (simp add: server_headers_def tokens values_trimmed upgrade_token_def connection_token_def)
  moreover have "32 \<notin> set (ascii ''HTTP/1.1'')" "13 \<notin> set (ascii ''HTTP/1.1'')"
    "13 \<notin> set (ascii ''Switching Protocols'')" by (simp_all add: ascii_def)
  ultimately show ?thesis
    using server_headers_ok
    by (simp add: response_sendable_def switching_def set_status_def s get_header_def server_headers_find)
qed


lemma plain_uri_code:
  "plain_uri u \<longleftrightarrow> m_valid u \<and> m_scheme u \<in> {ascii ''ws'', ascii ''wss'', ascii ''http'', ascii ''https''}
     \<and> m_secure u = scheme_secure (m_scheme u)
     \<and> 0x2F \<notin> set (m_host u) \<and> 0x3A \<notin> set (m_host u) \<and> (m_host u \<noteq> [] \<longrightarrow> hd (m_host u) \<noteq> 0x5B)
     \<and> m_port u \<noteq> 0 \<and> (case m_resource u of c # _ \<Rightarrow> c = 0x2F | [] \<Rightarrow> False)"
  by (auto simp: plain_uri_def split: list.splits)

lemma sample_connectable: "connectable sample_uri [ascii ''chat'', ascii ''superchat'']"
  unfolding connectable_def plain_uri_code by code_simp


lemma accept_key_rfc6455_witness:
  "process_handshake_key (replicate 80 7) (ascii ''dGhlIHNhbXBsZSBub25jZQ=='') =
    (rfc4648 (fips_sha1 (ascii ''dGhlIHNhbXBsZSBub25jZQ=='' @ handshake_guid)), None)"
  by (rule accept_key_rfc6455) simp_all

end
