(* ===== verification/Deflate.thy ===== *)
theory Deflate
  imports Handshake
begin

text \<open>
  The compression extension, \<open>extensions/permessage_deflate/enabled.hpp\<close>: its settings, the
  negotiation of an offer, and the loops around the calls of zlib. The library zlib is a parameter:
  the creation of the two streams and one call of each.
\<close>

subsection \<open>Settings\<close>

text \<open>A mode is an integer in C++; \<open>Mode_other\<close> stands for the values without a name.\<close>

datatype window_mode = Mode_accept | Mode_decline | Mode_largest | Mode_smallest | Mode_other

datatype flush = Sync_flush | Full_flush

definition default_server_max_window_bits :: u8 where "default_server_max_window_bits = 15"
definition min_server_max_window_bits :: u8 where "min_server_max_window_bits = 8"
definition max_server_max_window_bits :: u8 where "max_server_max_window_bits = 15"
definition default_client_max_window_bits :: u8 where "default_client_max_window_bits = 15"
definition min_client_max_window_bits :: u8 where "min_client_max_window_bits = 8"
definition max_client_max_window_bits :: u8 where "max_client_max_window_bits = 15"

lemmas window_constants = default_server_max_window_bits_def min_server_max_window_bits_def
  max_server_max_window_bits_def default_client_max_window_bits_def min_client_max_window_bits_def
  max_client_max_window_bits_def

text \<open>
  What the class uses of zlib. A stream is created for a number of window bits, which is negative
  for a stream without a zlib header; one call of \<open>deflate\<close> or \<open>inflate\<close> gets the input left and the
  size of the output buffer and gives the new stream, the input it did not use and the output, and
  \<open>inflate\<close> also whether it reported an error.
\<close>

record ('s, 'i) zlib =
  deflateInit2 :: "int \<Rightarrow> 's option"
  inflateInit2 :: "int \<Rightarrow> 'i option"
  deflate_call :: "flush \<Rightarrow> bytes \<Rightarrow> nat \<Rightarrow> 's \<Rightarrow> 's \<times> bytes \<times> bytes"
  inflate_call :: "bytes \<Rightarrow> nat \<Rightarrow> 'i \<Rightarrow> 'i \<times> bytes \<times> bytes \<times> bool"

record ('s, 'i) deflate =
  m_enabled :: bool
  m_server_no_context_takeover :: bool
  m_client_no_context_takeover :: bool
  m_server_max_window_bits :: u8
  m_client_max_window_bits :: u8
  m_server_max_window_bits_mode :: window_mode
  m_client_max_window_bits_mode :: window_mode
  m_initialized :: bool
  m_flush :: flush
  m_compress_buffer_size :: nat
  m_dstate :: "'s option"
  m_istate :: "'i option"

text \<open>\<open>m_flush\<close> is not set before \<open>init\<close>; its value there is an argument.\<close>

definition new_deflate :: "flush \<Rightarrow> ('s, 'i) deflate" where
  "new_deflate fl =
     \<lparr>m_enabled = False, m_server_no_context_takeover = False, m_client_no_context_takeover = False,
      m_server_max_window_bits = 15, m_client_max_window_bits = 15,
      m_server_max_window_bits_mode = Mode_accept, m_client_max_window_bits_mode = Mode_accept,
      m_initialized = False, m_flush = fl, m_compress_buffer_size = 8192,
      m_dstate = None, m_istate = None\<rparr>"

definition deflate_init ::
  "('s, 'i) zlib \<Rightarrow> ('s, 'i) deflate \<Rightarrow> bool \<Rightarrow> ('s, 'i) deflate \<times> error_code option" where
  "deflate_init Z d is_server =
     (let (deflate_bits, inflate_bits) =
        (if is_server then (m_server_max_window_bits d, m_client_max_window_bits d)
         else (m_client_max_window_bits d, m_server_max_window_bits d))
      in case deflateInit2 Z (- 1 * int (unat deflate_bits)) of
           None \<Rightarrow> (d, Some (DeflateError D_zlib_error))
         | Some s \<Rightarrow>
             let d = d\<lparr>m_dstate := Some s\<rparr>
             in case inflateInit2 Z (- 1 * int (unat inflate_bits)) of
                  None \<Rightarrow> (d, Some (DeflateError D_zlib_error))
                | Some i \<Rightarrow>
                    (d\<lparr>m_istate := Some i,
                       m_flush := (if m_server_no_context_takeover d \<and> is_server
                                      \<or> m_client_no_context_takeover d \<and> \<not> is_server
                                   then Full_flush else Sync_flush),
                       m_initialized := True\<rparr>, None))"

text \<open>The destructor ends the two streams, when the object was initialised.\<close>

definition destroy_deflate :: "('s, 'i) deflate \<Rightarrow> ('s, 'i) deflate" where
  "destroy_deflate d = (if \<not> m_initialized d then d else d\<lparr>m_dstate := None, m_istate := None\<rparr>)"

definition enable_server_no_context_takeover :: "('s, 'i) deflate \<Rightarrow> ('s, 'i) deflate" where
  "enable_server_no_context_takeover d = d\<lparr>m_server_no_context_takeover := True\<rparr>"

definition enable_client_no_context_takeover :: "('s, 'i) deflate \<Rightarrow> ('s, 'i) deflate" where
  "enable_client_no_context_takeover d = d\<lparr>m_client_no_context_takeover := True\<rparr>"

definition set_server_max_window_bits ::
  "u8 \<Rightarrow> window_mode \<Rightarrow> ('s, 'i) deflate \<Rightarrow> ('s, 'i) deflate \<times> error_code option" where
  "set_server_max_window_bits bits mode d =
     (if bits < min_server_max_window_bits \<or> max_server_max_window_bits < bits
      then (d, Some (DeflateError D_invalid_max_window_bits))
      else (d\<lparr>m_server_max_window_bits := (if bits = 8 then 9 else bits),
              m_server_max_window_bits_mode := mode\<rparr>, None))"

definition set_client_max_window_bits ::
  "u8 \<Rightarrow> window_mode \<Rightarrow> ('s, 'i) deflate \<Rightarrow> ('s, 'i) deflate \<times> error_code option" where
  "set_client_max_window_bits bits mode d =
     (if bits < min_client_max_window_bits \<or> max_client_max_window_bits < bits
      then (d, Some (DeflateError D_invalid_max_window_bits))
      else (d\<lparr>m_client_max_window_bits := (if bits = 8 then 9 else bits),
              m_client_max_window_bits_mode := mode\<rparr>, None))"

definition generate_offer :: bytes where
  "generate_offer = ascii ''permessage-deflate; client_no_context_takeover; client_max_window_bits''"

definition validate_offer :: "attribute_list \<Rightarrow> error_code option" where
  "validate_offer response = None"

subsection \<open>Negotiation\<close>

definition generate_response :: "('s, 'i) deflate \<Rightarrow> bytes" where
  "generate_response d =
     ascii ''permessage-deflate''
     @ (if m_server_no_context_takeover d then ascii ''; server_no_context_takeover'' else [])
     @ (if m_client_no_context_takeover d then ascii ''; client_no_context_takeover'' else [])
     @ (if m_server_max_window_bits d < default_server_max_window_bits
        then ascii ''; server_max_window_bits='' @ digits (unat (m_server_max_window_bits d)) else [])
     @ (if m_client_max_window_bits d < default_client_max_window_bits
        then ascii ''; client_max_window_bits='' @ digits (unat (m_client_max_window_bits d)) else [])"

definition negotiate_server_no_context_takeover ::
  "bytes \<Rightarrow> ('s, 'i) deflate \<Rightarrow> ('s, 'i) deflate \<times> error_code option" where
  "negotiate_server_no_context_takeover val d =
     (if val \<noteq> [] then (d, Some (DeflateError D_invalid_attribute_value))
      else (d\<lparr>m_server_no_context_takeover := True\<rparr>, None))"

definition negotiate_client_no_context_takeover ::
  "bytes \<Rightarrow> ('s, 'i) deflate \<Rightarrow> ('s, 'i) deflate \<times> error_code option" where
  "negotiate_client_no_context_takeover val d =
     (if val \<noteq> [] then (d, Some (DeflateError D_invalid_attribute_value))
      else (d\<lparr>m_client_no_context_takeover := True\<rparr>, None))"

text \<open>The number is cut to 8 bits before it is compared with its bounds.\<close>

definition window_bits_of :: "bytes \<Rightarrow> u8" where
  "window_bits_of val = ucast (atoi val)"

definition negotiate_server_max_window_bits ::
  "bytes \<Rightarrow> ('s, 'i) deflate \<Rightarrow> ('s, 'i) deflate \<times> error_code option" where
  "negotiate_server_max_window_bits val d =
     (let bits = window_bits_of val
      in if bits < min_server_max_window_bits \<or> max_server_max_window_bits < bits
         then (d\<lparr>m_server_max_window_bits := default_server_max_window_bits\<rparr>,
               Some (DeflateError D_invalid_attribute_value))
         else
           let (agreed, ec) =
             (case m_server_max_window_bits_mode d of
                Mode_decline \<Rightarrow> (default_server_max_window_bits, None)
              | Mode_accept \<Rightarrow> (bits, None)
              | Mode_largest \<Rightarrow> (min bits (m_server_max_window_bits d), None)
              | Mode_smallest \<Rightarrow> (min_server_max_window_bits, None)
              | Mode_other \<Rightarrow> (default_server_max_window_bits, Some (DeflateError D_invalid_mode)))
           in (d\<lparr>m_server_max_window_bits := (if agreed = 8 then 9 else agreed)\<rparr>, ec))"

definition negotiate_client_max_window_bits ::
  "bytes \<Rightarrow> ('s, 'i) deflate \<Rightarrow> ('s, 'i) deflate \<times> error_code option" where
  "negotiate_client_max_window_bits val d =
     (let bits = (if val = [] then default_client_max_window_bits else window_bits_of val)
      in if val \<noteq> [] \<and> (bits < min_client_max_window_bits \<or> max_client_max_window_bits < bits)
         then (d\<lparr>m_client_max_window_bits := default_client_max_window_bits\<rparr>,
               Some (DeflateError D_invalid_attribute_value))
         else
           let (agreed, ec) =
             (case m_client_max_window_bits_mode d of
                Mode_decline \<Rightarrow> (default_client_max_window_bits, None)
              | Mode_accept \<Rightarrow> (bits, None)
              | Mode_largest \<Rightarrow> (min bits (m_client_max_window_bits d), None)
              | Mode_smallest \<Rightarrow> (min_client_max_window_bits, None)
              | Mode_other \<Rightarrow> (default_client_max_window_bits, Some (DeflateError D_invalid_mode)))
           in (d\<lparr>m_client_max_window_bits := (if agreed = 8 then 9 else agreed)\<rparr>, ec))"

definition negotiate_attribute ::
  "bytes \<times> bytes \<Rightarrow> ('s, 'i) deflate \<Rightarrow> ('s, 'i) deflate \<times> error_code option" where
  "negotiate_attribute = (\<lambda>(name, val) d.
     if name = ascii ''server_no_context_takeover'' then negotiate_server_no_context_takeover val d
     else if name = ascii ''client_no_context_takeover'' then negotiate_client_no_context_takeover val d
     else if name = ascii ''server_max_window_bits'' then negotiate_server_max_window_bits val d
     else if name = ascii ''client_max_window_bits'' then negotiate_client_max_window_bits val d
     else (d, Some (DeflateError D_invalid_attributes)))"

fun negotiate_attributes ::
  "attribute_list \<Rightarrow> ('s, 'i) deflate \<Rightarrow> ('s, 'i) deflate \<times> error_code option" where
  "negotiate_attributes [] d = (d, None)"
| "negotiate_attributes (a # as) d =
     (case negotiate_attribute a d of
        (d, Some ec) \<Rightarrow> (d, Some ec)
      | (d, None) \<Rightarrow> negotiate_attributes as d)"

definition negotiate ::
  "('s, 'i) deflate \<Rightarrow> attribute_list \<Rightarrow> ('s, 'i) deflate \<times> error_code option \<times> bytes" where
  "negotiate d offer =
     (case negotiate_attributes offer d of
        (d, Some ec) \<Rightarrow> (d, Some ec, [])
      | (d, None) \<Rightarrow> let d = d\<lparr>m_enabled := True\<rparr> in (d, None, generate_response d))"

subsection \<open>Compression\<close>

text \<open>\<open>avail_in\<close> has 32 bits. The loops end when a call leaves room in the output buffer.\<close>

definition avail_in :: "bytes \<Rightarrow> bytes" where
  "avail_in inp = take (unat (of_nat (length inp) :: u32)) inp"

partial_function (option) deflate_loop ::
  "('s, 'i) zlib \<Rightarrow> flush \<Rightarrow> nat \<Rightarrow> bytes \<Rightarrow> 's \<Rightarrow> bytes \<Rightarrow> ('s \<times> bytes) option" where
  "deflate_loop Z fl room inp s out =
     (case deflate_call Z fl inp room s of
        (s, inp, o1) \<Rightarrow>
          if length o1 = room then deflate_loop Z fl room inp s (out @ o1) else Some (s, out @ o1))"

partial_function (option) inflate_loop ::
  "('s, 'i) zlib \<Rightarrow> nat \<Rightarrow> bytes \<Rightarrow> 'i \<Rightarrow> bytes \<Rightarrow> ('i \<times> bytes \<times> bool) option" where
  "inflate_loop Z room inp s out =
     (case inflate_call Z inp room s of
        (s, inp, o1, failed) \<Rightarrow>
          if failed then Some (s, out, True)
          else if length o1 = room then inflate_loop Z room inp s (out @ o1)
          else Some (s, out @ o1, False))"

declare deflate_loop.simps [code] inflate_loop.simps [code]

definition compress ::
  "('s, 'i) zlib \<Rightarrow> ('s, 'i) deflate \<Rightarrow> bytes \<Rightarrow> bytes
     \<Rightarrow> (('s, 'i) deflate \<times> bytes \<times> error_code option) option" where
  "compress Z d inp out =
     (if \<not> m_initialized d then Some (d, out, Some (DeflateError D_uninitialized))
      else if inp = [] then Some (d, out @ [0x02, 0x00, 0x00, 0x00, 0xff, 0xff], None)
      else case m_dstate d of
             None \<Rightarrow> None
           | Some s \<Rightarrow>
               map_option (\<lambda>(s, out). (d\<lparr>m_dstate := Some s\<rparr>, out, None))
                 (deflate_loop Z (m_flush d) (m_compress_buffer_size d) (avail_in inp) s out))"

definition decompress ::
  "('s, 'i) zlib \<Rightarrow> ('s, 'i) deflate \<Rightarrow> bytes \<Rightarrow> bytes
     \<Rightarrow> (('s, 'i) deflate \<times> bytes \<times> error_code option) option" where
  "decompress Z d buf out =
     (if \<not> m_initialized d then Some (d, out, Some (DeflateError D_uninitialized))
      else case m_istate d of
             None \<Rightarrow> None
           | Some s \<Rightarrow>
               map_option (\<lambda>(s, out, failed).
                   (d\<lparr>m_istate := Some s\<rparr>, out, if failed then Some (DeflateError D_zlib_error) else None))
                 (inflate_loop Z (m_compress_buffer_size d) (avail_in buf) s out))"

text \<open>
  The class as an extension object. The frame processor takes the two operations as total functions;
  where a loop does not return the object stays as it is and the error is that of zlib.
\<close>

definition deflate_extension :: "('s, 'i) zlib \<Rightarrow> ('s, 'i) deflate negotiation" where
  "deflate_extension Z =
     \<lparr>ext_is_enabled = m_enabled,
      ext_decompress = (\<lambda>d buf out. case decompress Z d buf out of
                          Some r \<Rightarrow> r | None \<Rightarrow> (d, out, Some (DeflateError D_zlib_error))),
      ext_compress = (\<lambda>d inp out. case compress Z d inp out of
                          Some r \<Rightarrow> r | None \<Rightarrow> (d, out, Some (DeflateError D_zlib_error))),
      ext_is_implemented = True,
      ext_negotiate = negotiate,
      ext_init = deflate_init Z,
      ext_offer = (\<lambda>_. generate_offer)\<rparr>"

subsection \<open>The window stays in range\<close>

definition windows_ok :: "('s, 'i) deflate \<Rightarrow> bool" where
  "windows_ok d \<longleftrightarrow> m_server_max_window_bits d \<in> {9..15} \<and> m_client_max_window_bits d \<in> {9..15}"

text \<open>What a program can do with an extension object before the frames start.\<close>

inductive configured :: "('s, 'i) zlib \<Rightarrow> ('s, 'i) deflate \<Rightarrow> bool" for Z where
  new: "configured Z (new_deflate fl)"
| server_takeover: "configured Z d \<Longrightarrow> configured Z (enable_server_no_context_takeover d)"
| client_takeover: "configured Z d \<Longrightarrow> configured Z (enable_client_no_context_takeover d)"
| server_window: "configured Z d \<Longrightarrow> configured Z (fst (set_server_max_window_bits bits mode d))"
| client_window: "configured Z d \<Longrightarrow> configured Z (fst (set_client_max_window_bits bits mode d))"
| negotiated: "configured Z d \<Longrightarrow> configured Z (fst (negotiate d offer))"
| initialised: "configured Z d \<Longrightarrow> configured Z (fst (deflate_init Z d is_server))"

lemma nine_not_less: "\<not> (b :: u8) < 8 \<Longrightarrow> b \<noteq> 8 \<Longrightarrow> 9 \<le> b"
  by (simp add: word_less_nat_alt word_le_nat_alt word_unat_eq_iff)

lemma windows_ok_negotiate_window:
  assumes "windows_ok d"
  shows "windows_ok (fst (negotiate_server_max_window_bits val d))"
    and "windows_ok (fst (negotiate_client_max_window_bits val d))"
  using assms nine_not_less
  by (auto simp: windows_ok_def negotiate_server_max_window_bits_def
      negotiate_client_max_window_bits_def window_constants Let_def min_def not_less
      split: window_mode.split if_splits)

lemma windows_ok_attribute: "windows_ok d \<Longrightarrow> windows_ok (fst (negotiate_attribute a d))"
  using windows_ok_negotiate_window [of d]
  by (auto simp: negotiate_attribute_def negotiate_server_no_context_takeover_def
      negotiate_client_no_context_takeover_def split: prod.split) (simp_all add: windows_ok_def)

lemma windows_ok_attributes: "windows_ok d \<Longrightarrow> windows_ok (fst (negotiate_attributes as d))"
proof (induction as d rule: negotiate_attributes.induct)
  case (2 a as d)
  obtain d' ec where n: "negotiate_attribute a d = (d', ec)" by (cases "negotiate_attribute a d")
  then have "windows_ok d'" using windows_ok_attribute [OF 2(2), of a] by simp
  then show ?case using 2(1) [OF n [symmetric]] n by (cases ec) auto
qed simp

lemma windows_ok_negotiate: "windows_ok d \<Longrightarrow> windows_ok (fst (negotiate d offer))"
  using windows_ok_attributes [of d offer]
  by (auto simp: negotiate_def Let_def windows_ok_def split: prod.splits option.splits)

lemma windows_ok_init: "windows_ok d \<Longrightarrow> windows_ok (fst (deflate_init Z d is_server))"
  by (simp add: deflate_init_def windows_ok_def Let_def split: prod.split option.split)

lemma windows_ok_set:
  assumes "windows_ok d"
  shows "windows_ok (fst (set_server_max_window_bits bits mode d))"
    and "windows_ok (fst (set_client_max_window_bits bits mode d))"
  using assms nine_not_less [of bits]
  by (auto simp: windows_ok_def set_server_max_window_bits_def set_client_max_window_bits_def
      window_constants)

lemma configured_windows: "configured Z d \<Longrightarrow> windows_ok d"
proof (induction rule: configured.induct)
  case (new fl)
  show ?case by (simp add: windows_ok_def new_deflate_def)
next
  case (server_takeover d)
  then show ?case by (simp add: windows_ok_def enable_server_no_context_takeover_def)
next
  case (client_takeover d)
  then show ?case by (simp add: windows_ok_def enable_client_no_context_takeover_def)
qed (simp_all add: windows_ok_set windows_ok_negotiate windows_ok_init)

text \<open>C32: However the extension object was configured, and whatever offers, valid or not, were
  negotiated, its window sizes are those zlib supports for a raw stream: when zlib creates a stream
  for every size from 9 to 15, the initialisation succeeds, on the server and on the client.\<close>
theorem negotiated_windows_initialise:
  assumes "configured Z d"
    and "\<And>w. w \<in> {9..15} \<Longrightarrow> deflateInit2 Z (- w) \<noteq> None \<and> inflateInit2 Z (- w) \<noteq> None"
  shows "snd (deflate_init Z d is_server) = None \<and> m_initialized (fst (deflate_init Z d is_server))"
proof -
  have "uint b \<in> {9..15}" if "(b :: u8) \<in> {9..15}" for b
    using that by (simp add: word_le_def)
  then have "\<exists>x y. deflateInit2 Z (- uint b) = Some x \<and> inflateInit2 Z (- uint b) = Some y"
    if "(b :: u8) \<in> {9..15}" for b using assms(2) that by blast
  then obtain x y x' y' where
    "deflateInit2 Z (- uint (m_server_max_window_bits d)) = Some x"
    "inflateInit2 Z (- uint (m_server_max_window_bits d)) = Some y"
    "deflateInit2 Z (- uint (m_client_max_window_bits d)) = Some x'"
    "inflateInit2 Z (- uint (m_client_max_window_bits d)) = Some y'"
    using configured_windows [OF assms(1)] unfolding windows_ok_def by metis
  then show ?thesis by (cases is_server) (simp_all add: deflate_init_def)
qed

subsection \<open>Both sides agree\<close>

text \<open>The reply of the server, as a list of attributes.\<close>

definition response_attributes :: "('s, 'i) deflate \<Rightarrow> attribute_list" where
  "response_attributes d =
     (if m_server_no_context_takeover d then [(ascii ''server_no_context_takeover'', [])] else [])
     @ (if m_client_no_context_takeover d then [(ascii ''client_no_context_takeover'', [])] else [])
     @ (if m_server_max_window_bits d < 15
        then [(ascii ''server_max_window_bits'', digits (unat (m_server_max_window_bits d)))] else [])
     @ (if m_client_max_window_bits d < 15
        then [(ascii ''client_max_window_bits'', digits (unat (m_client_max_window_bits d)))] else [])"

definition render_attribute :: "bytes \<times> bytes \<Rightarrow> bytes" where
  "render_attribute = (\<lambda>(n, v). [0x3B, 0x20] @ n @ (if v = [] then [] else 0x3D # v))"

lemma generate_response_attributes:
  "generate_response d = ascii ''permessage-deflate'' @ concat (map render_attribute (response_attributes d))"
  by (simp add: generate_response_def response_attributes_def render_attribute_def window_constants
      ascii_def)

definition attribute_ok :: "bytes \<times> bytes \<Rightarrow> bool" where
  "attribute_ok = (\<lambda>(n, v). token n \<and> n \<noteq> [] \<and> token v)"

lemma semicolon: "is_not_token_char 0x3B" "visible 0x3B" "is_not_token_char 0x3D" "visible 0x3D"
  by (code_simp, simp add: visible_def is_whitespace_char_def)+

lemma token_start:
  assumes "token p" "p \<noteq> []"
  shows "extract_all_lws (p @ rest) = p @ rest" and "extract_all_lws (32 # p @ rest) = p @ rest"
proof -
  obtain c s where p: "p = c # s" "visible c" using assms token_chars [of p] by (cases p) auto
  show "extract_all_lws (p @ rest) = p @ rest" using p extract_all_lws_visible [of "p @ rest"] by simp
  show "extract_all_lws (32 # p @ rest) = p @ rest" using p skip_space [of c "s @ rest"] by simp
qed

lemma no_quotes:
  assumes "token p" "p \<noteq> []"
  shows "extract_quoted_string (p @ rest) = ([], p @ rest)"
proof -
  have "is_not_token_char 0x22" by code_simp
  then have "hd p \<noteq> 0x22" using assms by (cases p) (auto simp: token_def list_ex_iff)
  then show ?thesis using assms(2) by (cases p) (simp_all add: extract_quoted_string_def)
qed

lemma read_attribute:
  assumes "attribute_ok (n, v)" and "rest = [] \<or> hd rest = 0x3B"
  shows "attributes_loop first ((if first then [] else [0x3B]) @ tl (render_attribute (n, v)) @ rest) as
    = attributes_loop False rest (set_attribute n v as)"
proof -
  have n: "token n" "n \<noteq> []" and v: "token v" using assms(1) by (simp_all add: attribute_ok_def)
  have r: "extract_all_lws rest = rest"
    using assms(2) extract_all_lws_visible [of rest] semicolon skip_nothing by (cases rest) auto
  let ?tail = "(if v = [] then [] else 0x3D # v) @ rest"
  have e: "tl (render_attribute (n, v)) @ rest = 32 # n @ ?tail"
    by (simp add: render_attribute_def)
  have c: "extract_all_lws ((if first then [] else [0x3B]) @ 32 # n @ ?tail)
      = (if first then n @ ?tail else 0x3B # 32 # n @ ?tail)"
    using token_start [OF n] extract_all_lws_visible [of "0x3B # 32 # n @ ?tail"] semicolon by simp
  have t: "extract_token (n @ ?tail) = (n, ?tail)"
    using assms(2) semicolon by (intro extract_token_here n) (cases rest; auto)
  have l: "extract_all_lws ?tail = ?tail"
    using r extract_all_lws_visible [of "0x3D # v @ rest"] semicolon by simp
  have "attribute_step first ((if first then [] else [0x3B]) @ 32 # n @ ?tail) as
      = Inl (rest, set_attribute n v as)"
  proof (cases "v = []")
    case True
    then show ?thesis
      using c t l r n assms(2) token_start [OF n, of ?tail]
      by (cases rest) (auto simp: attribute_step_def Let_def)
  next
    case False
    have q: "extract_quoted_string (v @ rest) = ([], v @ rest)" by (rule no_quotes [OF v False])
    have tv: "extract_token (v @ rest) = (v, rest)"
      using assms(2) semicolon by (intro extract_token_here v) (cases rest; auto)
    show ?thesis
      using False c t l n q tv token_start [OF n, of ?tail] token_start [OF v False, of rest]
      by (auto simp: attribute_step_def Let_def)
  qed
  then show ?thesis
    unfolding e by (subst attributes_loop.simps) simp
qed

lemma read_attributes:
  assumes "\<forall>a \<in> set l. attribute_ok a"
  shows "attributes_loop False (concat (map render_attribute l)) as
    = (Some [], foldl (\<lambda>as (n, v). set_attribute n v as) as l)"
  using assms
proof (induction l arbitrary: as)
  case Nil
  show ?case by (simp add: attributes_loop.simps)
next
  case (Cons a l)
  obtain n v where a: "a = (n, v)" by (cases a)
  have "concat (map render_attribute l) = [] \<or> hd (concat (map render_attribute l)) = 0x3B"
    by (cases l) (auto simp: render_attribute_def)
  with Cons a show ?case
    using read_attribute [of n v "concat (map render_attribute l)" False as]
    by (simp add: render_attribute_def)
qed

text \<open>An extension with its attributes is read as it was written.\<close>

lemma parse_rendered:
  assumes "token p" "p \<noteq> []" "\<forall>a \<in> set l. attribute_ok a"
  shows "parse_parameter_list (p @ concat (map render_attribute l))
    = (False, [(p, foldl (\<lambda>as (n, v). set_attribute n v as) [] l)])"
proof -
  let ?r = "concat (map render_attribute l)"
  have r: "?r = [] \<or> hd ?r = 0x3B" by (cases l) (auto simp: render_attribute_def)
  have t: "extract_token (p @ ?r) = (p, ?r)"
    using r semicolon by (intro extract_token_here assms(1)) auto
  have s: "extract_all_lws ?r = ?r"
    using r extract_all_lws_visible [of ?r] semicolon(2) skip_nothing by (metis list.sel(1))
  have "parameter_step (p @ ?r) [] = Inr (Some [], [(p, foldl (\<lambda>as (n, v). set_attribute n v as) [] l)])"
  proof (cases l)
    case Nil
    then show ?thesis
      using t assms(1,2) token_start(1) [of p "[]"]
      by (simp add: parameter_step_def skip_nothing Let_def)
  next
    case (Cons a l')
    obtain n v where a: "a = (n, v)" by (cases a)
    let ?r' = "concat (map render_attribute l')"
    have r': "?r' = [] \<or> hd ?r' = 0x3B" by (cases l') (auto simp: render_attribute_def)
    have ok: "attribute_ok (n, v)" "\<forall>a \<in> set l'. attribute_ok a" using assms(3) Cons a by auto
    have "attributes_loop True (tl ?r) [] = (Some [], foldl (\<lambda>as (n, v). set_attribute n v as) [] l)"
      using read_attribute [OF ok(1) r', of True "[]"] read_attributes [OF ok(2)] Cons a
      by (simp add: render_attribute_def)
    then have "extract_attributes (tl ?r) [] = ([], foldl (\<lambda>as (n, v). set_attribute n v as) [] l)"
      using Cons a by (simp add: extract_attributes_def render_attribute_def)
    moreover obtain x where "?r = 0x3B # 32 # x" using Cons a by (simp add: render_attribute_def)
    ultimately show ?thesis
      using t s assms(1,2) token_start(1) [of p ?r]
      by (simp add: parameter_step_def skip_nothing Let_def del: concat_eq_Nil_conv)
  qed
  then show ?thesis
    using assms(2)
    by (simp add: parse_parameter_list_def extract_parameters_def parameters_loop.simps)
qed

lemma digits_token: "token (digits n)"
proof -
  have "\<forall>c \<in> set [48, 49, 50, 51, 52, 53, 54, 55, 56, 57 :: u8]. \<not> is_not_token_char c"
    by code_simp
  moreover have "c \<in> set [48, 49, 50, 51, 52, 53, 54, 55, 56, 57]" if "isdigit c" for c
  proof -
    have "unat c \<in> {48..57}" using that by (simp add: isdigit_def word_le_nat_alt)
    then have "unat c \<in> {48, 49, 50, 51, 52, 53, 54, 55, 56, 57}"
      unfolding atLeastAtMost_iff insert_iff empty_iff by arith
    then have "of_nat (unat c) \<in> (of_nat ` {48, 49, 50, 51, 52, 53, 54, 55, 56, 57} :: u8 set)"
      by (rule imageI)
    then show ?thesis by simp
  qed
  ultimately show ?thesis using digits_isdigit by (fastforce simp: token_def list_ex_iff)
qed

lemma attribute_names:
  "token (ascii ''permessage-deflate'')"
  "token (ascii ''server_no_context_takeover'')" "token (ascii ''client_no_context_takeover'')"
  "token (ascii ''server_max_window_bits'')" "token (ascii ''client_max_window_bits'')"
  by code_simp+

lemma response_attributes_ok: "\<forall>a \<in> set (response_attributes d). attribute_ok a"
  using attribute_names digits_token
  by (auto simp: response_attributes_def attribute_ok_def) (simp_all add: ascii_def token_def)

lemma window_bits_digits:
  assumes "n < 256"
  shows "window_bits_of (digits n) = of_nat n"
proof -
  have "c_string (digits n) = digits n"
    using digits_plain [of _ n] by (simp add: c_string_def takeWhile_eq_all_conv)
  then have "atoi (digits n) = word_of_nat n"
    using scan_digits [of "[]" n] assms by (simp add: atoi_def signed_val_def)
  then show ?thesis using assms by (simp add: window_bits_of_def unsigned_of_nat take_bit_nat_eq_self)
qed

lemma negotiate_digits:
  assumes "b \<in> {9..15}"
  shows "m_server_max_window_bits_mode d = Mode_accept \<Longrightarrow>
      negotiate_server_max_window_bits (digits (unat b)) d = (d\<lparr>m_server_max_window_bits := b\<rparr>, None)"
    and "m_client_max_window_bits_mode d = Mode_accept \<Longrightarrow>
      negotiate_client_max_window_bits (digits (unat b)) d = (d\<lparr>m_client_max_window_bits := b\<rparr>, None)"
proof -
  have "unat b < 256" "\<not> b < 8" "\<not> 15 < b" "b \<noteq> 8"
    using assms unsigned_less [of b] by (auto simp: word_less_nat_alt word_le_nat_alt)
  then show "m_server_max_window_bits_mode d = Mode_accept \<Longrightarrow>
      negotiate_server_max_window_bits (digits (unat b)) d = (d\<lparr>m_server_max_window_bits := b\<rparr>, None)"
    "m_client_max_window_bits_mode d = Mode_accept \<Longrightarrow>
      negotiate_client_max_window_bits (digits (unat b)) d = (d\<lparr>m_client_max_window_bits := b\<rparr>, None)"
    by (simp_all add: negotiate_server_max_window_bits_def negotiate_client_max_window_bits_def
        window_constants window_bits_digits)
qed

lemma attribute_order:
  "bytes_less (ascii ''client_max_window_bits'') (ascii ''client_no_context_takeover'')"
  "bytes_less (ascii ''client_max_window_bits'') (ascii ''server_max_window_bits'')"
  "bytes_less (ascii ''client_max_window_bits'') (ascii ''server_no_context_takeover'')"
  "bytes_less (ascii ''client_no_context_takeover'') (ascii ''server_max_window_bits'')"
  "bytes_less (ascii ''client_no_context_takeover'') (ascii ''server_no_context_takeover'')"
  "bytes_less (ascii ''server_max_window_bits'') (ascii ''server_no_context_takeover'')"
  "\<not> bytes_less (ascii ''client_no_context_takeover'') (ascii ''client_max_window_bits'')"
  "\<not> bytes_less (ascii ''server_max_window_bits'') (ascii ''client_max_window_bits'')"
  "\<not> bytes_less (ascii ''server_no_context_takeover'') (ascii ''client_max_window_bits'')"
  "\<not> bytes_less (ascii ''server_max_window_bits'') (ascii ''client_no_context_takeover'')"
  "\<not> bytes_less (ascii ''server_no_context_takeover'') (ascii ''client_no_context_takeover'')"
  "\<not> bytes_less (ascii ''server_no_context_takeover'') (ascii ''server_max_window_bits'')"
  by code_simp+

lemma attribute_names_differ:
  "ascii ''client_max_window_bits'' \<noteq> ascii ''server_max_window_bits''"
  "ascii ''client_max_window_bits'' \<noteq> ascii ''server_no_context_takeover''"
  "ascii ''client_max_window_bits'' \<noteq> ascii ''client_no_context_takeover''"
  "ascii ''server_max_window_bits'' \<noteq> ascii ''server_no_context_takeover''"
  "ascii ''server_max_window_bits'' \<noteq> ascii ''client_no_context_takeover''"
  "ascii ''client_no_context_takeover'' \<noteq> ascii ''server_no_context_takeover''"
  by code_simp+

text \<open>What a client in its initial state makes of the reply.\<close>

lemma client_reads_attributes:
  assumes "windows_ok d"
  shows "negotiate_attributes (foldl (\<lambda>as (n, v). set_attribute n v as) [] (response_attributes d))
      (new_deflate fl) =
    ((new_deflate fl)\<lparr>m_server_no_context_takeover := m_server_no_context_takeover d,
        m_client_no_context_takeover := m_client_no_context_takeover d,
        m_server_max_window_bits := m_server_max_window_bits d,
        m_client_max_window_bits := m_client_max_window_bits d\<rparr>, None)"
proof -
  have b: "m_server_max_window_bits d \<in> {9..15}" "m_client_max_window_bits d \<in> {9..15}"
    using assms by (simp_all add: windows_ok_def)
  have m: "\<not> m_server_max_window_bits d < 15 \<Longrightarrow> m_server_max_window_bits d = 15"
    "\<not> m_client_max_window_bits d < 15 \<Longrightarrow> m_client_max_window_bits d = 15"
    using b by auto
  show ?thesis
    using m
    by (cases "m_server_no_context_takeover d"; cases "m_client_no_context_takeover d";
        cases "m_server_max_window_bits d < 15"; cases "m_client_max_window_bits d < 15")
      (simp_all add: response_attributes_def attribute_order negotiate_attribute_def
        attribute_names_differ attribute_names_differ [symmetric] new_deflate_def
        negotiate_digits [OF b(1)] negotiate_digits [OF b(2)]
        negotiate_server_no_context_takeover_def negotiate_client_no_context_takeover_def)
qed

text \<open>C31: Whatever the server was configured to and the client offered, a client in its initial
  state reads the server's reply as one extension without a syntax error, accepts it, and ends with
  the same window sizes and context takeover settings as the server; so when zlib is then
  initialised, each side inflates with the window the other deflates with.\<close>
theorem deflate_sides_agree:
  assumes "configured Z d" and "negotiate d offer = (ds, None, reply)"
  shows "\<exists>attrs dc reply'.
     parse_parameter_list reply = (False, [(ascii ''permessage-deflate'', attrs)])
     \<and> negotiate (new_deflate fl :: ('t, 'j) deflate) attrs = (dc, None, reply') \<and> m_enabled dc \<and> m_enabled ds
     \<and> m_server_max_window_bits dc = m_server_max_window_bits ds
     \<and> m_client_max_window_bits dc = m_client_max_window_bits ds
     \<and> m_server_no_context_takeover dc = m_server_no_context_takeover ds
     \<and> m_client_no_context_takeover dc = m_client_no_context_takeover ds
     \<and> reply' = reply"
proof -
  have "windows_ok ds" using windows_ok_negotiate [OF configured_windows [OF assms(1)], of offer] assms(2) by simp
  note c = client_reads_attributes [OF this, of fl]
  have r: "reply = generate_response ds" "m_enabled ds"
    using assms(2) by (auto simp: negotiate_def Let_def split: prod.splits option.splits)
  have "parse_parameter_list reply = (False, [(ascii ''permessage-deflate'',
      foldl (\<lambda>as (n, v). set_attribute n v as) [] (response_attributes ds))])"
    unfolding r generate_response_attributes
    by (rule parse_rendered [OF attribute_names(1) _ response_attributes_ok]) (simp add: ascii_def)
  moreover have "negotiate (new_deflate fl :: ('t, 'j) deflate)
      (foldl (\<lambda>as (n, v). set_attribute n v as) [] (response_attributes ds)) =
      (new_deflate fl\<lparr>m_server_no_context_takeover := m_server_no_context_takeover ds,
        m_client_no_context_takeover := m_client_no_context_takeover ds,
        m_server_max_window_bits := m_server_max_window_bits ds,
        m_client_max_window_bits := m_client_max_window_bits ds, m_enabled := True\<rparr>, None, reply)"
    by (simp add: negotiate_def c r(1) generate_response_def)
  ultimately show ?thesis using r(2) by simp
qed

subsection \<open>What a mode agrees to\<close>

text \<open>An accepted offer of a window is never exceeded, except that 8 becomes 9 and except in the
  mode that insists on the defaults; with the mode for the largest common window the server's own
  limit is kept too.\<close>
theorem agreed_window_within_offer:
  assumes "configured Z d" and "negotiate_server_max_window_bits val d = (d', None)"
    and "m_server_max_window_bits_mode d \<noteq> Mode_decline"
  shows "m_server_max_window_bits d' \<le> max 9 (window_bits_of val)
    \<and> (m_server_max_window_bits_mode d = Mode_largest \<longrightarrow>
         m_server_max_window_bits d' \<le> m_server_max_window_bits d)"
proof -
  have "9 \<le> m_server_max_window_bits d"
    using configured_windows [OF assms(1)] by (simp add: windows_ok_def)
  then show ?thesis
    using assms(2,3) nine_not_less [of "window_bits_of val"]
    by (auto simp: negotiate_server_max_window_bits_def window_constants Let_def min_def max_def
        split: window_mode.splits if_splits)
qed

subsection \<open>What negotiation lets through\<close>

text \<open>A number is compared with its bounds after it was cut to 8 bits: 265 is accepted as 9.\<close>

lemma window_bits_wrap:
  "negotiate_server_max_window_bits (ascii ''265'') (new_deflate fl)
    = ((new_deflate fl)\<lparr>m_server_max_window_bits := 9\<rparr>, None)"
proof -
  have "window_bits_of (ascii ''265'') = 9" by code_simp
  then show ?thesis
    by (simp add: negotiate_server_max_window_bits_def window_constants new_deflate_def)
qed

text \<open>
  In the mode that declines, an offer that limits the server's window is accepted with a reply that
  does not limit it.
\<close>

lemma declined_window_not_limited:
  "m_server_max_window_bits_mode d = Mode_decline \<Longrightarrow>
     negotiate_server_max_window_bits (ascii ''10'') d = (d\<lparr>m_server_max_window_bits := 15\<rparr>, None)"
proof -
  have "window_bits_of (ascii ''10'') = 10" by code_simp
  then show "m_server_max_window_bits_mode d = Mode_decline \<Longrightarrow> ?thesis"
    by (simp add: negotiate_server_max_window_bits_def window_constants)
qed

text \<open>
  A server with a limit for the client's window puts it in the reply whether or not the client
  offered the attribute.
\<close>

lemma unoffered_client_window:
  assumes "set_client_max_window_bits 10 mode (new_deflate fl) = (d, None)"
  shows "negotiate d [] = (d\<lparr>m_enabled := True\<rparr>, None,
    ascii ''permessage-deflate; client_max_window_bits=10'')"
proof -
  have "digits 10 = ascii ''10''" by code_simp
  then show ?thesis
    using assms by (auto simp: set_client_max_window_bits_def window_constants new_deflate_def
        negotiate_def generate_response_def ascii_def)
qed

text \<open>
  The attributes of an offer that is refused stay in the object: they are part of the reply to the
  next offer, which did not name them.
\<close>

theorem refused_offer_leaks:
  assumes "negotiate (new_deflate fl)
    [(ascii ''client_max_window_bits'', ascii ''10''), (ascii ''unknown'', [])] = (d, ec, reply)"
  shows "ec = Some (DeflateError D_invalid_attributes) \<and> \<not> m_enabled d
    \<and> snd (snd (negotiate d [])) = ascii ''permessage-deflate; client_max_window_bits=10''"
proof -
  have w: "window_bits_of (ascii ''10'') = 10" "digits 10 = ascii ''10''" by code_simp+
  have n: "ascii ''unknown'' \<noteq> ascii ''server_no_context_takeover''"
    "ascii ''unknown'' \<noteq> ascii ''client_no_context_takeover''"
    "ascii ''unknown'' \<noteq> ascii ''server_max_window_bits''"
    "ascii ''unknown'' \<noteq> ascii ''client_max_window_bits''" by code_simp+
  have e: "ascii ''10'' \<noteq> []" by (simp add: ascii_def)
  have "d = (new_deflate fl)\<lparr>m_client_max_window_bits := 10\<rparr>
      \<and> ec = Some (DeflateError D_invalid_attributes)"
    using assms
    by (auto simp: negotiate_def negotiate_attribute_def n attribute_names_differ e w
        attribute_names_differ [symmetric] negotiate_client_max_window_bits_def window_constants
        new_deflate_def)
  then show ?thesis
    by (simp add: negotiate_def generate_response_def new_deflate_def window_constants w ascii_def)
qed

text \<open>
  An object whose initialisation succeeded gives its streams back; when the second stream cannot be
  created, the first one is never given back.
\<close>

lemma initialised_is_released:
  "snd (deflate_init Z d is_server) = None \<Longrightarrow>
     m_dstate (destroy_deflate (fst (deflate_init Z d is_server))) = None
     \<and> m_istate (destroy_deflate (fst (deflate_init Z d is_server))) = None"
  by (cases is_server) (auto simp: deflate_init_def destroy_deflate_def Let_def split: option.splits)

lemma failed_inflate_leaks:
  "\<not> m_initialized d \<Longrightarrow> deflateInit2 Z (- uint (m_server_max_window_bits d)) = Some s \<Longrightarrow>
     inflateInit2 Z (- uint (m_client_max_window_bits d)) = None \<Longrightarrow>
     m_dstate (destroy_deflate (fst (deflate_init Z d True))) = Some s"
  by (simp add: deflate_init_def destroy_deflate_def)

subsection \<open>The loops around zlib\<close>

text \<open>
  What the documentation of zlib says of one call, by what is still to come: \<open>dv fl s inp\<close> is the
  state of the compressor once it has read \<open>inp\<close> and the output it then has to deliver. A call
  delivers the next bytes of it, as many as fit, and leaves input only when it filled the buffer.
  The same for a decompressor and input that is not corrupt.
\<close>

definition deflate_streams :: "('s, 'i) zlib \<Rightarrow> (flush \<Rightarrow> 's \<Rightarrow> bytes \<Rightarrow> 'a \<times> bytes) \<Rightarrow> bool" where
  "deflate_streams Z dv \<longleftrightarrow>
     (\<forall>fl inp n s s' inp' out a p. 0 < n \<longrightarrow> deflate_call Z fl inp n s = (s', inp', out) \<longrightarrow>
        dv fl s inp = (a, p) \<longrightarrow>
        out = take n p \<and> dv fl s' inp' = (a, drop n p) \<and> (length out < n \<longrightarrow> inp' = []))"

definition inflate_streams :: "('s, 'i) zlib \<Rightarrow> ('i \<Rightarrow> bytes \<Rightarrow> ('b \<times> bytes) option) \<Rightarrow> bool" where
  "inflate_streams Z iv \<longleftrightarrow>
     (\<forall>inp n i i' inp' out failed b p. 0 < n \<longrightarrow> inflate_call Z inp n i = (i', inp', out, failed) \<longrightarrow>
        iv i inp = Some (b, p) \<longrightarrow>
        \<not> failed \<and> out = take n p \<and> iv i' inp' = Some (b, drop n p) \<and> (length out < n \<longrightarrow> inp' = []))"

lemma deflate_loop_streams:
  assumes "deflate_streams Z dv" and "0 < n" and "dv fl s inp = (a, p)"
  shows "\<exists>s'. deflate_loop Z fl n inp s out = Some (s', out @ p) \<and> dv fl s' [] = (a, [])"
  using assms(3)
proof (induction "length p" arbitrary: s inp out p rule: less_induct)
  case less
  obtain s' inp' o1 where c: "deflate_call Z fl inp n s = (s', inp', o1)"
    by (cases "deflate_call Z fl inp n s")
  then have o: "o1 = take n p" "dv fl s' inp' = (a, drop n p)" "length o1 < n \<longrightarrow> inp' = []"
    using assms(1,2) less(2) unfolding deflate_streams_def by blast+
  show ?case
  proof (cases "length o1 = n")
    case True
    then have "length (drop n p) < length p" using o(1) assms(2) by simp
    from less(1) [OF this o(2), of "out @ o1"] show ?thesis
      using True c o(1) by (subst deflate_loop.simps) simp
  next
    case False
    then have "length p < n" "o1 = p" using o(1) by auto
    then show ?thesis using False c o by (subst deflate_loop.simps) auto
  qed
qed

lemma inflate_loop_streams:
  assumes "inflate_streams Z iv" and "0 < n" and "iv i inp = Some (b, p)"
  shows "\<exists>i'. inflate_loop Z n inp i out = Some (i', out @ p, False) \<and> iv i' [] = Some (b, [])"
  using assms(3)
proof (induction "length p" arbitrary: i inp out p rule: less_induct)
  case less
  obtain i' inp' o1 failed where c: "inflate_call Z inp n i = (i', inp', o1, failed)"
    by (cases "inflate_call Z inp n i")
  then have o: "\<not> failed" "o1 = take n p" "iv i' inp' = Some (b, drop n p)" "length o1 < n \<longrightarrow> inp' = []"
    using assms(1,2) less(2) unfolding inflate_streams_def by blast+
  show ?case
  proof (cases "length o1 = n")
    case True
    then have "length (drop n p) < length p" using o(2) assms(2) by simp
    from less(1) [OF this o(3), of "out @ o1"] show ?thesis
      using True c o(1,2) by (subst inflate_loop.simps) simp
  next
    case False
    then have "length p < n" "o1 = p" using o(2) by auto
    then show ?thesis using False c o by (subst inflate_loop.simps) auto
  qed
qed

lemma avail_in_short: "length inp < 2 ^ 32 \<Longrightarrow> avail_in inp = inp"
  by (simp add: avail_in_def unat_of_nat take_bit_nat_eq_self)

text \<open>An input of 4 GiB is no input for zlib.\<close>

lemma avail_in_wraps: "length inp = 2 ^ 32 \<Longrightarrow> avail_in inp = []"
  by (simp add: avail_in_def unat_of_nat take_bit_eq_mod)

lemma compress_stream:
  assumes "deflate_streams Z dv" and "m_initialized d" and "m_dstate d = Some s"
    and "0 < m_compress_buffer_size d" and "inp \<noteq> []" and "length inp < 2 ^ 32"
    and "dv (m_flush d) s inp = (a, p)"
  shows "\<exists>s'. compress Z d inp out = Some (d\<lparr>m_dstate := Some s'\<rparr>, out @ p, None)
    \<and> dv (m_flush d) s' [] = (a, [])"
  using deflate_loop_streams [OF assms(1,4,7), of out] assms(2,3,5) avail_in_short [OF assms(6)]
  by (auto simp: compress_def)


text \<open>The same for \<open>decompress\<close>.\<close>

lemma decompress_appends_stream:
  assumes "inflate_streams Z iv" and "m_initialized d" and "m_istate d = Some i"
    and "0 < m_compress_buffer_size d" and "length buf < 2 ^ 32" and "iv i buf = Some (b, p)"
  shows "\<exists>i'. decompress Z d buf out = Some (d\<lparr>m_istate := Some i'\<rparr>, out @ p, None)
    \<and> iv i' [] = Some (b, [])"
  using inflate_loop_streams [OF assms(1,4,6), of out] assms(2,3) avail_in_short [OF assms(5)]
  by (auto simp: decompress_def)

subsection \<open>Concrete objects\<close>

text \<open>
  A compressor that writes each byte behind a tag, and its inverse: \<open>0\<close> begins a block of four
  bytes without data, \<open>2\<close> one of two.
\<close>

definition store_bytes :: "bytes \<Rightarrow> bytes" where
  "store_bytes inp =
     (if inp = [] then [] else concat (map (\<lambda>b. [1, b]) inp) @ [0x00, 0x00, 0xff, 0xff])"

fun fetch_bytes :: "nat \<Rightarrow> bytes \<Rightarrow> nat \<times> bytes" where
  "fetch_bytes k [] = (k, [])"
| "fetch_bytes k (x # xs) =
     (if k = 0 then fetch_bytes (if x = 1 then 1 else if x = 2 then 2 else 4) xs
      else if k = 1 then (case fetch_bytes 0 xs of (k, out) \<Rightarrow> (k, x # out))
      else fetch_bytes (if k = 2 then 0 else k - 1) xs)"

definition sample_zlib :: "(bytes, nat \<times> bytes) zlib" where
  "sample_zlib =
     \<lparr>deflateInit2 = (\<lambda>w. if w \<in> {- 15..- 9} then Some [] else None),
      inflateInit2 = (\<lambda>w. if w \<in> {- 15..- 9} then Some (0, []) else None),
      deflate_call = (\<lambda>fl inp n s. let p = s @ store_bytes inp in (drop n p, [], take n p)),
      inflate_call = (\<lambda>inp n (k, p). case fetch_bytes k inp of
         (k, out) \<Rightarrow> ((k, drop n (p @ out)), [], take n (p @ out), False))\<rparr>"

definition sample_dv :: "flush \<Rightarrow> bytes \<Rightarrow> bytes \<Rightarrow> unit \<times> bytes" where
  "sample_dv fl s inp = ((), s @ store_bytes inp)"

definition sample_iv :: "nat \<times> bytes \<Rightarrow> bytes \<Rightarrow> (nat \<times> bytes) option" where
  "sample_iv = (\<lambda>(k, p) inp. case fetch_bytes k inp of (k, out) \<Rightarrow> Some (k, p @ out))"

lemma sample_streams: "deflate_streams sample_zlib sample_dv" "inflate_streams sample_zlib sample_iv"
  by (auto simp: deflate_streams_def inflate_streams_def sample_zlib_def sample_dv_def sample_iv_def
      store_bytes_def Let_def split: prod.splits)

definition sample_offer :: attribute_list where
  "sample_offer = [(ascii ''client_max_window_bits'', []), (ascii ''server_max_window_bits'', ascii ''10'')]"

definition sample_deflate :: "(bytes, nat \<times> bytes) deflate" where
  "sample_deflate = new_deflate Sync_flush"

lemma sample_negotiated:
  "negotiate sample_deflate sample_offer =
    (sample_deflate\<lparr>m_server_max_window_bits := 10, m_enabled := True\<rparr>, None,
     ascii ''permessage-deflate; server_max_window_bits=10'')"
proof -
  have w: "window_bits_of (ascii ''10'') = 10" "digits 10 = ascii ''10''" by code_simp+
  show ?thesis
    by (simp add: negotiate_def sample_offer_def negotiate_attribute_def attribute_names_differ
        attribute_names_differ [symmetric] negotiate_server_max_window_bits_def w
        negotiate_client_max_window_bits_def window_constants sample_deflate_def new_deflate_def
        generate_response_def) (simp add: ascii_def)
qed

lemma negotiated_windows_initialise_witness:
  "snd (deflate_init sample_zlib (fst (negotiate sample_deflate sample_offer)) True) = None
    \<and> m_initialized (fst (deflate_init sample_zlib (fst (negotiate sample_deflate sample_offer)) True))"
proof (rule negotiated_windows_initialise)
  show "configured sample_zlib (fst (negotiate sample_deflate sample_offer))"
    unfolding sample_deflate_def by (rule negotiated [OF new])
  show "deflateInit2 sample_zlib (- w) \<noteq> None \<and> inflateInit2 sample_zlib (- w) \<noteq> None"
    if "w \<in> {9..15}" for w :: int
    using that by (simp add: sample_zlib_def)
qed

lemma deflate_sides_agree_witness:
  "\<exists>attrs dc reply'.
     parse_parameter_list (ascii ''permessage-deflate; server_max_window_bits=10'')
       = (False, [(ascii ''permessage-deflate'', attrs)])
     \<and> negotiate sample_deflate attrs = (dc, None, reply') \<and> m_server_max_window_bits dc = 10"
proof -
  have "configured sample_zlib sample_deflate" unfolding sample_deflate_def by (rule new)
  from deflate_sides_agree [OF this sample_negotiated, where fl = Sync_flush and ?'t = bytes and ?'j = "nat \<times> bytes"]
  show ?thesis by (auto simp: sample_deflate_def)
qed

lemma agreed_window_within_offer_witness:
  "m_server_max_window_bits (fst (negotiate_server_max_window_bits (ascii ''10'') sample_deflate)) \<le> 10"
proof -
  have w: "window_bits_of (ascii ''10'') = 10" by code_simp
  have c: "configured sample_zlib sample_deflate" unfolding sample_deflate_def by (rule new)
  have "negotiate_server_max_window_bits (ascii ''10'') sample_deflate
      = (sample_deflate\<lparr>m_server_max_window_bits := 10\<rparr>, None)"
    by (simp add: negotiate_server_max_window_bits_def w window_constants sample_deflate_def new_deflate_def)
  from agreed_window_within_offer [OF c this] this show ?thesis
    by (simp add: w sample_deflate_def new_deflate_def max_def)
qed

definition sample_ready :: "(bytes, nat \<times> bytes) deflate" where
  "sample_ready = (fst (deflate_init sample_zlib sample_deflate True))\<lparr>m_enabled := True,
     m_compress_buffer_size := 3\<rparr>"

lemma sample_ready_fields:
  "m_enabled sample_ready" "m_initialized sample_ready" "m_compress_buffer_size sample_ready = 3"
  "m_dstate sample_ready = Some []" "m_istate sample_ready = Some (0, [])"
  by (simp_all add: sample_ready_def sample_deflate_def new_deflate_def deflate_init_def sample_zlib_def)


end
