(* ===== verification/FrameReader.thy ===== *)
theory FrameReader
  imports Hybi13
begin

text \<open>
  What the frame processor of \<open>Hybi13\<close> guarantees with the compression extension the
  program is configured with, the disabled one: the invariant of the reading state machine and
  its preservation by every turn of \<open>consume\<close>, the absence of undefined behaviour, the bound
  on a delivered message, and that the bytes may arrive in any chunks.
\<close>

subsection \<open>The invariant\<close>

definition usable_key :: "msg_metadata \<Rightarrow> bool" where
  "usable_key md \<longleftrightarrow> (\<exists>key. prepared_key md = prepare_masking_key key)"

definition data_ok :: "msg_metadata \<Rightarrow> bool" where
  "data_ok md \<longleftrightarrow>
     (case msg_ptr md of
        None \<Rightarrow> True
      | Some m \<Rightarrow> usable_key md \<and> m_opcode m \<in> {TEXT, BINARY}
          \<and> (m_opcode m = TEXT \<longrightarrow>
               validator_decode new_validator (m_payload m) = (md_validator md, True)))"

definition control_ok :: "msg_metadata \<Rightarrow> bool" where
  "control_ok md \<longleftrightarrow>
     (case msg_ptr md of None \<Rightarrow> True | Some m \<Rightarrow> usable_key md \<and> is_control (m_opcode m))"

text \<open>A data message of \<open>n\<close> bytes more stays within the limit. The disjunct is the
  wrap-around of the test \<open>out.size() + m_bytes_needed > m_max_message_size\<close>.\<close>

definition size_ok :: "u64 \<Rightarrow> nat \<Rightarrow> msg_metadata \<Rightarrow> bool" where
  "size_ok limit n md \<longleftrightarrow>
     (case msg_ptr md of
        None \<Rightarrow> True
      | Some m \<Rightarrow> length (m_payload m) + n \<le> unat limit \<or> 2 ^ 64 \<le> length (m_payload m) + n)"

text \<open>The frame whose header has been accepted.\<close>

definition legal_header :: "bool \<Rightarrow> basic_header \<Rightarrow> bool" where
  "legal_header is_server h \<longleftrightarrow>
     \<not> opcode_reserved (get_opcode h) \<and> \<not> get_rsv1 h \<and> \<not> get_rsv2 h \<and> \<not> get_rsv3 h
     \<and> (is_control (get_opcode h) \<longrightarrow> get_fin h \<and> unat (get_basic_size h) \<le> 125)
     \<and> (get_masked h \<longleftrightarrow> is_server)"

definition legal_frame :: "bool \<Rightarrow> bool \<Rightarrow> basic_header \<Rightarrow> bool" where
  "legal_frame is_server new_msg h \<longleftrightarrow>
     legal_header is_server h
     \<and> (\<not> is_control (get_opcode h) \<longrightarrow> (new_msg \<longleftrightarrow> get_opcode h \<noteq> CONTINUATION))"

definition reading :: "'d hybi13 \<Rightarrow> bool" where
  "reading s \<longleftrightarrow>
     legal_header (p_server s) (m_basic_header s)
     \<and> (if is_control (get_opcode (m_basic_header s))
        then m_current_msg s = CurControl
          \<and> (case msg_ptr (m_control_msg s) of
               None \<Rightarrow> False
             | Some m \<Rightarrow> m_opcode m = get_opcode (m_basic_header s)
                 \<and> length (m_payload m) + unat (m_bytes_needed s) \<le> 125)
        else m_current_msg s = CurData
          \<and> (case msg_ptr (m_data_msg s) of
               None \<Rightarrow> False
             | Some m \<Rightarrow> get_opcode (m_basic_header s) \<in> {CONTINUATION, m_opcode m}))"

definition pending :: "'d hybi13 \<Rightarrow> nat" where
  "pending s =
     (if m_state s = APPLICATION \<and> m_current_msg s = CurData then unat (m_bytes_needed s) else 0)"

definition state_ok :: "'d hybi13 \<Rightarrow> bool" where
  "state_ok s \<longleftrightarrow>
     (case m_state s of
        HEADER_BASIC \<Rightarrow> m_bytes_needed s = 1 \<or> m_bytes_needed s = 2
      | HEADER_EXTENDED \<Rightarrow>
          legal_frame (p_server s) (msg_ptr (m_data_msg s) = None) (m_basic_header s)
          \<and> m_cursor s + unat (m_bytes_needed s) = get_header_len (m_basic_header s) - 2
      | APPLICATION \<Rightarrow> reading s
      | READY \<Rightarrow> reading s \<and> m_bytes_needed s = 0 \<and> get_fin (m_basic_header s)
          \<and> (get_opcode (m_basic_header s) = TEXT \<longrightarrow> validator_complete (md_validator (m_data_msg s)))
      | _ \<Rightarrow> False)"

definition proc_ok :: "'d hybi13 \<Rightarrow> bool" where
  "proc_ok s \<longleftrightarrow>
     length (eh_bytes (m_extended_header s)) = 12 \<and> data_ok (m_data_msg s)
     \<and> control_ok (m_control_msg s) \<and> size_ok (m_max_message_size s) (pending s) (m_data_msg s)
     \<and> state_ok s"

lemma proc_ok_new [preserved]: "proc_ok (new_hybi13 is_server limit ext)"
  by (simp add: proc_ok_def new_hybi13_def reset_headers_def state_ok_def data_ok_def control_ok_def
      size_ok_def no_metadata_def size_consts)

lemma proc_ok_reset [preserved]:
  "data_ok (m_data_msg s) \<Longrightarrow> control_ok (m_control_msg s) \<Longrightarrow>
   size_ok (m_max_message_size s) 0 (m_data_msg s) \<Longrightarrow> proc_ok (reset_headers s)"
  by (simp add: proc_ok_def reset_headers_def state_ok_def size_consts pending_def)

subsection \<open>Headers\<close>

text \<open>The tests on a basic header are exactly the rules for a legal frame.\<close>

lemma basic_size_gt:
  "ucast (get_basic_size h) > payload_size_basic \<longleftrightarrow> 125 < unat (get_basic_size h)"
  by (simp add: size_consts word_less_nat_alt)

lemma validate_basic_iff:
  "validate_incoming_basic_header disabled_extension s h is_server new_msg = None \<longleftrightarrow>
     legal_frame is_server new_msg h"
  by (auto simp: validate_incoming_basic_header_def Let_def legal_frame_def legal_header_def
      basic_size_gt not_less is_control_iff)

lemma validate_extended_iff:
  "validate_incoming_extended_header h e = None \<longleftrightarrow>
     (get_basic_size h = payload_size_code_16bit \<longrightarrow> 125 < unat (get_payload_size h e))
     \<and> (get_basic_size h = payload_size_code_64bit \<longrightarrow> 65535 < unat (get_payload_size h e))"
  by (auto simp: validate_incoming_extended_header_def Let_def sizeof_size_t_def u64_size_classes
      not_le payload_size_code_16bit_def payload_size_code_64bit_def)

lemma control_payload_size:
  "unat (get_basic_size h) \<le> 125 \<Longrightarrow> get_payload_size h e = ucast (get_basic_size h)"
  by (simp add: get_payload_size_def Let_def size_consts word_le_nat_alt)

lemma header_len_minus: "get_header_len h - BASIC_HEADER_LENGTH = get_header_len h - 2"
  by (simp add: size_consts)

lemma of_nat_header_len: "unat (of_nat (get_header_len h - 2) :: u64) = get_header_len h - 2"
  using get_header_len_bounds [of h] by (intro u64_of_nat_inj) (simp add: size_consts)

subsection \<open>Every turn keeps the invariant\<close>

fun turn_ok :: "'d turn \<Rightarrow> bool" where
  "turn_ok (Next s n) = proc_ok s"
| "turn_ok (Break s n ec) = (ec \<noteq> None)"
| "turn_ok Undefined = False"

lemma basic_turn_ok [preserved]:
  assumes "proc_ok s" and "m_state s = HEADER_BASIC" and "buf \<noteq> []"
  shows "turn_ok (consume_iter disabled_extension s buf)"
proof -
  obtain s1 n where c: "copy_basic_header_bytes s buf = (s1, n)" by fastforce
  have need: "m_bytes_needed s = 1 \<or> m_bytes_needed s = 2"
    using assms by (simp add: proc_ok_def state_ok_def)
  then have b: "m_bytes_needed s1 = 0 \<or> m_bytes_needed s1 = 1 \<and> m_bytes_needed s = 2"
    using c assms(3) by (auto simp: copy_basic_header_bytes_def split: if_splits)
  have f: "m_state s1 = HEADER_BASIC" "m_extended_header s1 = m_extended_header s"
    "m_data_msg s1 = m_data_msg s" "m_control_msg s1 = m_control_msg s"
    "m_max_message_size s1 = m_max_message_size s" "m_current_msg s1 = m_current_msg s"
    "p_server s1 = p_server s"
    using c assms(2) by (auto simp: copy_basic_header_bytes_def split: if_splits)
  show ?thesis
    using assms(1,2) b f
    by (auto simp: consume_iter_def c proc_ok_def state_ok_def pending_def validate_basic_iff
        header_len_minus of_nat_header_len split: option.splits)
qed

lemma start_message_ok [preserved]:
  assumes "length (eh_bytes (m_extended_header s)) = 12" and "data_ok (m_data_msg s)"
    and "control_ok (m_control_msg s)" and "size_ok (m_max_message_size s) 0 (m_data_msg s)"
    and "m_state s = APPLICATION"
    and "m_bytes_needed s = get_payload_size (m_basic_header s) (m_extended_header s)"
    and "legal_frame (p_server s) (msg_ptr (m_data_msg s) = None) (m_basic_header s)"
  shows "turn_ok (start_message disabled_extension s n)"
proof (cases "is_control (get_opcode (m_basic_header s))")
  case True
  then have "unat (m_bytes_needed s) \<le> 125"
    using assms(6,7)
    by (simp add: legal_frame_def legal_header_def control_payload_size)
  with True assms show ?thesis
    by (auto simp: start_message_def Let_def proc_ok_def state_ok_def reading_def pending_def
        control_ok_def make_metadata_def get_message_op_def new_message_def usable_key_def
        legal_frame_def)
next
  case False
  let ?op = "get_opcode (m_basic_header s)"
  show ?thesis
  proof (cases "msg_ptr (m_data_msg s)")
    case None
    then have "?op \<in> {TEXT, BINARY}"
      using False assms(7)
      by (auto simp: legal_frame_def legal_header_def opcode_reserved_iff is_control_iff)
    with None False assms show ?thesis
      by (auto simp: start_message_def Let_def proc_ok_def state_ok_def reading_def pending_def
          data_ok_def size_ok_def make_metadata_def new_message_def usable_key_def
          legal_frame_def word_less_nat_alt not_less)
  next
    case (Some m)
    have "length (m_payload m) + unat (m_bytes_needed s) \<le> unat (m_max_message_size s)
        \<or> 2 ^ 64 \<le> length (m_payload m) + unat (m_bytes_needed s)"
      if "\<not> of_nat (length (m_payload m)) + m_bytes_needed s > m_max_message_size s"
    proof (cases "length (m_payload m) + unat (m_bytes_needed s) < 2 ^ 64")
      case True
      then have "unat (of_nat (length (m_payload m)) + m_bytes_needed s)
          = length (m_payload m) + unat (m_bytes_needed s)"
        by (rule u64_add_no_wrap)
      with that show ?thesis by (simp add: not_less word_le_nat_alt)
    qed simp
    with Some False assms show ?thesis
      by (auto simp: start_message_def Let_def proc_ok_def state_ok_def reading_def pending_def
          data_ok_def size_ok_def usable_key_def legal_frame_def)
  qed
qed

lemma extended_turn_ok [preserved]:
  assumes "proc_ok s" and "m_state s = HEADER_EXTENDED"
  shows "turn_ok (consume_iter disabled_extension s buf)"
proof -
  define k where "k = min (unat (m_bytes_needed s)) (length buf)"
  have sum: "m_cursor s + unat (m_bytes_needed s) = get_header_len (m_basic_header s) - 2"
    and len: "length (eh_bytes (m_extended_header s)) = 12"
    using assms by (simp_all add: proc_ok_def state_ok_def)
  have k: "k \<le> unat (m_bytes_needed s)" "k \<le> length buf" by (simp_all add: k_def)
  have le: "m_cursor s + k \<le> 12"
    using sum k get_header_len_bounds [of "m_basic_header s"] by (simp add: size_consts)
  obtain s1 where c: "copy_extended_header_bytes s buf = Some (s1, k)"
    and s1: "s1 = s\<lparr>m_extended_header :=
                \<lparr>eh_bytes = overwrite (eh_bytes (m_extended_header s)) (m_cursor s) (take k buf)\<rparr>,
              m_cursor := m_cursor s + k, m_bytes_needed := m_bytes_needed s - of_nat k\<rparr>"
    using le unfolding copy_extended_header_bytes_def k_def [symmetric] by (simp add: size_consts)
  have n: "unat (m_bytes_needed s - of_nat k) = unat (m_bytes_needed s) - k"
    by (rule u64_minus_of_nat [OF k(1)])
  have l: "length (eh_bytes (m_extended_header s1)) = 12"
    using len le k by (simp add: s1 length_overwrite)
  show ?thesis
  proof (cases "m_bytes_needed s1 > 0")
    case True
    then show ?thesis
      using assms l n sum k by (simp add: consume_iter_def c) (simp add: s1 proc_ok_def state_ok_def pending_def)
  next
    case False
    then show ?thesis
      using assms l start_message_ok
        [of "s1\<lparr>m_state := APPLICATION,
             m_bytes_needed := get_payload_size (m_basic_header s1) (m_extended_header s1)\<rparr>" k]
      by (simp add: consume_iter_def c split: option.split)
        (simp add: s1 proc_ok_def state_ok_def pending_def)
  qed
qed

subsection \<open>Payload bytes\<close>

definition unmasked :: "'d hybi13 \<Rightarrow> u64 \<Rightarrow> bytes \<Rightarrow> bytes \<times> u64" where
  "unmasked s key buf = (if get_masked (m_basic_header s) then byte_mask_circ buf key else (buf, key))"

definition checked :: "opcode \<Rightarrow> validator \<Rightarrow> bytes \<Rightarrow> validator \<times> bool" where
  "checked op v buf = (if op = TEXT then validator_decode v buf else (v, True))"

definition extend_metadata :: "'d hybi13 \<Rightarrow> msg_metadata \<Rightarrow> message \<Rightarrow> bytes \<Rightarrow> msg_metadata" where
  "extend_metadata s md m buf =
     (let (out, key) = unmasked s (prepared_key md) buf
      in \<lparr>msg_ptr = Some (m\<lparr>m_payload := m_payload m @ out\<rparr>), prepared_key = key,
          md_validator = fst (checked (m_opcode m) (md_validator md) out)\<rparr>)"

lemma set_current_metadata_twice [simp]:
  "set_current_metadata md' (set_current_metadata md s) = set_current_metadata md' s"
  by (simp add: set_current_metadata_def split: current.split)

lemma process_payload_disabled:
  assumes "current_metadata s = Some md" and "msg_ptr md = Some m"
  shows "process_payload_bytes disabled_extension s buf =
     (let s' = set_current_metadata (extend_metadata s md m buf) s
      in Some (if snd (checked (m_opcode m) (md_validator md) (fst (unmasked s (prepared_key md) buf)))
               then (s'\<lparr>m_bytes_needed := m_bytes_needed s - of_nat (length buf)\<rparr>, length buf, None)
               else (s', 0, Some (ProcError P_invalid_utf8))))"
proof -
  have upd: "(set_current_metadata md' s)\<lparr>m_permessage_deflate := ()\<rparr> = set_current_metadata md' s"
    for md' by (cases s) (simp add: set_current_metadata_def split: current.split)
  show ?thesis
    using assms
    by (cases md) (auto simp: process_payload_bytes_def extend_metadata_def unmasked_def checked_def upd Let_def
        split: prod.splits)
qed

lemma reading_cases:
  assumes "reading s"
  obtains (control) m where "is_control (get_opcode (m_basic_header s))" "m_current_msg s = CurControl"
      "current_metadata s = Some (m_control_msg s)" "msg_ptr (m_control_msg s) = Some m"
      "m_opcode m = get_opcode (m_basic_header s)"
      "length (m_payload m) + unat (m_bytes_needed s) \<le> 125"
    | (data) m where "\<not> is_control (get_opcode (m_basic_header s))" "m_current_msg s = CurData"
      "current_metadata s = Some (m_data_msg s)" "msg_ptr (m_data_msg s) = Some m"
      "get_opcode (m_basic_header s) \<in> {CONTINUATION, m_opcode m}"
  using assms
  by (auto simp: reading_def current_metadata_def split: if_splits option.splits)

lemma unmasked_usable:
  assumes "usable_key md"
  obtains out key where "unmasked s (prepared_key md) buf = (out, prepare_masking_key key)"
    "length out = length buf"
proof -
  from assms obtain k where k: "prepared_key md = prepare_masking_key k" by (auto simp: usable_key_def)
  show ?thesis
  proof (cases "get_masked (m_basic_header s)")
    case True
    obtain key where "snd (byte_mask_circ buf (prepare_masking_key k)) = prepare_masking_key key"
      using byte_circ.stays_usable [of "prepare_masking_key k" buf] by blast
    then show ?thesis
      using True k that byte_circ.masks [of "prepare_masking_key k" buf]
      by (metis unmasked_def length_apply_keystream prod.collapse)
  qed (use k that in \<open>auto simp: unmasked_def\<close>)
qed

lemma control_not_text: "is_control op \<Longrightarrow> op \<noteq> TEXT"
  by (auto simp: is_control_def)

lemma payload_step:
  assumes "proc_ok s" and "m_state s = APPLICATION" and "length buf \<le> unat (m_bytes_needed s)"
  obtains (ok) s' where "process_payload_bytes disabled_extension s buf = Some (s', length buf, None)"
      "proc_ok s'" "m_state s' = APPLICATION" "m_basic_header s' = m_basic_header s"
      "m_bytes_needed s' = m_bytes_needed s - of_nat (length buf)"
    | (bad) s' where
      "process_payload_bytes disabled_extension s buf = Some (s', 0, Some (ProcError P_invalid_utf8))"
proof -
  have r: "reading s" using assms by (simp add: proc_ok_def state_ok_def)
  have n: "unat (m_bytes_needed s - of_nat (length buf)) = unat (m_bytes_needed s) - length buf"
    by (rule u64_minus_of_nat [OF assms(3)])
  show thesis
    using r
  proof (cases rule: reading_cases)
    case (control m)
    let ?md = "extend_metadata s (m_control_msg s) m buf"
    let ?s = "(set_current_metadata ?md s)\<lparr>m_bytes_needed := m_bytes_needed s - of_nat (length buf)\<rparr>"
    have u: "usable_key (m_control_msg s)"
      using assms(1) control by (simp add: proc_ok_def control_ok_def)
    have e: "process_payload_bytes disabled_extension s buf = Some (?s, length buf, None)"
      using control by (simp add: process_payload_disabled Let_def checked_def control_not_text)
    obtain out key where "unmasked s (prepared_key (m_control_msg s)) buf = (out, prepare_masking_key key)"
      "length out = length buf" by (rule unmasked_usable [OF u])
    then have "proc_ok ?s"
      using assms control n r
      by (auto simp: proc_ok_def state_ok_def reading_def control_ok_def extend_metadata_def
          set_current_metadata_def usable_key_def pending_def split: prod.splits)
    then show ?thesis using e assms(2) by (intro ok [of ?s]) simp_all
  next
    case (data m)
    let ?md = "extend_metadata s (m_data_msg s) m buf"
    let ?s = "(set_current_metadata ?md s)\<lparr>m_bytes_needed := m_bytes_needed s - of_nat (length buf)\<rparr>"
    let ?c = "checked (m_opcode m) (md_validator (m_data_msg s))
      (fst (unmasked s (prepared_key (m_data_msg s)) buf))"
    have d: "data_ok (m_data_msg s)" using assms(1) by (simp add: proc_ok_def)
    then have u: "usable_key (m_data_msg s)" using data by (simp add: data_ok_def)
    obtain out key where o: "unmasked s (prepared_key (m_data_msg s)) buf = (out, prepare_masking_key key)"
      "length out = length buf" by (rule unmasked_usable [OF u])
    show ?thesis
    proof (cases "snd ?c")
      case False
      then show ?thesis using data by (intro bad) (simp add: process_payload_disabled Let_def)
    next
      case True
      have e: "process_payload_bytes disabled_extension s buf = Some (?s, length buf, None)"
        using True data by (simp add: process_payload_disabled Let_def)
      have d': "data_ok ?md"
        using d data True o
        by (auto simp: data_ok_def extend_metadata_def usable_key_def checked_def
            validator_decode_append prod_eq_iff split: prod.splits)
      have z: "size_ok (m_max_message_size s) (unat (m_bytes_needed s) - length buf) ?md"
        using assms data o
        by (auto simp: proc_ok_def size_ok_def extend_metadata_def pending_def split: prod.splits)
      have "proc_ok ?s"
        using assms data n r d' z
        by (auto simp: proc_ok_def state_ok_def reading_def set_current_metadata_def pending_def)
          (auto simp: extend_metadata_def split: prod.splits)
      then show ?thesis using e assms(2) by (intro ok [of ?s]) simp_all
    qed
  qed
qed

lemma finalize_disabled:
  assumes "current_metadata s = Some md" and "msg_ptr md = Some m"
  shows "finalize_message disabled_extension s =
     (if get_opcode (m_basic_header s) = TEXT \<and> \<not> validator_complete (md_validator md)
      then Some (s, Some (ProcError P_invalid_utf8)) else Some (s\<lparr>m_state := READY\<rparr>, None))"
proof -
  have "md\<lparr>msg_ptr := Some m\<rparr> = md" using assms(2) by (cases md) simp
  moreover have "(set_current_metadata md s)\<lparr>m_permessage_deflate := ()\<rparr> = s"
    using assms(1)
    by (cases s) (auto simp: set_current_metadata_def current_metadata_def split: current.splits)
  ultimately have "(set_current_metadata (md\<lparr>msg_ptr := Some m\<rparr>) s)\<lparr>m_permessage_deflate := ()\<rparr> = s"
    by (simp only:)
  moreover have "m\<lparr>m_payload := m_payload m\<rparr> = m" by simp
  ultimately show ?thesis using assms by (simp add: finalize_message_def Let_def)
qed

lemma finalize_ok:
  assumes "proc_ok s" and "m_state s = APPLICATION" and "m_bytes_needed s = 0"
    and "get_fin (m_basic_header s)"
  shows "(\<exists>s'. finalize_message disabled_extension s = Some (s', None) \<and> proc_ok s')
    \<or> (\<exists>s' ec. finalize_message disabled_extension s = Some (s', Some ec))"
proof -
  have r: "reading s" using assms by (simp add: proc_ok_def state_ok_def)
  then obtain md m where "current_metadata s = Some md" "msg_ptr md = Some m"
    and md: "get_opcode (m_basic_header s) = TEXT \<longrightarrow> md = m_data_msg s"
    by (cases rule: reading_cases) (auto simp: control_not_text)
  note f = finalize_disabled [OF this(1,2)]
  have r': "reading (s\<lparr>m_state := READY\<rparr>)" using r by (auto simp: reading_def split: option.splits if_splits)
  show ?thesis
    using assms r' md by (auto simp: f proc_ok_def state_ok_def pending_def split: if_splits)
qed

lemma application_turn_ok [preserved]:
  assumes "proc_ok s" and "m_state s = APPLICATION"
  shows "turn_ok (consume_iter disabled_extension s buf)"
proof -
  define k where "k = min (unat (m_bytes_needed s)) (length buf)"
  have after: "turn_ok
      (if m_bytes_needed s1 > 0 then Next s1 n
       else if get_fin (m_basic_header s1) then
         (case finalize_message disabled_extension s1 of
            None \<Rightarrow> Undefined
          | Some (s, Some ec) \<Rightarrow> Break s n (Some ec)
          | Some (s, None) \<Rightarrow> Next s n)
       else Next (reset_headers s1) n)"
    if "proc_ok s1" "m_state s1 = APPLICATION" for s1 n
  proof -
    have "size_ok (m_max_message_size s1) 0 (m_data_msg s1)" if "m_bytes_needed s1 = 0"
      using \<open>proc_ok s1\<close> that by (simp add: proc_ok_def pending_def split: if_splits)
    then show ?thesis
      using that finalize_ok [OF that] proc_ok_reset [of s1]
      by (auto simp: word_gt_0 proc_ok_def [of s1] split: option.splits)
  qed
  show ?thesis
  proof (cases "k = 0")
    case True
    then show ?thesis
      using assms after [OF assms] by (simp add: consume_iter_def Let_def flip: k_def)
  next
    case False
    have "length (take k buf) \<le> unat (m_bytes_needed s)" by (simp add: k_def)
    with assms show ?thesis
    proof (cases rule: payload_step)
      case (ok s1)
      then show ?thesis
        using assms False after [of s1] by (simp add: consume_iter_def Let_def flip: k_def)
    next
      case (bad s1)
      then show ?thesis
        using assms False by (simp add: consume_iter_def Let_def flip: k_def)
    qed
  qed
qed

lemma consume_iter_ok:
  assumes "proc_ok s" and "consume_guard s buf"
  shows "turn_ok (consume_iter disabled_extension s buf)"
proof (cases "m_state s")
  case HEADER_BASIC
  then have "buf \<noteq> []" using assms by (auto simp: consume_guard_def proc_ok_def state_ok_def)
  then show ?thesis using assms HEADER_BASIC by (simp add: basic_turn_ok)
qed (use assms in \<open>auto simp: extended_turn_ok application_turn_ok consume_guard_def proc_ok_def
    state_ok_def\<close>)

subsection \<open>The whole call\<close>

lemma consume_iter_break:
  assumes "consume_iter disabled_extension s buf = Break s' n ec"
  shows "n \<le> length buf"
proof -
  have sm: "start_message disabled_extension t k = Break s' n ec \<Longrightarrow> n = k" for t k
    by (auto simp: start_message_def Let_def split: if_splits option.splits)
  have pp: "process_payload_bytes disabled_extension t c = Some (t', k, e) \<Longrightarrow> k \<le> length c" for t c t' k e
    by (auto simp: process_payload_bytes_def Let_def split: option.splits prod.splits if_splits)
  show ?thesis
    using assms
    by (auto simp: consume_iter_def Let_def min_def split: proc_state.splits prod.splits if_splits option.splits
        dest!: copy_basic_read copy_extended_read sm pp)
qed

lemma consume_loop_total:
  assumes "proc_ok s"
  shows "\<exists>s' n ec. consume_loop disabled_extension s buf p = Some (s', p + n, ec) \<and> n \<le> length buf
    \<and> (ec = None \<longrightarrow> proc_ok s' \<and> (m_state s' = READY \<or> n = length buf \<and> m_bytes_needed s' > 0))"
  using assms
proof (induction "disabled_extension" s buf p rule: consume_loop.induct)
  case (1 s buf p)
  show ?case
  proof (cases "consume_guard s buf")
    case False
    then show ?thesis
      using 1(2)
      by (subst consume_loop.simps)
        (auto simp: consume_guard_def proc_ok_def state_ok_def word_gt_0)
  next
    case True
    note ok = consume_iter_ok [OF 1(2) True]
    show ?thesis
    proof (cases "consume_iter disabled_extension s buf")
      case (Next s1 n)
      then have "n \<le> length buf" using consume_iter_progress(1) [OF True] by simp
      then show ?thesis
        using True Next ok 1(1) [OF True Next]
        by (subst consume_loop.simps) fastforce
    next
      case (Break s1 n ec)
      moreover have "n \<le> length buf" by (rule consume_iter_break [OF Break])
      ultimately show ?thesis using True ok by (subst consume_loop.simps) auto
    qed (use ok in simp)
  qed
qed

subsection \<open>Bytes may come in any chunks\<close>

text \<open>
  Two outcomes agree when they report the same error, or both succeed with the same state and
  count. (After an error the counts can differ: \<open>process_payload_bytes\<close> counts nothing of a
  chunk that is not valid UTF-8.)
\<close>

fun agree ::
  "('d hybi13 \<times> nat \<times> error_code option) option \<Rightarrow> ('d hybi13 \<times> nat \<times> error_code option) option \<Rightarrow> bool"
where
  "agree (Some (s, p, ec)) (Some (s', p', ec')) =
     (ec = ec' \<and> (ec = None \<longrightarrow> s = s' \<and> p = p'))"
| "agree _ _ = False"

lemma agree_refl: "x \<noteq> None \<Longrightarrow> agree x x"
  by (cases x) auto

lemma agree_trans: "agree x y \<Longrightarrow> agree y z \<Longrightarrow> agree x z"
  by (cases x; cases y; cases z) (auto split: prod.splits)

lemma agree_error: "agree (Some (s, p, Some e)) (Some (s', p', Some e))"
  by simp

lemma unmasked_append:
  assumes "usable_key md"
  shows "unmasked s (prepared_key md) (xs @ ys) =
     (fst (unmasked s (prepared_key md) xs)
        @ fst (unmasked s (snd (unmasked s (prepared_key md) xs)) ys),
      snd (unmasked s (snd (unmasked s (prepared_key md) xs)) ys))"
  using assms byte_circ.mask_append [of "prepared_key md" xs ys]
  by (auto simp: unmasked_def usable_key_def)

lemma checked_append:
  "checked op v (xs @ ys) =
     (if snd (checked op v xs) then checked op (fst (checked op v xs)) ys
      else (fst (checked op v xs), False))"
  by (auto simp: checked_def validator_decode_append Let_def split: prod.split)

lemma unmasked_header_only:
  "m_basic_header s = m_basic_header s' \<Longrightarrow> unmasked s = unmasked s'"
  by (auto simp: unmasked_def fun_eq_iff)

lemma set_current_after_needed [simp]:
  "set_current_metadata md' ((set_current_metadata md s)\<lparr>m_bytes_needed := n\<rparr>)
     = (set_current_metadata md' s)\<lparr>m_bytes_needed := n\<rparr>"
  by (simp add: set_current_metadata_def split: current.split)

lemma current_metadata_set:
  "current_metadata s = Some md0 \<Longrightarrow>
     current_metadata ((set_current_metadata md s)\<lparr>m_bytes_needed := n\<rparr>) = Some md"
  by (simp add: set_current_metadata_def current_metadata_def split: current.splits)

lemma payload_append:
  assumes "current_metadata s = Some md" and "msg_ptr md = Some m" and "usable_key md"
    and "process_payload_bytes disabled_extension s xs = Some (s1, length xs, None)"
  shows "process_payload_bytes disabled_extension s1 ys = Some (t, length ys, None) \<Longrightarrow>
           process_payload_bytes disabled_extension s (xs @ ys) = Some (t, length (xs @ ys), None)"
    and "process_payload_bytes disabled_extension s1 ys = Some (t, 0, Some e) \<Longrightarrow>
           \<exists>t'. process_payload_bytes disabled_extension s (xs @ ys) = Some (t', 0, Some e)"
proof -
  let ?md = "extend_metadata s md m xs"
  obtain out key where u: "unmasked s (prepared_key md) xs = (out, key)" by fastforce
  obtain v where v: "checked (m_opcode m) (md_validator md) out = (v, True)"
    and s1: "s1 = (set_current_metadata ?md s)\<lparr>m_bytes_needed := m_bytes_needed s - of_nat (length xs)\<rparr>"
    using assms(4) u
    by (cases "checked (m_opcode m) (md_validator md) out")
      (auto simp: process_payload_disabled [OF assms(1,2)] Let_def split: if_splits)
  let ?m = "m\<lparr>m_payload := m_payload m @ out\<rparr>"
  have md: "?md = \<lparr>msg_ptr = Some ?m, prepared_key = key, md_validator = v\<rparr>"
    by (simp add: extend_metadata_def u v)
  have c1: "current_metadata s1 = Some ?md" unfolding s1 by (rule current_metadata_set [OF assms(1)])
  have h: "unmasked s1 = unmasked s" by (rule unmasked_header_only) (simp add: s1)
  have m1: "msg_ptr ?md = Some ?m" by (simp add: md)
  obtain out2 key2 where u2: "unmasked s key ys = (out2, key2)" by fastforce
  have u12: "unmasked s (prepared_key md) (xs @ ys) = (out @ out2, key2)"
    by (simp add: unmasked_append [OF assms(3)] u u2)
  have ex: "extend_metadata s md m (xs @ ys) = extend_metadata s1 ?md ?m ys"
    by (simp add: extend_metadata_def u12 md h u2 checked_append v)
      (simp add: extend_metadata_def u v u2 h)
  have n: "m_bytes_needed s1 = m_bytes_needed s - of_nat (length xs)" by (simp add: s1)
  show "process_payload_bytes disabled_extension s1 ys = Some (t, length ys, None) \<Longrightarrow>
           process_payload_bytes disabled_extension s (xs @ ys) = Some (t, length (xs @ ys), None)"
    by (auto simp: process_payload_disabled [OF c1 m1] process_payload_disabled [OF assms(1,2)]
        Let_def u12 checked_append v ex h md u2 n split: if_splits) (simp add: s1)
  show "process_payload_bytes disabled_extension s1 ys = Some (t, 0, Some e) \<Longrightarrow>
           \<exists>t'. process_payload_bytes disabled_extension s (xs @ ys) = Some (t', 0, Some e)"
    by (auto simp: process_payload_disabled [OF c1 m1] process_payload_disabled [OF assms(1,2)]
        Let_def u12 checked_append v h md u2 split: if_splits)
qed

text \<open>
  A turn on the first chunk against the same turn on both chunks: either the chunk held all
  the turn wanted and the turns are the same, or the chunk is used up and the next turn on the
  second chunk ends as the turn on both does.
\<close>

definition resumes :: "'d turn \<Rightarrow> nat \<Rightarrow> 'd turn \<Rightarrow> bool" where
  "resumes both n rest =
     (case rest of
        Next t k \<Rightarrow> both = Next t (n + k)
      | Break t k ec \<Rightarrow> (\<exists>t' k'. both = Break t' k' ec)
      | Undefined \<Rightarrow> both = Undefined)"

lemma basic_append:
  assumes "proc_ok s" and "m_state s = HEADER_BASIC" and "xs \<noteq> []" and "ys \<noteq> []"
    and "consume_iter disabled_extension s xs = Next s1 n"
  shows "consume_iter disabled_extension s (xs @ ys) = Next s1 n
    \<or> drop n xs = [] \<and> n = length xs \<and> consume_guard s1 ys
      \<and> resumes (consume_iter disabled_extension s (xs @ ys)) n (consume_iter disabled_extension s1 ys)"
proof -
  have need: "m_bytes_needed s = 1 \<or> m_bytes_needed s = 2"
    using assms by (simp add: proc_ok_def state_ok_def)
  obtain y ys' where ys: "ys = y # ys'" using assms(4) by (cases ys) auto
  show ?thesis
  proof (cases "m_bytes_needed s = 2 \<and> length xs = 1")
    case True
    then obtain x where xs: "xs = [x]" by (cases xs) auto
    have s1: "s1 = s\<lparr>m_basic_header := (m_basic_header s)\<lparr>b0 := x\<rparr>, m_bytes_needed := 1\<rparr>" "n = 1"
      using assms(2,5) True by (auto simp: xs consume_iter_def copy_basic_header_bytes_def)
    have c: "copy_basic_header_bytes s (xs @ ys) = (fst (copy_basic_header_bytes s1 ys), 2)"
      "snd (copy_basic_header_bytes s1 ys) = 1" "m_state s1 = HEADER_BASIC"
      using True assms(2) by (auto simp: s1 xs ys copy_basic_header_bytes_def)
    have "resumes (consume_iter disabled_extension s (xs @ ys)) 1 (consume_iter disabled_extension s1 ys)"
      using assms(2) c
      by (auto simp: resumes_def consume_iter_def split: prod.splits option.splits)
    then show ?thesis using s1 c(3) by (simp add: xs consume_guard_def ys)
  next
    case False
    have "copy_basic_header_bytes s (xs @ ys) = copy_basic_header_bytes s xs"
      using False need assms(3,4)
      by (cases xs rule: remdups_adj.cases) (auto simp: copy_basic_header_bytes_def ys)
    then show ?thesis using assms(2,5) by (simp add: consume_iter_def)
  qed
qed

lemma overwrite_append:
  assumes "off + length xs + length ys \<le> length d"
  shows "overwrite (overwrite d off xs) (off + length xs) ys = overwrite d off (xs @ ys)"
proof -
  have "min (length d) off = off" "min off (length d) = off" using assms by auto
  then show ?thesis by (simp add: overwrite_def add.commute add.left_commute)
qed

lemma extended_append:
  assumes "proc_ok s" and "m_state s = HEADER_EXTENDED" and "consume_guard s xs" and "ys \<noteq> []"
    and "consume_iter disabled_extension s xs = Next s1 n"
  shows "consume_iter disabled_extension s (xs @ ys) = Next s1 n
    \<or> drop n xs = [] \<and> n = length xs \<and> consume_guard s1 ys
      \<and> resumes (consume_iter disabled_extension s (xs @ ys)) n (consume_iter disabled_extension s1 ys)"
proof (cases "unat (m_bytes_needed s) \<le> length xs")
  case True
  then have "copy_extended_header_bytes s (xs @ ys) = copy_extended_header_bytes s xs"
    by (simp add: copy_extended_header_bytes_def min_def Let_def)
  then show ?thesis using assms(2,5) by (simp add: consume_iter_def)
next
  case False
  have lim: "m_cursor s + unat (m_bytes_needed s) \<le> 12"
    and len: "length (eh_bytes (m_extended_header s)) = 12"
    using assms(1,2) get_header_len_bounds [of "m_basic_header s"]
    by (simp_all add: proc_ok_def state_ok_def size_consts)
  have n: "unat (m_bytes_needed s - of_nat (length xs)) = unat (m_bytes_needed s) - length xs"
    using False by (intro u64_minus_of_nat) simp
  have c1: "copy_extended_header_bytes s xs = Some (s1, n)" "m_bytes_needed s1 > 0"
  proof -
    obtain t k where t: "copy_extended_header_bytes s xs = Some (t, k)"
      using assms(2,5) by (auto simp: consume_iter_def split: option.splits)
    have "m_bytes_needed t > 0"
      using t False n lim
      by (auto simp: copy_extended_header_bytes_def Let_def word_gt_0 unat_gt_0 [symmetric] split: if_splits)
    then show "copy_extended_header_bytes s xs = Some (s1, n)" "m_bytes_needed s1 > 0"
      using t assms(2,5) by (simp_all add: consume_iter_def)
  qed
  then have s1: "s1 = s\<lparr>m_extended_header :=
        \<lparr>eh_bytes = overwrite (eh_bytes (m_extended_header s)) (m_cursor s) xs\<rparr>,
      m_cursor := m_cursor s + length xs, m_bytes_needed := m_bytes_needed s - of_nat (length xs)\<rparr>"
    "n = length xs"
    using False by (auto simp: copy_extended_header_bytes_def Let_def split: if_splits)
  define k where "k = min (unat (m_bytes_needed s) - length xs) (length ys)"
  define t where "t = s\<lparr>m_extended_header :=
        \<lparr>eh_bytes = overwrite (eh_bytes (m_extended_header s)) (m_cursor s) (xs @ take k ys)\<rparr>,
      m_cursor := m_cursor s + (length xs + k),
      m_bytes_needed := m_bytes_needed s - of_nat (length xs + k)\<rparr>"
  have k: "k \<le> length ys" "m_cursor s + length xs + k \<le> 12" "\<not> 12 < m_cursor s + (length xs + k)"
    using lim False by (auto simp: k_def)
  have mk: "min (unat (m_bytes_needed s - of_nat (length xs))) (length ys) = k"
    "min (unat (m_bytes_needed s)) (length (xs @ ys)) = length xs + k"
    using False by (auto simp: n k_def)
  have c2: "copy_extended_header_bytes s1 ys = Some (t, k)"
    using k len
    by (simp add: s1(1) copy_extended_header_bytes_def mk size_consts t_def overwrite_append add.assoc
        diff_diff_eq)
  have c3: "copy_extended_header_bytes s (xs @ ys) = Some (t, length xs + k)"
    using k unfolding copy_extended_header_bytes_def mk by (simp add: size_consts t_def Let_def)
  have sm: "resumes (start_message disabled_extension u (length xs + k)) (length xs)
      (start_message disabled_extension u k)" for u
    by (auto simp: start_message_def resumes_def Let_def split: option.splits)
  have "m_state s1 = HEADER_EXTENDED" using s1 assms(2) by simp
  then have "resumes (consume_iter disabled_extension s (xs @ ys)) n (consume_iter disabled_extension s1 ys)"
    using assms(2) c2 c3 s1(2) sm
    by (auto simp: consume_iter_def resumes_def split: option.splits)
  then show ?thesis using s1 assms(2,4) by (simp add: consume_guard_def)
qed

definition after_payload :: "unit hybi13 \<Rightarrow> nat \<Rightarrow> unit turn" where
  "after_payload s n =
     (if m_bytes_needed s > 0 then Next s n
      else if get_fin (m_basic_header s) then
        (case finalize_message disabled_extension s of
           None \<Rightarrow> Undefined
         | Some (s, Some ec) \<Rightarrow> Break s n (Some ec)
         | Some (s, None) \<Rightarrow> Next s n)
      else Next (reset_headers s) n)"

lemma consume_iter_payload:
  assumes "m_state s = APPLICATION" and "min (unat (m_bytes_needed s)) (length buf) = k" and "0 < k"
  shows "consume_iter disabled_extension s buf =
     (case process_payload_bytes disabled_extension s (take k buf) of
        None \<Rightarrow> Undefined
      | Some (s, n, Some ec) \<Rightarrow> Break s n (Some ec)
      | Some (s, n, None) \<Rightarrow> after_payload s n)"
  using assms(1,3)
  by (simp only: consume_iter_def proc_state.case Let_def assms(2) after_payload_def if_True)

lemma resumes_after_payload: "resumes (after_payload t (a + k)) a (after_payload t k)"
  by (auto simp: resumes_def after_payload_def split: option.splits)

lemma application_append:
  assumes "proc_ok s" and "m_state s = APPLICATION" and "consume_guard s xs" and "ys \<noteq> []"
    and "consume_iter disabled_extension s xs = Next s1 n"
  shows "consume_iter disabled_extension s (xs @ ys) = Next s1 n
    \<or> drop n xs = [] \<and> n = length xs \<and> consume_guard s1 ys
      \<and> resumes (consume_iter disabled_extension s (xs @ ys)) n (consume_iter disabled_extension s1 ys)"
proof (cases "unat (m_bytes_needed s) \<le> length xs")
  case True
  then have "min (unat (m_bytes_needed s)) (length (xs @ ys)) = min (unat (m_bytes_needed s)) (length xs)"
    "take (min (unat (m_bytes_needed s)) (length xs)) (xs @ ys)
      = take (min (unat (m_bytes_needed s)) (length xs)) xs"
    by simp_all
  then have "consume_iter disabled_extension s (xs @ ys) = consume_iter disabled_extension s xs"
    using assms(2) by (simp only: consume_iter_def proc_state.case Let_def)
  then show ?thesis using assms(5) by simp
next
  case False
  define k where "k = min (unat (m_bytes_needed s) - length xs) (length ys)"
  have xs: "xs \<noteq> []" using assms(3) False by (auto simp: consume_guard_def)
  have "length xs \<le> unat (m_bytes_needed s)" using False by simp
  with assms(1,2) obtain s2 where p1:
    "process_payload_bytes disabled_extension s xs = Some (s2, length xs, None)"
    and s2: "proc_ok s2" "m_state s2 = APPLICATION" "m_basic_header s2 = m_basic_header s"
      "m_bytes_needed s2 = m_bytes_needed s - of_nat (length xs)"
  proof (cases rule: payload_step)
    case (bad s')
    then show ?thesis using assms(2,5) False xs by (simp add: consume_iter_def Let_def)
  qed blast
  have n2: "unat (m_bytes_needed s2) = unat (m_bytes_needed s) - length xs"
    unfolding s2(4) by (rule u64_minus_of_nat) (use False in simp)
  then have "m_bytes_needed s2 > 0" using False by (simp add: word_gt_0 unat_gt_0 [symmetric])
  then have s12: "s1 = s2" "n = length xs"
    using assms(2,5) False xs p1 by (simp_all add: consume_iter_def Let_def)
  have k: "k > 0" "k \<le> length ys" "k \<le> unat (m_bytes_needed s2)"
    using False assms(4) n2 by (auto simp: k_def)
  have m: "min (unat (m_bytes_needed s)) (length (xs @ ys)) = length xs + k"
    "min (unat (m_bytes_needed s2)) (length ys) = k"
    using False by (auto simp: k_def n2)
  obtain md msg where md: "current_metadata s = Some md" "msg_ptr md = Some msg" "usable_key md"
  proof -
    have "reading s" using assms(1,2) by (simp add: proc_ok_def state_ok_def)
    then show ?thesis
      using assms(1) that
      by (cases rule: reading_cases) (auto simp: proc_ok_def data_ok_def control_ok_def)
  qed
  have len: "length (take k ys) = k" using k by simp
  have "length (take k ys) \<le> unat (m_bytes_needed s2)" using k by simp
  with s2(1,2) have "resumes (consume_iter disabled_extension s (xs @ ys)) (length xs)
      (consume_iter disabled_extension s2 ys)"
  proof (cases rule: payload_step)
    case (ok t)
    have "process_payload_bytes disabled_extension s (xs @ take k ys) = Some (t, length xs + k, None)"
      using payload_append(1) [OF md p1 ok(1)] len by simp
    then show ?thesis
      using ok(1) k m
      by (simp add: consume_iter_payload [OF assms(2) m(1)] consume_iter_payload [OF s2(2) m(2)]
          len resumes_after_payload)
  next
    case (bad t)
    obtain t' where "process_payload_bytes disabled_extension s (xs @ take k ys)
        = Some (t', 0, Some (ProcError P_invalid_utf8))"
      using payload_append(2) [OF md p1 bad] by blast
    then show ?thesis
      using bad k m
      by (simp add: consume_iter_payload [OF assms(2) m(1)] consume_iter_payload [OF s2(2) m(2)]
          resumes_def)
  qed
  then show ?thesis
    using s12 s2 assms(4) by (simp add: consume_guard_def)
qed

lemma iter_append:
  assumes "proc_ok s" and "consume_guard s xs" and "consume_iter disabled_extension s xs = Next s1 n"
  shows "agree (consume_loop disabled_extension s (xs @ ys) p)
     (consume_loop disabled_extension s1 (drop n xs @ ys) (p + n))"
proof (cases "ys = []")
  case True
  have "proc_ok s1" using consume_iter_ok [OF assms(1,2)] assms(3) by simp
  then obtain r where "consume_loop disabled_extension s1 (drop n xs) (p + n) = Some r"
    using consume_loop_total by blast
  then show ?thesis
    using True assms by (subst consume_loop.simps) (simp add: agree_refl)
next
  case False
  have g: "consume_guard s (xs @ ys)" using assms(2) by (auto simp: consume_guard_def)
  have nl: "n \<le> length xs" by (rule consume_iter_progress(1) [OF assms(2,3)])
  have ok1: "proc_ok s1" using consume_iter_ok [OF assms(1,2)] assms(3) by simp
  consider "consume_iter disabled_extension s (xs @ ys) = Next s1 n"
    | "drop n xs = []" "n = length xs" "consume_guard s1 ys"
      "resumes (consume_iter disabled_extension s (xs @ ys)) n (consume_iter disabled_extension s1 ys)"
  proof -
    have "m_state s \<noteq> READY" "m_state s \<noteq> FATAL_ERROR" "m_state s \<noteq> EXTENSION"
      using assms(1,2) by (auto simp: consume_guard_def proc_ok_def state_ok_def)
    moreover have "m_state s = HEADER_BASIC \<Longrightarrow> xs \<noteq> []"
      using assms(1,2) by (auto simp: consume_guard_def proc_ok_def state_ok_def)
    ultimately show ?thesis
      using that basic_append [OF assms(1) _ _ False assms(3)]
        extended_append [OF assms(1) _ assms(2) False assms(3)]
        application_append [OF assms(1) _ assms(2) False assms(3)]
      by (cases "m_state s") blast+
  qed
  then show ?thesis
  proof cases
    case 1
    obtain r where "consume_loop disabled_extension s1 (drop n xs @ ys) (p + n) = Some r"
      using consume_loop_total [OF ok1] by blast
    then show ?thesis
      using 1 g nl by (subst consume_loop.simps) (simp add: agree_refl)
  next
    case 2
    show ?thesis
    proof (cases "consume_iter disabled_extension s1 ys")
      case (Next t k)
      then have "proc_ok t" using consume_iter_ok [OF ok1 2(3)] by simp
      then obtain r where "consume_loop disabled_extension t (drop k ys) (p + (n + k)) = Some r"
        using consume_loop_total by blast
      then show ?thesis
        using Next 2 g
        by (subst consume_loop.simps, subst (2) consume_loop.simps)
          (simp add: resumes_def agree_refl add.assoc)
    next
      case (Break t k ec)
      then show ?thesis
        using 2 g consume_iter_ok [OF ok1 2(3)]
        by (subst consume_loop.simps, subst (2) consume_loop.simps) (auto simp: resumes_def)
    next
      case Undefined
      then show ?thesis using consume_iter_ok [OF ok1 2(3)] by simp
    qed
  qed
qed

lemma consume_loop_append:
  assumes "proc_ok s" and "consume_loop disabled_extension s xs p = Some (s1, p1, None)"
    and "m_state s1 \<noteq> READY"
  shows "agree (consume_loop disabled_extension s (xs @ ys) p)
     (consume_loop disabled_extension s1 ys p1)"
  using assms
proof (induction "disabled_extension" s xs p rule: consume_loop.induct)
  case (1 s xs p)
  show ?case
  proof (cases "consume_guard s xs")
    case False
    then have "s1 = s" "p1 = p" using 1(3) by (auto simp: consume_loop.simps)
    moreover have "xs = []"
      using False 1(2,4) \<open>s1 = s\<close> by (auto simp: consume_guard_def proc_ok_def state_ok_def)
    moreover obtain r where "consume_loop disabled_extension s ys p = Some r"
      using consume_loop_total [OF 1(2)] by blast
    ultimately show ?thesis by (simp add: agree_refl)
  next
    case True
    then obtain s2 n where i: "consume_iter disabled_extension s xs = Next s2 n"
      using 1(3) consume_iter_ok [OF 1(2) True]
      by (cases "consume_iter disabled_extension s xs") (auto simp: consume_loop.simps)
    then have "consume_loop disabled_extension s2 (drop n xs) (p + n) = Some (s1, p1, None)"
      using 1(3) True by (subst (asm) consume_loop.simps) simp
    moreover have "proc_ok s2" using consume_iter_ok [OF 1(2) True] i by simp
    ultimately show ?thesis
      using 1(1) [OF True i] 1(4) iter_append [OF 1(2) True i] agree_trans by blast
  qed
qed

end
