(* ===== verification/FrameTransfer.thy ===== *)
theory FrameTransfer
  imports FrameReader
begin

text \<open>
  From one endpoint to the other: what \<open>prepare_data_frame\<close> and \<open>prepare_control\<close> put on the
  wire is read back by the peer's \<open>consume\<close> as the same message, and the messages
  \<open>get_message\<close> hands out meet the limits the processor was configured with.
\<close>

subsection \<open>The stages of reading one frame\<close>

definition boundary :: "'d hybi13 \<Rightarrow> bool" where
  "boundary s \<longleftrightarrow>
     proc_ok s \<and> m_state s = HEADER_BASIC \<and> m_bytes_needed s = 2 \<and> msg_ptr (m_data_msg s) = None"

lemma boundary_new: "boundary (new_hybi13 is_server limit ext)"
  using proc_ok_new [of is_server limit ext]
  by (simp add: boundary_def new_hybi13_def reset_headers_def size_consts no_metadata_def)

lemma read_basic_header:
  assumes "m_state s = HEADER_BASIC" and "m_bytes_needed s = 2"
    and "legal_frame (p_server s) (msg_ptr (m_data_msg s) = None) h"
  shows "consume_iter disabled_extension s (b0 h # b1 h # rest) =
     Next (s\<lparr>m_basic_header := h, m_bytes_needed := of_nat (get_header_len h - 2),
             m_state := HEADER_EXTENDED, m_cursor := 0\<rparr>) 2"
proof -
  have h: "\<lparr>b0 = b0 h, b1 = b1 h\<rparr> = h" by simp
  have v: "validate_incoming_basic_header disabled_extension t h (p_server s)
      (msg_ptr (m_data_msg s) = None) = None" for t :: "unit hybi13"
    using assms(3) by (simp add: validate_basic_iff)
  show ?thesis
    using assms(1,2) v by (simp add: consume_iter_def copy_basic_header_bytes_def h size_consts)
qed

lemma read_basic:
  assumes "boundary s" and "legal_frame (p_server s) True h"
  shows "consume_iter disabled_extension s (b0 h # b1 h # rest) =
     Next (s\<lparr>m_basic_header := h, m_bytes_needed := of_nat (get_header_len h - 2),
             m_state := HEADER_EXTENDED, m_cursor := 0\<rparr>) 2"
  using assms by (intro read_basic_header) (simp_all add: boundary_def)

lemma legal_frame_make:
  assumes "op \<in> {TEXT, BINARY, CLOSE, PING, PONG}" and "is_control op \<Longrightarrow> unat sz \<le> 125"
  shows "legal_frame is_server True (make_basic_header op sz True is_server False False False)"
proof -
  have "unat (get_basic_size (make_basic_header op sz True is_server False False False)) \<le> 125"
    if "is_control op"
    using assms(2) [OF that] small_size_bits(3) [of sz]
    by (simp add: basic_size_make u64_size_classes) (simp add: word_le_nat_alt)
  then show ?thesis
    using assms(1)
    by (auto simp: legal_frame_def legal_header_def header_bits opcode_reserved_iff is_control_def)
qed

definition frame_tail :: "bool \<Rightarrow> u64 \<Rightarrow> u32 \<Rightarrow> bytes" where
  "frame_tail msk sz key = length_field sz @ (if msk then uint32_c key else [])"

lemma length_frame_tail:
  "length (frame_tail msk sz key) = get_header_len (make_basic_header op sz fin msk r1 r2 r3) - 2"
  by (simp add: frame_tail_def header_len_make)

lemma minimal_length:
  "validate_incoming_extended_header (make_basic_header op sz fin msk r1 r2 r3) e = None"
  if "take (length (length_field sz)) (eh_bytes e) = length_field sz"
proof -
  have "unat sz \<le> 125 \<Longrightarrow> (ucast sz :: u8) \<noteq> 126 \<and> (ucast sz :: u8) \<noteq> 127"
    using small_size_bits(3) [of sz] by (auto simp: word_le_nat_alt)
  then show ?thesis
    using that
    by (auto simp: validate_extended_iff payload_size_read basic_size_make u64_size_classes
        payload_size_code_16bit_def payload_size_code_64bit_def)
qed

lemma read_extended:
  assumes "length (eh_bytes (m_extended_header s)) = 12" and "m_state s = HEADER_EXTENDED"
    and "m_cursor s = 0" and "m_basic_header s = make_basic_header op sz fin msk r1 r2 r3"
    and "m_bytes_needed s = of_nat (get_header_len (m_basic_header s) - 2)"
  obtains e where
    "consume_iter E s (frame_tail msk sz key @ rest) =
       start_message E
         (s\<lparr>m_extended_header := e, m_cursor := length (frame_tail msk sz key),
            m_state := APPLICATION, m_bytes_needed := sz\<rparr>) (length (frame_tail msk sz key))"
    "get_masking_key (m_basic_header s) e = (if msk then key else 0)"
    "length (eh_bytes e) = 12"
proof -
  let ?t = "frame_tail msk sz key"
  let ?e = "\<lparr>eh_bytes = overwrite (eh_bytes (m_extended_header s)) 0 ?t\<rparr>"
  have n: "unat (m_bytes_needed s) = length ?t"
    unfolding assms(5) of_nat_header_len by (simp add: assms(4) flip: length_frame_tail)
  have z: "m_bytes_needed s - of_nat (length ?t) = 0" by (simp flip: n)
  have lt: "length ?t \<le> 12" using length_length_field [of sz] by (simp add: frame_tail_def)
  have pre: "take (length (length_field sz)) (eh_bytes ?e) = length_field sz"
    by (simp add: overwrite_def frame_tail_def)
  have k: "get_masking_key (m_basic_header s) ?e = (if msk then key else 0)"
    by (simp add: assms(4) get_masking_key_def get_masked_make masking_key_offset_make
        overwrite_def frame_tail_def)
  have c: "copy_extended_header_bytes s (?t @ rest) =
      Some (s\<lparr>m_extended_header := ?e, m_cursor := length ?t, m_bytes_needed := 0\<rparr>, length ?t)"
  proof -
    have mn: "min (unat (m_bytes_needed s)) (length (?t @ rest)) = length ?t" by (simp add: n)
    show ?thesis
      unfolding copy_extended_header_bytes_def mn Let_def using lt z by (simp add: size_consts assms(3))
  qed
  have "consume_iter E s (?t @ rest) =
       start_message E
         (s\<lparr>m_extended_header := ?e, m_cursor := length ?t,
            m_state := APPLICATION, m_bytes_needed := sz\<rparr>) (length ?t)"
    using assms(2) minimal_length [OF pre] payload_size_read [OF pre]
    by (simp add: consume_iter_def c assms(4))
  moreover have "length (eh_bytes ?e) = 12" using lt assms(1) by (simp add: length_overwrite)
  ultimately show ?thesis using that k by blast
qed

subsection \<open>One frame, one message\<close>

definition encoded :: "bool \<Rightarrow> u32 \<Rightarrow> bytes \<Rightarrow> bytes" where
  "encoded msk key body = (if msk then masked_copy body key else body)"

lemma length_encoded [simp]: "length (encoded msk key body) = length body"
  by (simp add: encoded_def masked_copy_def byte_mask_keystream)

lemma keystream_prepare_fun:
  "keystream (prepare_masking_key key) = (\<lambda>i. uint32_c key ! (i mod 4))"
  by (rule ext) (rule keystream_prepare)

lemma unmask_encoded:
  "get_masked (m_basic_header s) = msk \<Longrightarrow>
     fst (unmasked s (prepare_masking_key (if msk then key else 0)) (encoded msk key body)) = body"
  by (auto simp: unmasked_def encoded_def masked_copy_def byte_mask_keystream
      byte_mask_circ_keystream keystream_prepare_fun)

lemma read_payload:
  assumes "proc_ok s" and "m_state s = APPLICATION" and "current_metadata s = Some md"
    and "msg_ptr md = Some m" and "m_payload m = []" and "md_validator md = new_validator"
    and "prepared_key md = prepare_masking_key (if msk then key else 0)"
    and "get_masked (m_basic_header s) = msk" and "get_fin (m_basic_header s)"
    and "get_opcode (m_basic_header s) = m_opcode m"
    and "unat (m_bytes_needed s) = length body" and "m_opcode m = TEXT \<Longrightarrow> validate body"
  obtains s' md' where
    "consume_iter disabled_extension s (encoded msk key body) = Next s' (length body)"
    "m_state s' = READY" "current_metadata s' = Some md'"
    "msg_ptr md' = Some (m\<lparr>m_payload := body\<rparr>)" "m_current_msg s' = m_current_msg s"
    "m_data_msg s' = m_data_msg s \<or> m_current_msg s = CurData"
proof -
  let ?buf = "encoded msk key body"
  have dec: "checked (m_opcode m) (md_validator md) body
      = (fst (checked (m_opcode m) new_validator body), True)"
    and comp: "m_opcode m = TEXT \<Longrightarrow>
      validator_complete (fst (checked (m_opcode m) new_validator body))"
    using assms(6,12) by (auto simp: checked_def validate_def Let_def split: prod.splits if_splits)
  have un: "fst (unmasked s (prepared_key md) ?buf) = body"
    unfolding assms(7) by (rule unmask_encoded [OF assms(8)])
  define md' where "md' = extend_metadata s md m ?buf"
  have md': "msg_ptr md' = Some (m\<lparr>m_payload := body\<rparr>)"
    "md_validator md' = fst (checked (m_opcode m) new_validator body)"
    using un assms(5,6) by (auto simp: md'_def extend_metadata_def split: prod.splits)
  define s1 where "s1 = (set_current_metadata md' s)\<lparr>m_bytes_needed := 0\<rparr>"
  have pp: "process_payload_bytes disabled_extension s ?buf = Some (s1, length body, None)"
  proof -
    have "m_bytes_needed s - of_nat (length body) = 0" by (simp flip: assms(11))
    then show ?thesis
      by (simp add: process_payload_disabled [OF assms(3,4)] Let_def un dec md'_def s1_def)
  qed
  have c1: "current_metadata s1 = Some md'" unfolding s1_def by (rule current_metadata_set [OF assms(3)])
  have fin: "finalize_message disabled_extension s1 = Some (s1\<lparr>m_state := READY\<rparr>, None)"
    using comp md'(2) assms(10) by (simp add: finalize_disabled [OF c1 md'(1)]) (simp add: s1_def)
  have "consume_iter disabled_extension s ?buf = Next (s1\<lparr>m_state := READY\<rparr>) (length body)"
  proof (cases "length body = 0")
    case True
    have emd: "md' = md"
    proof -
      have "unmasked s (prepared_key md) [] = ([], prepared_key md)"
      proof -
        have "byte_mask_circ [] (prepared_key md) = ([], prepared_key md)"
          by (rule byte_circ.mask_Nil) (use assms(7) in blast)
        then show ?thesis by (simp add: unmasked_def)
      qed
      moreover have "checked (m_opcode m) (md_validator md) [] = (md_validator md, True)"
        by (simp add: checked_def)
      moreover have "m\<lparr>m_payload := []\<rparr> = m" using assms(5) by (cases m) simp
      ultimately show ?thesis
        using True assms(4,5) by (cases md) (simp add: md'_def extend_metadata_def encoded_def
            masked_copy_def byte_mask_def)
    qed
    have need: "m_bytes_needed s = 0" using True assms(11) by (simp add: word_unat_eq_iff)
    have "s1 = s"
      using True assms(3,11) emd
      by (cases s) (auto simp: s1_def set_current_metadata_def current_metadata_def
          unat_eq_zero split: current.splits)
    then show ?thesis
      using True assms(2,9) fin need by (simp add: consume_iter_def)
  next
    case False
    have "min (unat (m_bytes_needed s)) (length ?buf) = length body" by (simp add: assms(11))
    from consume_iter_payload [OF assms(2) this] False show ?thesis
      using pp fin assms(9) by (simp add: after_payload_def) (simp add: s1_def)
  qed
  moreover have "current_metadata (s1\<lparr>m_state := READY\<rparr>) = Some md'"
    using c1 by (auto simp: current_metadata_def split: current.splits)
  moreover have "m_data_msg s1 = m_data_msg s \<or> m_current_msg s = CurData"
    by (auto simp: s1_def set_current_metadata_def split: current.split)
  ultimately show ?thesis using md'(1) by (intro that [of "s1\<lparr>m_state := READY\<rparr>"]) (auto simp: s1_def)
qed

definition frame_wire :: "bool \<Rightarrow> opcode \<Rightarrow> u32 \<Rightarrow> bytes \<Rightarrow> bytes" where
  "frame_wire msk op key body =
     (let sz = of_nat (length body); h = make_basic_header op sz True msk False False False
      in b0 h # b1 h # frame_tail msk sz key @ encoded msk key body)"

lemma loop_next:
  "consume_guard s buf \<Longrightarrow> consume_iter E s buf = Next s' n \<Longrightarrow>
     consume_loop E s buf p = consume_loop E s' (drop n buf) (p + n)"
  by (subst consume_loop.simps) simp

lemma start_message_new:
  assumes "msg_ptr (m_data_msg s) = None" and "op = get_opcode (m_basic_header s)"
    and "\<not> is_control op \<Longrightarrow> m_bytes_needed s \<le> m_max_message_size s"
    and "get_masking_key (m_basic_header s) (m_extended_header s) = key"
  obtains s' where "start_message disabled_extension s n = Next s' n"
    "current_metadata s' = Some (make_metadata (Some (new_message op (m_bytes_needed s))) key)"
    "m_current_msg s' = (if is_control op then CurControl else CurData)"
    "m_state s' = m_state s" "m_basic_header s' = m_basic_header s"
    "m_bytes_needed s' = m_bytes_needed s" "is_control op \<Longrightarrow> m_data_msg s' = m_data_msg s"
proof (cases "is_control op")
  case True
  let ?s' = "s\<lparr>m_control_msg := make_metadata (Some (new_message op (m_bytes_needed s))) key,
      m_current_msg := CurControl\<rparr>"
  show ?thesis using assms True
    by (intro that [of ?s'])
      (auto simp: start_message_def Let_def get_message_op_def current_metadata_def)
next
  case False
  let ?s' = "s\<lparr>m_data_msg := make_metadata (Some (new_message op (m_bytes_needed s))) key,
      m_current_msg := CurData\<rparr>"
  show ?thesis using assms False
    by (intro that [of ?s']) (auto simp: start_message_def Let_def current_metadata_def not_less)
qed

lemma deliver_frame:
  assumes "boundary s" and "op \<in> {TEXT, BINARY, CLOSE, PING, PONG}"
    and "is_control op \<Longrightarrow> length body \<le> 125"
    and "\<not> is_control op \<Longrightarrow> length body \<le> unat (m_max_message_size s)"
    and "op = TEXT \<Longrightarrow> validate body"
  obtains s' md m where
    "consume disabled_extension s (frame_wire (p_server s) op key body)
       = Some (s', length (frame_wire (p_server s) op key body), None)"
    "ready s'" "proc_ok s'" "current_metadata s' = Some md" "msg_ptr md = Some m"
    "m_payload m = body" "m_opcode m = op"
    "m_current_msg s' = (if is_control op then CurControl else CurData)"
    "is_control op \<Longrightarrow> msg_ptr (m_data_msg s') = None"
proof -
  let ?sz = "of_nat (length body) :: u64" and ?msk = "p_server s"
  let ?h = "make_basic_header op ?sz True ?msk False False False"
  have szn: "unat ?sz = length body"
  proof (cases "is_control op")
    case True
    then show ?thesis using assms(3) by (intro u64_of_nat_inj) simp
  next
    case False
    then show ?thesis using assms(4) by (intro u64_of_nat_le)
  qed
  have ok: "proc_ok s" and st: "m_state s = HEADER_BASIC" "m_bytes_needed s = 2" "msg_ptr (m_data_msg s) = None"
    using assms(1) by (simp_all add: boundary_def)
  have legal: "legal_frame ?msk True ?h"
    by (rule legal_frame_make [OF assms(2)]) (simp add: szn assms(3))
  let ?tail = "frame_tail ?msk ?sz key" and ?enc = "encoded ?msk key body"
  let ?s1 = "s\<lparr>m_basic_header := ?h, m_bytes_needed := of_nat (get_header_len ?h - 2),
             m_state := HEADER_EXTENDED, m_cursor := 0\<rparr>"
  have g: "consume_guard s (b0 ?h # b1 ?h # ?tail @ ?enc)" by (simp add: consume_guard_def st)
  have l1: "consume_loop disabled_extension s (frame_wire ?msk op key body) 0
      = consume_loop disabled_extension ?s1 (?tail @ ?enc) 2"
    using loop_next [OF g read_basic [OF assms(1) legal], of 0]
    by (simp add: frame_wire_def Let_def numeral_2_eq_2)
  have ok1: "proc_ok ?s1"
    using consume_iter_ok [OF ok g] read_basic [OF assms(1) legal] by simp
  have eh: "length (eh_bytes (m_extended_header ?s1)) = 12" using ok1 by (simp only: proc_ok_def)
  obtain e where e: "consume_iter disabled_extension ?s1 (?tail @ ?enc) =
      start_message disabled_extension
        (?s1\<lparr>m_extended_header := e, m_cursor := length ?tail, m_state := APPLICATION,
             m_bytes_needed := ?sz\<rparr>) (length ?tail)"
    "get_masking_key ?h e = (if ?msk then key else 0)"
    by (rule read_extended [of ?s1 op ?sz True ?msk False False False disabled_extension key ?enc]) (use eh in auto)
  let ?s2 = "?s1\<lparr>m_extended_header := e, m_cursor := length ?tail, m_state := APPLICATION,
             m_bytes_needed := ?sz\<rparr>"
  have lim: "\<not> is_control op \<Longrightarrow> m_bytes_needed ?s2 \<le> m_max_message_size ?s2"
    using assms(4) szn by (simp add: word_le_nat_alt)
  obtain s3 where s3: "start_message disabled_extension ?s2 (length ?tail) = Next s3 (length ?tail)"
    "current_metadata s3 = Some (make_metadata (Some (new_message op ?sz)) (if ?msk then key else 0))"
    "m_current_msg s3 = (if is_control op then CurControl else CurData)"
    "m_state s3 = APPLICATION" "m_basic_header s3 = ?h" "m_bytes_needed s3 = ?sz"
    "is_control op \<Longrightarrow> m_data_msg s3 = m_data_msg s"
    by (rule start_message_new [of ?s2 op _ "length ?tail"])
      (use st lim e(2) in \<open>auto simp: header_bits\<close>)
  have g1: "consume_guard ?s1 (?tail @ ?enc)"
  proof (cases "?tail = []")
    case True
    then show ?thesis
      using length_frame_tail [of ?msk ?sz key op True False False False] by (simp add: consume_guard_def)
  qed (simp add: consume_guard_def)
  have i1: "consume_iter disabled_extension ?s1 (?tail @ ?enc) = Next s3 (length ?tail)"
    using e(1) s3(1) by simp
  have l2: "consume_loop disabled_extension ?s1 (?tail @ ?enc) 2
      = consume_loop disabled_extension s3 ?enc (2 + length ?tail)"
    using loop_next [OF g1 i1, of 2] by simp
  have ok3: "proc_ok s3" using consume_iter_ok [OF ok1 g1] i1 by simp
  have g3: "consume_guard s3 ?enc"
    using s3(4,6) by (cases body) (auto simp: consume_guard_def encoded_def masked_copy_def byte_mask_def)
  show ?thesis
  proof (rule read_payload [OF ok3 s3(4,2), of "new_message op ?sz" ?msk key body])
    fix s' md' assume r: "consume_iter disabled_extension s3 ?enc = Next s' (length body)"
      "m_state s' = READY" "current_metadata s' = Some md'"
      "msg_ptr md' = Some (new_message op ?sz\<lparr>m_payload := body\<rparr>)"
      "m_current_msg s' = m_current_msg s3" "m_data_msg s' = m_data_msg s3 \<or> m_current_msg s3 = CurData"
    have "consume_loop disabled_extension s3 ?enc (2 + length ?tail)
        = Some (s', 2 + length ?tail + length body, None)"
      using loop_next [OF g3 r(1)] r(2) by (simp add: consume_loop.simps [of _ s'] consume_guard_def)
    moreover have "length (frame_wire ?msk op key body) = 2 + length ?tail + length body"
      by (simp add: frame_wire_def Let_def)
    moreover have "proc_ok s'" using consume_iter_ok [OF ok3 g3] r(1) by simp
    ultimately show ?thesis
      using l1 l2 r s3(3,7) st(3)
      by (intro that [of s' md' "new_message op ?sz\<lparr>m_payload := body\<rparr>"])
        (auto simp: consume_def ready_def new_message_def split: if_splits)
  qed (use s3 szn assms(5) in \<open>auto simp: make_metadata_def new_message_def header_bits\<close>)
qed

subsection \<open>The message handed out\<close>

lemma ready_message:
  assumes "proc_ok s" and "ready s"
  obtains s' m md where "get_ready_message s = Some (s', Some m)" "proc_ok s'"
    "m_state s' = HEADER_BASIC" "m_bytes_needed s' = 2" "current_metadata s = Some md" "msg_ptr md = Some m"
    "is_control (m_opcode m) \<longleftrightarrow> m_current_msg s = CurControl"
    "is_control (m_opcode m) \<Longrightarrow> length (m_payload m) \<le> 125 \<and> m_data_msg s' = m_data_msg s"
    "\<not> is_control (m_opcode m) \<Longrightarrow>
       md = m_data_msg s \<and> msg_ptr (m_data_msg s') = None \<and> m_opcode m \<in> {TEXT, BINARY}
       \<and> (length (m_payload m) \<le> unat (m_max_message_size s) \<or> 2 ^ 64 \<le> length (m_payload m))"
proof -
  have r: "reading s" and z: "m_bytes_needed s = 0"
    using assms by (simp_all add: ready_def proc_ok_def state_ok_def)
  from r show thesis
  proof (cases rule: reading_cases)
    case (control m)
    let ?s' = "reset_headers (s\<lparr>m_control_msg := (m_control_msg s)\<lparr>msg_ptr := None\<rparr>\<rparr>)"
    have "get_ready_message s = Some (?s', Some m)"
      using assms(2) control by (simp add: get_ready_message_def set_current_metadata_def)
    moreover have "proc_ok ?s'"
      using assms control
      by (intro proc_ok_reset) (auto simp: proc_ok_def control_ok_def pending_def ready_def)
    ultimately show ?thesis
      using control by (intro that [of ?s' m]) (auto simp: reset_headers_def size_consts z)
  next
    case (data m)
    let ?s' = "reset_headers (s\<lparr>m_data_msg := (m_data_msg s)\<lparr>msg_ptr := None\<rparr>\<rparr>)"
    have o: "m_opcode m \<in> {TEXT, BINARY}" "\<not> is_control (m_opcode m)"
      and l: "length (m_payload m) \<le> unat (m_max_message_size s) \<or> 2 ^ 64 \<le> length (m_payload m)"
      using assms data by (auto simp: proc_ok_def data_ok_def size_ok_def pending_def ready_def is_control_def)
    have "get_ready_message s = Some (?s', Some m)"
      using assms(2) data o by (simp add: get_ready_message_def set_current_metadata_def)
    moreover have "proc_ok ?s'"
      using assms(1) by (intro proc_ok_reset) (auto simp: proc_ok_def data_ok_def size_ok_def)
    ultimately show ?thesis
      using data o l by (intro that [of ?s' m]) (auto simp: reset_headers_def size_consts)
  qed
qed

lemma prepared_data_wire:
  assumes "prepare_data_frame disabled_extension c rng (Some i) (Some out) = (c', Some out', None)"
    and "m_fin i"
  shows "m_header out' @ m_payload out' = frame_wire (\<not> p_server c) (m_opcode i) rng (m_payload i)"
    and "\<not> is_control (m_opcode i)" and "m_opcode i = TEXT \<Longrightarrow> validate (m_payload i)" and "c' = c"
  using assms
  by (auto simp: prepare_data_frame_def Let_def frame_wire_def encoded_def frame_tail_def
      prepare_header_make message_setters masked_copy_def byte_mask_keystream split: if_splits)

lemma prepared_control_wire:
  assumes "is_control op" and "length body \<le> 125"
  obtains out' where "prepare_control c rng op body (Some out) = (Some out', None)"
    "m_header out' @ m_payload out' = frame_wire (\<not> p_server c) op rng body" "m_opcode out' = op"
proof -
  have "\<not> length body > unat payload_size_basic"
    using assms(2) by (simp add: size_consts)
  then show ?thesis
    using assms(1) that
    by (auto simp: prepare_control_def Let_def frame_wire_def encoded_def frame_tail_def
        prepare_header_make message_setters)
qed

subsection \<open>Properties\<close>

text \<open>C1: A data message an endpoint prepares is read back by the peer in one call of consume as a
  message with the same opcode and payload; all bytes are used and the peer is ready for the
  next frame.\<close>
theorem data_frame_round_trip:
  assumes "prepare_data_frame disabled_extension c rng (Some i) (Some out) = (c', Some out', None)"
    and "m_fin i" and "m_opcode i \<in> {TEXT, BINARY}" and "p_server c = (\<not> p_server s)"
    and "boundary s" and "length (m_payload i) \<le> unat (m_max_message_size s)"
  shows "\<exists>s1 s2 m.
     consume disabled_extension s (m_header out' @ m_payload out')
       = Some (s1, length (m_header out' @ m_payload out'), None)
     \<and> get_ready_message s1 = Some (s2, Some m) \<and> boundary s2
     \<and> m_opcode m = m_opcode i \<and> m_payload m = m_payload i"
proof -
  note w = prepared_data_wire [OF assms(1,2)]
  have wire: "m_header out' @ m_payload out' = frame_wire (p_server s) (m_opcode i) rng (m_payload i)"
    using w(1) assms(4) by simp
  obtain s1 md m where d: "consume disabled_extension s (frame_wire (p_server s) (m_opcode i) rng (m_payload i))
       = Some (s1, length (frame_wire (p_server s) (m_opcode i) rng (m_payload i)), None)"
    "ready s1" "proc_ok s1" "current_metadata s1 = Some md" "msg_ptr md = Some m"
    "m_payload m = m_payload i" "m_opcode m = m_opcode i"
    by (rule deliver_frame [OF assms(5), of "m_opcode i" "m_payload i" rng])
      (use assms(3,6) w(2,3) in auto)
  obtain s2 where "get_ready_message s1 = Some (s2, Some m)" "boundary s2"
    by (rule ready_message [OF d(3,2)]) (use d w(2) in \<open>auto simp: boundary_def\<close>)
  with d wire show ?thesis by auto
qed

text \<open>A ping, pong or close frame of at most 125 bytes is prepared without error and read back
  by the peer with the same opcode and payload; all bytes are used.\<close>
theorem control_frame_round_trip:
  assumes "op \<in> {CLOSE, PING, PONG}" and "length body \<le> 125" and "p_server c = (\<not> p_server s)"
    and "boundary s"
  shows "\<exists>out' s1 s2 m.
     prepare_control c rng op body (Some out) = (Some out', None)
     \<and> consume disabled_extension s (m_header out' @ m_payload out')
         = Some (s1, length (m_header out' @ m_payload out'), None)
     \<and> get_ready_message s1 = Some (s2, Some m) \<and> boundary s2
     \<and> m_opcode m = op \<and> m_payload m = body"
proof -
  have c: "is_control op" using assms(1) by (auto simp: is_control_def)
  obtain out' where o: "prepare_control c rng op body (Some out) = (Some out', None)"
    "m_header out' @ m_payload out' = frame_wire (\<not> p_server c) op rng body"
    by (rule prepared_control_wire [OF c assms(2)])
  obtain s1 md m where d: "consume disabled_extension s (frame_wire (p_server s) op rng body)
       = Some (s1, length (frame_wire (p_server s) op rng body), None)"
    "ready s1" "proc_ok s1" "current_metadata s1 = Some md" "msg_ptr md = Some m"
    "m_payload m = body" "m_opcode m = op" "msg_ptr (m_data_msg s1) = None"
    by (rule deliver_frame [OF assms(4), of op body rng]) (use assms(1,2) c in auto)
  obtain s2 where "get_ready_message s1 = Some (s2, Some m)" "boundary s2"
    by (rule ready_message [OF d(3,2)]) (use d c in \<open>auto simp: boundary_def\<close>)
  with d o assms(3) show ?thesis by (auto simp del: length_append)
qed

lemma prepare_close_errors:
  "snd (prepare_close c rng code reason (Some out)) =
     (if status_reserved code then Some (ProcError P_reserved_close_code)
      else if status_invalid code \<and> code \<noteq> no_status then Some (ProcError P_invalid_close_code)
      else if code = no_status \<and> reason \<noteq> [] then Some (ProcError P_reason_requires_code)
      else if 123 < length reason then Some (ProcError P_control_too_big) else None)"
proof -
  have "length (if code \<noteq> no_status then uint16_c (htons code) @ reason else []) \<le> 125"
    if "\<not> 123 < length reason" using that by simp
  then show ?thesis
    by (auto simp: prepare_close_def Let_def size_consts prepare_control_def is_control_def)
qed

text \<open>A close frame is prepared without an error exactly when it carries no code and no reason,
  or a code that may be sent and at most 123 bytes of reason.\<close>
theorem prepare_close_accepts:
  "snd (prepare_close c rng code reason (Some out)) = None \<longleftrightarrow>
     code = no_status \<and> reason = [] \<or> sendable code \<and> length reason \<le> 123"
proof -
  have "\<not> status_reserved no_status" "\<not> sendable no_status"
    by (simp_all add: status_reserved_def sendable_def close_code_defs word_le_nat_alt)
  then show ?thesis by (auto simp: prepare_close_errors sendable_iff)
qed

text \<open>A close frame that may be sent is prepared, delivered whole, and its parts are read back.\<close>

lemma prepare_close_sendable:
  assumes "sendable code" and "length reason \<le> 123"
  obtains out' where "prepare_close c rng code reason (Some out) = (Some out', None)" "m_opcode out' = CLOSE"
    "m_header out' @ m_payload out' = frame_wire (\<not> p_server c) CLOSE rng (uint16_c (htons code) @ reason)"
proof -
  have code: "\<not> status_reserved code" "\<not> status_invalid code" "code \<noteq> no_status"
    using assms(1) by (auto simp: sendable_iff status_invalid_def)
  have p: "prepare_close c rng code reason (Some out)
      = prepare_control c rng CLOSE (uint16_c (htons code) @ reason) (Some out)"
    using code assms(2) by (simp add: prepare_close_def size_consts)
  have "length (uint16_c (htons code) @ reason) \<le> 125" using assms(2) by simp
  from prepared_control_wire [OF _ this, of CLOSE c rng out] show thesis
    using p that by (auto simp: is_control_def)
qed

lemma close_frame_delivered:
  assumes "sendable code" and "length reason \<le> 123" and "boundary s"
  obtains s1 s2 m where
    "consume disabled_extension s (frame_wire (p_server s) CLOSE rng (uint16_c (htons code) @ reason))
       = Some (s1, length (frame_wire (p_server s) CLOSE rng (uint16_c (htons code) @ reason)), None)"
    "ready s1" "get_ready_message s1 = Some (s2, Some m)" "m_opcode m = CLOSE"
    "extract_code (m_payload m) = (code, None)"
    "extract_reason (m_payload m) =
         (reason, if utf8_well_formed reason then None else Some (WsError E_invalid_utf8))"
proof -
  let ?body = "uint16_c (htons code) @ reason"
  have code: "\<not> status_reserved code" "\<not> status_invalid code"
    using assms(1) by (auto simp: sendable_iff)
  obtain s1 md m where d: "consume disabled_extension s (frame_wire (p_server s) CLOSE rng ?body)
       = Some (s1, length (frame_wire (p_server s) CLOSE rng ?body), None)"
    "ready s1" "proc_ok s1" "current_metadata s1 = Some md" "msg_ptr md = Some m"
    "m_payload m = ?body" "m_opcode m = CLOSE"
    by (rule deliver_frame [OF assms(3), of CLOSE ?body rng]) (use assms(2) in \<open>auto simp: is_control_def\<close>)
  obtain s2 where r: "get_ready_message s1 = Some (s2, Some m)"
    by (rule ready_message [OF d(3,2)]) (use d in auto)
  have "extract_code (m_payload m) = (code, None)"
    unfolding d(6) extract_code_encode using code by simp
  moreover have "extract_reason (m_payload m) =
         (reason, if utf8_well_formed reason then None else Some (WsError E_invalid_utf8))"
    unfolding d(6) extract_reason_encode by (simp add: validate_accepts accepts_iff_well_formed)
  ultimately show thesis using d r by (intro that [of s1 s2 m]) auto
qed

text \<open>C5: The close code and reason an endpoint sends are the code and reason the peer extracts from
  the payload it reads, with an error on the reason exactly when it is not valid UTF-8.\<close>
theorem close_round_trip:
  assumes "sendable code" and "length reason \<le> 123" and "p_server c = (\<not> p_server s)"
    and "boundary s"
  shows "\<exists>out' s1 s2 m.
     prepare_close c rng code reason (Some out) = (Some out', None)
     \<and> consume disabled_extension s (m_header out' @ m_payload out')
         = Some (s1, length (m_header out' @ m_payload out'), None)
     \<and> get_ready_message s1 = Some (s2, Some m) \<and> m_opcode m = CLOSE
     \<and> extract_code (m_payload m) = (code, None)
     \<and> extract_reason (m_payload m) =
         (reason, if utf8_well_formed reason then None else Some (WsError E_invalid_utf8))"
proof -
  obtain out' where o: "prepare_close c rng code reason (Some out) = (Some out', None)"
    "m_header out' @ m_payload out' = frame_wire (p_server s) CLOSE rng (uint16_c (htons code) @ reason)"
    by (rule prepare_close_sendable [OF assms(1,2), of c rng out]) (use assms(3) in simp)
  show ?thesis
    by (rule close_frame_delivered [OF assms(1,2,4), of rng])
      (use o in \<open>unfold o(2) [symmetric], blast\<close>)
qed

text \<open>C2: The processor never dereferences an unset message pointer and never writes past the
  extended header: on any bytes consume returns, having used no more than it was given; without
  an error either a message is ready or all bytes were used, and the invariant holds again.\<close>
theorem consume_total:
  assumes "proc_ok s"
  shows "\<exists>s' n ec. consume disabled_extension s buf = Some (s', n, ec) \<and> n \<le> length buf
    \<and> (ec = None \<longrightarrow> proc_ok s' \<and> (ready s' \<or> n = length buf))"
  using consume_loop_total [OF assms, of buf 0] by (auto simp: consume_def ready_def)

text \<open>C3: Bytes may arrive in any chunks: when a first chunk is consumed without error and without
  completing a message, consuming the second chunk afterwards gives the same error, or the same
  state and byte count, as consuming both at once.\<close>
theorem consume_chunks:
  assumes "proc_ok s" and "consume disabled_extension s xs = Some (s1, n, None)" and "\<not> ready s1"
  shows "\<exists>s2 s2' k k' ec.
     consume disabled_extension s1 ys = Some (s2, k, ec)
     \<and> consume disabled_extension s (xs @ ys) = Some (s2', k', ec)
     \<and> (ec = None \<longrightarrow> s2' = s2 \<and> k' = n + k)"
proof -
  have shift: "consume_loop E t b (p + q) = map_option (\<lambda>(s, k, ec). (s, p + k, ec)) (consume_loop E t b q)"
    for E :: "unit extension" and t b p q
  proof (induction E t b q rule: consume_loop.induct)
    case (1 E t b q)
    then show ?case
      by (subst (1 2) consume_loop.simps) (auto simp: add.assoc split: turn.split)
  qed
  have "agree (consume_loop disabled_extension s (xs @ ys) 0)
      (consume_loop disabled_extension s1 ys n)"
    using consume_loop_append [OF assms(1), of xs 0 s1 n ys] assms(2,3)
    by (simp add: consume_def ready_def)
  moreover have "consume_loop disabled_extension s1 ys n
      = map_option (\<lambda>(s, k, ec). (s, n + k, ec)) (consume_loop disabled_extension s1 ys 0)"
    using shift [of disabled_extension s1 ys n 0] by simp
  ultimately show ?thesis
    by (cases "consume_loop disabled_extension s1 ys 0";
        cases "consume_loop disabled_extension s (xs @ ys) 0") (auto simp: consume_def)
qed

text \<open>C4: What \<open>get_message\<close> hands out: the invariant is kept; a control message has at most 125
  bytes; a data message is text or binary, respects the configured limit (or is longer than
  any memory), and a text message that came in a single frame is well-formed UTF-8.\<close>
theorem delivered_message:
  assumes "proc_ok s" and "get_ready_message s = Some (s', Some m)"
  shows "proc_ok s'
    \<and> (is_control (m_opcode m) \<longrightarrow> length (m_payload m) \<le> 125)
    \<and> (\<not> is_control (m_opcode m) \<longrightarrow> m_opcode m \<in> {TEXT, BINARY}
         \<and> (length (m_payload m) \<le> unat (m_max_message_size s) \<or> 2 ^ 64 \<le> length (m_payload m)))
    \<and> (m_opcode m = TEXT \<and> get_opcode (m_basic_header s) = TEXT \<longrightarrow> utf8_well_formed (m_payload m))"
proof -
  have r: "ready s" using assms(2) by (auto simp: get_ready_message_def split: if_splits)
  obtain md where md: "proc_ok s'" "msg_ptr md = Some m"
    "is_control (m_opcode m) \<Longrightarrow> length (m_payload m) \<le> 125"
    "\<not> is_control (m_opcode m) \<Longrightarrow> md = m_data_msg s \<and> m_opcode m \<in> {TEXT, BINARY}
       \<and> (length (m_payload m) \<le> unat (m_max_message_size s) \<or> 2 ^ 64 \<le> length (m_payload m))"
    by (rule ready_message [OF assms(1) r]) (use assms(2) in auto)
  have "utf8_well_formed (m_payload m)"
    if "m_opcode m = TEXT" "get_opcode (m_basic_header s) = TEXT"
  proof -
    have d: "md = m_data_msg s" using md(4) that by (simp add: is_control_def)
    have "validator_decode new_validator (m_payload m) = (md_validator md, True)"
      using assms(1) md(2) that(1) d by (simp add: proc_ok_def data_ok_def)
    moreover have "validator_complete (md_validator md)"
      using assms(1) r that(2) d by (simp add: proc_ok_def state_ok_def ready_def)
    ultimately show ?thesis
      by (simp add: validate_accepts [symmetric] accepts_iff_well_formed [symmetric] validate_def)
  qed
  with md show ?thesis by blast
qed

text \<open>C7: A basic header is accepted exactly when it obeys RFC 6455: no reserved bit or opcode,
  control frames whole and of at most 125 bytes, masked exactly towards a server, and
  continuation frames exactly inside a fragmented message.\<close>
theorem basic_header_rules:
  "validate_incoming_basic_header disabled_extension s h is_server new_msg = None \<longleftrightarrow>
     \<not> opcode_reserved (get_opcode h) \<and> \<not> get_rsv1 h \<and> \<not> get_rsv2 h \<and> \<not> get_rsv3 h
     \<and> (is_control (get_opcode h) \<longrightarrow> get_fin h \<and> unat (get_basic_size h) \<le> 125)
     \<and> (get_masked h \<longleftrightarrow> is_server)
     \<and> (\<not> is_control (get_opcode h) \<longrightarrow> (new_msg \<longleftrightarrow> get_opcode h \<noteq> CONTINUATION))"
  by (simp add: validate_basic_iff legal_frame_def legal_header_def)

text \<open>A peer that encodes a length in more bytes than it needs breaks the protocol, but the
  connection is closed with the code for an internal error of this endpoint.\<close>
theorem non_minimal_length_blamed_on_self:
  "validate_incoming_extended_header h e \<in> {None, Some (ProcError P_non_minimal_encoding)}
   \<and> to_ws (Some (ProcError P_non_minimal_encoding)) = internal_endpoint_error"
  by (simp add: validate_incoming_extended_header_def Let_def sizeof_size_t_def to_ws_def)

text \<open>A text message split into frames can end inside a character: the check for a complete
  code point looks at the opcode of the last frame, which is CONTINUATION.\<close>
theorem fragmented_text_incomplete:
  "\<exists>s1 s2 m.
     consume disabled_extension (new_hybi13 False 100 ()) [0x01, 0x01, 0xE2, 0x80, 0x00]
       = Some (s1, 5, None)
     \<and> get_ready_message s1 = Some (s2, Some m) \<and> m_opcode m = TEXT
     \<and> \<not> utf8_well_formed (m_payload m)"
proof -
  let ?r = "consume disabled_extension (new_hybi13 False 100 ()) [0x01, 0x01, 0xE2, 0x80, 0x00]"
  let ?g = "get_ready_message (fst (the ?r))"
  have "?r = Some (fst (the ?r), 5, None)" by code_simp
  moreover have "?g = Some (fst (the ?g), Some (the (snd (the ?g))))" by code_simp
  moreover have "m_opcode (the (snd (the ?g))) = TEXT" by code_simp
  moreover have "\<not> validate (m_payload (the (snd (the ?g))))" by code_simp
  ultimately show ?thesis
    unfolding validate_accepts accepts_iff_well_formed by blast
qed

text \<open>The header of a last frame that announces \<open>2 ^ 64 - n\<close> bytes after the \<open>n\<close> bytes of \<open>m\<close>, and
  the whole frame cut off after \<open>body\<close>.\<close>

definition wrapping_length :: "message \<Rightarrow> u64" where
  "wrapping_length m = - of_nat (length (m_payload m))"

definition wrapping_header :: "bool \<Rightarrow> message \<Rightarrow> basic_header" where
  "wrapping_header msk m =
     make_basic_header CONTINUATION (wrapping_length m) True msk False False False"

definition wrapping_frame :: "bool \<Rightarrow> message \<Rightarrow> u32 \<Rightarrow> bytes \<Rightarrow> bytes" where
  "wrapping_frame msk m key body =
     b0 (wrapping_header msk m) # b1 (wrapping_header msk m)
       # frame_tail msk (wrapping_length m) key @ encoded msk key body"

text \<open>C8: The limit on a message can be passed: to a message under way with \<open>n\<close> bytes, a
  continuation frame that announces \<open>2 ^ 64 - n\<close> bytes is accepted, because the sum wraps around
  to 0, and whatever bytes follow are buffered without an error, whatever the limit is.\<close>
theorem message_limit_wraps:
  assumes "proc_ok s" and "m_state s = HEADER_BASIC" and "m_bytes_needed s = 2"
    and "msg_ptr (m_data_msg s) = Some m" and "m_opcode m = BINARY"
    and "0 < length (m_payload m)" and "length (m_payload m) < 2 ^ 32"
    and "body \<noteq> []" and "length body < 2 ^ 63"
  shows "\<exists>s'. consume disabled_extension s (wrapping_frame (p_server s) m key body)
       = Some (s', length (wrapping_frame (p_server s) m key body), None)
     \<and> msg_ptr (m_data_msg s') = Some (m\<lparr>m_payload := m_payload m @ body\<rparr>)"
proof -
  let ?sz = "wrapping_length m" and ?msk = "p_server s"
  define h where "h = wrapping_header ?msk m"
  note h_def = h_def [unfolded wrapping_header_def]
  let ?tail = "frame_tail ?msk ?sz key" and ?enc = "encoded ?msk key body"
  have nl: "unat (of_nat (length (m_payload m)) :: u64) = length (m_payload m)"
    using assms(7) by (intro u64_of_nat_inj) simp
  have sz: "2 ^ 63 \<le> unat ?sz"
  proof -
    have "wrapping_length m = of_nat (2 ^ 64 - length (m_payload m))"
      using assms(7) by (simp add: wrapping_length_def of_nat_diff)
    then have "unat (wrapping_length m) = 2 ^ 64 - length (m_payload m)"
      using assms(6) by (simp only:) (rule u64_of_nat_inj, simp)
    then show ?thesis using assms(7) by simp
  qed
  have cc: "\<not> is_control CONTINUATION" by (simp add: is_control_def)
  have legal: "legal_frame ?msk (msg_ptr (m_data_msg s) = None) h"
    using assms(4) cc
    by (simp add: legal_frame_def legal_header_def h_def header_bits opcode_reserved_iff)
  let ?s1 = "s\<lparr>m_basic_header := h, m_bytes_needed := of_nat (get_header_len h - 2),
             m_state := HEADER_EXTENDED, m_cursor := 0\<rparr>"
  note i0 = read_basic_header [OF assms(2,3) legal]
  have g0: "consume_guard s (b0 h # b1 h # ?tail @ ?enc)" using assms(2) by (simp add: consume_guard_def)
  have ok1: "proc_ok ?s1" using consume_iter_ok [OF assms(1) g0] i0 by simp
  have eh: "length (eh_bytes (m_extended_header ?s1)) = 12" using ok1 by (simp only: proc_ok_def)
  obtain e where e: "consume_iter disabled_extension ?s1 (?tail @ ?enc) =
      start_message disabled_extension
        (?s1\<lparr>m_extended_header := e, m_cursor := length ?tail, m_state := APPLICATION,
             m_bytes_needed := ?sz\<rparr>) (length ?tail)"
    "get_masking_key h e = (if ?msk then key else 0)"
    by (rule read_extended [of ?s1 CONTINUATION ?sz True ?msk False False False disabled_extension key ?enc])
      (use eh in \<open>auto simp: h_def\<close>)
  define md where "md = (m_data_msg s)\<lparr>prepared_key := prepare_masking_key (if ?msk then key else 0)\<rparr>"
  define s3 where "s3 = ?s1\<lparr>m_extended_header := e, m_cursor := length ?tail, m_state := APPLICATION,
             m_bytes_needed := ?sz, m_data_msg := md, m_current_msg := CurData\<rparr>"
  have f3: "m_state s3 = APPLICATION" "m_bytes_needed s3 = ?sz" "m_basic_header s3 = h"
    "m_current_msg s3 = CurData" "current_metadata s3 = Some md" "msg_ptr md = Some m"
    "prepared_key md = prepare_masking_key (if ?msk then key else 0)"
    using assms(4) by (simp_all add: s3_def md_def current_metadata_def)
  have i1: "consume_iter disabled_extension ?s1 (?tail @ ?enc) = Next s3 (length ?tail)"
    unfolding e(1) s3_def md_def using assms(4) cc e(2)
    by (simp add: start_message_def h_def header_bits wrapping_length_def)
  have g1: "consume_guard ?s1 (?tail @ ?enc)"
    using assms(8) by (cases body) (auto simp: consume_guard_def encoded_def masked_copy_def byte_mask_def)
  have un: "fst (unmasked s3 (prepared_key md) ?enc) = body"
    unfolding f3(7) by (rule unmask_encoded) (simp add: f3(3) h_def header_bits)
  define s4 where "s4 = (set_current_metadata (extend_metadata s3 md m ?enc) s3)
    \<lparr>m_bytes_needed := ?sz - of_nat (length body)\<rparr>"
  have pp: "process_payload_bytes disabled_extension s3 ?enc = Some (s4, length body, None)"
    using assms(5)
    by (simp add: process_payload_disabled [OF f3(5,6)] Let_def un checked_def f3(2) s4_def)
  have "unat (?sz - of_nat (length body)) = unat ?sz - length body"
    by (rule u64_minus_of_nat) (use sz assms(9) in simp)
  then have pos: "m_bytes_needed s4 > 0"
    using sz assms(9) by (simp add: s4_def word_less_nat_alt)
  have mn: "min (unat (m_bytes_needed s3)) (length ?enc) = length body"
    using sz assms(9) by (simp add: f3(2))
  have i3: "consume_iter disabled_extension s3 ?enc = Next s4 (length body)"
    by (subst consume_iter_payload [OF f3(1) mn])
      (use assms(8) pos pp in \<open>simp_all add: after_payload_def\<close>)
  have "?enc \<noteq> []" using assms(8) length_encoded [of ?msk key body] by fastforce
  then have g3: "consume_guard s3 ?enc" by (simp add: consume_guard_def f3)
  have last: "consume_loop disabled_extension s4 [] p = Some (s4, p, None)" for p
    using pos by (subst consume_loop.simps) (auto simp: consume_guard_def)
  have "consume_loop disabled_extension s (b0 h # b1 h # ?tail @ ?enc) 0
      = Some (s4, 2 + length ?tail + length body, None)"
    using loop_next [OF g0 i0, of 0] loop_next [OF g1 i1, of 2] loop_next [OF g3 i3, of "2 + length ?tail"]
    by (simp add: last numeral_2_eq_2)
  moreover have "msg_ptr (m_data_msg s4) = Some (m\<lparr>m_payload := m_payload m @ body\<rparr>)"
    using un by (auto simp: s4_def set_current_metadata_def f3(4) extend_metadata_def split: prod.splits)
  ultimately show ?thesis
    by (auto simp: consume_def wrapping_frame_def h_def wrapping_header_def add.assoc)
qed

subsection \<open>Witnesses\<close>

definition hello :: message where
  "hello = (new_message TEXT 5)\<lparr>m_payload := [0x48, 0xC3, 0xA9, 0x21]\<rparr>"

definition client_proc :: "unit hybi13" where "client_proc = new_hybi13 False 1000 ()"
definition server_proc :: "unit hybi13" where "server_proc = new_hybi13 True 1000 ()"

lemma boundary_server: "boundary server_proc"
  unfolding server_proc_def by (rule boundary_new)

theorem data_frame_round_trip_witness:
  "\<exists>out' s1 s2 m.
     prepare_data_frame disabled_extension client_proc 0x01020304 (Some hello) (Some (empty_message BINARY))
       = (client_proc, Some out', None)
     \<and> consume disabled_extension server_proc (m_header out' @ m_payload out')
         = Some (s1, length (m_header out' @ m_payload out'), None)
     \<and> get_ready_message s1 = Some (s2, Some m) \<and> m_payload m = [0x48, 0xC3, 0xA9, 0x21]"
proof -
  let ?p = "prepare_data_frame disabled_extension client_proc 0x01020304 (Some hello) (Some (empty_message BINARY))"
  have e: "?p = (client_proc, Some (the (fst (snd ?p))), None)" by code_simp
  have "m_fin hello" "m_opcode hello \<in> {TEXT, BINARY}" "p_server client_proc = (\<not> p_server server_proc)"
    "length (m_payload hello) \<le> unat (m_max_message_size server_proc)" by code_simp+
  from data_frame_round_trip [OF e this(1-3) boundary_server this(4)]
  obtain s1 s2 m where "consume disabled_extension server_proc
      (m_header (the (fst (snd ?p))) @ m_payload (the (fst (snd ?p))))
      = Some (s1, length (m_header (the (fst (snd ?p))) @ m_payload (the (fst (snd ?p)))), None)"
    "get_ready_message s1 = Some (s2, Some m)" "m_payload m = m_payload hello"
    by blast
  moreover have "m_payload hello = [0x48, 0xC3, 0xA9, 0x21]" by (simp add: hello_def)
  ultimately show ?thesis
    using e by (intro exI [of _ "the (fst (snd ?p))"] exI [of _ s1] exI [of _ s2] exI [of _ m])
      (simp only: simp_thms)
qed

theorem control_frame_round_trip_witness:
  "\<exists>out' s1 s2 m.
     prepare_control client_proc 7 PING [1, 2] (Some (empty_message BINARY)) = (Some out', None)
     \<and> consume disabled_extension server_proc (m_header out' @ m_payload out')
         = Some (s1, length (m_header out' @ m_payload out'), None)
     \<and> get_ready_message s1 = Some (s2, Some m) \<and> boundary s2
     \<and> m_opcode m = PING \<and> m_payload m = [1, 2]"
  by (rule control_frame_round_trip [OF _ _ _ boundary_server])
    (simp_all add: client_proc_def server_proc_def new_hybi13_def reset_headers_def)

theorem close_round_trip_witness:
  "\<exists>out' s1 s2 m.
     prepare_close client_proc 7 normal_close [0x62, 0x79, 0x65] (Some (empty_message BINARY))
       = (Some out', None)
     \<and> consume disabled_extension server_proc (m_header out' @ m_payload out')
         = Some (s1, length (m_header out' @ m_payload out'), None)
     \<and> get_ready_message s1 = Some (s2, Some m) \<and> m_opcode m = CLOSE
     \<and> extract_code (m_payload m) = (normal_close, None)
     \<and> extract_reason (m_payload m) = ([0x62, 0x79, 0x65],
         if utf8_well_formed [0x62, 0x79, 0x65] then None else Some (WsError E_invalid_utf8))"
  by (rule close_round_trip [OF _ _ _ boundary_server])
    (simp_all add: sendable_def normal_close_def client_proc_def server_proc_def new_hybi13_def
      reset_headers_def)

theorem consume_total_witness:
  "\<exists>s' n ec. consume disabled_extension server_proc [0x81, 0x05] = Some (s', n, ec) \<and> n \<le> 2"
  using consume_total [of server_proc "[0x81, 0x05]"] boundary_server
  by (auto simp: boundary_def)

theorem basic_header_rules_witness:
  "validate_incoming_basic_header disabled_extension server_proc (make_basic_header TEXT 5 True True False False False) True True = None"
proof -
  let ?h = "make_basic_header TEXT 5 True True False False False"
  have "\<not> opcode_reserved (get_opcode ?h)" "\<not> get_rsv1 ?h" "\<not> get_rsv2 ?h" "\<not> get_rsv3 ?h"
    "\<not> is_control (get_opcode ?h)" "get_masked ?h" "get_opcode ?h \<noteq> CONTINUATION" by code_simp+
  then show ?thesis unfolding basic_header_rules by simp
qed

theorem consume_chunks_witness:
  "\<exists>s1 s2 k ec. consume disabled_extension client_proc [0x81] = Some (s1, 1, None)
     \<and> consume disabled_extension s1 [0x01, 0x41] = Some (s2, k, ec)
     \<and> (ec = None \<longrightarrow> consume disabled_extension client_proc ([0x81] @ [0x01, 0x41]) = Some (s2, 1 + k, None))"
proof -
  let ?r = "consume disabled_extension client_proc [0x81]"
  have ok: "proc_ok client_proc" unfolding client_proc_def by (rule proc_ok_new)
  have e: "?r = Some (fst (the ?r), 1, None)" and n: "\<not> ready (fst (the ?r))" by code_simp+
  from consume_chunks [OF ok e n, of "[0x01, 0x41]"] e show ?thesis by blast
qed

theorem delivered_message_witness:
  "\<exists>s1 s2 m. consume disabled_extension client_proc [0x81, 0x01, 0x41] = Some (s1, 3, None)
     \<and> get_ready_message s1 = Some (s2, Some m) \<and> m_opcode m = TEXT \<and> proc_ok s2
     \<and> (m_opcode m = TEXT \<and> get_opcode (m_basic_header s1) = TEXT \<longrightarrow> utf8_well_formed (m_payload m))"
proof -
  let ?r = "consume disabled_extension client_proc [0x81, 0x01, 0x41]"
  let ?g = "get_ready_message (fst (the ?r))"
  have "proc_ok client_proc" unfolding client_proc_def by (rule proc_ok_new)
  moreover have e: "?r = Some (fst (the ?r), 3, None)" by code_simp
  ultimately have ok: "proc_ok (fst (the ?r))"
    using consume_loop_total [of client_proc "[0x81, 0x01, 0x41]" 0] by (auto simp: consume_def)
  have g: "?g = Some (fst (the ?g), Some (the (snd (the ?g))))" by code_simp
  have "m_opcode (the (snd (the ?g))) = TEXT" by code_simp
  with delivered_message [OF ok g] e g show ?thesis by blast
qed

text \<open>With a limit of four bytes: one byte of a fragmented binary message, then five more.\<close>

definition started :: "unit hybi13" where
  "started = fst (the (consume disabled_extension (new_hybi13 False 4 ()) [0x02, 0x01, 0xAA]))"

theorem message_limit_wraps_witness:
  "\<exists>s'. consume disabled_extension started
       (wrapping_frame (p_server started) (the (msg_ptr (m_data_msg started))) 0 [1, 2, 3, 4, 5])
       = Some (s', length (wrapping_frame (p_server started) (the (msg_ptr (m_data_msg started))) 0
                             [1, 2, 3, 4, 5]), None)
     \<and> m_payload (the (msg_ptr (m_data_msg s'))) = [0xAA, 1, 2, 3, 4, 5]"
proof -
  let ?m = "the (msg_ptr (m_data_msg started))"
  have e: "consume disabled_extension (new_hybi13 False 4 ()) [0x02, 0x01, 0xAA] = Some (started, 3, None)"
    by code_simp
  have ok: "proc_ok started"
    using consume_loop_total [OF proc_ok_new [of False 4 "()"], of "[0x02, 0x01, 0xAA]" 0] e
    by (auto simp: consume_def)
  have st: "m_state started = HEADER_BASIC" "m_bytes_needed started = 2"
    "msg_ptr (m_data_msg started) = Some ?m" "m_opcode ?m = BINARY" "m_payload ?m = [0xAA]"
    by code_simp+
  have l: "0 < length (m_payload ?m)" "length (m_payload ?m) < 2 ^ 32" by (simp_all add: st(5))
  from message_limit_wraps [OF ok st(1-4) l, of "[1, 2, 3, 4, 5]" 0] show ?thesis
    by (auto simp: st(5))
qed

end
