(* ===== verification/CompressedFrames.thy ===== *)
theory CompressedFrames
  imports Deflate FrameTransfer
begin

text \<open>
  Compressed messages between two endpoints: what \<open>prepare_data_frame\<close> compresses, cuts and masks is
  read back by the peer's \<open>consume\<close>, with the objects of \<open>Deflate\<close> on both sides and zlib as its
  documentation describes it.
\<close>

subsection \<open>Reading one compressed frame\<close>

definition idle :: "'d hybi13 \<Rightarrow> bool" where
  "idle s \<longleftrightarrow> m_state s = HEADER_BASIC \<and> m_bytes_needed s = 2 \<and> msg_ptr (m_data_msg s) = None
     \<and> length (eh_bytes (m_extended_header s)) = 12"

lemma idle_new: "idle (new_hybi13 is_server limit ext)"
  by (simp add: idle_def new_hybi13_def reset_headers_def size_consts no_metadata_def)

definition trailer :: bytes where "trailer = [0x00, 0x00, 0xff, 0xff]"

definition compressed_wire :: "bool \<Rightarrow> opcode \<Rightarrow> u32 \<Rightarrow> bytes \<Rightarrow> bytes" where
  "compressed_wire msk op key body =
     (let sz = of_nat (length body); h = make_basic_header op sz True msk True False False
      in b0 h # b1 h # frame_tail msk sz key @ encoded msk key body)"

lemma read_basic_compressed:
  assumes "idle s" and "ext_is_enabled E (m_permessage_deflate s)" and "op \<in> {TEXT, BINARY}"
  shows "consume_iter E s (b0 (make_basic_header op sz True (p_server s) True False False)
      # b1 (make_basic_header op sz True (p_server s) True False False) # rest) =
    Next (s\<lparr>m_basic_header := make_basic_header op sz True (p_server s) True False False,
        m_bytes_needed :=
          of_nat (get_header_len (make_basic_header op sz True (p_server s) True False False) - 2),
        m_state := HEADER_EXTENDED, m_cursor := 0\<rparr>) 2"
proof -
  let ?h = "make_basic_header op sz True (p_server s) True False False"
  have h: "\<lparr>b0 = b0 ?h, b1 = b1 ?h\<rparr> = ?h" by simp
  have "validate_incoming_basic_header E t ?h (p_server s) True = None"
    if "m_permessage_deflate t = m_permessage_deflate s" for t
    using assms(2,3) that
    by (auto simp: validate_incoming_basic_header_def header_bits opcode_reserved_iff is_control_def)
  then show ?thesis
    using assms(1) by (simp add: consume_iter_def copy_basic_header_bytes_def h size_consts idle_def)
qed

lemma start_compressed:
  assumes "msg_ptr (m_data_msg s) = None" and "ext_is_enabled E (m_permessage_deflate s)"
    and "op = get_opcode (m_basic_header s)" and "\<not> is_control op" and "get_rsv1 (m_basic_header s)"
    and "m_bytes_needed s \<le> m_max_message_size s"
    and "get_masking_key (m_basic_header s) (m_extended_header s) = key"
  shows "start_message E s n = Next (s\<lparr>m_data_msg :=
      make_metadata (Some (set_compressed True (new_message op (m_bytes_needed s)))) key,
      m_current_msg := CurData\<rparr>) n"
  using assms by (auto simp: start_message_def Let_def not_less)

text \<open>The payload in one piece, and the end of the message.\<close>

lemma read_compressed_payload:
  assumes "m_state s = APPLICATION" and "m_current_msg s = CurData"
    and "m_data_msg s = make_metadata (Some m) (if msk then key else 0)"
    and "m_payload m = []" and "m_compressed m" and "m_opcode m \<in> {TEXT, BINARY}"
    and "get_masked (m_basic_header s) = msk" and "get_fin (m_basic_header s)"
    and "get_opcode (m_basic_header s) = m_opcode m"
    and "unat (m_bytes_needed s) = length body" and "body \<noteq> []"
    and "ext_is_enabled E (m_permessage_deflate s)" and "ext_is_enabled E d1"
    and "ext_decompress E (m_permessage_deflate s) body [] = (d1, data, None)"
    and "ext_decompress E d1 trailer data = (d2, data, None)"
    and "m_opcode m = TEXT \<Longrightarrow> validate data"
  obtains md where
    "consume_iter E s (encoded msk key body) = Next (s\<lparr>m_data_msg := md, m_bytes_needed := 0,
       m_permessage_deflate := d2, m_state := READY\<rparr>) (length body)"
    "msg_ptr md = Some (m\<lparr>m_payload := data\<rparr>)"
proof -
  let ?buf = "encoded msk key body" and ?md = "make_metadata (Some m) (if msk then key else 0)"
  have md: "msg_ptr ?md = Some m" "md_validator ?md = new_validator"
    "prepared_key ?md = prepare_masking_key (if msk then key else 0)"
    by (simp_all add: make_metadata_def)
  have cur: "current_metadata s = Some ?md" using assms(2,3) by (simp add: current_metadata_def)
  obtain v where v: "checked (m_opcode m) new_validator data = (v, True)"
    "m_opcode m = TEXT \<Longrightarrow> validator_complete v"
    using assms(16) by (cases "checked (m_opcode m) new_validator data")
      (auto simp: checked_def validate_def Let_def split: prod.splits if_splits)
  obtain k where k: "unmasked s (prepared_key ?md) ?buf = (body, k)"
    using unmask_encoded [OF assms(7), of key body] unfolding md(3) by (metis prod.collapse)
  define md' where "md' = ?md\<lparr>prepared_key := k, msg_ptr := Some (m\<lparr>m_payload := data\<rparr>), md_validator := v\<rparr>"
  define s1 where "s1 = s\<lparr>m_data_msg := md', m_bytes_needed := 0, m_permessage_deflate := d1\<rparr>"
  have need: "m_bytes_needed s - of_nat (length body) = 0" by (simp flip: assms(10))
  have "process_payload_bytes E s ?buf = Some (s1, length body, None)"
    using cur md k v(1) assms(2,4,5,12,14) need
    by (auto simp: process_payload_bytes_def Let_def unmasked_def checked_def set_current_metadata_def
        s1_def md'_def split: if_splits)
  moreover have "finalize_message E s1 = Some (s1\<lparr>m_permessage_deflate := d2, m_state := READY\<rparr>, None)"
    using v(2) assms(2,5,9,13,15)
    by (auto simp: finalize_message_def current_metadata_def set_current_metadata_def s1_def md'_def
        trailer_def Let_def)
  ultimately have "consume_iter E s ?buf = Next (s1\<lparr>m_permessage_deflate := d2, m_state := READY\<rparr>) (length body)"
    using assms(1,8,10,11) by (simp add: consume_iter_def s1_def)
  then show thesis by (intro that [of md']) (simp_all add: s1_def md'_def)
qed

lemma deliver_compressed:
  assumes "idle s" and "ext_is_enabled E (m_permessage_deflate s)" and "op \<in> {TEXT, BINARY}"
    and "length body \<le> unat (m_max_message_size s)" and "body \<noteq> []" and "ext_is_enabled E d1"
    and "ext_decompress E (m_permessage_deflate s) body [] = (d1, data, None)"
    and "ext_decompress E d1 trailer data = (d2, data, None)" and "op = TEXT \<Longrightarrow> validate data"
  obtains s1 s2 m where
    "consume E s (compressed_wire (p_server s) op key body)
       = Some (s1, length (compressed_wire (p_server s) op key body), None)"
    "get_ready_message s1 = Some (s2, Some m)" "m_opcode m = op" "m_payload m = data" "idle s2"
    "m_permessage_deflate s2 = d2" "p_server s2 = p_server s"
    "m_max_message_size s2 = m_max_message_size s"
proof -
  let ?sz = "of_nat (length body) :: u64" and ?msk = "p_server s"
  let ?h = "make_basic_header op ?sz True ?msk True False False"
  let ?tail = "frame_tail ?msk ?sz key" and ?enc = "encoded ?msk key body"
  have szn: "unat ?sz = length body" by (rule u64_of_nat_le [OF assms(4)])
  have nc: "\<not> is_control op" using assms(3) by (auto simp: is_control_def)
  let ?s1 = "s\<lparr>m_basic_header := ?h, m_bytes_needed := of_nat (get_header_len ?h - 2),
             m_state := HEADER_EXTENDED, m_cursor := 0\<rparr>"
  have g: "consume_guard s (b0 ?h # b1 ?h # ?tail @ ?enc)"
    using assms(1) by (simp add: consume_guard_def idle_def)
  have l1: "consume_loop E s (compressed_wire ?msk op key body) 0 = consume_loop E ?s1 (?tail @ ?enc) 2"
    using loop_next [OF g read_basic_compressed [OF assms(1-3)], of 0]
    by (simp add: compressed_wire_def Let_def numeral_2_eq_2)
  obtain e where e: "consume_iter E ?s1 (?tail @ ?enc) =
      start_message E (?s1\<lparr>m_extended_header := e, m_cursor := length ?tail, m_state := APPLICATION,
             m_bytes_needed := ?sz\<rparr>) (length ?tail)"
    "get_masking_key ?h e = (if ?msk then key else 0)"
    by (rule read_extended [of ?s1 op ?sz True ?msk True False False E key ?enc])
      (use assms(1) in \<open>auto simp: idle_def\<close>)
  let ?s2 = "?s1\<lparr>m_extended_header := e, m_cursor := length ?tail, m_state := APPLICATION,
             m_bytes_needed := ?sz\<rparr>"
  let ?m = "set_compressed True (new_message op ?sz)"
  define s3 where "s3 = ?s2\<lparr>m_data_msg := make_metadata (Some ?m) (if ?msk then key else 0),
      m_current_msg := CurData\<rparr>"
  have "start_message E ?s2 (length ?tail) = Next s3 (length ?tail)"
    using start_compressed [of ?s2 E op "if ?msk then key else 0" "length ?tail"] assms(1,2,4) nc e(2) szn
    by (simp add: idle_def header_bits word_le_nat_alt s3_def)
  then have i1: "consume_iter E ?s1 (?tail @ ?enc) = Next s3 (length ?tail)" using e(1) by simp
  have g1: "consume_guard ?s1 (?tail @ ?enc)"
    using assms(5) by (cases body) (auto simp: consume_guard_def encoded_def masked_copy_def byte_mask_def)
  have l2: "consume_loop E ?s1 (?tail @ ?enc) 2 = consume_loop E s3 ?enc (2 + length ?tail)"
    using loop_next [OF g1 i1, of 2] by simp
  obtain md where r: "consume_iter E s3 ?enc = Next (s3\<lparr>m_data_msg := md, m_bytes_needed := 0,
       m_permessage_deflate := d2, m_state := READY\<rparr>) (length body)"
    "msg_ptr md = Some (?m\<lparr>m_payload := data\<rparr>)"
    by (rule read_compressed_payload [of s3 ?m ?msk key body E d1 data d2])
      (use assms szn in \<open>auto simp: s3_def header_bits message_setters new_message_def\<close>)
  let ?s4 = "s3\<lparr>m_data_msg := md, m_bytes_needed := 0, m_permessage_deflate := d2, m_state := READY\<rparr>"
  have g3: "consume_guard s3 ?enc"
    using assms(5) by (cases body) (auto simp: consume_guard_def encoded_def masked_copy_def byte_mask_def s3_def)
  have "consume_loop E s3 ?enc (2 + length ?tail) = Some (?s4, 2 + length ?tail + length body, None)"
    using loop_next [OF g3 r(1)] by (simp add: consume_loop.simps [of _ ?s4] consume_guard_def)
  then have "consume E s (compressed_wire ?msk op key body)
      = Some (?s4, length (compressed_wire ?msk op key body), None)"
    using l1 l2 by (simp add: consume_def compressed_wire_def Let_def)
  moreover have "get_ready_message ?s4 = Some (reset_headers (?s4\<lparr>m_data_msg := md\<lparr>msg_ptr := None\<rparr>\<rparr>),
      Some (?m\<lparr>m_payload := data\<rparr>))"
    using r(2) nc by (simp add: get_ready_message_def ready_def current_metadata_def s3_def
        set_current_metadata_def message_setters new_message_def)
  ultimately show thesis
    by (rule that) (simp_all add: idle_def reset_headers_def size_consts s3_def message_setters new_message_def)
qed

subsection \<open>What zlib promises of a flush\<close>

text \<open>
  From equal histories (\<open>sync\<close>), the compressor's output for a message ends with the four bytes of an
  empty block; of what is before them the decompressor makes the message, and of these four bytes
  nothing. The two bytes \<open>02 00\<close> before the four are an empty message.
\<close>

definition inflates ::
  "('i \<Rightarrow> bytes \<Rightarrow> ('b \<times> bytes) option) \<Rightarrow> ('a \<Rightarrow> 'b \<Rightarrow> bool) \<Rightarrow> 'a \<Rightarrow> 'i \<Rightarrow> bytes \<Rightarrow> bytes \<Rightarrow> bool" where
  "inflates iv sync a i body data \<longleftrightarrow>
     (\<exists>b1. iv i body = Some (b1, data)
        \<and> (\<forall>i1. iv i1 [] = Some (b1, []) \<longrightarrow> (\<exists>b2. iv i1 trailer = Some (b2, []) \<and> sync a b2)))"

definition flush_inverse ::
  "(flush \<Rightarrow> 's \<Rightarrow> bytes \<Rightarrow> 'a \<times> bytes) \<Rightarrow> ('i \<Rightarrow> bytes \<Rightarrow> ('b \<times> bytes) option) \<Rightarrow> ('a \<Rightarrow> 'b \<Rightarrow> bool) \<Rightarrow> bool" where
  "flush_inverse dv iv sync \<longleftrightarrow>
     (\<forall>fl s i a b. dv fl s [] = (a, []) \<longrightarrow> iv i [] = Some (b, []) \<longrightarrow> sync a b \<longrightarrow>
        inflates iv sync a i [2, 0] []
        \<and> (\<forall>data. data \<noteq> [] \<longrightarrow>
             (\<exists>a' body. dv fl s data = (a', body @ trailer) \<and> inflates iv sync a' i body data)))"

definition in_step ::
  "(flush \<Rightarrow> 's \<Rightarrow> bytes \<Rightarrow> 'a \<times> bytes) \<Rightarrow> ('i \<Rightarrow> bytes \<Rightarrow> ('b \<times> bytes) option) \<Rightarrow> ('a \<Rightarrow> 'b \<Rightarrow> bool)
     \<Rightarrow> ('s, 'j) deflate \<Rightarrow> ('t, 'i) deflate \<Rightarrow> bool" where
  "in_step dv iv sync dc ds \<longleftrightarrow>
     m_enabled dc \<and> m_initialized dc \<and> 0 < m_compress_buffer_size dc
     \<and> m_enabled ds \<and> m_initialized ds \<and> 0 < m_compress_buffer_size ds
     \<and> (\<exists>s i a b. m_dstate dc = Some s \<and> m_istate ds = Some i
          \<and> dv (m_flush dc) s [] = (a, []) \<and> iv i [] = Some (b, []) \<and> sync a b)"

lemma inflated:
  assumes "inflate_streams Z iv" and "inflates iv sync a i body data" and "m_initialized ds"
    and "m_istate ds = Some i" and "0 < m_compress_buffer_size ds" and "length body < 2 ^ 32"
  obtains i1 i2 b2 where "decompress Z ds body [] = Some (ds\<lparr>m_istate := Some i1\<rparr>, data, None)"
    "decompress Z (ds\<lparr>m_istate := Some i1\<rparr>) trailer data = Some (ds\<lparr>m_istate := Some i2\<rparr>, data, None)"
    "iv i2 [] = Some (b2, [])" "sync a b2"
proof -
  obtain b1 where b1: "iv i body = Some (b1, data)"
    "\<And>i1. iv i1 [] = Some (b1, []) \<Longrightarrow> \<exists>b2. iv i1 trailer = Some (b2, []) \<and> sync a b2"
    using assms(2) unfolding inflates_def by blast
  obtain i1 where i1: "decompress Z ds body [] = Some (ds\<lparr>m_istate := Some i1\<rparr>, data, None)"
    "iv i1 [] = Some (b1, [])"
    using decompress_appends_stream [OF assms(1,3,4,5,6) b1(1), of "[]"] by auto
  obtain b2 where b2: "iv i1 trailer = Some (b2, [])" "sync a b2" using b1(2) [OF i1(2)] by blast
  have "length trailer < 2 ^ 32" by (simp add: trailer_def)
  then obtain i2 where "decompress Z (ds\<lparr>m_istate := Some i1\<rparr>) trailer data
      = Some (ds\<lparr>m_istate := Some i2\<rparr>, data, None)" "iv i2 [] = Some (b2, [])"
    using decompress_appends_stream [OF assms(1), of "ds\<lparr>m_istate := Some i1\<rparr>" i1 trailer b2 "[]" data]
      assms(3,5) b2(1) by auto
  with i1(1) b2(2) that show thesis by blast
qed

lemma compress_cut_decompress:
  assumes "deflate_streams Z dv" and "inflate_streams Z iv" and "flush_inverse dv iv sync"
    and "in_step dv iv sync dc ds" and "length data < 2 ^ 32"
  obtains dc' body where "compress Z dc data [] = Some (dc', body @ trailer, None)" "body \<noteq> []"
    "length body < 2 ^ 32 \<longrightarrow> (\<exists>d1 d2. decompress Z ds body [] = Some (d1, data, None) \<and> m_enabled d1
       \<and> decompress Z d1 trailer data = Some (d2, data, None) \<and> in_step dv iv sync dc' d2)"
proof -
  obtain s i a b where st: "m_dstate dc = Some s" "m_istate ds = Some i"
    "dv (m_flush dc) s [] = (a, [])" "iv i [] = Some (b, [])" "sync a b"
    using assms(4) unfolding in_step_def by blast
  have on: "m_enabled dc" "m_initialized dc" "0 < m_compress_buffer_size dc"
    "m_enabled ds" "m_initialized ds" "0 < m_compress_buffer_size ds"
    using assms(4) by (simp_all add: in_step_def)
  note f = assms(3) [unfolded flush_inverse_def, rule_format, OF st(3-5)]
  obtain dc' body s' a' where c: "compress Z dc data [] = Some (dc', body @ trailer, None)"
    "dc' = dc\<lparr>m_dstate := Some s'\<rparr>" "dv (m_flush dc) s' [] = (a', [])" "inflates iv sync a' i body data"
    "body \<noteq> []"
  proof (cases "data = []")
    case True
    have "dc = dc\<lparr>m_dstate := Some s\<rparr>" using st(1) by simp
    then show thesis
      using True on(2) st(3) f that [of dc "[2, 0]" s a] by (simp add: compress_def trailer_def)
  next
    case False
    then obtain a' body where d: "dv (m_flush dc) s data = (a', body @ trailer)" "inflates iv sync a' i body data"
      using f by blast
    moreover have "body \<noteq> []" using d(2) False st(4) by (auto simp: inflates_def)
    ultimately show thesis
      using compress_stream [OF assms(1) on(2) st(1) on(3) False assms(5) d(1), of "[]"] that by auto
  qed
  have "\<exists>d1 d2. decompress Z ds body [] = Some (d1, data, None) \<and> m_enabled d1
       \<and> decompress Z d1 trailer data = Some (d2, data, None) \<and> in_step dv iv sync dc' d2"
    if "length body < 2 ^ 32"
    by (rule inflated [OF assms(2) c(4) on(5) st(2) on(6) that])
      (use c(2,3) on in \<open>auto simp: in_step_def\<close>)
  with c(1,5) that show thesis by blast
qed


subsection \<open>A message compressed and read back\<close>

lemma fetch_stored:
  "fetch_bytes 0 (concat (map (\<lambda>b. [1, b]) inp) @ rest)
    = (fst (fetch_bytes 0 rest), inp @ snd (fetch_bytes 0 rest))"
  by (induction inp) (auto simp: case_prod_beta)

lemma sample_inverse: "flush_inverse sample_dv sample_iv (\<lambda>_ k. k = 0)"
proof -
  have "inflates sample_iv (\<lambda>_ k. k = 0) a (0, []) (concat (map (\<lambda>b. [1, b]) inp)) inp" for a inp
    using fetch_stored [of inp "[]"]
    by (auto simp: inflates_def sample_iv_def trailer_def split: prod.splits)
  moreover have "inflates sample_iv (\<lambda>_ k. k = 0) a (0, []) [2, 0] []" for a
    by (auto simp: inflates_def sample_iv_def trailer_def split: prod.splits)
  moreover have "i = (0, [])" if "sample_iv i [] = Some (0, [])" for i
    using that by (auto simp: sample_iv_def split: prod.splits)
  ultimately have "inflates sample_iv (\<lambda>_ k. k = 0) a i [2, 0] []"
    "inflates sample_iv (\<lambda>_ k. k = 0) a i (concat (map (\<lambda>b. [1, b]) inp)) inp"
    if "sample_iv i [] = Some (0, [])" for a i inp
    using that by metis+
  then show ?thesis
    unfolding flush_inverse_def
    by (auto simp: sample_dv_def store_bytes_def trailer_def)
qed

definition compressing :: "bool \<Rightarrow> (bytes, nat \<times> bytes) deflate hybi13" where
  "compressing srv = new_hybi13 srv 100 sample_ready"

definition sample_text :: message where
  "sample_text = set_compressed True (append_payload (ascii ''hi'') (new_message TEXT 2))"


end
