(* ===== verification/Camera.thy ===== *)
theory Camera
  imports Text "HOL-Library.Signed_Division"
begin

text \<open>
  The code reader camera of \<open>CameraLib.cpp\<close> (the same class is the first part of
  \<open>broadcastTest.cpp\<close>): initialisation and release of the device, reading a frame into the image
  buffer, and turning the codes of a frame into coordinates and into a string. The vendor's
  SDK, OpenCV, \<open>iconv\<close> and the success of \<open>malloc\<close> are parameters (the records \<open>sdk\<close> and
  \<open>vision\<close>); their state is part of \<open>env\<close>, which also counts the heap blocks and conversion
  descriptors in use. A call that does not return is a \<open>fault\<close>.
\<close>

subsection \<open>Outcomes\<close>

datatype fault = UndefinedBehaviour | CvException | Blocked

type_synonym 'a outcome = "fault + 'a"

definition and_then :: "'a outcome \<Rightarrow> ('a \<Rightarrow> 'b outcome) \<Rightarrow> 'b outcome" where
  "and_then m f = (case m of Inl e \<Rightarrow> Inl e | Inr x \<Rightarrow> f x)"

definition require :: "bool \<Rightarrow> unit outcome" where
  "require b = (if b then Inr () else Inl UndefinedBehaviour)"

lemma and_then_simps [simp]:
  "and_then (Inr x) f = f x" "and_then (Inl e) f = Inl e"
  by (simp_all add: and_then_def)

lemma require_simps [simp]: "require True = Inr ()" "require False = Inl UndefinedBehaviour"
  by (simp_all add: require_def)

lemma and_then_Inr: "and_then m f = Inr y \<longleftrightarrow> (\<exists>x. m = Inr x \<and> f x = Inr y)"
  by (cases m) auto

lemma require_Inr: "require b = Inr u \<longleftrightarrow> b"
  by (simp add: require_def)

text \<open>A signed 32-bit result that must not overflow.\<close>

definition in_int :: "int \<Rightarrow> bool" where
  "in_int i \<longleftrightarrow> - (2 ^ 31) \<le> i \<and> i < 2 ^ 31"

subsection \<open>Data of the SDK\<close>

definition MV_OK :: u32 where "MV_OK = 0x00000000"
definition MV_E_RESOURCE :: u32 where "MV_E_RESOURCE = 0x80020005"

definition Camera_Width :: string where "Camera_Width = ''WidthMax''"
definition Camera_Height :: string where "Camera_Height = ''HeightMax''"
definition Camera_PayloadSize :: string where "Camera_PayloadSize = ''PayloadSize''"
definition MAX_BCR_LEN :: nat where "MAX_BCR_LEN = 512"
definition IMAGE_EX_LEN :: nat where "IMAGE_EX_LEN = 4096"
definition SIZEOF_IMAGE_OUT_INFO :: nat where "SIZEOF_IMAGE_OUT_INFO = 192"
definition MAX_BCR_INFO :: nat where "MAX_BCR_INFO = 100"

text \<open>A barcode of a frame: its text (a C string), its corners and its score.\<close>

record bcr_info =
  chCode :: bytes
  pt :: "(int \<times> int) list"
  nIDRScore :: int

record result_bcr =
  nCodeNum :: u32
  stBcrInfo :: "bcr_info list"

record image_info =
  nWidth :: u16
  nHeight :: u16
  enPixelType :: u32
  nFrameNum :: u32
  nFrameLen :: u32
  pstCodeListEx :: "result_bcr option"
  pstCodeListEx2 :: "result_bcr option"

type_synonym handle = nat

record 's sdk =
  EnumDevices :: "'s \<Rightarrow> 's \<times> u32 \<times> nat option"
  CreateHandle :: "'s \<Rightarrow> nat option \<Rightarrow> 's \<times> u32 \<times> handle option"
  OpenDevice :: "'s \<Rightarrow> handle option \<Rightarrow> 's \<times> u32"
  GetIntValue :: "'s \<Rightarrow> handle option \<Rightarrow> string \<Rightarrow> 's \<times> u32 \<times> int"
  SetEnumValue :: "'s \<Rightarrow> handle option \<Rightarrow> string \<Rightarrow> nat \<Rightarrow> 's \<times> u32"
  StartGrabbing :: "'s \<Rightarrow> handle option \<Rightarrow> 's \<times> u32"
  StopGrabbing :: "'s \<Rightarrow> handle option \<Rightarrow> 's \<times> u32"
  CloseDevice :: "'s \<Rightarrow> handle option \<Rightarrow> 's \<times> u32"
  DestroyHandle :: "'s \<Rightarrow> handle option \<Rightarrow> 's \<times> u32"
  GetOneFrame :: "'s \<Rightarrow> handle option \<Rightarrow> 's \<times> u32 \<times> bytes \<times> image_info"
  malloc_ok :: "'s \<Rightarrow> nat \<Rightarrow> 's \<times> bool"
  iconv_open :: "'s \<Rightarrow> 's \<times> int"
  iconv :: "'s \<Rightarrow> int \<Rightarrow> bytes \<Rightarrow> nat \<Rightarrow> 's \<times> bytes \<times> bool"

record 'img vision =
  empty_mat :: 'img
  imdecode :: "bytes \<Rightarrow> 'img"
  resize_mat :: "'img \<Rightarrow> 'img option"
  scale_point :: "int \<times> int \<Rightarrow> int \<times> int"
  polylines :: "'img \<Rightarrow> (int \<times> int) list \<Rightarrow> 'img"

record 's env =
  e_sdk :: 's
  e_blocks :: nat
  e_cds :: nat

definition malloc :: "'s sdk \<Rightarrow> 's env \<Rightarrow> nat \<Rightarrow> 's env \<times> bool" where
  "malloc S e n =
     (let (s, ok) = malloc_ok S (e_sdk e) n
      in (e\<lparr>e_sdk := s, e_blocks := e_blocks e + (if ok then 1 else 0)\<rparr>, ok))"

definition free_block :: "'s env \<Rightarrow> 's env" where
  "free_block e = e\<lparr>e_blocks := e_blocks e - 1\<rparr>"

text \<open>An SDK call that only changes the SDK's own state.\<close>

definition sdk_call :: "('s \<Rightarrow> 's \<times> 'r) \<Rightarrow> 's env \<Rightarrow> 's env \<times> 'r" where
  "sdk_call f e = (let (s, r) = f (e_sdk e) in (e\<lparr>e_sdk := s\<rparr>, r))"

subsection \<open>The camera object\<close>

datatype pmutex = MutexFree | MutexHeld | MutexDestroyed

record camera =
  nRet :: u32
  cam_handle :: "handle option"
  bIsNormalRun :: bool
  g_bExit :: bool
  g_nMaxImageSize :: u32
  g_pstImageInfoEx2 :: "image_info option"
  g_pcDataBuf :: "bytes option"
  cam_mutex :: pmutex

text \<open>The global object: static storage is zero before the member initialisers run.\<close>

definition new_camera :: camera where
  "new_camera =
     \<lparr>nRet = MV_OK, cam_handle = None, bIsNormalRun = True, g_bExit = False, g_nMaxImageSize = 0,
      g_pstImageInfoEx2 = None, g_pcDataBuf = None, cam_mutex = MutexFree\<rparr>"

text \<open>\<open>memset\<close> of a fresh \<open>MV_CODEREADER_IMAGE_OUT_INFO_EX2\<close>.\<close>

definition zero_info :: image_info where
  "zero_info =
     \<lparr>nWidth = 0, nHeight = 0, enPixelType = 0, nFrameNum = 0, nFrameLen = 0, pstCodeListEx = None,
      pstCodeListEx2 = None\<rparr>"

definition DeInitResources :: "'s sdk \<Rightarrow> camera \<Rightarrow> 's env \<Rightarrow> int \<times> camera \<times> 's env" where
  "DeInitResources S c e =
     (let (e, r) = sdk_call (\<lambda>s. StopGrabbing S s (cam_handle c)) e; c = c\<lparr>nRet := r\<rparr>
      in if nRet c \<noteq> MV_OK then (0, c\<lparr>bIsNormalRun := False\<rparr>, e)
         else let (e, r) = sdk_call (\<lambda>s. CloseDevice S s (cam_handle c)) e; c = c\<lparr>nRet := r\<rparr>
         in if nRet c \<noteq> MV_OK then (0, c\<lparr>bIsNormalRun := False\<rparr>, e)
            else let (e, r) = sdk_call (\<lambda>s. DestroyHandle S s (cam_handle c)) e; c = c\<lparr>nRet := r\<rparr>
            in if nRet c \<noteq> MV_OK then (0, c\<lparr>bIsNormalRun := False\<rparr>, e)
               else
                 let c = c\<lparr>cam_handle := None\<rparr>;
                     (c, e) = (if g_pcDataBuf c \<noteq> None
                               then (c\<lparr>g_pcDataBuf := None\<rparr>, free_block e) else (c, e));
                     (c, e) = (if g_pstImageInfoEx2 c \<noteq> None
                               then (c\<lparr>g_pstImageInfoEx2 := None\<rparr>, free_block e) else (c, e))
                 in (1, c\<lparr>cam_mutex := MutexDestroyed\<rparr>, e))"

text \<open>
  \<open>InitResource\<close>: the local \<open>nRet\<close> is the first component of \<open>image_size\<close> and of the result. The
  product of width and height is computed in \<open>int\<close>, the sum with the payload size in
  \<open>int64_t\<close>; both are then cut to \<open>unsigned int\<close>.
\<close>

definition image_size ::
  "'s sdk \<Rightarrow> handle option \<Rightarrow> 's env \<Rightarrow> ((u32 \<times> u32) \<times> 's env) outcome" where
  "image_size S h e =
     (let (e, r, v) = sdk_call (\<lambda>s. GetIntValue S s h Camera_PayloadSize) e
      in if r \<noteq> MV_OK then
           let (e, r, w) = sdk_call (\<lambda>s. GetIntValue S s h Camera_Width) e
           in if r \<noteq> MV_OK then Inr ((r, 0), e)
              else
                let nSensorWidth = sint (word_of_int w :: u32);
                    (e, r, ht) = sdk_call (\<lambda>s. GetIntValue S s h Camera_Height) e
                in if r \<noteq> MV_OK then Inr ((r, 0), e)
                   else
                     let nSensorHight = sint (word_of_int ht :: u32)
                     in and_then (require (in_int (nSensorWidth * nSensorHight)
                                   \<and> in_int (nSensorWidth * nSensorHight + int IMAGE_EX_LEN)))
                          (\<lambda>_. Inr ((r, word_of_int (nSensorWidth * nSensorHight + int IMAGE_EX_LEN)), e))
         else Inr ((r, word_of_int (v + int IMAGE_EX_LEN)), e))"

definition InitResource ::
  "'s sdk \<Rightarrow> camera \<Rightarrow> handle option \<Rightarrow> 's env \<Rightarrow> (u32 \<times> camera \<times> 's env) outcome" where
  "InitResource S c h e =
     and_then (image_size S h e) (\<lambda>((r, sz), e).
       if r \<noteq> MV_OK then let (_, c, e) = DeInitResources S c e in Inr (r, c, e)
       else
         let c = c\<lparr>g_nMaxImageSize := sz\<rparr>;
             (e, ok) = malloc S e (unat sz)
         in if \<not> ok then
              let c = c\<lparr>g_pcDataBuf := None\<rparr>; (_, c, e) = DeInitResources S c e
              in Inr (MV_E_RESOURCE, c, e)
            else
              let c = c\<lparr>g_pcDataBuf := Some (replicate (unat sz) 0)\<rparr>;
                  (e, ok) = malloc S e SIZEOF_IMAGE_OUT_INFO
              in if \<not> ok then
                   let c = c\<lparr>g_pstImageInfoEx2 := None\<rparr>; (_, c, e) = DeInitResources S c e
                   in Inr (MV_E_RESOURCE, c, e)
                 else
                   Inr (r, c\<lparr>g_pstImageInfoEx2 := Some zero_info, cam_mutex := MutexFree\<rparr>, e))"

definition init :: "'s sdk \<Rightarrow> camera \<Rightarrow> 's env \<Rightarrow> (int \<times> camera \<times> 's env) outcome" where
  "init S c e =
     (let (e, r, dev) = sdk_call (EnumDevices S) e; c = c\<lparr>nRet := r\<rparr>
      in if nRet c \<noteq> MV_OK then Inr (0, c, e)
         else let (e, r, h) = sdk_call (\<lambda>s. CreateHandle S s dev) e;
                  c = c\<lparr>nRet := r, cam_handle := h\<rparr>
         in if nRet c \<noteq> MV_OK then Inr (0, c, e)
            else let (e, r) = sdk_call (\<lambda>s. OpenDevice S s (cam_handle c)) e; c = c\<lparr>nRet := r\<rparr>
            in and_then (InitResource S c (cam_handle c) e) (\<lambda>(r, c, e).
                 let c = c\<lparr>nRet := r\<rparr>
                 in if nRet c \<noteq> MV_OK then Inr (0, c, e)
                    else let (e, r) = sdk_call (\<lambda>s. SetEnumValue S s (cam_handle c) ''TriggerMode'' 0) e;
                             c = c\<lparr>nRet := r\<rparr>
                    in if nRet c \<noteq> MV_OK then Inr (0, c, e)
                       else let (e, r) = sdk_call (\<lambda>s. StartGrabbing S s (cam_handle c)) e;
                                c = c\<lparr>nRet := r\<rparr>
                       in if nRet c \<noteq> MV_OK then Inr (0, c, e) else Inr (1, c, e)))"

subsection \<open>Codes of a frame\<close>

text \<open>
  \<open>GB2312ToUTF8\<close> gives the return value and the destination buffer: zeros, then what
  \<open>iconv\<close> wrote. The descriptor is closed only after a successful conversion.
\<close>

definition GB2312ToUTF8 :: "'s sdk \<Rightarrow> 's env \<Rightarrow> bytes \<Rightarrow> nat \<Rightarrow> int \<times> bytes option \<times> 's env" where
  "GB2312ToUTF8 S e szSrc iDstLen =
     (let (e, cd) = sdk_call (iconv_open S) e
      in if cd = 0 then (- 2, None, e)
         else
           let e = e\<lparr>e_cds := e_cds e + (if cd = - 1 then 0 else 1)\<rparr>;
               (e, out, ok) = sdk_call (\<lambda>s. iconv S s cd szSrc iDstLen) e;
               szDst = take iDstLen out @ replicate (iDstLen - length out) 0
           in if \<not> ok then (- 1, Some szDst, e)
              else (0, Some szDst, e\<lparr>e_cds := e_cds e - 1\<rparr>))"

record bcr_entry =
  xpoint1 :: int
  xpoint2 :: int
  xpoint3 :: int
  xpoint4 :: int
  ypoint1 :: int
  ypoint2 :: int
  ypoint3 :: int
  ypoint4 :: int
  center_x :: int
  center_y :: int
  numBrcd :: u8

text \<open>
  \<open>BcrInfo\<close>: \<open>None\<close> marks what has not been written, in the array and in the counter. The
  member \<open>data\<close> of an entry is never written or read and is left out.
\<close>

record BcrInfo =
  bi_info :: "bcr_entry option list"
  bi_count :: "u8 option"

definition fresh_BcrInfo :: BcrInfo where
  "fresh_BcrInfo = \<lparr>bi_info = replicate MAX_BCR_INFO None, bi_count = None\<rparr>"

definition resetData :: BcrInfo where
  "resetData = fresh_BcrInfo\<lparr>bi_count := Some 0\<rparr>"

definition sum4 :: "int \<Rightarrow> int \<Rightarrow> int \<Rightarrow> int \<Rightarrow> int outcome" where
  "sum4 a b c d =
     and_then (require (in_int (a + b) \<and> in_int (a + b + c) \<and> in_int (a + b + c + d)))
       (\<lambda>_. Inr (a + b + c + d))"

definition make_entry :: "nat \<Rightarrow> bcr_info \<Rightarrow> bcr_entry outcome" where
  "make_entry i info =
     (case pt info of
        [p0, p1, p2, p3] \<Rightarrow>
          and_then (sum4 (fst p0) (fst p1) (fst p2) (fst p3)) (\<lambda>sx.
          and_then (sum4 (snd p0) (snd p1) (snd p2) (snd p3)) (\<lambda>sy.
            Inr \<lparr>xpoint1 = fst p0, xpoint2 = fst p1, xpoint3 = fst p2, xpoint4 = fst p3,
                 ypoint1 = snd p0, ypoint2 = snd p1, ypoint3 = snd p2, ypoint4 = snd p3,
                 center_x = sx sdiv 4, center_y = sy sdiv 4, numBrcd = of_nat i\<rparr>))
      | _ \<Rightarrow> Inl UndefinedBehaviour)"

text \<open>
  The loop of \<open>getData\<close> from index \<open>i\<close>. Each turn allocates \<open>output_string\<close>; when that
  fails, the code goes on to print into the null pointer.
\<close>

function getData_loop ::
  "'s sdk \<Rightarrow> result_bcr \<Rightarrow> nat \<Rightarrow> BcrInfo \<Rightarrow> 's env \<Rightarrow> (BcrInfo \<times> 's env) outcome" where
  "getData_loop S res i BI e =
     (if i < unat (nCodeNum res) then
        if i < length (stBcrInfo res) then
          let info = stBcrInfo res ! i;
              (_, strChar, e) = GB2312ToUTF8 S e (chCode info) MAX_BCR_LEN
          in and_then (require (i < length (bi_info BI))) (\<lambda>_.
             and_then (make_entry i info) (\<lambda>entry.
               let BI = BI\<lparr>bi_info := (bi_info BI)[i := Some entry],
                           bi_count := Some (ucast (nCodeNum res))\<rparr>;
                   (e, ok) = malloc S e MAX_BCR_LEN
               in and_then (require ok) (\<lambda>_. getData_loop S res (Suc i) BI e)))
        else Inl UndefinedBehaviour
      else Inr (BI, e))"
  by pat_completeness auto

termination
  by (relation "measure (\<lambda>(S, res, i, BI, e). unat (nCodeNum res) - i)") auto

declare getData_loop.simps [simp del]

definition getData :: "'s sdk \<Rightarrow> result_bcr option \<Rightarrow> 's env \<Rightarrow> (BcrInfo \<times> 's env) outcome" where
  "getData S stBcrResult e =
     (case stBcrResult of
        None \<Rightarrow> Inl UndefinedBehaviour
      | Some res \<Rightarrow> getData_loop S res 0 fresh_BcrInfo e)"

subsection \<open>The image\<close>

definition polygon :: "'img vision \<Rightarrow> bcr_entry \<Rightarrow> (int \<times> int) list" where
  "polygon V en =
     map (scale_point V)
       [(xpoint1 en, ypoint1 en), (xpoint2 en, ypoint2 en), (xpoint3 en, ypoint3 en),
        (xpoint4 en, ypoint4 en)]"

fun draw :: "'img vision \<Rightarrow> bcr_entry option list \<Rightarrow> 'img \<Rightarrow> 'img outcome" where
  "draw V [] img = Inr img"
| "draw V (None # ens) img = Inl UndefinedBehaviour"
| "draw V (Some en # ens) img = draw V ens (polylines V img (polygon V en))"

text \<open>The frame into the buffer; both tests are the code's.\<close>

definition store_frame :: "camera \<Rightarrow> bytes \<Rightarrow> image_info \<Rightarrow> camera outcome" where
  "store_frame c pData stImageInfo =
     (let c = (if g_pstImageInfoEx2 c \<noteq> None then c\<lparr>g_pstImageInfoEx2 := Some stImageInfo\<rparr> else c)
      in case g_pcDataBuf c of
           None \<Rightarrow> Inr c
         | Some buf \<Rightarrow>
             if nFrameLen stImageInfo < g_nMaxImageSize c then
               and_then (require (unat (nFrameLen stImageInfo) \<le> length pData
                            \<and> unat (nFrameLen stImageInfo) \<le> length buf)) (\<lambda>_.
                 Inr (c\<lparr>g_pcDataBuf := Some (take (unat (nFrameLen stImageInfo)) pData
                            @ drop (unat (nFrameLen stImageInfo)) buf)\<rparr>))
             else Inr c)"

definition decode_frame :: "'img vision \<Rightarrow> camera \<Rightarrow> 'img outcome" where
  "decode_frame V c =
     (case (g_pstImageInfoEx2 c, g_pcDataBuf c) of
        (Some info, Some buf) \<Rightarrow>
          and_then (require (unat (nFrameLen info) \<le> length buf)) (\<lambda>_.
            (case resize_mat V (imdecode V (take (unat (nFrameLen info)) buf)) of
               None \<Rightarrow> Inl CvException
             | Some img \<Rightarrow> Inr img))
      | _ \<Rightarrow> Inl UndefinedBehaviour)"

definition getImage ::
  "'s sdk \<Rightarrow> 'img vision \<Rightarrow> camera \<Rightarrow> 's env \<Rightarrow> ('img \<times> camera \<times> 's env) outcome" where
  "getImage S V c e =
     (let (e, r, pData, stImageInfo) = sdk_call (\<lambda>s. GetOneFrame S s (cam_handle c)) e;
          c = c\<lparr>nRet := r\<rparr>
      in if nRet c = MV_OK then
           if cam_mutex c = MutexHeld then Inl Blocked
           else if cam_mutex c = MutexDestroyed then Inl UndefinedBehaviour
           else
             and_then (store_frame c pData stImageInfo) (\<lambda>c.
             and_then (decode_frame V c) (\<lambda>scaledImage.
             and_then (getData S (pstCodeListEx2 stImageInfo) e) (\<lambda>(BI, e).
               (case bi_count BI of
                  None \<Rightarrow> Inl UndefinedBehaviour
                | Some n \<Rightarrow>
                    and_then (require (unat n \<le> length (bi_info BI))) (\<lambda>_.
                    and_then (draw V (take (unat n) (bi_info BI)) scaledImage) (\<lambda>img.
                      Inr (img, c, e)))))))
         else Inr (empty_mat V, c, e))"

subsection \<open>The string\<close>

text \<open>\<open>snprintf\<close> with \<open>"%d:%s:%d;"\<close>: decimal digits, the C string, decimal digits.\<close>

definition code_text :: "nat \<Rightarrow> bytes \<Rightarrow> int \<Rightarrow> bytes" where
  "code_text i str score = decimal (int i) @ [0x3A] @ str @ [0x3A] @ decimal score @ [0x3B]"

text \<open>
  The loop of \<open>getString\<close>: \<open>temp_string\<close> as a C string and \<open>total_length\<close>. \<open>strcat\<close> past the
  512 bytes of \<open>temp_string\<close>, a conversion that leaves no room for the terminator and a read
  past the code list are undefined. The score is always the first code's. When the conversion
  cannot be opened the buffer keeps the zeros of \<open>memset\<close>.
\<close>

function getString_loop ::
  "'s sdk \<Rightarrow> result_bcr \<Rightarrow> nat \<Rightarrow> bytes \<Rightarrow> nat \<Rightarrow> 's env \<Rightarrow> (bytes \<times> nat \<times> 's env) outcome" where
  "getString_loop S res i temp_string total_length e =
     (if i < unat (nCodeNum res) then
        if i < length (stBcrInfo res) then
          let (_, dst, e) = GB2312ToUTF8 S e (chCode (stBcrInfo res ! i)) MAX_BCR_LEN;
              strChar = (case dst of None \<Rightarrow> replicate MAX_BCR_LEN 0 | Some d \<Rightarrow> d);
              (e, ok) = malloc S e MAX_BCR_LEN
          in if \<not> ok then getString_loop S res (Suc i) temp_string total_length e
             else
               and_then (require (0 \<in> set strChar)) (\<lambda>_.
                 let output = code_text i (c_string strChar) (nIDRScore (stBcrInfo res ! 0))
                 in if length output \<ge> MAX_BCR_LEN
                    then getString_loop S res (Suc i) temp_string total_length (free_block e)
                    else
                      and_then (require (length temp_string + length output < MAX_BCR_LEN)) (\<lambda>_.
                        getString_loop S res (Suc i) (temp_string @ output)
                          (total_length + length output) (free_block e)))
        else Inl UndefinedBehaviour
      else Inr (temp_string, total_length, e))"
  by pat_completeness auto

termination
  by (relation "measure (\<lambda>(S, res, i, t, n, e). unat (nCodeNum res) - i)") auto

declare getString_loop.simps [simp del]

definition getString :: "'s sdk \<Rightarrow> camera \<Rightarrow> 's env \<Rightarrow> (bytes option \<times> 's env) outcome" where
  "getString S c e =
     (let (e, nnRet, pData, stImageInfo) = sdk_call (\<lambda>s. GetOneFrame S s (cam_handle c)) e
      in and_then
           (if nnRet = MV_OK then
              (case pstCodeListEx stImageInfo of
                 None \<Rightarrow> Inl UndefinedBehaviour
               | Some res \<Rightarrow> getString_loop S res 0 [] 0 e)
            else Inr ([], 0, e))
           (\<lambda>(temp_string, total_length, e).
              let (e, ok) = malloc S e (total_length + 1)
              in if \<not> ok then Inr (None, e)
                 else and_then (require (length temp_string \<le> total_length)) (\<lambda>_.
                   Inr (Some temp_string, e))))"

subsection \<open>Memory the camera holds\<close>

definition held :: "camera \<Rightarrow> nat" where
  "held c = (if g_pcDataBuf c \<noteq> None then 1 else 0) + (if g_pstImageInfoEx2 c \<noteq> None then 1 else 0)"

definition buf_ok :: "camera \<Rightarrow> bool" where
  "buf_ok c \<longleftrightarrow> (\<forall>buf. g_pcDataBuf c = Some buf \<longrightarrow> length buf = unat (g_nMaxImageSize c))"

lemma sdk_call_blocks: "sdk_call f e = (e', r) \<Longrightarrow> e_blocks e' = e_blocks e"
  by (auto simp: sdk_call_def split: prod.splits)

lemma malloc_blocks: "malloc S e n = (e', ok) \<Longrightarrow> e_blocks e' = e_blocks e + (if ok then 1 else 0)"
  by (auto simp: malloc_def split: prod.splits)

lemma gb_blocks: "GB2312ToUTF8 S e src n = (r, dst, e') \<Longrightarrow> e_blocks e' = e_blocks e"
  by (auto simp: GB2312ToUTF8_def Let_def dest!: sdk_call_blocks split: prod.splits if_splits)

lemma free_block_blocks [simp]: "e_blocks (free_block e) = e_blocks e - 1"
  by (simp add: free_block_def)

text \<open>\<open>DeInitResources\<close> either stops at the first failing call and frees nothing, or frees all.\<close>

lemma DeInit_cases:
  assumes "DeInitResources S c e = (r, c', e')"
  obtains (stopped) "r = 0" "\<not> bIsNormalRun c'" "g_pcDataBuf c' = g_pcDataBuf c"
      "g_pstImageInfoEx2 c' = g_pstImageInfoEx2 c" "g_nMaxImageSize c' = g_nMaxImageSize c"
      "e_blocks e' = e_blocks e" "nRet c' \<noteq> MV_OK" "cam_handle c' = cam_handle c"
    | (released) "r = 1" "g_pcDataBuf c' = None" "g_pstImageInfoEx2 c' = None"
      "cam_handle c' = None" "e_blocks e' = e_blocks e - held c" "cam_mutex c' = MutexDestroyed"
  using assms
  by (auto simp: DeInitResources_def Let_def held_def dest!: sdk_call_blocks
      split: prod.splits if_splits)

lemma DeInit_keeps [preserved]:
  assumes "DeInitResources S c e = (r, c', e')" and "buf_ok c" and "e_blocks e = k + held c"
  shows "buf_ok c' \<and> e_blocks e' = k + held c'"
  using assms(1)
proof (cases rule: DeInit_cases)
  case stopped
  then show ?thesis
    using assms(2,3) by (simp_all add: buf_ok_def held_def)
next
  case released
  then show ?thesis
    using assms(3) by (simp_all add: buf_ok_def held_def)
qed

lemma image_size_blocks: "image_size S h e = Inr (rs, e') \<Longrightarrow> e_blocks e' = e_blocks e"
  by (auto simp: image_size_def Let_def and_then_Inr dest!: sdk_call_blocks
      split: prod.splits if_splits)

lemma InitResource_keeps [preserved]:
  assumes "InitResource S c h e = Inr (r, c', e')" and "held c = 0"
  shows "buf_ok c' \<and> e_blocks e' = e_blocks e + held c'
    \<and> (r = MV_OK \<longrightarrow> held c' = 2 \<and> cam_mutex c' = MutexFree)"
proof -
  have none: "g_pcDataBuf c = None" "g_pstImageInfoEx2 c = None"
    using assms(2) by (auto simp: held_def split: if_splits)
  obtain r1 sz e1 where i: "image_size S h e = Inr ((r1, sz), e1)"
    using assms(1) by (cases "image_size S h e") (auto simp: InitResource_def)
  note b1 = image_size_blocks [OF i]
  show ?thesis
  proof (cases "r1 = MV_OK")
    case False
    then obtain d where "DeInitResources S c e1 = (d, c', e')" "r = r1"
      using assms(1) i by (auto simp: InitResource_def split: prod.splits)
    then show ?thesis
      using DeInit_keeps [of S c e1 d c' e' "e_blocks e"] none b1 False
      by (auto simp: buf_ok_def held_def)
  next
    case True
    let ?c1 = "c\<lparr>g_nMaxImageSize := sz\<rparr>"
    obtain e2 ok2 where m2: "malloc S e1 (unat sz) = (e2, ok2)" by fastforce
    note b2 = malloc_blocks [OF m2]
    show ?thesis
    proof (cases ok2)
      case False
      then obtain d where "DeInitResources S (?c1\<lparr>g_pcDataBuf := None\<rparr>) e2 = (d, c', e')" "r = MV_E_RESOURCE"
        using assms(1) i m2 True by (auto simp: InitResource_def Let_def split: prod.splits)
      then show ?thesis
        using DeInit_keeps [of S "?c1\<lparr>g_pcDataBuf := None\<rparr>" e2 d c' e' "e_blocks e"] none b1 b2 False
        by (auto simp: buf_ok_def held_def MV_OK_def MV_E_RESOURCE_def)
    next
      case ok2: True
      let ?c2 = "?c1\<lparr>g_pcDataBuf := Some (replicate (unat sz) 0)\<rparr>"
      obtain e3 ok3 where m3: "malloc S e2 SIZEOF_IMAGE_OUT_INFO = (e3, ok3)" by fastforce
      note b3 = malloc_blocks [OF m3]
      show ?thesis
      proof (cases ok3)
        case False
        then obtain d where "DeInitResources S (?c2\<lparr>g_pstImageInfoEx2 := None\<rparr>) e3 = (d, c', e')"
          "r = MV_E_RESOURCE"
          using assms(1) i m2 m3 True ok2 by (auto simp: InitResource_def Let_def split: prod.splits)
        then show ?thesis
          using DeInit_keeps [of S "?c2\<lparr>g_pstImageInfoEx2 := None\<rparr>" e3 d c' e' "e_blocks e"] b1 b2 b3 False ok2
          by (auto simp: buf_ok_def held_def MV_OK_def MV_E_RESOURCE_def)
      next
        case ok3: True
        then show ?thesis
          using assms(1) i m2 m3 True ok2 b1 b2 b3
          by (auto simp: InitResource_def Let_def buf_ok_def held_def)
      qed
    qed
  qed
qed

lemma buf_ok_fields [simp]:
  "buf_ok (c\<lparr>nRet := r\<rparr>) = buf_ok c" "buf_ok (c\<lparr>cam_handle := h\<rparr>) = buf_ok c"
  "held (c\<lparr>nRet := r\<rparr>) = held c" "held (c\<lparr>cam_handle := h\<rparr>) = held c"
  by (simp_all add: buf_ok_def held_def)

subsection \<open>Frames\<close>

lemma store_frame_in_bounds:
  assumes "buf_ok c" and "unat (nFrameLen info) \<le> length pData"
  obtains c' where "store_frame c pData info = Inr c'" "buf_ok c'"
    "g_nMaxImageSize c' = g_nMaxImageSize c" "held c' = held c" "cam_mutex c' = cam_mutex c"
    "g_pstImageInfoEx2 c \<noteq> None \<Longrightarrow> g_pstImageInfoEx2 c' = Some info"
    "nFrameLen info < g_nMaxImageSize c \<Longrightarrow> g_pcDataBuf c \<noteq> None \<Longrightarrow>
       take (unat (nFrameLen info)) (the (g_pcDataBuf c')) = take (unat (nFrameLen info)) pData"
proof -
  define c1 where "c1 = (if g_pstImageInfoEx2 c \<noteq> None then c\<lparr>g_pstImageInfoEx2 := Some info\<rparr> else c)"
  have c1: "buf_ok c1" "g_nMaxImageSize c1 = g_nMaxImageSize c" "held c1 = held c"
    "cam_mutex c1 = cam_mutex c" "g_pcDataBuf c1 = g_pcDataBuf c"
    "g_pstImageInfoEx2 c \<noteq> None \<Longrightarrow> g_pstImageInfoEx2 c1 = Some info"
    using assms(1) by (auto simp: c1_def buf_ok_def held_def)
  let ?n = "unat (nFrameLen info)"
  have eq: "store_frame c pData info =
     (case g_pcDataBuf c1 of None \<Rightarrow> Inr c1
      | Some buf \<Rightarrow>
          if nFrameLen info < g_nMaxImageSize c1 then
            and_then (require (?n \<le> length pData \<and> ?n \<le> length buf))
              (\<lambda>_. Inr (c1\<lparr>g_pcDataBuf := Some (take ?n pData @ drop ?n buf)\<rparr>))
          else Inr c1)"
    by (simp only: store_frame_def Let_def c1_def)
  show ?thesis
  proof (cases "g_pcDataBuf c \<noteq> None \<and> nFrameLen info < g_nMaxImageSize c")
    case False
    then have "store_frame c pData info = Inr c1"
      using c1(2,5) by (auto simp: eq split: option.split)
    then show ?thesis using that [of c1] c1 False by blast
  next
    case True
    then obtain buf where buf: "g_pcDataBuf c = Some buf" "length buf = unat (g_nMaxImageSize c)"
      using assms(1) by (auto simp: buf_ok_def)
    let ?c2 = "c1\<lparr>g_pcDataBuf := Some (take ?n pData @ drop ?n buf)\<rparr>"
    have le: "?n \<le> length buf" using True buf(2) by (simp add: word_less_nat_alt)
    have "store_frame c pData info = Inr ?c2"
      using c1(2,5) buf(1) True le assms(2)
      by (simp add: eq)
    moreover have "buf_ok ?c2" using buf(2) le assms(2) c1(2) by (simp add: buf_ok_def min_def)
    moreover have "held ?c2 = held c" using c1(3,5) buf(1) by (simp add: held_def)
    moreover have "take ?n (the (g_pcDataBuf ?c2)) = take ?n pData" using assms(2) by simp
    ultimately show ?thesis using that [of ?c2] c1 by simp
  qed
qed

subsection \<open>The codes\<close>

lemma getData_turn:
  assumes "getData_loop S res i BI e = Inr x" and "i < unat (nCodeNum res)"
  obtains en e2 where "i < length (stBcrInfo res)" "i < length (bi_info BI)"
    "make_entry i (stBcrInfo res ! i) = Inr en" "e_blocks e2 = e_blocks e + 1"
    "getData_loop S res (Suc i)
       (BI\<lparr>bi_info := (bi_info BI)[i := Some en], bi_count := Some (ucast (nCodeNum res))\<rparr>) e2 = Inr x"
proof -
  obtain r dst e1 where g: "GB2312ToUTF8 S e (chCode (stBcrInfo res ! i)) MAX_BCR_LEN = (r, dst, e1)"
    by (cases "GB2312ToUTF8 S e (chCode (stBcrInfo res ! i)) MAX_BCR_LEN") auto
  obtain e2 ok where m: "malloc S e1 MAX_BCR_LEN = (e2, ok)" by fastforce
  have "i < length (stBcrInfo res)"
    using assms by (auto simp: getData_loop.simps [of S res i] split: if_splits)
  moreover from this have "\<exists>en. make_entry i (stBcrInfo res ! i) = Inr en \<and> i < length (bi_info BI) \<and> ok
      \<and> getData_loop S res (Suc i)
       (BI\<lparr>bi_info := (bi_info BI)[i := Some en], bi_count := Some (ucast (nCodeNum res))\<rparr>) e2 = Inr x"
    using assms g m
    by (auto simp: getData_loop.simps [of S res i] and_then_Inr require_Inr)
  moreover have "ok \<Longrightarrow> e_blocks e2 = e_blocks e + 1"
    using gb_blocks [OF g] malloc_blocks [OF m] by simp
  ultimately show thesis using that by blast
qed

lemma getData_loop_spec:
  assumes "getData_loop S res i BI e = Inr (BI', e')" and "length (bi_info BI) = MAX_BCR_INFO"
    and "i \<le> unat (nCodeNum res)"
  shows "length (bi_info BI') = MAX_BCR_INFO
    \<and> (i < unat (nCodeNum res) \<longrightarrow>
         unat (nCodeNum res) \<le> MAX_BCR_INFO \<and> bi_count BI' = Some (ucast (nCodeNum res)))
    \<and> (i = unat (nCodeNum res) \<longrightarrow> bi_count BI' = bi_count BI)
    \<and> (\<forall>j < unat (nCodeNum res). i \<le> j \<longrightarrow>
         (\<exists>en. make_entry j (stBcrInfo res ! j) = Inr en \<and> bi_info BI' ! j = Some en))
    \<and> (\<forall>j < i. bi_info BI' ! j = bi_info BI ! j)
    \<and> e_blocks e' = e_blocks e + (unat (nCodeNum res) - i)"
  using assms
proof (induction "unat (nCodeNum res) - i" arbitrary: i BI e)
  case 0
  then show ?case by (simp add: getData_loop.simps)
next
  case (Suc d)
  then have lt: "i < unat (nCodeNum res)" by simp
  obtain en e2 where s: "i < length (stBcrInfo res)" "i < length (bi_info BI)"
    "make_entry i (stBcrInfo res ! i) = Inr en" "e_blocks e2 = e_blocks e + 1"
    "getData_loop S res (Suc i)
       (BI\<lparr>bi_info := (bi_info BI)[i := Some en], bi_count := Some (ucast (nCodeNum res))\<rparr>) e2
       = Inr (BI', e')"
    by (rule getData_turn [OF Suc.prems(1) lt])
  have len: "length (bi_info (BI\<lparr>bi_info := (bi_info BI)[i := Some en],
      bi_count := Some (ucast (nCodeNum res))\<rparr>)) = MAX_BCR_INFO" using Suc.prems(2) by simp
  have d: "d = unat (nCodeNum res) - Suc i" using Suc.hyps(2) by simp
  note IH = Suc.hyps(1) [OF d s(5) len Suc_leI [OF lt]]
  then have at_i: "bi_info BI' ! i = Some en" using s(2) by simp
  have all: "\<forall>j < unat (nCodeNum res). i \<le> j \<longrightarrow>
       (\<exists>en. make_entry j (stBcrInfo res ! j) = Inr en \<and> bi_info BI' ! j = Some en)"
  proof (intro allI impI)
    fix j assume j: "j < unat (nCodeNum res)" "i \<le> j"
    show "\<exists>en. make_entry j (stBcrInfo res ! j) = Inr en \<and> bi_info BI' ! j = Some en"
    proof (cases "j = i")
      case True
      then show ?thesis using at_i s(3) by blast
    next
      case False
      then have "Suc i \<le> j" using j(2) by simp
      then show ?thesis using IH(1) j(1) by blast
    qed
  qed
  have cnt: "unat (nCodeNum res) \<le> MAX_BCR_INFO \<and> bi_count BI' = Some (ucast (nCodeNum res))"
    using IH s(2) lt Suc.prems(2) by (cases "Suc i < unat (nCodeNum res)") auto
  have keep: "\<forall>j < i. bi_info BI' ! j = bi_info BI ! j" using IH(1) by simp
  have "e_blocks e' = e_blocks e + (unat (nCodeNum res) - i)" using IH s(4) lt by simp
  then show ?case using IH(1) all cnt keep lt by simp
qed

lemma draw_all_some:
  "draw V ens img = Inr img' \<Longrightarrow> None \<notin> set ens"
  by (induction V ens img rule: draw.induct) auto

lemma getImage_frame:
  assumes "getImage S V c e = Inr (img, c', e')" and "nRet c' = MV_OK"
    and "GetOneFrame S (e_sdk e) (cam_handle c) = (s', r, pData, info)"
  shows "r = MV_OK \<and> cam_mutex c = MutexFree
    \<and> (\<exists>c1 BI n. store_frame (c\<lparr>nRet := r\<rparr>) pData info = Inr c1 \<and> c' = c1
        \<and> (\<exists>img1. decode_frame V c1 = Inr img1)
        \<and> getData S (pstCodeListEx2 info) (e\<lparr>e_sdk := s'\<rparr>) = Inr (BI, e')
        \<and> bi_count BI = Some n \<and> unat n \<le> length (bi_info BI))"
  using assms
  by (cases "cam_mutex c") (auto simp: getImage_def sdk_call_def Let_def and_then_Inr require_Inr
      split: if_splits option.splits)

lemma store_frame_info:
  "store_frame c pData info = Inr c' \<Longrightarrow>
     nRet c' = nRet c \<and> g_nMaxImageSize c' = g_nMaxImageSize c
     \<and> (g_pstImageInfoEx2 c' = (if g_pstImageInfoEx2 c = None then None else Some info))
     \<and> (g_pcDataBuf c' = None \<longleftrightarrow> g_pcDataBuf c = None)"
  by (auto simp: store_frame_def Let_def and_then_Inr split: if_splits option.splits)

lemma ucast_u8_small: "unat (n :: u32) \<le> 100 \<Longrightarrow> unat (ucast n :: u8) = unat n"
  by (simp add: unsigned_ucast_eq take_bit_nat_eq_self_iff)

subsection \<open>The string of a frame\<close>

text \<open>One turn of \<open>getString\<close> either skips the code or appends its text.\<close>

lemma getString_turn:
  assumes "getString_loop S res i temp n e = Inr x" and "i < unat (nCodeNum res)"
  obtains (skip) e2 where "getString_loop S res (Suc i) temp n e2 = Inr x" "e_blocks e2 = e_blocks e"
    | (append) s e2 where "length temp + length (code_text i s (nIDRScore (stBcrInfo res ! 0))) < MAX_BCR_LEN"
      "getString_loop S res (Suc i) (temp @ code_text i s (nIDRScore (stBcrInfo res ! 0)))
         (n + length (code_text i s (nIDRScore (stBcrInfo res ! 0)))) e2 = Inr x"
      "e_blocks e2 = e_blocks e"
proof -
  obtain r dst e1 where g: "GB2312ToUTF8 S e (chCode (stBcrInfo res ! i)) MAX_BCR_LEN = (r, dst, e1)"
    by (cases "GB2312ToUTF8 S e (chCode (stBcrInfo res ! i)) MAX_BCR_LEN") auto
  obtain e2 ok where m: "malloc S e1 MAX_BCR_LEN = (e2, ok)" by fastforce
  define str where "str = (case dst of None \<Rightarrow> replicate MAX_BCR_LEN 0 | Some d \<Rightarrow> d)"
  let ?out = "code_text i (c_string str) (nIDRScore (stBcrInfo res ! 0))"
  have b: "e_blocks e2 = e_blocks e + (if ok then 1 else 0)"
    using gb_blocks [OF g] malloc_blocks [OF m] by simp
  have "i < length (stBcrInfo res)"
    using assms by (auto simp: getString_loop.simps [of S res i] split: if_splits)
  then have eq: "getString_loop S res i temp n e =
     (if \<not> ok then getString_loop S res (Suc i) temp n e2
      else and_then (require (0 \<in> set str)) (\<lambda>_.
        if length ?out \<ge> MAX_BCR_LEN then getString_loop S res (Suc i) temp n (free_block e2)
        else and_then (require (length temp + length ?out < MAX_BCR_LEN)) (\<lambda>_.
          getString_loop S res (Suc i) (temp @ ?out) (n + length ?out) (free_block e2))))"
    using assms(2) by (subst getString_loop.simps) (simp add: g m Let_def str_def)
  show thesis
  proof (cases "ok \<and> length ?out < MAX_BCR_LEN")
    case True
    then have "length temp + length ?out < MAX_BCR_LEN"
      "getString_loop S res (Suc i) (temp @ ?out) (n + length ?out) (free_block e2) = Inr x"
      using assms(1) unfolding eq by (auto simp: and_then_Inr require_Inr)
    moreover have "e_blocks (free_block e2) = e_blocks e" using b True by simp
    ultimately show thesis by (rule append)
  next
    case False
    then have "getString_loop S res (Suc i) temp n (if ok then free_block e2 else e2) = Inr x"
      using assms(1) unfolding eq by (cases ok) (auto simp: and_then_Inr require_Inr)
    moreover have "e_blocks (if ok then free_block e2 else e2) = e_blocks e" using b by simp
    ultimately show thesis by (rule skip)
  qed
qed

definition texts :: "int \<Rightarrow> (nat \<times> bytes) list \<Rightarrow> bytes" where
  "texts score parts = concat (map (\<lambda>(i, s). code_text i s score) parts)"

lemma getString_loop_spec:
  assumes "getString_loop S res i temp (length temp) e = Inr (t, n, e')" and "length temp < MAX_BCR_LEN"
  shows "\<exists>parts. t = temp @ texts (nIDRScore (stBcrInfo res ! 0)) parts
    \<and> sorted_wrt (<) (map fst parts) \<and> set (map fst parts) \<subseteq> {i..<unat (nCodeNum res)}
    \<and> n = length t \<and> length t < MAX_BCR_LEN \<and> e_blocks e' = e_blocks e"
  using assms
proof (induction "unat (nCodeNum res) - i" arbitrary: i temp e)
  case 0
  then show ?case by (intro exI [of _ "[]"]) (auto simp: getString_loop.simps [of S res i] texts_def)
next
  case (Suc d)
  then have lt: "i < unat (nCodeNum res)" and d: "d = unat (nCodeNum res) - Suc i" by simp_all
  show ?case
    using Suc.prems(1) lt
  proof (cases rule: getString_turn)
    case (skip e2)
    obtain parts where "t = temp @ texts (nIDRScore (stBcrInfo res ! 0)) parts"
      "sorted_wrt (<) (map fst parts)" "set (map fst parts) \<subseteq> {Suc i..<unat (nCodeNum res)}"
      "n = length t" "length t < MAX_BCR_LEN" "e_blocks e' = e_blocks e2"
      using Suc.hyps(1) [OF d skip(1) Suc.prems(2)] by blast
    then show ?thesis
      using skip(2) by (intro exI [of _ parts]) (auto dest: subsetD)
  next
    case (append s e2)
    let ?o = "code_text i s (nIDRScore (stBcrInfo res ! 0))"
    have r: "getString_loop S res (Suc i) (temp @ ?o) (length (temp @ ?o)) e2 = Inr (t, n, e')"
      using append(2) by simp
    have l: "length (temp @ ?o) < MAX_BCR_LEN" using append(1) by simp
    obtain parts where p: "t = (temp @ ?o) @ texts (nIDRScore (stBcrInfo res ! 0)) parts"
      "sorted_wrt (<) (map fst parts)" "set (map fst parts) \<subseteq> {Suc i..<unat (nCodeNum res)}"
      "n = length t" "length t < MAX_BCR_LEN" "e_blocks e' = e_blocks e2"
      using Suc.hyps(1) [OF d r l] by blast
    moreover have "sorted_wrt (<) (map fst ((i, s) # parts))"
      using p(2,3) by (auto dest: subsetD)
    ultimately show ?thesis
      using append(3) lt by (intro exI [of _ "(i, s) # parts"]) (auto simp: texts_def dest: subsetD)
  qed
qed

subsection \<open>Properties\<close>

text \<open>Initialising a camera that holds no memory accounts for every block it takes: the blocks in
  use grow by what the object points to, the buffer has the recorded size, and a return value of
  1 means both buffers are there and every SDK call succeeded.\<close>
theorem init_accounts_for_memory:
  assumes "held c = 0" and "init S c e = Inr (r, c', e')"
  shows "e_blocks e' = e_blocks e + held c' \<and> buf_ok c'
    \<and> (r = 1 \<longrightarrow> held c' = 2 \<and> cam_mutex c' = MutexFree \<and> nRet c' = MV_OK) \<and> (r = 0 \<or> r = 1)"
proof -
  obtain e1 r1 dev where s1: "sdk_call (EnumDevices S) e = (e1, r1, dev)"
    by (cases "sdk_call (EnumDevices S) e") auto
  have ok0: "buf_ok c" using assms(1) by (auto simp: held_def buf_ok_def split: if_splits)
  show ?thesis
  proof (cases "r1 = MV_OK")
    case False
    then show ?thesis using assms s1 ok0 sdk_call_blocks [OF s1] by (auto simp: init_def)
  next
    case en: True
    obtain e2 r2 h where s2: "sdk_call (\<lambda>s. CreateHandle S s dev) e1 = (e2, r2, h)"
      by (cases "sdk_call (\<lambda>s. CreateHandle S s dev) e1") auto
    show ?thesis
    proof (cases "r2 = MV_OK")
      case False
      then show ?thesis
        using assms s1 s2 en ok0 sdk_call_blocks [OF s1] sdk_call_blocks [OF s2]
        by (auto simp: init_def)
    next
      case cr: True
      obtain e3 r3 where s3: "sdk_call (\<lambda>s. OpenDevice S s h) e2 = (e3, r3)" by fastforce
      let ?c3 = "c\<lparr>cam_handle := h, nRet := r3\<rparr>"
      obtain r4 c4 e4 where i: "InitResource S ?c3 h e3 = Inr (r4, c4, e4)"
        using assms(2) s1 s2 s3 en cr by (auto simp: init_def and_then_Inr)
      have k: "buf_ok c4 \<and> e_blocks e4 = e_blocks e3 + held c4
          \<and> (r4 = MV_OK \<longrightarrow> held c4 = 2 \<and> cam_mutex c4 = MutexFree)"
        by (rule InitResource_keeps [OF i]) (use assms(1) in simp)
      have b: "e_blocks e3 = e_blocks e"
        using sdk_call_blocks [OF s1] sdk_call_blocks [OF s2] sdk_call_blocks [OF s3] by simp
      obtain e5 r5 where s5: "sdk_call (\<lambda>s. SetEnumValue S s (cam_handle c4) ''TriggerMode'' 0) e4 = (e5, r5)"
        by fastforce
      obtain e6 r6 where s6: "sdk_call (\<lambda>s. StartGrabbing S s (cam_handle c4)) e5 = (e6, r6)" by fastforce
      have "(r, c', e') =
          (if r4 \<noteq> MV_OK then (0, c4\<lparr>nRet := r4\<rparr>, e4)
           else if r5 \<noteq> MV_OK then (0, c4\<lparr>nRet := r5\<rparr>, e5)
           else if r6 \<noteq> MV_OK then (0, c4\<lparr>nRet := r6\<rparr>, e6) else (1, c4\<lparr>nRet := r6\<rparr>, e6))"
        using assms(2) s1 s2 s3 s5 s6 en cr i by (auto simp: init_def Let_def split: if_splits)
      then show ?thesis
        using k b sdk_call_blocks [OF s5] sdk_call_blocks [OF s6] by (auto split: if_splits)
    qed
  qed
qed

text \<open>\<open>DeInitResources\<close> either succeeds and then holds no memory, no handle and has given every
  block back, or stops at the first SDK call that fails and frees nothing at all.\<close>
theorem release_is_all_or_nothing:
  assumes "DeInitResources S c e = (r, c', e')"
  shows "r = 1 \<and> held c' = 0 \<and> cam_handle c' = None \<and> e_blocks e' = e_blocks e - held c
    \<or> r = 0 \<and> held c' = held c \<and> cam_handle c' = cam_handle c \<and> e_blocks e' = e_blocks e
      \<and> \<not> bIsNormalRun c' \<and> nRet c' \<noteq> MV_OK"
  using assms by (cases rule: DeInit_cases) (auto simp: held_def)

text \<open>C9: Storing a frame stays inside both buffers: the length test against the recorded size keeps
  the copy in the image buffer, whatever length the frame announces, and a frame that fits is
  copied in full.\<close>
theorem frame_copy_in_bounds:
  assumes "buf_ok c" and "unat (nFrameLen info) \<le> length pData"
  shows "\<exists>c'. store_frame c pData info = Inr c' \<and> buf_ok c'
    \<and> (nFrameLen info < g_nMaxImageSize c \<and> g_pcDataBuf c \<noteq> None \<longrightarrow>
         take (unat (nFrameLen info)) (the (g_pcDataBuf c')) = take (unat (nFrameLen info)) pData)"
  by (rule store_frame_in_bounds [OF assms]) auto

text \<open>A frame larger than the buffer is not copied, but its length is recorded, so the decoder is
  then given more bytes than the buffer has.\<close>
theorem large_frame_read_past_end:
  assumes "buf_ok c" and "held c = 2" and "unat (g_nMaxImageSize c) < unat (nFrameLen info)"
  shows "\<exists>c'. store_frame c pData info = Inr c' \<and> decode_frame V c' = Inl UndefinedBehaviour"
proof -
  obtain buf info0 where b: "g_pcDataBuf c = Some buf" "g_pstImageInfoEx2 c = Some info0"
    using assms(2) by (auto simp: held_def split: if_splits)
  then have "length buf < unat (nFrameLen info)" using assms(1,3) by (simp add: buf_ok_def)
  then show ?thesis
    using b assms(3) by (simp add: store_frame_def decode_frame_def word_less_nat_alt)
qed

text \<open>\<open>getData\<close>, when it returns, has read between 0 and 100 codes; every entry is the one
  computed from the code at its index; the counter is set only when there is a code; and every
  code leaves one block of memory allocated for good.\<close>
theorem getData_entries_and_leak:
  assumes "getData S (Some res) e = Inr (BI, e')"
  shows "unat (nCodeNum res) \<le> MAX_BCR_INFO
    \<and> (\<forall>j < unat (nCodeNum res).
         \<exists>en. make_entry j (stBcrInfo res ! j) = Inr en \<and> bi_info BI ! j = Some en)
    \<and> bi_count BI = (if nCodeNum res = 0 then None else Some (ucast (nCodeNum res)))
    \<and> e_blocks e' = e_blocks e + unat (nCodeNum res)"
proof -
  have "getData_loop S res 0 fresh_BcrInfo e = Inr (BI, e')" using assms by (simp add: getData_def)
  moreover have "length (bi_info fresh_BcrInfo) = MAX_BCR_INFO" by (simp add: fresh_BcrInfo_def)
  ultimately have l: "length (bi_info BI) = MAX_BCR_INFO
    \<and> (0 < unat (nCodeNum res) \<longrightarrow>
         unat (nCodeNum res) \<le> MAX_BCR_INFO \<and> bi_count BI = Some (ucast (nCodeNum res)))
    \<and> (0 = unat (nCodeNum res) \<longrightarrow> bi_count BI = bi_count fresh_BcrInfo)
    \<and> (\<forall>j < unat (nCodeNum res). 0 \<le> j \<longrightarrow>
         (\<exists>en. make_entry j (stBcrInfo res ! j) = Inr en \<and> bi_info BI ! j = Some en))
    \<and> e_blocks e' = e_blocks e + (unat (nCodeNum res) - 0)"
    using getData_loop_spec by blast
  show ?thesis
  proof (cases "nCodeNum res = 0")
    case True
    then show ?thesis using l by (simp add: fresh_BcrInfo_def)
  next
    case False
    then have "0 < unat (nCodeNum res)" by (simp add: unat_gt_0)
    then show ?thesis using l False by simp
  qed
qed

text \<open>\<open>getImage\<close> returns normally from a frame it got only when the frame carries a list of 1 to
  100 codes and is no longer than the buffer: without a code the loop runs to a counter that was
  never written, with more than 100 the coordinates are written past their array.\<close>
theorem image_needs_codes:
  assumes "getImage S V c e = Inr (img, c', e')" and "nRet c' = MV_OK" and "buf_ok c"
    and "GetOneFrame S (e_sdk e) (cam_handle c) = (s', r, pData, info)"
  shows "\<exists>res. pstCodeListEx2 info = Some res
      \<and> 1 \<le> unat (nCodeNum res) \<and> unat (nCodeNum res) \<le> 100
      \<and> unat (nFrameLen info) \<le> unat (g_nMaxImageSize c)
      \<and> e_blocks e' = e_blocks e + unat (nCodeNum res)"
proof -
  obtain c1 BI n img1 where f: "store_frame (c\<lparr>nRet := r\<rparr>) pData info = Inr c1"
    "decode_frame V c1 = Inr img1"
    "getData S (pstCodeListEx2 info) (e\<lparr>e_sdk := s'\<rparr>) = Inr (BI, e')"
    "bi_count BI = Some n"
    using getImage_frame [OF assms(1,2,4)] by blast
  obtain res where res: "pstCodeListEx2 info = Some res"
    using f(3) by (cases "pstCodeListEx2 info") (auto simp: getData_def)
  have "getData_loop S res 0 fresh_BcrInfo (e\<lparr>e_sdk := s'\<rparr>) = Inr (BI, e')"
    using f(3) res by (simp add: getData_def)
  from getData_loop_spec [OF this] have g: "unat (nCodeNum res) \<noteq> 0 \<and> unat (nCodeNum res) \<le> 100
      \<and> e_blocks e' = e_blocks e + unat (nCodeNum res)"
    using f(4) by (cases "unat (nCodeNum res) = 0") (auto simp: fresh_BcrInfo_def MAX_BCR_INFO_def)
  have "unat (nFrameLen info) \<le> unat (g_nMaxImageSize c)"
  proof (rule ccontr)
    assume "\<not> unat (nFrameLen info) \<le> unat (g_nMaxImageSize c)"
    then have big: "\<not> nFrameLen info < g_nMaxImageSize c" "unat (g_nMaxImageSize c) < unat (nFrameLen info)"
      by (simp_all add: word_less_nat_alt)
    then have "g_pcDataBuf c1 = g_pcDataBuf c"
      using f(1) by (auto simp: store_frame_def Let_def split: option.splits if_splits)
    then show False
      using f(2) big store_frame_info [OF f(1)] assms(3)
      by (auto simp: decode_frame_def buf_ok_def and_then_Inr require_Inr
          split: option.splits if_splits)
  qed
  with res g show ?thesis by simp
qed

text \<open>The string \<open>getString\<close> returns is the concatenation of the texts of some of the frame's
  codes in their order, always shorter than 512 bytes; each text carries the score of the first
  code instead of its own; one block stays allocated, the result, which the caller must free.\<close>
theorem string_scores_from_first_code:
  assumes "getString S c e = Inr (Some t, e')"
    and "GetOneFrame S (e_sdk e) (cam_handle c) = (s', MV_OK, pData, info)"
  shows "\<exists>res parts. pstCodeListEx info = Some res
    \<and> t = texts (nIDRScore (stBcrInfo res ! 0)) parts
    \<and> sorted_wrt (<) (map fst parts) \<and> set (map fst parts) \<subseteq> {..<unat (nCodeNum res)}
    \<and> length t < MAX_BCR_LEN \<and> e_blocks e' = e_blocks e + 1"
proof -
  obtain res t1 n e1 where l: "pstCodeListEx info = Some res"
    "getString_loop S res 0 [] 0 (e\<lparr>e_sdk := s'\<rparr>) = Inr (t1, n, e1)"
    using assms by (auto simp: getString_def sdk_call_def and_then_Inr split: option.splits)
  obtain e2 ok where m: "malloc S e1 (n + 1) = (e2, ok)" by fastforce
  have "ok \<and> t1 = t \<and> e2 = e'"
    using assms l m by (auto simp: getString_def sdk_call_def and_then_Inr require_Inr split: if_splits)
  with l malloc_blocks [OF m] have r: "pstCodeListEx info = Some res"
    "getString_loop S res 0 [] 0 (e\<lparr>e_sdk := s'\<rparr>) = Inr (t, n, e1)"
    "e_blocks e' = e_blocks e1 + 1" by simp_all
  then have "getString_loop S res 0 [] (length []) (e\<lparr>e_sdk := s'\<rparr>) = Inr (t, n, e1)" by simp
  from getString_loop_spec [OF this] r show ?thesis
    by (auto simp: MAX_BCR_LEN_def atLeast0LessThan)
qed

subsection \<open>Witnesses\<close>

text \<open>An SDK where every call succeeds, frames of four bytes with one code \<open>AB\<close> of score 7, and an
  image that is the decoded bytes with the polygons drawn.\<close>

definition demo_code :: bcr_info where
  "demo_code = \<lparr>chCode = [0x41, 0x42], pt = [(0, 0), (4, 0), (4, 4), (0, 4)], nIDRScore = 7\<rparr>"

definition demo_result :: result_bcr where
  "demo_result = \<lparr>nCodeNum = 1, stBcrInfo = [demo_code]\<rparr>"

definition demo_info :: image_info where
  "demo_info = zero_info\<lparr>nFrameLen := 4, pstCodeListEx := Some demo_result,
                         pstCodeListEx2 := Some demo_result\<rparr>"

definition demo_sdk :: "unit sdk" where
  "demo_sdk =
     \<lparr>EnumDevices = (\<lambda>s. (s, MV_OK, Some 1)), CreateHandle = (\<lambda>s d. (s, MV_OK, Some 2)),
      OpenDevice = (\<lambda>s h. (s, MV_OK)), GetIntValue = (\<lambda>s h k. (s, MV_OK, 100)),
      SetEnumValue = (\<lambda>s h k v. (s, MV_OK)), StartGrabbing = (\<lambda>s h. (s, MV_OK)),
      StopGrabbing = (\<lambda>s h. (s, MV_OK)), CloseDevice = (\<lambda>s h. (s, MV_OK)),
      DestroyHandle = (\<lambda>s h. (s, MV_OK)),
      GetOneFrame = (\<lambda>s h. (s, MV_OK, [1, 2, 3, 4], demo_info)),
      malloc_ok = (\<lambda>s n. (s, True)), iconv_open = (\<lambda>s. (s, 3)),
      iconv = (\<lambda>s cd src n. (s, src, True))\<rparr>"

definition demo_vision :: "(bytes \<times> (int \<times> int) list list) vision" where
  "demo_vision =
     \<lparr>empty_mat = ([], []), imdecode = (\<lambda>b. (b, [])), resize_mat = Some, scale_point = (\<lambda>p. p),
      polylines = (\<lambda>(b, ps) p. (b, ps @ [p]))\<rparr>"

definition demo_env :: "unit env" where "demo_env = \<lparr>e_sdk = (), e_blocks = 10, e_cds = 0\<rparr>"

definition demo_camera :: camera where
  "demo_camera = new_camera\<lparr>cam_handle := Some 2, g_nMaxImageSize := 6,
     g_pcDataBuf := Some [0, 0, 0, 0, 0, 0], g_pstImageInfoEx2 := Some zero_info\<rparr>"

lemma demo_camera_ok: "buf_ok demo_camera" "held demo_camera = 2"
  by (simp_all add: demo_camera_def buf_ok_def held_def)

theorem init_accounts_for_memory_witness:
  "\<exists>c' e'. init demo_sdk new_camera demo_env = Inr (1, c', e') \<and> e_blocks e' = 12 \<and> held c' = 2"
proof -
  have "\<exists>c' e'. init demo_sdk new_camera demo_env = Inr (1, c', e')"
    by (simp add: init_def InitResource_def image_size_def demo_sdk_def sdk_call_def malloc_def
        demo_env_def new_camera_def Let_def)
  then obtain c' e' where i: "init demo_sdk new_camera demo_env = Inr (1, c', e')" by blast
  have "held new_camera = 0" by (simp add: held_def new_camera_def)
  from init_accounts_for_memory [OF this i] i show ?thesis by (simp add: demo_env_def)
qed

theorem release_is_all_or_nothing_witness:
  "\<exists>c' e'. DeInitResources demo_sdk demo_camera demo_env = (1, c', e')
     \<and> held c' = 0 \<and> e_blocks e' = 8"
proof -
  let ?d = "DeInitResources demo_sdk demo_camera demo_env"
  have e: "?d = (1, fst (snd ?d), snd (snd ?d))" by code_simp
  from release_is_all_or_nothing [OF e] e show ?thesis
    by (intro exI [of _ "fst (snd ?d)"] exI [of _ "snd (snd ?d)"])
      (simp add: demo_camera_ok demo_env_def)
qed

theorem frame_copy_in_bounds_witness:
  "\<exists>c'. store_frame demo_camera [1, 2, 3, 4] demo_info = Inr c' \<and> buf_ok c'
     \<and> take 4 (the (g_pcDataBuf c')) = [1, 2, 3, 4]"
  using frame_copy_in_bounds [OF demo_camera_ok(1), of demo_info "[1, 2, 3, 4]"]
  by (auto simp: demo_info_def demo_camera_def)

theorem large_frame_read_past_end_witness:
  "\<exists>c'. store_frame demo_camera [1, 2, 3, 4, 5, 6, 7, 8] (demo_info\<lparr>nFrameLen := 8\<rparr>) = Inr c'
     \<and> decode_frame demo_vision c' = Inl UndefinedBehaviour"
  by (rule large_frame_read_past_end [OF demo_camera_ok]) (simp add: demo_camera_def)

theorem getData_entries_and_leak_witness:
  "\<exists>BI e'. getData demo_sdk (Some demo_result) demo_env = Inr (BI, e')
     \<and> bi_count BI = Some 1 \<and> e_blocks e' = 11"
proof -
  let ?d = "getData demo_sdk (Some demo_result) demo_env"
  have e: "?d = Inr (fst (projr ?d), snd (projr ?d))" by code_simp
  from getData_entries_and_leak [OF e] e show ?thesis
    by (intro exI [of _ "fst (projr ?d)"] exI [of _ "snd (projr ?d)"])
      (simp add: demo_result_def demo_env_def)
qed

theorem image_needs_codes_witness:
  "\<exists>img c' e'. getImage demo_sdk demo_vision demo_camera demo_env = Inr (img, c', e')
     \<and> e_blocks e' = 11 \<and> snd img = [[(0, 0), (4, 0), (4, 4), (0, 4)]]"
proof -
  let ?d = "getImage demo_sdk demo_vision demo_camera demo_env"
  have e: "?d = Inr (fst (projr ?d), fst (snd (projr ?d)), snd (snd (projr ?d)))" by code_simp
  have n: "nRet (fst (snd (projr ?d))) = MV_OK" by code_simp
  have i: "snd (fst (projr ?d)) = [[(0, 0), (4, 0), (4, 4), (0, 4)]]" by code_simp
  have g: "GetOneFrame demo_sdk (e_sdk demo_env) (cam_handle demo_camera) = ((), MV_OK, [1, 2, 3, 4], demo_info)"
    by (simp add: demo_sdk_def)
  from image_needs_codes [OF e n demo_camera_ok(1) g] e i show ?thesis
    by (intro exI [of _ "fst (projr ?d)"] exI [of _ "fst (snd (projr ?d))"]
        exI [of _ "snd (snd (projr ?d))"]) (simp add: demo_info_def demo_result_def demo_env_def)
qed

theorem string_scores_from_first_code_witness:
  "\<exists>e'. getString demo_sdk demo_camera demo_env
       = Inr (Some [0x30, 0x3A, 0x41, 0x42, 0x3A, 0x37, 0x3B], e') \<and> e_blocks e' = 11"
proof -
  let ?d = "getString demo_sdk demo_camera demo_env"
  have e: "?d = Inr (Some [0x30, 0x3A, 0x41, 0x42, 0x3A, 0x37, 0x3B], snd (projr ?d))" by code_simp
  have g: "GetOneFrame demo_sdk (e_sdk demo_env) (cam_handle demo_camera) = ((), MV_OK, [1, 2, 3, 4], demo_info)"
    by (simp add: demo_sdk_def)
  from string_scores_from_first_code [OF e g]
  have b: "e_blocks (snd (projr ?d)) = e_blocks demo_env + 1" by blast
  have "e_blocks demo_env = 10" by (simp add: demo_env_def)
  then have "e_blocks demo_env + 1 = 11" by linarith
  then have "e_blocks (snd (projr ?d)) = 11" by (rule trans [OF b])
  with e show ?thesis by blast
qed

end
