(* ===== verification/SaveImage.thy ===== *)
theory SaveImage
  imports Camera
begin

text \<open>
  The saving tool \<open>SaveImage.cpp\<close>: the grabbing thread stores every frame in a global buffer, the
  main thread saves the last frame to a file when a key is pressed. The globals are the record
  \<open>desk\<close>; the mutex guards the buffer. Files, the clock and the device list are parameters, added
  to those of the camera. The critical sections of the two threads are single steps of each.
\<close>

subsection \<open>Parameters and globals\<close>

text \<open>A device: the SDK's pointer to it, its layer and what is printed of it.\<close>

record device_info =
  dev_id :: nat
  nTLayerType :: u32
  nCurrentIp :: u32
  gige_name :: string
  usb_name :: string

definition PixelType_Mono8 :: u32 where "PixelType_Mono8 = 0x01000000 OR push_bit 16 8 OR 0x0001"
definition PixelType_Jpeg :: u32 where "PixelType_Jpeg = 0x80000000 OR push_bit 16 24 OR 0x0001"

datatype image_type =
    Image_Undefined | Image_Mono8 | Image_Jpeg | Image_Bmp | Image_RGB24 | Image_Png | Image_Tif

record save_param =
  sp_pData :: bytes
  sp_nDataLen :: u32
  sp_enPixelType :: u32
  sp_nWidth :: u16
  sp_nHeight :: u16
  sp_nBufferSize :: u32
  sp_enImageType :: image_type
  sp_nJpgQuality :: u32

text \<open>
  \<open>SaveImage\<close> gives the return code, the image buffer it points the parameter to and the
  length it sets; \<open>stamp\<close> is the local time as \<open>sprintf\<close> prints it.
\<close>

record 's tool =
  base :: "'s sdk"
  SaveImage :: "'s \<Rightarrow> handle option \<Rightarrow> save_param \<Rightarrow> 's \<times> u32 \<times> bytes option \<times> u32"
  ListDevices :: "'s \<Rightarrow> 's \<times> u32 \<times> device_info option list"
  stamp :: "'s \<Rightarrow> 's \<times> string"
  fopen_ok :: "'s \<Rightarrow> string \<Rightarrow> 's \<times> bool"
  create_thread :: "'s \<Rightarrow> 's \<times> bool"
  join_thread :: "'s \<Rightarrow> 's \<times> bool"

record 's desk =
  s_bExit :: bool
  s_nMaxImageSize :: u32
  s_pstImageInfoEx2 :: "image_info option"
  s_pcDataBuf :: "bytes option"
  s_mutex :: pmutex
  s_env :: "'s env"
  s_files :: "string \<Rightarrow> bytes option"
  s_open_files :: nat

text \<open>Static storage is zero, which for a mutex is unlocked.\<close>

definition new_desk :: "'s env \<Rightarrow> 's desk" where
  "new_desk e =
     \<lparr>s_bExit = False, s_nMaxImageSize = 0, s_pstImageInfoEx2 = None, s_pcDataBuf = None,
      s_mutex = MutexFree, s_env = e, s_files = (\<lambda>_. None), s_open_files = 0\<rparr>"

definition desk_call :: "('s \<Rightarrow> 's \<times> 'r) \<Rightarrow> 's desk \<Rightarrow> 's desk \<times> 'r" where
  "desk_call f d = (let (e, r) = sdk_call f (s_env d) in (d\<lparr>s_env := e\<rparr>, r))"

definition lock_mutex :: "'s desk \<Rightarrow> 's desk outcome" where
  "lock_mutex d =
     (case s_mutex d of
        MutexFree \<Rightarrow> Inr (d\<lparr>s_mutex := MutexHeld\<rparr>)
      | MutexHeld \<Rightarrow> Inl Blocked
      | MutexDestroyed \<Rightarrow> Inl UndefinedBehaviour)"

definition unlock_mutex :: "'s desk \<Rightarrow> 's desk" where
  "unlock_mutex d = d\<lparr>s_mutex := MutexFree\<rparr>"

definition destroy_mutex :: "'s desk \<Rightarrow> 's desk outcome" where
  "destroy_mutex d =
     and_then (require (s_mutex d = MutexFree)) (\<lambda>_. Inr (d\<lparr>s_mutex := MutexDestroyed\<rparr>))"

definition take_block :: "'s desk \<Rightarrow> 's desk" where
  "take_block d = d\<lparr>s_env := (s_env d)\<lparr>e_blocks := e_blocks (s_env d) + 1\<rparr>\<rparr>"

definition give_block :: "'s desk \<Rightarrow> 's desk" where
  "give_block d = d\<lparr>s_env := free_block (s_env d)\<rparr>"

subsection \<open>Resources\<close>

definition desk_DeInitResources :: "'s desk \<Rightarrow> 's desk outcome" where
  "desk_DeInitResources d =
     (let d = (if s_pcDataBuf d \<noteq> None then (give_block d)\<lparr>s_pcDataBuf := None\<rparr> else d);
          d = (if s_pstImageInfoEx2 d \<noteq> None then (give_block d)\<lparr>s_pstImageInfoEx2 := None\<rparr> else d)
      in destroy_mutex d)"

text \<open>The handler of the exceptions: release, and return the local \<open>nRet\<close>.\<close>

definition desk_init_failed :: "u32 \<Rightarrow> 's desk \<Rightarrow> (u32 \<times> 's desk) outcome" where
  "desk_init_failed r d = and_then (desk_DeInitResources d) (\<lambda>d. Inr (r, d))"

definition desk_InitResource :: "'s tool \<Rightarrow> handle option \<Rightarrow> 's desk \<Rightarrow> (u32 \<times> 's desk) outcome" where
  "desk_InitResource T h d =
     and_then (image_size (base T) h (s_env d)) (\<lambda>((r, sz), e).
       let d = d\<lparr>s_env := e\<rparr>
       in if r \<noteq> MV_OK then desk_init_failed r d
          else
            let (e, ok) = malloc (base T) (s_env d) (unat sz);
                d = d\<lparr>s_nMaxImageSize := sz, s_env := e,
                      s_pcDataBuf := if ok then Some (replicate (unat sz) 0) else None\<rparr>
            in if \<not> ok then desk_init_failed MV_E_RESOURCE d
               else
                 let (e, ok) = malloc (base T) (s_env d) SIZEOF_IMAGE_OUT_INFO;
                     d = d\<lparr>s_env := e, s_pstImageInfoEx2 := if ok then Some zero_info else None\<rparr>
                 in if \<not> ok then desk_init_failed MV_E_RESOURCE d
                    else Inr (r, d\<lparr>s_mutex := MutexFree\<rparr>))"

subsection \<open>Saving\<close>

text \<open>Opening for writing truncates the file; the name is the time with the extension.\<close>

definition open_file :: "'s tool \<Rightarrow> string \<Rightarrow> 's desk \<Rightarrow> 's desk \<times> string option" where
  "open_file T ext d =
     (let (d, st) = desk_call (stamp T) d;
          fn = st @ ext;
          (d, ok) = desk_call (\<lambda>s. fopen_ok T s fn) d
      in if ok then (d\<lparr>s_files := (s_files d)(fn := Some []), s_open_files := s_open_files d + 1\<rparr>, Some fn)
         else (d, None))"

definition write_file :: "string \<Rightarrow> bytes option \<Rightarrow> nat \<Rightarrow> 's desk \<Rightarrow> 's desk outcome" where
  "write_file fn src n d =
     and_then (require (n = 0 \<or> src \<noteq> None \<and> n \<le> length (the src))) (\<lambda>_.
       Inr (d\<lparr>s_files := (s_files d)(fn := Some (if n = 0 then [] else take n (the src)))\<rparr>))"

definition close_file :: "'s desk \<Rightarrow> 's desk" where
  "close_file d = d\<lparr>s_open_files := s_open_files d - 1\<rparr>"

definition SaveRawImage :: "'s tool \<Rightarrow> 's desk \<Rightarrow> 's desk outcome" where
  "SaveRawImage T d =
     and_then (lock_mutex d) (\<lambda>d.
       if s_pcDataBuf d = None then Inr (unlock_mutex d)
       else
         case s_pstImageInfoEx2 d of
           None \<Rightarrow> Inl UndefinedBehaviour
         | Some info \<Rightarrow>
             if enPixelType info \<noteq> PixelType_Mono8 then Inr (unlock_mutex d)
             else
               case open_file T ''.raw'' d of
                 (d, None) \<Rightarrow> Inr (unlock_mutex d)
               | (d, Some fn) \<Rightarrow>
                   and_then (write_file fn (s_pcDataBuf d) (unat (nFrameLen info)) d) (\<lambda>d.
                     Inr (close_file (unlock_mutex d))))"

definition save_param_of :: "image_type \<Rightarrow> image_info \<Rightarrow> 's desk \<Rightarrow> save_param" where
  "save_param_of t info d =
     \<lparr>sp_pData = the (s_pcDataBuf d), sp_nDataLen = nFrameLen info, sp_enPixelType = enPixelType info,
      sp_nWidth = nWidth info, sp_nHeight = nHeight info, sp_nBufferSize = s_nMaxImageSize d,
      sp_enImageType = t, sp_nJpgQuality = 60\<rparr>"

text \<open>
  The conversion both other formats share: allocate the parameter block, let the SDK convert,
  write the file, unlock, free the block, close the file. When the file cannot be opened the
  function returns early.
\<close>

definition convert_and_save ::
  "'s tool \<Rightarrow> handle option \<Rightarrow> image_type \<Rightarrow> string \<Rightarrow> image_info \<Rightarrow> 's desk \<Rightarrow> 's desk outcome" where
  "convert_and_save T h t ext info d =
     (let d = take_block d;
          (d, nRet, pImageBuffer, nImageLen) = desk_call (\<lambda>s. SaveImage T s h (save_param_of t info d)) d
      in if nRet = MV_OK then
           case open_file T ext d of
             (d, None) \<Rightarrow> Inr (unlock_mutex d)
           | (d, Some fn) \<Rightarrow>
               and_then (write_file fn pImageBuffer (unat nImageLen) d) (\<lambda>d.
                 Inr (close_file (give_block (unlock_mutex d))))
         else Inr (give_block (unlock_mutex d)))"

definition SaveJPEGImage :: "'s tool \<Rightarrow> handle option \<Rightarrow> 's desk \<Rightarrow> 's desk outcome" where
  "SaveJPEGImage T h d =
     and_then (lock_mutex d) (\<lambda>d.
       if s_pcDataBuf d = None then Inr (unlock_mutex d)
       else
         case s_pstImageInfoEx2 d of
           None \<Rightarrow> Inl UndefinedBehaviour
         | Some info \<Rightarrow>
             if enPixelType info = PixelType_Jpeg then
               case open_file T ''.jpg'' d of
                 (d, None) \<Rightarrow> Inr (unlock_mutex d)
               | (d, Some fn) \<Rightarrow>
                   and_then (write_file fn (s_pcDataBuf d) (unat (nFrameLen info)) d) (\<lambda>d.
                     Inr (close_file d))
             else convert_and_save T h Image_Jpeg ''.jpg'' info d)"

definition SaveBMPImage :: "'s tool \<Rightarrow> handle option \<Rightarrow> 's desk \<Rightarrow> 's desk outcome" where
  "SaveBMPImage T h d =
     and_then (lock_mutex d) (\<lambda>d.
       if s_pcDataBuf d = None then Inr (unlock_mutex d)
       else
         case s_pstImageInfoEx2 d of
           None \<Rightarrow> Inl UndefinedBehaviour
         | Some info \<Rightarrow>
             if enPixelType info \<noteq> PixelType_Mono8 then Inr (unlock_mutex d)
             else convert_and_save T h Image_Bmp ''.bmp'' info d)"

subsection \<open>Keys\<close>

definition newline :: char where "newline = CHR 0x0A"

text \<open>The first loop reads up to a newline or the end of the input.\<close>

fun skip_line :: "string \<Rightarrow> string" where
  "skip_line [] = []"
| "skip_line (c # cs) = (if c = newline then cs else skip_line cs)"

definition press_key :: "'s tool \<Rightarrow> handle option \<Rightarrow> char \<Rightarrow> 's desk \<Rightarrow> 's desk outcome" where
  "press_key T h c d =
     (if c = CHR ''1'' then SaveRawImage T d
      else if c = CHR ''2'' then SaveJPEGImage T h d
      else if c = CHR ''3'' then SaveBMPImage T h d
      else Inr d)"

text \<open>
  The loop of \<open>PressEnterToExit\<close>: at the end of the input \<open>getchar\<close> gives \<open>EOF\<close> again and
  again, so not returning is a value, \<open>None\<close>.
\<close>

partial_function (option) wait_newline :: "string \<Rightarrow> string option" where
  "wait_newline cs =
     (case cs of [] \<Rightarrow> wait_newline [] | c # cs \<Rightarrow> if c = newline then Some cs else wait_newline cs)"

definition PressEnterToExit :: "string \<Rightarrow> 's desk \<Rightarrow> (string \<times> 's desk) option" where
  "PressEnterToExit cs d =
     (case wait_newline (skip_line cs) of
        None \<Rightarrow> None
      | Some cs \<Rightarrow> Some (cs, d\<lparr>s_bExit := True\<rparr>))"

subsection \<open>The list of devices\<close>

datatype printed =
    Null_device
  | Gige_device "nat \<times> nat \<times> nat \<times> nat" string
  | Usb_device string
  | Not_support

definition ip_octets :: "u32 \<Rightarrow> nat \<times> nat \<times> nat \<times> nat" where
  "ip_octets ip =
     (unat (drop_bit 24 (ip AND 0xff000000)), unat (drop_bit 16 (ip AND 0x00ff0000)),
      unat (drop_bit 8 (ip AND 0x0000ff00)), unat (ip AND 0x000000ff))"

definition PrintDeviceInfo :: "device_info option \<Rightarrow> bool \<times> printed" where
  "PrintDeviceInfo p =
     (case p of
        None \<Rightarrow> (False, Null_device)
      | Some i \<Rightarrow>
          (True, if nTLayerType i = 0x00000001 then Gige_device (ip_octets (nCurrentIp i)) (gige_name i)
                 else if nTLayerType i = 0x00000004 then Usb_device (usb_name i)
                 else Not_support))"

text \<open>The loop over the list stops at the first null pointer.\<close>

definition print_devices :: "device_info option list \<Rightarrow> printed list" where
  "print_devices ds = map (\<lambda>p. snd (PrintDeviceInfo p)) (takeWhile (\<lambda>p. p \<noteq> None) ds)"

text \<open>
  \<open>scanf\<close> with \<open>%d\<close>: white space, a sign, decimal digits. Without a digit the index keeps its
  value 0; a number outside \<open>int\<close> is undefined.
\<close>

definition is_space :: "char \<Rightarrow> bool" where
  "is_space c \<longleftrightarrow> c = CHR '' '' \<or> (of_char c :: nat) \<in> {9..13}"

definition is_digit :: "char \<Rightarrow> bool" where
  "is_digit c \<longleftrightarrow> (of_char c :: nat) \<in> {48..57}"

definition digits_value :: "string \<Rightarrow> int" where
  "digits_value cs = foldl (\<lambda>n c. 10 * n + (int (of_char c) - 48)) 0 cs"

definition scan_index :: "string \<Rightarrow> (u32 \<times> string) outcome" where
  "scan_index cs =
     (let cs = dropWhile is_space cs;
          minus = (cs \<noteq> [] \<and> hd cs = CHR ''-'');
          cs = (if cs \<noteq> [] \<and> (hd cs = CHR ''-'' \<or> hd cs = CHR ''+'') then tl cs else cs);
          ds = takeWhile is_digit cs;
          v = (if minus then - digits_value ds else digits_value ds)
      in if ds = [] then Inr (0, cs)
         else and_then (require (in_int v)) (\<lambda>_. Inr (word_of_int v, dropWhile is_digit cs)))"

subsection \<open>What the operations change\<close>

text \<open>
  \<open>calm\<close>: between critical sections the mutex is free and no file is open. \<open>same_frame\<close>: the
  buffer, its size and the information of the frame are untouched.
\<close>

definition calm :: "'s desk \<Rightarrow> bool" where
  "calm d \<longleftrightarrow> s_mutex d = MutexFree \<and> s_open_files d = 0"

definition same_frame :: "'s desk \<Rightarrow> 's desk \<Rightarrow> bool" where
  "same_frame d d' \<longleftrightarrow> s_pcDataBuf d' = s_pcDataBuf d \<and> s_pstImageInfoEx2 d' = s_pstImageInfoEx2 d
     \<and> s_nMaxImageSize d' = s_nMaxImageSize d \<and> s_bExit d' = s_bExit d"

text \<open>A desk that holds a frame: a buffer of the recorded size, a frame that lies in it and is not JPEG.\<close>

definition stocked :: "'s desk \<Rightarrow> bool" where
  "stocked d \<longleftrightarrow>
     (case (s_pcDataBuf d, s_pstImageInfoEx2 d) of
        (Some buf, Some info) \<Rightarrow>
          length buf = unat (s_nMaxImageSize d) \<and> unat (nFrameLen info) \<le> length buf
          \<and> enPixelType info \<noteq> PixelType_Jpeg
      | _ \<Rightarrow> False)"

lemma stockedE:
  assumes "stocked d"
  obtains buf info where "s_pcDataBuf d = Some buf" "s_pstImageInfoEx2 d = Some info"
    "length buf = unat (s_nMaxImageSize d)" "unat (nFrameLen info) \<le> length buf"
    "enPixelType info \<noteq> PixelType_Jpeg"
  using assms by (auto simp: stocked_def split: option.splits)

lemma stocked_same: "\<lbrakk>stocked d; same_frame d d'\<rbrakk> \<Longrightarrow> stocked d'"
  by (auto simp: stocked_def same_frame_def split: option.splits)

lemma same_frame_refl [simp]: "same_frame d d"
  by (simp add: same_frame_def)

lemma desk_call_keeps:
  assumes "desk_call f d = (d', r)"
  shows "same_frame d d' \<and> s_mutex d' = s_mutex d \<and> s_open_files d' = s_open_files d
    \<and> s_files d' = s_files d"
  using assms by (auto simp: desk_call_def same_frame_def split: prod.splits)

lemma lock_mutex_calm [simp]: "calm d \<Longrightarrow> lock_mutex d = Inr (d\<lparr>s_mutex := MutexHeld\<rparr>)"
  by (simp add: calm_def lock_mutex_def)

lemma lock_mutex_held [simp]: "s_mutex d = MutexHeld \<Longrightarrow> lock_mutex d = Inl Blocked"
  by (simp add: lock_mutex_def)

lemma mutex_ops [simp]:
  "s_mutex (unlock_mutex d) = MutexFree" "s_open_files (unlock_mutex d) = s_open_files d"
  "same_frame d0 (unlock_mutex d) = same_frame d0 d"
  "same_frame d0 (close_file d) = same_frame d0 d" "s_mutex (close_file d) = s_mutex d"
  "s_open_files (close_file d) = s_open_files d - 1"
  "same_frame d0 (give_block d) = same_frame d0 d" "s_mutex (give_block d) = s_mutex d"
  "s_open_files (give_block d) = s_open_files d"
  "same_frame d0 (take_block d) = same_frame d0 d" "s_mutex (take_block d) = s_mutex d"
  "s_open_files (take_block d) = s_open_files d"
  "same_frame d0 (d\<lparr>s_mutex := m\<rparr>) = same_frame d0 d"
  by (simp_all add: unlock_mutex_def same_frame_def close_file_def give_block_def take_block_def)

lemma open_file_keeps:
  assumes "open_file T ext d = (d', r)"
  shows "same_frame d d'" "s_mutex d' = s_mutex d"
    "s_open_files d' = s_open_files d + (if r = None then 0 else 1)"
  using assms by (auto simp: open_file_def Let_def same_frame_def split: prod.splits if_splits
      dest!: desk_call_keeps)

lemma write_file_keeps:
  assumes "write_file fn src n d = Inr d'"
  shows "same_frame d d'" "s_mutex d' = s_mutex d" "s_open_files d' = s_open_files d"
  using assms by (auto simp: write_file_def and_then_Inr same_frame_def)

lemma same_frame_trans: "\<lbrakk>same_frame d d'; same_frame d' d''\<rbrakk> \<Longrightarrow> same_frame d d''"
  by (simp add: same_frame_def)

text \<open>
  What a saver can write: the source of the bytes, null only for no bytes, holds as many as are
  written.
\<close>

definition enough :: "bytes option \<Rightarrow> nat \<Rightarrow> bool" where
  "enough src n \<longleftrightarrow> n = 0 \<or> src \<noteq> None \<and> n \<le> length (the src)"

lemma write_file_enough:
  assumes "enough src n"
  obtains d' where "write_file fn src n d = Inr d'"
  using assms by (auto simp: write_file_def enough_def)

text \<open>The savers share their last part: open the file, write it, unlock and close.\<close>

lemma save_rest:
  assumes "s_open_files d = 0" and "same_frame d0 d"
    and "\<And>d'. same_frame d d' \<Longrightarrow> enough (src d') n"
    and rest: "\<And>d'. s_mutex (G d') = s_mutex d' \<and> s_open_files (G d') = s_open_files d' - 1
      \<and> same_frame d' (G d')"
  shows "\<exists>d'. (case open_file T ext d of
             (d, None) \<Rightarrow> Inr (unlock_mutex d)
           | (d, Some fn) \<Rightarrow>
               and_then (write_file fn (src d) n d) (\<lambda>d. Inr (G (unlock_mutex d)))) = Inr d'
         \<and> calm d' \<and> same_frame d0 d'"
proof -
  obtain d1 r where o: "open_file T ext d = (d1, r)" by (cases "open_file T ext d")
  note o1 = open_file_keeps [OF o]
  show ?thesis
  proof (cases r)
    case None
    then show ?thesis using o o1 assms(1,2) same_frame_trans by (fastforce simp: calm_def)
  next
    case (Some fn)
    obtain d2 where w: "write_file fn (src d1) n d1 = Inr d2"
      using write_file_enough [OF assms(3) [OF o1(1)]] .
    note w1 = write_file_keeps [OF w]
    have "same_frame d0 (unlock_mutex d2)"
      using same_frame_trans [OF same_frame_trans [OF assms(2) o1(1)] w1(1)] by simp
    then have "same_frame d0 (G (unlock_mutex d2))" using rest same_frame_trans by blast
    moreover have "calm (G (unlock_mutex d2))"
      using rest w1 o1 assms(1) Some by (simp add: calm_def)
    ultimately show ?thesis using o w Some by simp
  qed
qed

definition good_images :: "'s tool \<Rightarrow> bool" where
  "good_images T \<longleftrightarrow>
     (\<forall>s h p. case SaveImage T s h p of (s', r, img, n) \<Rightarrow> r = MV_OK \<longrightarrow> enough img (unat n))"

lemma good_imagesD: "\<lbrakk>good_images T; SaveImage T s h p = (s', MV_OK, img, n)\<rbrakk> \<Longrightarrow> enough img (unat n)"
  unfolding good_images_def by (metis (mono_tags, lifting) case_prod_conv)

lemma convert_and_save_total:
  assumes "good_images T" and "s_open_files d = 0" and "same_frame d0 d"
  shows "\<exists>d'. convert_and_save T h t ext info d = Inr d' \<and> calm d' \<and> same_frame d0 d'"
proof -
  let ?d = "take_block d"
  obtain d1 r img n where c: "desk_call (\<lambda>s. SaveImage T s h (save_param_of t info ?d)) ?d = (d1, r, img, n)"
    by (metis prod.exhaust)
  note k = desk_call_keeps [OF c]
  have f: "same_frame d0 d1" and z: "s_open_files d1 = 0"
    using k assms(2,3) same_frame_trans [of d0 d d1] by (simp_all add: take_block_def same_frame_def)
  show ?thesis
  proof (cases "r = MV_OK")
    case True
    obtain s' where "SaveImage T (e_sdk (s_env ?d)) h (save_param_of t info ?d) = (s', MV_OK, img, n)"
      using c True by (auto simp: desk_call_def sdk_call_def split: prod.splits)
    then have "enough img (unat n)" using good_imagesD [OF assms(1)] by blast
    then show ?thesis
      using save_rest [OF z f, of "\<lambda>_. img" "unat n" "\<lambda>d. close_file (give_block d)" T ext] c True by (simp add: convert_and_save_def)
  next
    case False
    then show ?thesis using c z f by (simp add: convert_and_save_def calm_def)
  qed
qed

text \<open>A key press with a frame that is not JPEG: it comes back, and the mutex is free again.\<close>

lemma press_key_total:
  assumes "good_images T" and "calm d" and "stocked d"
  shows "\<exists>d'. press_key T h c d = Inr d' \<and> calm d' \<and> same_frame d d'"
proof -
  obtain buf info where b: "s_pcDataBuf d = Some buf" "s_pstImageInfoEx2 d = Some info"
    "unat (nFrameLen info) \<le> length buf" "enPixelType info \<noteq> PixelType_Jpeg"
    using stockedE [OF assms(3)] .
  let ?d = "d\<lparr>s_mutex := MutexHeld\<rparr>"
  have l: "lock_mutex d = Inr ?d" and z: "s_open_files ?d = 0" and f: "same_frame d ?d"
    using assms(2) by (simp_all add: calm_def)
  have e: "enough (s_pcDataBuf d') (unat (nFrameLen info))" if "same_frame ?d d'" for d'
    using b that by (simp add: enough_def same_frame_def)
  have u: "calm (unlock_mutex ?d) \<and> same_frame d (unlock_mutex ?d)" using z by (simp add: calm_def)
  have raw: "\<exists>d'. SaveRawImage T d = Inr d' \<and> calm d' \<and> same_frame d d'"
    using l b u save_rest [OF z f, of s_pcDataBuf "unat (nFrameLen info)" close_file T "''.raw''"] e by (simp add: SaveRawImage_def)
  have jpg: "\<exists>d'. SaveJPEGImage T h d = Inr d' \<and> calm d' \<and> same_frame d d'"
    using l b convert_and_save_total [OF assms(1) z f] by (simp add: SaveJPEGImage_def)
  have bmp: "\<exists>d'. SaveBMPImage T h d = Inr d' \<and> calm d' \<and> same_frame d d'"
    using l b u convert_and_save_total [OF assms(1) z f] by (simp add: SaveBMPImage_def)
  show ?thesis using raw jpg bmp assms(2) by (simp add: press_key_def)
qed

subsection \<open>Two failures\<close>

text \<open>When the file of a converted image cannot be opened, the parameter block stays allocated.\<close>

lemma open_failure_leaks_block:
  assumes "SaveImage T (e_sdk (s_env d)) h (save_param_of t info (take_block d)) = (s', MV_OK, img, n)"
    and "\<And>s fn. \<not> snd (fopen_ok T s fn)"
  shows "\<exists>d'. convert_and_save T h t ext info d = Inr d'
    \<and> e_blocks (s_env d') = e_blocks (s_env d) + 1"
  using assms by (auto simp: convert_and_save_def desk_call_def sdk_call_def take_block_def
      unlock_mutex_def open_file_def Let_def split: prod.splits) (metis snd_conv)+

text \<open>
  A frame longer than the buffer is not copied, but its length is recorded; saving then reads
  past the end of the buffer.
\<close>

lemma large_frame_overread:
  assumes "calm d" and "s_pcDataBuf d = Some buf" and "length buf = unat (s_nMaxImageSize d)"
    and "s_pstImageInfoEx2 d = Some info" and "s_nMaxImageSize d < nFrameLen info"
    and "enPixelType info = PixelType_Mono8" and "\<And>s fn. snd (fopen_ok T s fn)"
  shows "SaveRawImage T d = Inl UndefinedBehaviour"
proof -
  obtain d1 r where o: "open_file T ''.raw'' (d\<lparr>s_mutex := MutexHeld\<rparr>) = (d1, r)"
    by (cases "open_file T ''.raw'' (d\<lparr>s_mutex := MutexHeld\<rparr>)")
  have "r \<noteq> None" using o assms(7)
    by (auto simp: open_file_def desk_call_def sdk_call_def Let_def split: prod.splits if_splits)
      (metis snd_conv)+
  moreover have "s_pcDataBuf d1 = Some buf"
    using open_file_keeps(1) [OF o] assms(2) by (simp add: same_frame_def)
  moreover have "unat (nFrameLen info) > length buf"
    using assms(3,5) by (simp add: word_less_nat_alt)
  ultimately show ?thesis
    using o assms(1,2,4,6) by (auto simp: SaveRawImage_def write_file_def)
qed

subsection \<open>Keys and octets\<close>

lemma wait_newline_simps [simp]:
  "wait_newline (c # cs) = (if c = newline then Some cs else wait_newline cs)"
  by (simp add: wait_newline.simps)

lemma wait_newline_Some: "wait_newline cs = Some r \<Longrightarrow> newline \<in> set cs"
  by (rule wait_newline.raw_induct [of "\<lambda>cs _. newline \<in> set cs"])
    (fastforce split: list.splits if_splits)

lemma newline_wait: "newline \<in> set cs \<Longrightarrow> \<exists>r. wait_newline cs = Some r"
  by (induction cs) auto

lemma octet: "drop_bit n (ip AND push_bit n (mask 8)) = take_bit 8 (drop_bit n ip)" for ip :: u32
  by (rule bit_word_eqI) (auto simp: bit_simps dest: bit_imp_le_length)

lemma base_256:
  "n = ((n div 2 ^ 24 * 256 + n div 2 ^ 16 mod 256) * 256 + n div 2 ^ 8 mod 256) * 256 + n mod 256"
  for n :: nat
proof -
  have "n div 2 ^ 16 = n div 256 div 256" "n div 2 ^ 24 = n div 256 div 256 div 256"
    by (simp_all add: div_mult2_eq [symmetric])
  then show ?thesis by simp
qed

lemma ip_octets_recombine:
  "case ip_octets ip of (a, b, c, d) \<Rightarrow>
     a < 256 \<and> b < 256 \<and> c < 256 \<and> d < 256 \<and> unat ip = ((a * 256 + b) * 256 + c) * 256 + d"
proof -
  have o: "drop_bit 24 (ip AND 0xff000000) = take_bit 8 (drop_bit 24 ip)"
    "drop_bit 16 (ip AND 0x00ff0000) = take_bit 8 (drop_bit 16 ip)"
    "drop_bit 8 (ip AND 0x0000ff00) = take_bit 8 (drop_bit 8 ip)"
    "ip AND 0x000000ff = take_bit 8 ip"
    using octet [of 24 ip] octet [of 16 ip] octet [of 8 ip] octet [of 0 ip] by (simp_all add: mask_eq_exp_minus_1)
  have "unat ip < 2 ^ 32" using unsigned_less [of ip] by simp
  then have "unat ip div 2 ^ 24 < 256" by (simp add: less_mult_imp_div_less)
  then have "unat (drop_bit 24 (ip AND 0xff000000)) = unat ip div 2 ^ 24"
    "unat (drop_bit 16 (ip AND 0x00ff0000)) = unat ip div 2 ^ 16 mod 256"
    "unat (drop_bit 8 (ip AND 0x0000ff00)) = unat ip div 2 ^ 8 mod 256"
    "unat (ip AND 0x000000ff) = unat ip mod 256"
    unfolding o unsigned_take_bit_eq unat_drop_bit_eq
    by (simp_all add: take_bit_eq_mod drop_bit_eq_div)
  then show ?thesis
    using base_256 [of "unat ip"] \<open>unat ip div 2 ^ 24 < 256\<close> by (simp add: ip_octets_def)
qed

end
