(* ===== verification/SaveSession.thy ===== *)
theory SaveSession
  imports SaveImage
begin

text \<open>
  The whole saving tool: \<open>main\<close> of \<open>SaveImage.cpp\<close>, the grabbing thread and the thread that
  reads keys. The two threads are interleaved by a schedule; a critical section, from the lock to
  the unlock, is one step. A thread that waits for the mutex stays where it is.
\<close>

subsection \<open>The threads\<close>

text \<open>The copy of a frame into the globals, under the mutex.\<close>

definition keep_frame :: "bytes \<Rightarrow> image_info \<Rightarrow> 's desk \<Rightarrow> 's desk outcome" where
  "keep_frame pData stImageInfo d =
     and_then (lock_mutex d) (\<lambda>d.
       let d = (if s_pstImageInfoEx2 d \<noteq> None then d\<lparr>s_pstImageInfoEx2 := Some stImageInfo\<rparr> else d);
           n = unat (nFrameLen stImageInfo)
       in case s_pcDataBuf d of
            None \<Rightarrow> Inr (unlock_mutex d)
          | Some buf \<Rightarrow>
              if nFrameLen stImageInfo < s_nMaxImageSize d then
                and_then (require (n \<le> length pData \<and> n \<le> length buf)) (\<lambda>_.
                  Inr (unlock_mutex (d\<lparr>s_pcDataBuf := Some (take n pData @ drop n buf)\<rparr>)))
              else Inr (unlock_mutex d))"

text \<open>The grabbing thread is at the top of its loop, at the lock with a frame, or done.\<close>

datatype grab_at = Polling | Holding bytes image_info | Grab_done

datatype main_at = Keys string | Joining string

record 's session =
  ss_desk :: "'s desk"
  ss_grab :: grab_at
  ss_main :: main_at

definition grab_turn :: "'s tool \<Rightarrow> handle option \<Rightarrow> 's session \<Rightarrow> 's session outcome" where
  "grab_turn T h ss =
     (case ss_grab ss of
        Polling \<Rightarrow>
          if s_bExit (ss_desk ss) then Inr (ss\<lparr>ss_grab := Grab_done\<rparr>)
          else
            let (d, r, pData, stImageInfo) = desk_call (\<lambda>s. GetOneFrame (base T) s h) (ss_desk ss)
            in Inr (ss\<lparr>ss_desk := d, ss_grab := if r = MV_OK then Holding pData stImageInfo else Polling\<rparr>)
      | Holding pData stImageInfo \<Rightarrow>
          (case keep_frame pData stImageInfo (ss_desk ss) of
             Inr d \<Rightarrow> Inr (ss\<lparr>ss_desk := d, ss_grab := Polling\<rparr>)
           | Inl Blocked \<Rightarrow> Inr ss
           | Inl e \<Rightarrow> Inl e)
      | Grab_done \<Rightarrow> Inr ss)"

text \<open>The second loop of \<open>HandleKeyPress\<close>; at the end of the input it spins for ever.\<close>

definition key_turn :: "'s tool \<Rightarrow> handle option \<Rightarrow> 's session \<Rightarrow> 's session outcome" where
  "key_turn T h ss =
     (case ss_main ss of
        Keys [] \<Rightarrow> Inr ss
      | Keys (c # cs) \<Rightarrow>
          if c = newline then Inr (ss\<lparr>ss_desk := (ss_desk ss)\<lparr>s_bExit := True\<rparr>, ss_main := Joining cs\<rparr>)
          else
            (case press_key T h c (ss_desk ss) of
               Inr d \<Rightarrow> Inr (ss\<lparr>ss_desk := d, ss_main := Keys cs\<rparr>)
             | Inl Blocked \<Rightarrow> Inr ss
             | Inl e \<Rightarrow> Inl e)
      | Joining _ \<Rightarrow> Inr ss)"

datatype turn = Key_turn | Grab_turn

fun session_run ::
  "'s tool \<Rightarrow> handle option \<Rightarrow> turn list \<Rightarrow> 's session \<Rightarrow> 's session outcome" where
  "session_run T h [] ss = Inr ss"
| "session_run T h (t # ts) ss =
     and_then (case t of Key_turn \<Rightarrow> key_turn T h ss | Grab_turn \<Rightarrow> grab_turn T h ss)
       (session_run T h ts)"

subsection \<open>\<open>main\<close>\<close>

text \<open>
  From the list of devices to the start of the thread. The result tells whether the thread runs,
  and gives the handle and the rest of the input.
\<close>

definition setup_open ::
  "'s tool \<Rightarrow> handle option \<Rightarrow> string \<Rightarrow> 's desk \<Rightarrow> ((bool \<times> handle option \<times> string) \<times> 's desk) outcome"
  where
  "setup_open T h inp d =
     (let (d, r) = desk_call (\<lambda>s. OpenDevice (base T) s h) d
      in if r \<noteq> MV_OK then Inr ((False, h, inp), d)
         else and_then (desk_InitResource T h d) (\<lambda>(r, d).
           if r \<noteq> MV_OK then Inr ((False, h, inp), d)
           else
             let (d, r) = desk_call (\<lambda>s. SetEnumValue (base T) s h ''TriggerMode'' 0) d
             in if r \<noteq> MV_OK then Inr ((False, h, inp), d)
                else
                  let (d, r) = desk_call (\<lambda>s. StartGrabbing (base T) s h) d
                  in if r \<noteq> MV_OK then Inr ((False, h, inp), d)
                     else
                       let (d, ok) = desk_call (create_thread T) d
                       in Inr ((ok, h, inp), d)))"

definition setup_tool ::
  "'s tool \<Rightarrow> string \<Rightarrow> 's desk \<Rightarrow> ((bool \<times> handle option \<times> string) \<times> 's desk) outcome" where
  "setup_tool T inp d =
     (let (d, r, ds) = desk_call (ListDevices T) d
      in if r \<noteq> MV_OK \<or> ds = [] then Inr ((False, None, inp), d)
         else and_then (scan_index inp) (\<lambda>(nIndex, inp).
           if length ds \<le> unat nIndex then Inr ((False, None, inp), d)
           else
             let (d, r, h) = desk_call (\<lambda>s. CreateHandle (base T) s (map_option dev_id (ds ! unat nIndex))) d
             in if r \<noteq> MV_OK then Inr ((False, h, inp), d) else setup_open T h inp d))"

text \<open>After the loop over keys: join, stop, close and destroy, the first failure ends it.\<close>

definition teardown :: "'s tool \<Rightarrow> handle option \<Rightarrow> 's desk \<Rightarrow> (bool \<times> handle option) \<times> 's desk" where
  "teardown T h d =
     (let (d, ok) = desk_call (join_thread T) d
      in if \<not> ok then ((False, h), d)
         else let (d, r) = desk_call (\<lambda>s. StopGrabbing (base T) s h) d
         in if r \<noteq> MV_OK then ((False, h), d)
            else let (d, r) = desk_call (\<lambda>s. CloseDevice (base T) s h) d
            in if r \<noteq> MV_OK then ((False, h), d)
               else let (d, r) = desk_call (\<lambda>s. DestroyHandle (base T) s h) d
               in if r \<noteq> MV_OK then ((False, h), d) else ((True, None), d))"

text \<open>
  The end of \<open>main\<close>: a handle that is left is closed and destroyed, the resources are released,
  after a failed teardown Enter is awaited. \<open>None\<close> is a program that does not return.
\<close>

definition close_left :: "'s tool \<Rightarrow> handle option \<Rightarrow> 's desk \<Rightarrow> 's desk" where
  "close_left T h d =
     (if h \<noteq> None then
        let (d, _) = desk_call (\<lambda>s. CloseDevice (base T) s h) d;
            (d, _) = desk_call (\<lambda>s. DestroyHandle (base T) s h) d
        in d
      else d)"

definition finish :: "'s tool \<Rightarrow> bool \<Rightarrow> handle option \<Rightarrow> string \<Rightarrow> 's desk \<Rightarrow> 's desk option outcome" where
  "finish T normal h inp d =
     and_then (desk_DeInitResources (close_left T h d)) (\<lambda>d.
       Inr (if normal then Some d else map_option snd (PressEnterToExit inp d)))"

definition start_session :: "string \<Rightarrow> 's desk \<Rightarrow> 's session" where
  "start_session inp d = \<lparr>ss_desk = d, ss_grab = Polling, ss_main = Keys (skip_line inp)\<rparr>"

definition end_session :: "'s tool \<Rightarrow> handle option \<Rightarrow> 's session \<Rightarrow> 's desk option outcome" where
  "end_session T h ss =
     (case (ss_main ss, ss_grab ss) of
        (Joining inp, Grab_done) \<Rightarrow>
          (case teardown T h (ss_desk ss) of ((normal, h), d) \<Rightarrow> finish T normal h inp d)
      | _ \<Rightarrow> Inr None)"

definition tool_main :: "'s tool \<Rightarrow> turn list \<Rightarrow> string \<Rightarrow> 's desk \<Rightarrow> 's desk option outcome" where
  "tool_main T sched inp d =
     and_then (setup_tool T inp d) (\<lambda>((started, h, inp), d).
       if \<not> started then finish T True h inp d
       else and_then (session_run T h sched (start_session inp d)) (end_session T h))"

subsection \<open>A session over frames that fit the buffer and are not JPEG\<close>

text \<open>
  What the properties of a session assume of the camera: each frame it returns has the bytes it
  announces, announces no more than the image buffer holds (\<open>lim\<close>), and is not JPEG. Both
  restrictions are needed: a longer frame makes the next save read past the buffer
  (\<open>large_frame_overread\<close>), a JPEG frame makes it keep the mutex (\<open>jpeg_save_keeps_lock\<close>).
  \<open>session_ok\<close> is a session over such frames between two turns.
\<close>

definition fitting_frame :: "u32 \<Rightarrow> bytes \<Rightarrow> image_info \<Rightarrow> bool" where
  "fitting_frame lim pData info \<longleftrightarrow> unat (nFrameLen info) \<le> length pData \<and> nFrameLen info \<le> lim
     \<and> enPixelType info \<noteq> PixelType_Jpeg"

definition fitting_frames :: "'s tool \<Rightarrow> u32 \<Rightarrow> bool" where
  "fitting_frames T lim \<longleftrightarrow>
     (\<forall>s h. case GetOneFrame (base T) s h of (s', r, pData, info) \<Rightarrow>
        r = MV_OK \<longrightarrow> fitting_frame lim pData info)"

lemma fitting_framesD:
  "\<lbrakk>fitting_frames T lim; GetOneFrame (base T) s h = (s', MV_OK, pData, info)\<rbrakk> \<Longrightarrow> fitting_frame lim pData info"
  unfolding fitting_frames_def by (metis (mono_tags, lifting) case_prod_conv)

definition session_ok :: "u32 \<Rightarrow> 's session \<Rightarrow> bool" where
  "session_ok lim ss \<longleftrightarrow> calm (ss_desk ss) \<and> stocked (ss_desk ss) \<and> s_nMaxImageSize (ss_desk ss) = lim
     \<and> (case ss_grab ss of Holding pData info \<Rightarrow> fitting_frame lim pData info | _ \<Rightarrow> True)
     \<and> (case ss_main ss of Joining _ \<Rightarrow> s_bExit (ss_desk ss) | _ \<Rightarrow> True)"

lemma exit_flag_simps [simp]:
  "calm (d\<lparr>s_bExit := b\<rparr>) = calm d" "stocked (d\<lparr>s_bExit := b\<rparr>) = stocked d"
  by (simp_all add: calm_def stocked_def cong: option.case_cong)

lemma keep_frame_total:
  assumes "calm d" "stocked d" "fitting_frame (s_nMaxImageSize d) pData info"
  shows "\<exists>d'. keep_frame pData info d = Inr d' \<and> calm d' \<and> stocked d'
    \<and> s_nMaxImageSize d' = s_nMaxImageSize d \<and> s_bExit d' = s_bExit d"
proof -
  obtain buf old where b: "s_pcDataBuf d = Some buf" "s_pstImageInfoEx2 d = Some old"
    "length buf = unat (s_nMaxImageSize d)"
    using stockedE [OF assms(2)] by metis
  have "unat (nFrameLen info) \<le> length buf"
    using assms(3) b(3) by (simp add: fitting_frame_def word_le_nat_alt)
  then show ?thesis
    using assms b by (auto simp: keep_frame_def Let_def fitting_frame_def calm_def stocked_def
        unlock_mutex_def lock_mutex_def)
qed

lemma grab_turn_total:
  assumes "fitting_frames T lim" and "session_ok lim ss"
  shows "\<exists>ss'. grab_turn T h ss = Inr ss' \<and> session_ok lim ss' \<and> ss_main ss' = ss_main ss
    \<and> s_bExit (ss_desk ss') = s_bExit (ss_desk ss)
    \<and> (\<forall>p i. ss_grab ss = Holding p i \<longrightarrow> ss_grab ss' = Polling)"
proof (cases "ss_grab ss")
  case Polling
  obtain d r pData info where
    c: "desk_call (\<lambda>s. GetOneFrame (base T) s h) (ss_desk ss) = (d, r, pData, info)"
    by (metis prod.exhaust)
  note k = desk_call_keeps [OF c]
  have "fitting_frame lim pData info" if "r = MV_OK"
    using c that fitting_framesD [OF assms(1)]
    by (auto simp: desk_call_def sdk_call_def split: prod.splits)
  moreover have "stocked d" using k assms(2) stocked_same unfolding session_ok_def by blast
  ultimately show ?thesis
    using c k assms(2) Polling
    by (auto simp: grab_turn_def session_ok_def same_frame_def calm_def split: main_at.splits)
next
  case (Holding pData info)
  then obtain d where "keep_frame pData info (ss_desk ss) = Inr d" "calm d" "stocked d"
    "s_nMaxImageSize d = lim" "s_bExit d = s_bExit (ss_desk ss)"
    using assms(2) keep_frame_total [of "ss_desk ss" pData info] by (auto simp: session_ok_def)
  then show ?thesis
    using Holding assms(2) by (simp add: grab_turn_def session_ok_def split: main_at.splits)
next
  case Grab_done
  then show ?thesis using assms(2) by (simp add: grab_turn_def)
qed

lemma key_turn_total:
  assumes "good_images T" and "session_ok lim ss"
  shows "\<exists>ss'. key_turn T h ss = Inr ss' \<and> session_ok lim ss' \<and> ss_grab ss' = ss_grab ss
    \<and> (case ss_main ss of
         Keys (c # cs) \<Rightarrow> ss_main ss' = (if c = newline then Joining cs else Keys cs)
       | m \<Rightarrow> ss_main ss' = m)"
proof (cases "ss_main ss")
  case (Keys inp)
  show ?thesis
  proof (cases inp)
    case Nil
    then show ?thesis using Keys assms(2) by (simp add: key_turn_def)
  next
    case (Cons c cs)
    obtain d where d: "press_key T h c (ss_desk ss) = Inr d" "calm d" "same_frame (ss_desk ss) d"
      using press_key_total [OF assms(1)] assms(2) unfolding session_ok_def by blast
    have "stocked d" "s_nMaxImageSize d = lim"
      using d stocked_same assms(2) unfolding session_ok_def same_frame_def by (blast, simp)
    then show ?thesis
      using d(1,2) Keys Cons assms(2) by (simp add: key_turn_def session_ok_def split: grab_at.splits)
  qed
next
  case (Joining inp)
  then show ?thesis using assms(2) by (simp add: key_turn_def)
qed

lemma session_run_total:
  assumes "fitting_frames T lim" "good_images T"
  shows "session_ok lim ss \<Longrightarrow> \<exists>ss'. session_run T h sched ss = Inr ss' \<and> session_ok lim ss'"
proof (induction sched arbitrary: ss)
  case (Cons t ts)
  have "\<exists>ss'. (case t of Key_turn \<Rightarrow> key_turn T h ss | Grab_turn \<Rightarrow> grab_turn T h ss) = Inr ss'
      \<and> session_ok lim ss'"
    using grab_turn_total [OF assms(1) Cons.prems] key_turn_total [OF assms(2) Cons.prems]
    by (cases t) (simp; blast)+
  then show ?case using Cons.IH by fastforce
qed simp

lemma session_run_append:
  "session_run T h (ts @ us) ss = and_then (session_run T h ts ss) (session_run T h us)"
proof (induction ts arbitrary: ss)
  case (Cons t ts)
  show ?case
    by (cases "case t of Key_turn \<Rightarrow> key_turn T h ss | Grab_turn \<Rightarrow> grab_turn T h ss") (simp_all add: Cons)
qed simp

text \<open>One turn of the key thread for every character up to the newline.\<close>

lemma keys_to_newline:
  assumes "good_images T"
  shows "\<lbrakk>session_ok lim ss; ss_main ss = Keys cs; newline \<in> set cs\<rbrakk> \<Longrightarrow>
    \<exists>ss' inp. session_run T h (replicate (length cs) Key_turn) ss = Inr ss' \<and> session_ok lim ss'
      \<and> ss_main ss' = Joining inp"
proof (induction cs arbitrary: ss)
  case (Cons c cs)
  obtain s1 where k: "key_turn T h ss = Inr s1" "session_ok lim s1"
    "ss_main s1 = (if c = newline then Joining cs else Keys cs)"
    using key_turn_total [OF assms Cons.prems(1), of h] Cons.prems(2) by auto
  show ?case
  proof (cases "c = newline")
    case True
    have "session_run T h (replicate n Key_turn) s1 = Inr s1" for n
      using k True by (induction n) (simp_all add: key_turn_def)
    then show ?thesis using k True by simp
  next
    case False
    then show ?thesis using Cons.IH [OF k(2)] Cons.prems(3) k by auto
  qed
qed simp

lemma grabber_leaves:
  assumes "fitting_frames T lim" "session_ok lim ss" "ss_main ss = Joining inp"
  shows "\<exists>ss'. session_run T h [Grab_turn, Grab_turn] ss = Inr ss' \<and> session_ok lim ss'
    \<and> ss_main ss' = Joining inp \<and> ss_grab ss' = Grab_done"
proof -
  have x: "s_bExit (ss_desk ss)" using assms(2,3) by (simp add: session_ok_def)
  obtain s1 where s1: "grab_turn T h ss = Inr s1" "session_ok lim s1" "ss_main s1 = Joining inp"
    "s_bExit (ss_desk s1)" "\<And>p i. ss_grab ss = Holding p i \<Longrightarrow> ss_grab s1 = Polling"
    using grab_turn_total [OF assms(1,2)] assms(3) x by metis
  then have g: "ss_grab s1 = Polling \<or> ss_grab s1 = Grab_done"
    using x by (cases "ss_grab ss") (auto simp: grab_turn_def)
  obtain s2 where s2: "grab_turn T h s1 = Inr s2" "session_ok lim s2" "ss_main s2 = Joining inp"
    using grab_turn_total [OF assms(1) s1(2)] s1(3) by metis
  moreover have "ss_grab s2 = Grab_done"
    using g s1(4) s2(1) by (auto simp: grab_turn_def)
  ultimately show ?thesis using s1 by simp
qed

subsection \<open>A mutex that stays locked\<close>

lemma held_press_key: "s_mutex d = MutexHeld \<Longrightarrow> press_key T h c d = Inl Blocked \<or> press_key T h c d = Inr d"
  by (simp add: press_key_def SaveRawImage_def SaveJPEGImage_def SaveBMPImage_def)

lemma held_key_turn:
  assumes "s_mutex (ss_desk ss) = MutexHeld" and "key_turn T h ss = Inr ss'"
  shows "s_mutex (ss_desk ss') = MutexHeld"
proof (cases "ss_main ss")
  case (Keys inp)
  show ?thesis
  proof (cases inp)
    case (Cons c cs)
    show ?thesis
      using held_press_key [OF assms(1), of T h c] assms Keys Cons
      by (auto simp: key_turn_def split: if_splits)
  qed (use assms Keys in \<open>simp add: key_turn_def\<close>)
qed (use assms in \<open>simp add: key_turn_def\<close>)

lemma held_grab_turn:
  "\<lbrakk>s_mutex (ss_desk ss) = MutexHeld; grab_turn T h ss = Inr ss'\<rbrakk> \<Longrightarrow> s_mutex (ss_desk ss') = MutexHeld"
  by (auto simp: grab_turn_def keep_frame_def Let_def dest: desk_call_keeps
      split: grab_at.splits if_splits prod.splits)

lemma held_session_run:
  "\<lbrakk>s_mutex (ss_desk ss) = MutexHeld; session_run T h sched ss = Inr ss'\<rbrakk>
    \<Longrightarrow> s_mutex (ss_desk ss') = MutexHeld"
proof (induction sched arbitrary: ss)
  case (Cons t ts)
  then obtain s1 where "(case t of Key_turn \<Rightarrow> key_turn T h ss | Grab_turn \<Rightarrow> grab_turn T h ss) = Inr s1"
    "session_run T h ts s1 = Inr ss'" by (auto simp: and_then_Inr)
  then show ?case
    using Cons.IH [of s1] Cons.prems held_key_turn [of ss T h s1] held_grab_turn [of ss T h s1]
    by (cases t) auto
qed simp

lemma teardown_keeps: "teardown T h d = (r, d') \<Longrightarrow> same_frame d d' \<and> s_mutex d' = s_mutex d
    \<and> s_open_files d' = s_open_files d"
  by (auto simp: teardown_def Let_def same_frame_def split: prod.splits if_splits
      dest!: desk_call_keeps)

lemma release_not_free: "s_mutex d \<noteq> MutexFree \<Longrightarrow> desk_DeInitResources d = Inl UndefinedBehaviour"
  by (auto simp: desk_DeInitResources_def Let_def destroy_mutex_def give_block_def)

lemma release_free:
  assumes "s_mutex d = MutexFree"
  shows "\<exists>d'. desk_DeInitResources d = Inr d' \<and> s_mutex d' = MutexDestroyed \<and> s_pcDataBuf d' = None
    \<and> s_pstImageInfoEx2 d' = None \<and> s_open_files d' = s_open_files d"
  using assms by (auto simp: desk_DeInitResources_def Let_def destroy_mutex_def give_block_def)

lemma close_left_keeps: "s_mutex (close_left T h d) = s_mutex d"
  "s_open_files (close_left T h d) = s_open_files d"
  by (auto simp: close_left_def Let_def split: prod.splits dest!: desk_call_keeps)

lemma finish_not_free:
  "s_mutex d \<noteq> MutexFree \<Longrightarrow> finish T normal h inp d = Inl UndefinedBehaviour"
  by (simp add: finish_def release_not_free close_left_keeps)

lemma finish_free:
  assumes "calm d"
  shows "\<exists>r. finish T normal h inp d = Inr r \<and> (\<forall>d'. r = Some d' \<longrightarrow> s_mutex d' = MutexDestroyed
    \<and> s_pcDataBuf d' = None \<and> s_pstImageInfoEx2 d' = None \<and> s_open_files d' = 0)"
proof -
  obtain d2 where d2: "desk_DeInitResources (close_left T h d) = Inr d2" "s_mutex d2 = MutexDestroyed"
    "s_pcDataBuf d2 = None" "s_pstImageInfoEx2 d2 = None" "s_open_files d2 = 0"
    using release_free [of "close_left T h d"] close_left_keeps [of T h d] assms
    by (auto simp: calm_def)
  then show ?thesis
    by (auto simp: finish_def PressEnterToExit_def split: option.splits)
qed

subsection \<open>Properties\<close>

text \<open>C18: while no frame is JPEG and none announces more bytes than the image buffer holds (or than
  it comes with), and the SDK returns the images it announces, every schedule of the two threads
  runs without fault; between the turns the mutex is free and no file is open; ended by a newline
  the program then releases its buffers.\<close>

theorem saving_session_safe:
  assumes "fitting_frames T lim" and "good_images T"
    and "calm d" and "stocked d" and "s_nMaxImageSize d = lim"
  shows "\<exists>ss r. session_run T h sched (start_session inp d) = Inr ss \<and> calm (ss_desk ss)
    \<and> end_session T h ss = Inr r
    \<and> (\<forall>d'. r = Some d' \<longrightarrow> s_mutex d' = MutexDestroyed \<and> s_pcDataBuf d' = None
         \<and> s_pstImageInfoEx2 d' = None \<and> s_open_files d' = 0)"
proof -
  have "session_ok lim (start_session inp d)"
    using assms(3-5) by (simp add: session_ok_def start_session_def)
  then obtain ss where ss: "session_run T h sched (start_session inp d) = Inr ss" "session_ok lim ss"
    using session_run_total [OF assms(1,2)] by blast
  have "\<exists>r. end_session T h ss = Inr r
    \<and> (\<forall>d'. r = Some d' \<longrightarrow> s_mutex d' = MutexDestroyed \<and> s_pcDataBuf d' = None
         \<and> s_pstImageInfoEx2 d' = None \<and> s_open_files d' = 0)"
  proof (cases "(ss_main ss, ss_grab ss)")
    case (Pair m g)
    show ?thesis
    proof (cases m; cases g)
      fix rest assume e: "m = Joining rest" "g = Grab_done"
      obtain n h' d1 where t: "teardown T h (ss_desk ss) = ((n, h'), d1)" by (metis prod.exhaust)
      then have "calm d1" using teardown_keeps [OF t] ss(2) by (simp add: session_ok_def calm_def)
      then show ?thesis using finish_free [of d1 T n h' rest] Pair e t by (simp add: end_session_def)
    qed (use Pair in \<open>simp_all add: end_session_def\<close>)
  qed
  then show ?thesis using ss by (auto simp: session_ok_def)
qed

text \<open>C19: from every point of a session whose frames are not JPEG and announce no more bytes than
  the image buffer holds (the frame held and the one last kept included), with a newline left in
  the input, there is a schedule after which both threads are done: the key thread reads up to the
  newline, then the grabbing thread leaves within two turns.\<close>

theorem saving_session_can_end:
  assumes "fitting_frames T lim" and "good_images T" and "session_ok lim ss"
    and "ss_main ss = Keys cs" and "newline \<in> set cs"
  shows "\<exists>ss' inp. session_run T h (replicate (length cs) Key_turn @ [Grab_turn, Grab_turn]) ss = Inr ss'
    \<and> ss_main ss' = Joining inp \<and> ss_grab ss' = Grab_done \<and> session_ok lim ss'"
proof -
  obtain s1 inp where s1: "session_run T h (replicate (length cs) Key_turn) ss = Inr s1"
    "session_ok lim s1" "ss_main s1 = Joining inp"
    using keys_to_newline [OF assms(2-5)] by blast
  then show ?thesis
    using grabber_leaves [OF assms(1) s1(2,3)] by (auto simp: session_run_append)
qed

text \<open>C20: saving a frame that is JPEG already keeps the mutex locked, and no schedule of the threads
  after it lets the program end: it waits for ever or destroys a locked mutex.\<close>

theorem jpeg_save_keeps_lock:
  assumes "calm d" and "s_pcDataBuf d \<noteq> None" and "s_pstImageInfoEx2 d = Some info"
    and "enPixelType info = PixelType_Jpeg"
    and "snd (open_file T ''.jpg'' (d\<lparr>s_mutex := MutexHeld\<rparr>)) \<noteq> None"
    and "SaveJPEGImage T h d = Inr d'" and "ss_desk ss = d'"
  shows "s_mutex d' = MutexHeld
    \<and> (\<forall>sched r. and_then (session_run T h sched ss) (end_session T h) \<noteq> Inr (Some r))"
proof -
  obtain d1 fn where o: "open_file T ''.jpg'' (d\<lparr>s_mutex := MutexHeld\<rparr>) = (d1, Some fn)"
    using assms(5) by (cases "open_file T ''.jpg'' (d\<lparr>s_mutex := MutexHeld\<rparr>)") auto
  have "s_mutex d1 = MutexHeld" using open_file_keeps(2) [OF o] by simp
  then have m: "s_mutex d' = MutexHeld"
    using assms(1-4,6) o by (auto simp: SaveJPEGImage_def and_then_Inr dest!: write_file_keeps(2))
  have "end_session T h ss' \<noteq> Inr (Some r)"
    if "session_run T h sched ss = Inr ss'" for sched ss' r
  proof -
    have held: "s_mutex (ss_desk ss') = MutexHeld"
      using held_session_run [OF _ that] assms(7) m by simp
    obtain n h' d2 where t: "teardown T h (ss_desk ss') = ((n, h'), d2)" by (metis prod.exhaust)
    then have "s_mutex d2 \<noteq> MutexFree" using teardown_keeps [OF t] held by simp
    then show ?thesis
      using t finish_not_free [of d2 T n h']
      by (simp add: end_session_def split: main_at.splits grab_at.splits)
  qed
  then show ?thesis using m by (auto simp: and_then_Inr)
qed

text \<open>C21: waiting for Enter returns exactly when a newline is left after the first line; at the end
  of the input it never returns.\<close>

theorem enter_returns_iff:
  "PressEnterToExit cs d \<noteq> None \<longleftrightarrow> newline \<in> set (skip_line cs)"
  using wait_newline_Some newline_wait
  by (auto simp: PressEnterToExit_def split: option.splits) fastforce+

text \<open>a failed \<open>InitResource\<close> has released the buffers and destroyed the mutex, so that
  the release at the end of \<open>main\<close> destroys the mutex a second time.\<close>

theorem failed_init_destroys_twice:
  assumes "s_mutex d = MutexFree" and "desk_InitResource T h d = Inr (r, d')" and "r \<noteq> MV_OK"
  shows "s_mutex d' = MutexDestroyed \<and> s_pcDataBuf d' = None \<and> s_pstImageInfoEx2 d' = None
    \<and> finish T normal h' inp d' = Inl UndefinedBehaviour"
proof -
  have rel: "s_mutex x' = MutexDestroyed \<and> s_pcDataBuf x' = None \<and> s_pstImageInfoEx2 x' = None"
    if "desk_init_failed q x = Inr (r, x')" "s_mutex x = MutexFree" for q x x'
    using that release_free [of x] by (auto simp: desk_init_failed_def)
  have "s_mutex d' = MutexDestroyed \<and> s_pcDataBuf d' = None \<and> s_pstImageInfoEx2 d' = None"
    using assms
    by (auto simp: desk_InitResource_def and_then_Inr Let_def split: prod.splits if_splits dest!: rel)
  then show ?thesis using finish_not_free [of d' T normal h' inp] by simp
qed

subsection \<open>Instances\<close>

text \<open>The demonstration SDK with a clock that stands still.\<close>

definition demo_tool :: "unit tool" where
  "demo_tool =
     \<lparr>base = demo_sdk, SaveImage = (\<lambda>s h p. (s, MV_OK, Some [7, 7], 2)),
      ListDevices = (\<lambda>s. (s, MV_OK, [None])), stamp = (\<lambda>s. (s, ''20240101'')),
      fopen_ok = (\<lambda>s fn. (s, True)), create_thread = (\<lambda>s. (s, True)), join_thread = (\<lambda>s. (s, True))\<rparr>"

definition no_memory_tool :: "unit tool" where
  "no_memory_tool = demo_tool\<lparr>base := demo_sdk\<lparr>malloc_ok := (\<lambda>s n. (s, False))\<rparr>\<rparr>"

definition demo_desk :: "unit desk" where
  "demo_desk =
     (new_desk demo_env)\<lparr>s_nMaxImageSize := 6, s_pcDataBuf := Some [1, 2, 3, 4, 0, 0],
                         s_pstImageInfoEx2 := Some demo_info\<rparr>"

definition jpeg_desk :: "unit desk" where
  "jpeg_desk = demo_desk\<lparr>s_pstImageInfoEx2 := Some (demo_info\<lparr>enPixelType := PixelType_Jpeg\<rparr>)\<rparr>"

lemma demo_tool_ok: "fitting_frames demo_tool 6" "good_images demo_tool"
  by (simp_all add: fitting_frames_def good_images_def fitting_frame_def enough_def demo_tool_def demo_sdk_def
      demo_info_def zero_info_def PixelType_Jpeg_def)

lemma demo_desk_ok: "calm demo_desk" "stocked demo_desk" "s_nMaxImageSize demo_desk = 6"
  by (simp_all add: calm_def stocked_def demo_desk_def new_desk_def demo_info_def zero_info_def
      PixelType_Jpeg_def)

theorem saving_session_safe_witness:
  "\<exists>ss r. session_run demo_tool (Some 2) [Grab_turn, Key_turn, Grab_turn, Key_turn, Key_turn, Grab_turn]
       (start_session [newline, CHR ''2'', CHR ''1'', newline] demo_desk) = Inr ss
     \<and> calm (ss_desk ss) \<and> end_session demo_tool (Some 2) ss = Inr r"
  using saving_session_safe [OF demo_tool_ok demo_desk_ok,
      of "Some 2" "[Grab_turn, Key_turn, Grab_turn, Key_turn, Key_turn, Grab_turn]"
        "[newline, CHR ''2'', CHR ''1'', newline]"]
  by blast

theorem saving_session_can_end_witness:
  "\<exists>ss' inp. session_run demo_tool (Some 2) [Key_turn, Key_turn, Grab_turn, Grab_turn]
       (start_session [newline, CHR ''3'', newline] demo_desk) = Inr ss'
     \<and> ss_main ss' = Joining inp \<and> ss_grab ss' = Grab_done"
proof -
  have m: "ss_main (start_session [newline, CHR ''3'', newline] demo_desk) = Keys [CHR ''3'', newline]"
    by (simp add: start_session_def)
  have "session_ok 6 (start_session [newline, CHR ''3'', newline] demo_desk)"
    using demo_desk_ok by (simp add: session_ok_def start_session_def)
  from saving_session_can_end [OF demo_tool_ok this m, of "Some 2"] show ?thesis
    by (auto simp: numeral_2_eq_2)
qed

theorem jpeg_save_keeps_lock_witness:
  "\<exists>d'. SaveJPEGImage demo_tool (Some 2) jpeg_desk = Inr d' \<and> s_mutex d' = MutexHeld"
proof -
  have o: "open_file demo_tool ''.jpg'' (jpeg_desk\<lparr>s_mutex := MutexHeld\<rparr>)
      = (jpeg_desk\<lparr>s_mutex := MutexHeld, s_files := (\<lambda>_. None)(''20240101.jpg'' := Some []),
                   s_open_files := 1\<rparr>, Some ''20240101.jpg'')"
    by (simp add: open_file_def desk_call_def sdk_call_def demo_tool_def jpeg_desk_def demo_desk_def
        new_desk_def demo_env_def Let_def)
  have j: "calm jpeg_desk" "s_pcDataBuf jpeg_desk = Some [1, 2, 3, 4, 0, 0]"
    "s_pstImageInfoEx2 jpeg_desk = Some (demo_info\<lparr>enPixelType := PixelType_Jpeg\<rparr>)"
    by (simp_all add: calm_def jpeg_desk_def demo_desk_def new_desk_def)
  obtain d' where s: "SaveJPEGImage demo_tool (Some 2) jpeg_desk = Inr d'"
    using o j by (auto simp: SaveJPEGImage_def write_file_def demo_info_def zero_info_def)
  have "s_mutex d' = MutexHeld"
    using jpeg_save_keeps_lock [of jpeg_desk "demo_info\<lparr>enPixelType := PixelType_Jpeg\<rparr>" demo_tool
        "Some 2" d' "start_session [] d'"] o j s
    by (simp add: start_session_def)
  then show ?thesis using s by blast
qed

theorem failed_init_destroys_twice_witness:
  "\<exists>d'. desk_InitResource no_memory_tool (Some 2) (new_desk demo_env) = Inr (MV_E_RESOURCE, d')
     \<and> finish no_memory_tool True (Some 2) [] d' = Inl UndefinedBehaviour"
proof -
  obtain d' where i: "desk_InitResource no_memory_tool (Some 2) (new_desk demo_env)
      = Inr (MV_E_RESOURCE, d')"
    by (auto simp: desk_InitResource_def image_size_def sdk_call_def demo_tool_def demo_sdk_def
        no_memory_tool_def malloc_def desk_init_failed_def desk_DeInitResources_def destroy_mutex_def
        new_desk_def Let_def)
  have "MV_E_RESOURCE \<noteq> MV_OK" by (simp add: MV_E_RESOURCE_def MV_OK_def)
  from failed_init_destroys_twice [OF _ i this, of True "Some 2" "[]"] i show ?thesis
    by (auto simp: new_desk_def)
qed

end
