(* ===== verification/Md5.thy ===== *)
theory Md5
  imports Frame Sha1
begin

text \<open>
  MD5 (\<open>common/md5.hpp\<close>) on a little-endian host: the state that strings are appended to, and the
  proof that the digest is that of RFC 1321 for the concatenation of all strings, however it was
  cut.
\<close>

unbundle bit_operations_syntax

subsection \<open>The routines\<close>

type_synonym md5_regs = "u32 \<times> u32 \<times> u32 \<times> u32"

record md5_state =
  count0 :: u32
  count1 :: u32
  abcd :: md5_regs
  md5_buf :: bytes

definition t_mask :: u32 where "t_mask = NOT 0"

text \<open>The constants T1 to T64, as the macros have them.\<close>

definition md5_t :: "u32 list" where
  "md5_t = [
     t_mask XOR 0x28955b87, t_mask XOR 0x173848a9, 0x242070db, t_mask XOR 0x3e423111,
     t_mask XOR 0x0a83f050, 0x4787c62a, t_mask XOR 0x57cfb9ec, t_mask XOR 0x02b96afe,
     0x698098d8, t_mask XOR 0x74bb0850, t_mask XOR 0x0000a44e, t_mask XOR 0x76a32841,
     0x6b901122, t_mask XOR 0x02678e6c, t_mask XOR 0x5986bc71, 0x49b40821,
     t_mask XOR 0x09e1da9d, t_mask XOR 0x3fbf4cbf, 0x265e5a51, t_mask XOR 0x16493855,
     t_mask XOR 0x29d0efa2, 0x02441453, t_mask XOR 0x275e197e, t_mask XOR 0x182c0437,
     0x21e1cde6, t_mask XOR 0x3cc8f829, t_mask XOR 0x0b2af278, 0x455a14ed,
     t_mask XOR 0x561c16fa, t_mask XOR 0x03105c07, 0x676f02d9, t_mask XOR 0x72d5b375,
     t_mask XOR 0x0005c6bd, t_mask XOR 0x788e097e, 0x6d9d6122, t_mask XOR 0x021ac7f3,
     t_mask XOR 0x5b4115bb, 0x4bdecfa9, t_mask XOR 0x0944b49f, t_mask XOR 0x4140438f,
     0x289b7ec6, t_mask XOR 0x155ed805, t_mask XOR 0x2b10cf7a, 0x04881d05,
     t_mask XOR 0x262b2fc6, t_mask XOR 0x1924661a, 0x1fa27cf8, t_mask XOR 0x3b53a99a,
     t_mask XOR 0x0bd6ddbb, 0x432aff97, t_mask XOR 0x546bdc58, t_mask XOR 0x036c5fc6,
     0x655b59c3, t_mask XOR 0x70f3336d, t_mask XOR 0x00100b82, t_mask XOR 0x7a7ba22e,
     0x6fa87e4f, t_mask XOR 0x01d3191f, t_mask XOR 0x5cfebceb, 0x4e0811a1,
     t_mask XOR 0x08ac817d, t_mask XOR 0x42c50dca, 0x2ad7d2bb, t_mask XOR 0x14792c6e]"

definition rotate_left :: "u32 \<Rightarrow> nat \<Rightarrow> u32" where
  "rotate_left x n = push_bit n x OR drop_bit (32 - n) x"

definition md5_f :: "u32 \<Rightarrow> u32 \<Rightarrow> u32 \<Rightarrow> u32" where "md5_f x y z = (x AND y) OR (NOT x AND z)"
definition md5_g :: "u32 \<Rightarrow> u32 \<Rightarrow> u32 \<Rightarrow> u32" where "md5_g x y z = (x AND z) OR (y AND NOT z)"
definition md5_h :: "u32 \<Rightarrow> u32 \<Rightarrow> u32 \<Rightarrow> u32" where "md5_h x y z = x XOR y XOR z"
definition md5_i :: "u32 \<Rightarrow> u32 \<Rightarrow> u32 \<Rightarrow> u32" where "md5_i x y z = y XOR (x OR NOT z)"

text \<open>
  One \<open>SET\<close>: it changes the first of its four registers, and the next one is called with the
  registers turned by one place.
\<close>

definition md5_set ::
  "(u32 \<Rightarrow> u32 \<Rightarrow> u32 \<Rightarrow> u32) \<Rightarrow> u32 list \<Rightarrow> (nat \<times> nat) \<times> u32 \<Rightarrow> md5_regs \<Rightarrow> md5_regs" where
  "md5_set fn X = (\<lambda>((k, s), ti) (a, b, c, d).
     let t = a + fn b c d + X ! k + ti; a = rotate_left t s + b in (d, a, b, c))"

definition round1 :: "(nat \<times> nat) list" where
  "round1 =
     [(0, 7), (1, 12), (2, 17), (3, 22), (4, 7), (5, 12), (6, 17), (7, 22),
      (8, 7), (9, 12), (10, 17), (11, 22), (12, 7), (13, 12), (14, 17), (15, 22)]"

definition round2 :: "(nat \<times> nat) list" where
  "round2 =
     [(1, 5), (6, 9), (11, 14), (0, 20), (5, 5), (10, 9), (15, 14), (4, 20),
      (9, 5), (14, 9), (3, 14), (8, 20), (13, 5), (2, 9), (7, 14), (12, 20)]"

definition round3 :: "(nat \<times> nat) list" where
  "round3 =
     [(5, 4), (8, 11), (11, 16), (14, 23), (1, 4), (4, 11), (7, 16), (10, 23),
      (13, 4), (0, 11), (3, 16), (6, 23), (9, 4), (12, 11), (15, 16), (2, 23)]"

definition round4 :: "(nat \<times> nat) list" where
  "round4 =
     [(0, 6), (7, 10), (14, 15), (5, 21), (12, 6), (3, 10), (10, 15), (1, 21),
      (8, 6), (15, 10), (6, 15), (13, 21), (4, 6), (11, 10), (2, 15), (9, 21)]"

text \<open>The sixteen words of a block, read in the order of the host, with or without a copy.\<close>

definition block_x :: "bytes \<Rightarrow> u32 list" where
  "block_x data = map (\<lambda>i. uint32_i (take 4 (drop (4 * i) data))) [0..<16]"

definition md5_process :: "bytes \<Rightarrow> md5_regs \<Rightarrow> md5_regs" where
  "md5_process data regs =
     (let X = block_x data;
          r = fold (md5_set md5_f X) (zip round1 (take 16 md5_t)) regs;
          r = fold (md5_set md5_g X) (zip round2 (take 16 (drop 16 md5_t))) r;
          r = fold (md5_set md5_h X) (zip round3 (take 16 (drop 32 md5_t))) r;
          r = fold (md5_set md5_i X) (zip round4 (drop 48 md5_t)) r
      in case (regs, r) of ((u, v, w, x), (a, b, c, d)) \<Rightarrow> (u + a, v + b, w + c, x + d))"

text \<open>The buffer is not initialised.\<close>

definition md5_init :: "bytes \<Rightarrow> md5_state" where
  "md5_init buf0 =
     \<lparr>count0 = 0, count1 = 0,
      abcd = (0x67452301, t_mask XOR 0x10325476, t_mask XOR 0x67452301, 0x10325476), md5_buf = buf0\<rparr>"

text \<open>The loop over full blocks: the registers and what is left.\<close>

fun md5_blocks :: "bytes \<Rightarrow> md5_regs \<Rightarrow> md5_regs \<times> bytes" where
  "md5_blocks p regs =
     (if 64 \<le> length p then md5_blocks (drop 64 p) (md5_process (take 64 p) regs) else (regs, p))"

declare md5_blocks.simps [simp del]

text \<open>The length of the message in bits, in two words.\<close>

definition md5_count :: "nat \<Rightarrow> md5_state \<Rightarrow> md5_state" where
  "md5_count nbytes st =
     (let nbits = of_nat (nbytes * 8);
          st = st\<lparr>count1 := count1 st + of_nat (nbytes div 2 ^ 29), count0 := count0 st + nbits\<rparr>
      in if count0 st < nbits then st\<lparr>count1 := count1 st + 1\<rparr> else st)"

definition md5_append :: "bytes \<Rightarrow> md5_state \<Rightarrow> md5_state" where
  "md5_append data st =
     (let nbytes = length data;
          offset = unat (drop_bit 3 (count0 st) AND 63)
      in if nbytes = 0 then st
         else
           let st = md5_count nbytes st;
               copy = (if offset + nbytes > 64 then 64 - offset else nbytes);
               buf = overwrite (md5_buf st) offset (take copy data)
           in if offset \<noteq> 0 \<and> offset + copy < 64 then st\<lparr>md5_buf := buf\<rparr>
              else
                let (st, p) =
                      (if offset \<noteq> 0
                       then (st\<lparr>md5_buf := buf, abcd := md5_process buf (abcd st)\<rparr>, drop copy data)
                       else (st, data));
                    (regs, left) = md5_blocks p (abcd st);
                    st = st\<lparr>abcd := regs\<rparr>
                in if left \<noteq> [] then st\<lparr>md5_buf := overwrite (md5_buf st) 0 left\<rparr> else st)"

definition md5_pad :: bytes where "md5_pad = 0x80 # replicate 63 0"

text \<open>Bytes of words, low byte first.\<close>

definition low_bytes :: "u32 list \<Rightarrow> bytes" where
  "low_bytes ws = map (\<lambda>i. ucast (drop_bit (8 * (i mod 4)) (ws ! (i div 4)))) [0..<4 * length ws]"

definition md5_finish :: "md5_state \<Rightarrow> bytes" where
  "md5_finish st =
     (let data = low_bytes [count0 st, count1 st];
          st = md5_append (take (unat ((55 - drop_bit 3 (count0 st)) AND 63) + 1) md5_pad) st;
          st = md5_append data st
      in case abcd st of (a, b, c, d) \<Rightarrow> low_bytes [a, b, c, d])"

definition md5_hash_string :: "bytes \<Rightarrow> bytes \<Rightarrow> bytes" where
  "md5_hash_string buf0 s = md5_finish (md5_append s (md5_init buf0))"

definition hexval :: bytes where "hexval = ascii ''0123456789abcdef''"

text \<open>A character of the digest is signed; only its low eight bits reach the table.\<close>

definition md5_hash_hex :: "bytes \<Rightarrow> bytes \<Rightarrow> bytes" where
  "md5_hash_hex buf0 s =
     concat (map (\<lambda>c. [hexval ! unat (drop_bit 4 c AND 0xF), hexval ! unat (c AND 0x0F)]) (md5_hash_string buf0 s))"

subsection \<open>What has been appended\<close>

text \<open>
  The state after a message: its length in bits, the registers after its full blocks, and what is
  left of it in the buffer.
\<close>

definition md5_start :: md5_regs where
  "md5_start = (0x67452301, 0xefcdab89, 0x98badcfe, 0x10325476)"

definition md5_rep :: "md5_state \<Rightarrow> bytes \<Rightarrow> bool" where
  "md5_rep st msg \<longleftrightarrow>
     count0 st = of_nat (8 * length msg) \<and> count1 st = of_nat (8 * length msg div 2 ^ 32)
     \<and> length (md5_buf st) = 64
     \<and> md5_blocks msg md5_start = (abcd st, take (length msg mod 64) (md5_buf st))"

lemma md5_blocks_short: "length p < 64 \<Longrightarrow> md5_blocks p r = (r, p)"
  by (subst md5_blocks.simps) simp

lemma md5_blocks_append:
  "md5_blocks (a @ b) r = (case md5_blocks a r of (r', left) \<Rightarrow> md5_blocks (left @ b) r')"
proof (induction a r rule: md5_blocks.induct)
  case (1 a r)
  show ?case
  proof (cases "64 \<le> length a")
    case True
    then have "md5_blocks (a @ b) r = md5_blocks (drop 64 a @ b) (md5_process (take 64 a) r)"
      by (subst md5_blocks.simps) simp
    also have "\<dots> = (case md5_blocks (drop 64 a) (md5_process (take 64 a) r) of (r', left) \<Rightarrow> md5_blocks (left @ b) r')"
      by (rule 1 [OF True])
    finally show ?thesis using True by (simp add: md5_blocks.simps [of a])
  next
    case False
    then show ?thesis by (simp add: md5_blocks_short)
  qed
qed

lemma md5_blocks_left: "length (snd (md5_blocks p r)) = length p mod 64"
proof (induction p r rule: md5_blocks.induct)
  case (1 p r)
  show ?case
  proof (cases "64 \<le> length p")
    case True
    then have "length (snd (md5_blocks p r)) = (length p - 64) mod 64"
      using 1 by (simp add: md5_blocks.simps [of p])
    also have "\<dots> = length p mod 64" using True by (simp add: le_mod_geq)
    finally show ?thesis .
  next
    case False
    then show ?thesis by (simp add: md5_blocks_short)
  qed
qed

lemma unat_count: "unat (of_nat k :: u32) = k mod 2 ^ 32"
  by (simp add: unat_of_nat)

lemma count_offset:
  fixes n :: nat
  shows "unat (drop_bit 3 (of_nat (8 * n) :: u32) AND 63) = n mod 64"
proof -
  have "(w AND 63 :: u32) = take_bit 6 w" for w by (simp add: take_bit_eq_mask mask_eq_exp_minus_1)
  then have "unat (drop_bit 3 w AND 63) = take_bit 6 (drop_bit 3 (unat w))" for w :: u32
    by (simp only: unsigned_take_bit_eq unat_drop_bit_eq)
  then have w: "unat (drop_bit 3 w AND 63) = unat w div 8 mod 64" for w :: u32
    by (simp add: take_bit_eq_mod drop_bit_eq_div)
  have "8 * n mod 2 ^ 32 = 8 * (n mod 2 ^ 29)" using mult_mod_right [of 8 n "2 ^ 29"] by simp
  then show ?thesis unfolding w unat_count by (simp add: mod_mod_cancel)
qed

lemma carry_nat:
  fixes x y k :: nat
  assumes "x < k" "y < k"
  shows "(x + y) mod k < y \<longleftrightarrow> k \<le> x + y" and "(x + y) div k = (if k \<le> x + y then 1 else 0)"
proof -
  show "(x + y) mod k < y \<longleftrightarrow> k \<le> x + y"
    using assms by (cases "k \<le> x + y") (auto simp: le_mod_geq)
  show "(x + y) div k = (if k \<le> x + y then 1 else 0)"
    using assms by (cases "k \<le> x + y") (auto simp: le_div_geq)
qed

lemma count_carry:
  fixes m n :: nat
  defines "a \<equiv> of_nat (8 * m) :: u32" and "b \<equiv> of_nat (8 * n) :: u32"
  shows "(of_nat (8 * m div 2 ^ 32) + of_nat (n div 2 ^ 29) + (if a + b < b then 1 else 0) :: u32) =
    of_nat (8 * (m + n) div 2 ^ 32)"
proof -
  define x where "x = 8 * m mod 2 ^ 32"
  define y where "y = 8 * n mod 2 ^ 32"
  have u: "unat a = x" "unat b = y" by (simp_all only: a_def b_def unat_count x_def y_def)
  have b: "x < 2 ^ 32" "y < 2 ^ 32" by (simp_all add: x_def y_def)
  have "unat (a + b) = (x + y) mod 2 ^ 32" by (simp add: unat_word_ariths u)
  then have c: "a + b < b \<longleftrightarrow> 2 ^ 32 \<le> x + y"
    using carry_nat(1) [OF b] by (simp only: word_less_nat_alt u)
  have "8 * (m + n) div 2 ^ 32 = 8 * m div 2 ^ 32 + 8 * n div 2 ^ 32 + (x + y) div 2 ^ 32"
    unfolding x_def y_def distrib_left by (rule div_add1_eq)
  moreover have "8 * n div 2 ^ 32 = n div 2 ^ 29" by simp
  moreover have "(x + y) div 2 ^ 32 = (if a + b < b then 1 else 0)"
    unfolding c by (rule carry_nat(2) [OF b])
  ultimately have "8 * (m + n) div 2 ^ 32 = 8 * m div 2 ^ 32 + n div 2 ^ 29 + (if a + b < b then 1 else 0)"
    by (simp only:)
  then show ?thesis by (simp only: of_nat_add) (simp split: if_split)
qed

text \<open>Appending a string appends it to the message.\<close>

lemma md5_append_rep:
  assumes "md5_rep st msg"
  shows "md5_rep (md5_append data st) (msg @ data)"
proof (cases "data = []")
  case True
  then show ?thesis using assms by (simp add: md5_append_def)
next
  case False
  let ?n = "length data" and ?r = "length msg mod 64"
  have rep: "count0 st = of_nat (8 * length msg)" "count1 st = of_nat (8 * length msg div 2 ^ 32)"
    "length (md5_buf st) = 64" "md5_blocks msg md5_start = (abcd st, take ?r (md5_buf st))"
    using assms by (simp_all add: md5_rep_def)
  have off: "unat (drop_bit 3 (count0 st) AND 63) = ?r" unfolding rep(1) by (rule count_offset)
  define st1 where "st1 = md5_count ?n st"
  have counts: "count0 st1 = of_nat (8 * length (msg @ data))"
    "count1 st1 = of_nat (8 * length (msg @ data) div 2 ^ 32)"
  proof -
    show "count0 st1 = of_nat (8 * length (msg @ data))"
      by (simp add: st1_def md5_count_def Let_def rep(1) algebra_simps)
    have "count1 st1 = count1 st + of_nat (?n div 2 ^ 29)
        + (if count0 st + of_nat (8 * ?n) < of_nat (8 * ?n) then 1 else 0)"
      by (simp add: st1_def md5_count_def Let_def mult.commute)
    then show "count1 st1 = of_nat (8 * length (msg @ data) div 2 ^ 32)"
      using count_carry [of "length msg" ?n] unfolding rep(1,2) by (simp only: length_append)
  qed
  have same: "md5_buf st1 = md5_buf st" "abcd st1 = abcd st" by (simp_all add: st1_def md5_count_def Let_def)
  define copy where "copy = (if ?r + ?n > 64 then 64 - ?r else ?n)"
  define buf where "buf = overwrite (md5_buf st) ?r (take copy data)"
  have copy: "copy \<le> ?n" "?r + copy \<le> 64" unfolding copy_def by (split if_split, linarith)+
  then have len: "length buf = 64" using rep(3) by (simp add: buf_def length_overwrite)
  have app: "md5_append data st =
      (if ?r \<noteq> 0 \<and> ?r + copy < 64 then st1\<lparr>md5_buf := buf\<rparr>
       else let (st, p) = (if ?r \<noteq> 0 then (st1\<lparr>md5_buf := buf, abcd := md5_process buf (abcd st1)\<rparr>, drop copy data)
                           else (st1, data));
                (regs, left) = md5_blocks p (abcd st);
                st = st\<lparr>abcd := regs\<rparr>
            in if left \<noteq> [] then st\<lparr>md5_buf := overwrite (md5_buf st) 0 left\<rparr> else st)"
    using False by (simp add: md5_append_def off st1_def [symmetric] copy_def [symmetric] same buf_def [symmetric]
        Let_def)
  have goal: "md5_rep st2 (msg @ data)"
    if "count0 st2 = count0 st1" "count1 st2 = count1 st1" "length (md5_buf st2) = 64"
      "md5_blocks (take ?r (md5_buf st) @ data) (abcd st) = (abcd st2, take ((?r + ?n) mod 64) (md5_buf st2))" for st2
    using that counts rep(4) by (simp add: md5_rep_def md5_blocks_append [of msg] mod_add_left_eq)
  have last: "md5_rep (if left \<noteq> [] then st2\<lparr>abcd := regs, md5_buf := overwrite (md5_buf st2) 0 left\<rparr> else st2\<lparr>abcd := regs\<rparr>)
      (msg @ data)"
    if "count0 st2 = count0 st1" "count1 st2 = count1 st1" "length (md5_buf st2) = 64"
      "md5_blocks (take ?r (md5_buf st) @ data) (abcd st) = (regs, left)" for st2 regs left
  proof -
    have l: "length left = (?r + ?n) mod 64"
      using md5_blocks_left [of "take ?r (md5_buf st) @ data" "abcd st"] that(4) rep(3) by (simp add: min_def)
    then have "length left < 64" by simp
    then show ?thesis using that l by (intro goal) (auto simp: overwrite_def)
  qed
  show ?thesis
  proof (cases "?r = 0")
    case True
    obtain regs left where b: "md5_blocks data (abcd st) = (regs, left)" by fastforce
    show ?thesis using last [of st1 regs left] b True rep(3) same by (simp add: app Let_def cong: if_cong)
  next
    case r: False
    show ?thesis
    proof (cases "?r + copy < 64")
      case True
      then have "copy = ?n" by (auto simp: copy_def split: if_splits)
      then have "take (?r + ?n) buf = take ?r (md5_buf st) @ data" "?r + ?n < 64"
        using rep(3) True by (simp_all add: buf_def overwrite_def)
      then have "md5_blocks (take ?r (md5_buf st) @ data) (abcd st) =
          (abcd st, take ((?r + ?n) mod 64) buf)"
        using md5_blocks_short [of "take ?r (md5_buf st) @ data"] rep(3) by simp
      then have "md5_rep (st1\<lparr>md5_buf := buf\<rparr>) (msg @ data)"
        using len same by (intro goal) simp_all
      then show ?thesis using r True by (simp add: app)
    next
      case full: False
      then have c: "copy = 64 - ?r" using copy by (auto simp: copy_def split: if_splits)
      have b: "buf = take ?r (md5_buf st) @ take copy data"
        using c copy rep(3) by (simp add: buf_def overwrite_def)
      have e: "take ?r (md5_buf st) @ data = buf @ drop copy data" by (simp add: b)
      have "md5_blocks (buf @ drop copy data) (abcd st) = md5_blocks (drop copy data) (md5_process buf (abcd st))"
        using len by (subst md5_blocks.simps) simp
      moreover obtain regs left where "md5_blocks (drop copy data) (md5_process buf (abcd st)) = (regs, left)"
        by fastforce
      ultimately show ?thesis
        using last [of "st1\<lparr>md5_buf := buf, abcd := md5_process buf (abcd st1)\<rparr>" regs left] r full len same
        by (simp add: app Let_def e cong: if_cong)
    qed
  qed
qed

subsection \<open>RFC 1321\<close>

text \<open>The table, the steps by their number, and the message with its padding and length.\<close>

definition rfc_t :: "u32 list" where
  "rfc_t = [
     0xd76aa478, 0xe8c7b756, 0x242070db, 0xc1bdceee, 0xf57c0faf, 0x4787c62a, 0xa8304613, 0xfd469501,
     0x698098d8, 0x8b44f7af, 0xffff5bb1, 0x895cd7be, 0x6b901122, 0xfd987193, 0xa679438e, 0x49b40821,
     0xf61e2562, 0xc040b340, 0x265e5a51, 0xe9b6c7aa, 0xd62f105d, 0x02441453, 0xd8a1e681, 0xe7d3fbc8,
     0x21e1cde6, 0xc33707d6, 0xf4d50d87, 0x455a14ed, 0xa9e3e905, 0xfcefa3f8, 0x676f02d9, 0x8d2a4c8a,
     0xfffa3942, 0x8771f681, 0x6d9d6122, 0xfde5380c, 0xa4beea44, 0x4bdecfa9, 0xf6bb4b60, 0xbebfbc70,
     0x289b7ec6, 0xeaa127fa, 0xd4ef3085, 0x04881d05, 0xd9d4d039, 0xe6db99e5, 0x1fa27cf8, 0xc4ac5665,
     0xf4292244, 0x432aff97, 0xab9423a7, 0xfc93a039, 0x655b59c3, 0x8f0ccc92, 0xffeff47d, 0x85845dd1,
     0x6fa87e4f, 0xfe2ce6e0, 0xa3014314, 0x4e0811a1, 0xf7537e82, 0xbd3af235, 0x2ad7d2bb, 0xeb86d391]"

definition rfc_fun :: "nat \<Rightarrow> u32 \<Rightarrow> u32 \<Rightarrow> u32 \<Rightarrow> u32" where
  "rfc_fun i x y z =
     (if i < 16 then (x AND y) OR (NOT x AND z)
      else if i < 32 then (x AND z) OR (y AND NOT z)
      else if i < 48 then x XOR y XOR z
      else y XOR (x OR NOT z))"

definition rfc_index :: "nat \<Rightarrow> nat" where
  "rfc_index i =
     (if i < 16 then i else if i < 32 then (5 * i + 1) mod 16 else if i < 48 then (3 * i + 5) mod 16
      else 7 * i mod 16)"

definition rfc_shift :: "nat \<Rightarrow> nat" where
  "rfc_shift i = [[7, 12, 17, 22], [5, 9, 14, 20], [4, 11, 16, 23], [6, 10, 15, 21]] ! (i div 16) ! (i mod 4)"

definition rfc_step :: "u32 list \<Rightarrow> nat \<Rightarrow> md5_regs \<Rightarrow> md5_regs" where
  "rfc_step X i = (\<lambda>(a, b, c, d).
     (d, b + word_rotl (rfc_shift i) (a + rfc_fun i b c d + X ! rfc_index i + rfc_t ! i), b, c))"

definition rfc_block :: "bytes \<Rightarrow> md5_regs \<Rightarrow> md5_regs" where
  "rfc_block data regs =
     (case (regs, fold (rfc_step (block_x data)) [0..<64] regs) of
        ((u, v, w, x), (a, b, c, d)) \<Rightarrow> (u + a, v + b, w + c, x + d))"

definition rfc_length :: "nat \<Rightarrow> bytes" where
  "rfc_length n = map (\<lambda>i. of_nat (8 * n div 256 ^ i mod 256)) [0..<8]"

definition rfc_message :: "bytes \<Rightarrow> bytes" where
  "rfc_message s = s @ [0x80] @ replicate ((119 - length s mod 64) mod 64) 0 @ rfc_length (length s)"

definition rfc_blocks :: "bytes \<Rightarrow> bytes list" where
  "rfc_blocks s = map (\<lambda>i. take 64 (drop (64 * i) s)) [0..<length s div 64]"

definition rfc1321 :: "bytes \<Rightarrow> bytes" where
  "rfc1321 s =
     (case fold rfc_block (rfc_blocks (rfc_message s)) md5_start of (a, b, c, d) \<Rightarrow> low_bytes [a, b, c, d])"

lemma rotate_left_rotl: "n < 32 \<Longrightarrow> rotate_left v n = word_rotl n v"
  using rol_rotl [of n v] by (simp add: rotate_left_def rol_def)

lemma md5_t_rfc: "md5_t = rfc_t"
  by code_simp

lemma rounds_rfc:
  "zip round1 (take 16 md5_t) = map (\<lambda>i. ((rfc_index i, rfc_shift i), rfc_t ! i)) [0..<16]"
  "zip round2 (take 16 (drop 16 md5_t)) = map (\<lambda>i. ((rfc_index i, rfc_shift i), rfc_t ! i)) [16..<32]"
  "zip round3 (take 16 (drop 32 md5_t)) = map (\<lambda>i. ((rfc_index i, rfc_shift i), rfc_t ! i)) [32..<48]"
  "zip round4 (drop 48 md5_t) = map (\<lambda>i. ((rfc_index i, rfc_shift i), rfc_t ! i)) [48..<64]"
  by (code_simp, code_simp, code_simp, code_simp)

lemma rfc_shift_bound: "i < 64 \<Longrightarrow> rfc_shift i < 32"
proof -
  have "list_all (\<lambda>i. rfc_shift i < 32) [0..<64]" by code_simp
  then show "i < 64 \<Longrightarrow> rfc_shift i < 32" by (simp add: list_all_iff)
qed

lemma set_is_step:
  assumes "i < 64" "\<forall>x y z. fn x y z = rfc_fun i x y z"
  shows "md5_set fn X ((rfc_index i, rfc_shift i), rfc_t ! i) = rfc_step X i"
  using assms rfc_shift_bound [OF assms(1)]
  by (auto simp: md5_set_def rfc_step_def rotate_left_rotl Let_def add.commute)

lemma md5_process_rfc: "md5_process data regs = rfc_block data regs"
proof -
  have fns: "\<forall>x y z. md5_f x y z = rfc_fun i x y z" if "i < 16" for i
    using that by (simp add: md5_f_def rfc_fun_def)
  have fns2: "\<forall>x y z. md5_g x y z = rfc_fun i x y z" if "16 \<le> i" "i < 32" for i
    using that by (simp add: md5_g_def rfc_fun_def)
  have fns3: "\<forall>x y z. md5_h x y z = rfc_fun i x y z" if "32 \<le> i" "i < 48" for i
    using that by (simp add: md5_h_def rfc_fun_def)
  have fns4: "\<forall>x y z. md5_i x y z = rfc_fun i x y z" if "48 \<le> i" for i
    using that by (simp add: md5_i_def rfc_fun_def)
  have round: "fold (md5_set fn X) (map (\<lambda>i. ((rfc_index i, rfc_shift i), rfc_t ! i)) is) r = fold (rfc_step X) is r"
    if "\<forall>i \<in> set is. i < 64 \<and> (\<forall>x y z. fn x y z = rfc_fun i x y z)" for fn X r "is"
    using that by (induction "is" arbitrary: r) (auto simp: set_is_step)
  have all: "[0..<64] = [0..<16] @ [16..<32] @ [32..<48] @ [48..<(64 :: nat)]" by code_simp
  show ?thesis
    unfolding md5_process_def rfc_block_def all fold_append comp_def rounds_rfc Let_def
    using round [of "[0..<16]" md5_f] round [of "[16..<32]" md5_g] round [of "[32..<48]" md5_h]
      round [of "[48..<64]" md5_i] fns fns2 fns3 fns4 by simp
qed

subsection \<open>The digest\<close>

lemma rfc_blocks_step: "64 \<le> length s \<Longrightarrow> rfc_blocks s = take 64 s # rfc_blocks (drop 64 s)"
proof -
  assume "64 \<le> length s"
  then have "length s div 64 = Suc ((length s - 64) div 64)" by (simp add: le_div_geq)
  moreover have "map (\<lambda>i. take 64 (drop (64 * i) s)) [0..<Suc m] =
      take 64 s # map (\<lambda>i. take 64 (drop (64 * i) (drop 64 s))) [0..<m]" for m
  proof -
    have u: "[0..<Suc m] = 0 # map Suc [0..<m]" by (simp add: upt_conv_Cons map_Suc_upt del: upt_Suc)
    show ?thesis unfolding u by (simp add: comp_def add.commute)
  qed
  ultimately show ?thesis by (simp only: rfc_blocks_def length_drop)
qed

lemma md5_blocks_rfc:
  "64 dvd length s \<Longrightarrow> md5_blocks s r = (fold rfc_block (rfc_blocks s) r, [])"
proof (induction s r rule: md5_blocks.induct)
  case (1 s r)
  show ?case
  proof (cases "64 \<le> length s")
    case True
    then have "rfc_blocks s = take 64 s # rfc_blocks (drop 64 s)" by (rule rfc_blocks_step)
    moreover have "64 dvd length (drop 64 s)" using 1(2) True by (simp add: dvd_diff_nat)
    ultimately show ?thesis
      using 1(1) [OF True] True by (simp add: md5_blocks.simps [of s] md5_process_rfc)
  next
    case False
    then have "s = []" using 1(2) by (cases "s = []") (auto dest: dvd_imp_le)
    then show ?thesis by (simp add: md5_blocks_short rfc_blocks_def)
  qed
qed

lemma mod_then_div: "(L mod (a * (b * c))) div a mod b = L div a mod (b :: nat)" if "0 < a"
proof -
  have "L mod (a * (b * c)) = a * (L div a mod (b * c)) + L mod a" by (rule mod_mult2_eq)
  then have "(L mod (a * (b * c))) div a = L div a mod (b * c)" using that by simp
  then show ?thesis by (simp add: mod_mod_cancel)
qed

lemma low_byte: "unat (ucast (drop_bit k (of_nat L :: u32)) :: u8) = L mod 2 ^ 32 div 2 ^ k mod 256"
proof -
  have "unat (ucast w :: u8) = unat w mod 256" for w :: u32
    by (simp add: unsigned_ucast_eq take_bit_eq_mod)
  then show ?thesis by (simp only: unat_drop_bit_eq unat_count) (simp only: drop_bit_eq_div)
qed

lemma low_bytes_length: "low_bytes [of_nat (8 * n), of_nat (8 * n div 2 ^ 32)] = rfc_length n"
proof -
  have one: "ucast (drop_bit (8 * i) (of_nat L :: u32)) = (of_nat (L div 256 ^ i mod 256) :: u8)"
    if "i < 4" for i L
  proof (rule unsigned_word_eqI)
    have "(2 :: nat) ^ 32 = 256 ^ i * (256 * 256 ^ (3 - i))"
      using that by (simp flip: power_Suc power_add)
    moreover have "(2 :: nat) ^ (8 * i) = 256 ^ i" by (simp add: power_mult)
    ultimately have "unat (ucast (drop_bit (8 * i) (of_nat L :: u32)) :: u8) = L div 256 ^ i mod 256"
      unfolding low_byte by (simp only: mod_then_div zero_less_power zero_less_numeral)
    then show "unat (ucast (drop_bit (8 * i) (of_nat L :: u32)) :: u8) = unat (of_nat (L div 256 ^ i mod 256) :: u8)"
      by (simp add: u8_of_nat_inj)
  qed
  have "low_bytes [of_nat (8 * n), of_nat (8 * n div 2 ^ 32)] ! i = rfc_length n ! i" if "i < 8" for i
  proof (cases "i < 4")
    case True
    then show ?thesis using one [of i "8 * n"] by (simp add: low_bytes_def rfc_length_def del: of_nat_mult)
  next
    case False
    define j where "j = i - 4"
    have j: "i = 4 + j" "j < 4" using False that by (simp_all add: j_def)
    have "(8 * n div 2 ^ 32) div 256 ^ j = 8 * n div 256 ^ (4 + j)"
      by (simp add: div_mult2_eq power_add)
    then show ?thesis
      using one [of j "8 * n div 2 ^ 32"] j by (simp add: low_bytes_def rfc_length_def del: of_nat_mult)
  qed
  then show ?thesis by (intro nth_equalityI) (auto simp: low_bytes_def rfc_length_def)
qed

lemma pad_bytes:
  assumes "length s mod 64 = r"
  shows "take (unat ((55 - drop_bit 3 (of_nat (8 * length s) :: u32)) AND 63) + 1) md5_pad =
    [0x80] @ replicate ((119 - r) mod 64) 0"
proof -
  let ?w = "drop_bit 3 (of_nat (8 * length s) :: u32)"
  have r: "unat (?w AND 63) = r" using count_offset [of "length s"] assms by simp
  have m: "(w AND 63 :: u32) = take_bit 6 w" for w by (simp add: take_bit_eq_mask mask_eq_exp_minus_1)
  have cut: "(55 - ?w) AND 63 = (55 - (?w AND 63)) AND 63"
    unfolding m by transfer (simp add: take_bit_eq_mod mod_simps)
  have rb: "r < 64" using assms by auto
  have wr: "?w AND 63 = of_nat r"
    unfolding word_unat_eq_iff r unat_count using rb by simp
  then have "(55 - ?w) AND 63 = (55 - of_nat r) AND 63" by (simp only: cut wr)
  moreover have "list_all (\<lambda>r. unat ((55 - of_nat r :: u32) AND 63) = (119 - r) mod 64) [0..<64]"
    by code_simp
  ultimately have "unat ((55 - ?w) AND 63) = (119 - r) mod 64"
    using rb by (simp add: list_all_iff)
  moreover have "(119 - r) mod 64 < 64" by simp
  ultimately show ?thesis by (simp add: md5_pad_def)
qed

lemma md5_init_rep: "length buf = 64 \<Longrightarrow> md5_rep (md5_init buf) []"
proof -
  have "abcd (md5_init buf) = md5_start" by (simp add: md5_init_def md5_start_def t_mask_def)
  then show "length buf = 64 \<Longrightarrow> md5_rep (md5_init buf) []"
    by (simp add: md5_rep_def md5_init_def md5_blocks_short)
qed

lemma md5_finish_rep:
  assumes "md5_rep st s"
  shows "md5_finish st = rfc1321 s"
proof -
  have c: "count0 st = of_nat (8 * length s)" "count1 st = of_nat (8 * length s div 2 ^ 32)"
    using assms by (simp_all add: md5_rep_def)
  define r where "r = length s mod 64"
  let ?pad = "take (unat ((55 - drop_bit 3 (count0 st)) AND 63) + 1) md5_pad"
  let ?data = "low_bytes [count0 st, count1 st]"
  let ?st = "md5_append ?data (md5_append ?pad st)"
  have msg: "s @ ?pad @ ?data = rfc_message s"
    unfolding c low_bytes_length pad_bytes [OF r_def [symmetric]] by (simp add: rfc_message_def r_def)
  have "md5_rep ?st (rfc_message s)"
    using md5_append_rep [OF md5_append_rep [OF assms, of ?pad], of ?data] by (simp only: append_assoc msg)
  then have b: "fst (md5_blocks (rfc_message s) md5_start) = abcd ?st" by (simp add: md5_rep_def)
  have "length (rfc_message s) = length s + 1 + (119 - r) mod 64 + 8"
    by (simp add: rfc_message_def rfc_length_def r_def)
  moreover have "r < 64" by (simp add: r_def)
  moreover have "(119 - r) mod 64 = (if r \<le> 55 then 55 - r else 119 - r)"
    using \<open>r < 64\<close> by (auto simp: mod_if)
  moreover obtain q where "length s = 64 * q + r"
    using mult_div_mod_eq [of 64 "length s"] r_def by metis
  ultimately have "length (rfc_message s) = 64 * (q + (if r \<le> 55 then 1 else 2))"
    by (cases "r \<le> 55") simp_all
  then have "64 dvd length (rfc_message s)" by (metis dvd_triv_left)
  from md5_blocks_rfc [OF this, of md5_start] b
  have "abcd ?st = fold rfc_block (rfc_blocks (rfc_message s)) md5_start" by simp
  then show ?thesis by (simp add: md5_finish_def rfc1321_def Let_def)
qed

lemma md5_parts_rep: "md5_rep st s \<Longrightarrow> md5_rep (fold md5_append parts st) (s @ concat parts)"
  by (induction parts arbitrary: st s) (use md5_append_rep in fastforce)+

text \<open>C26: the digest is the MD5 hash of RFC 1321 of the concatenation of what was appended, for
  strings of any length and however they are cut, whatever the buffer holds at first.\<close>

theorem md5_is_rfc1321:
  assumes "length buf = 64"
  shows "md5_finish (fold md5_append parts (md5_init buf)) = rfc1321 (concat parts)
    \<and> md5_hash_string buf s = rfc1321 s"
  using md5_finish_rep [OF md5_parts_rep [OF md5_init_rep [OF assms], of parts]]
    md5_finish_rep [OF md5_append_rep [OF md5_init_rep [OF assms], of s]]
  by (simp add: md5_hash_string_def)

lemma md5_is_rfc1321_witness:
  "md5_finish (fold md5_append [ascii ''a'', ascii ''bc''] (md5_init (replicate 64 7))) = rfc1321 (concat [ascii ''a'', ascii ''bc''])
    \<and> md5_hash_string (replicate 64 7) (ascii ''abc'') = rfc1321 (ascii ''abc'')"
  by (rule md5_is_rfc1321) simp

end
