(* ===== verification/Hybi00.thy ===== *)
theory Hybi00
  imports Handshake Md5
begin

text \<open>
  The processor of the first draft, \<open>processors/hybi00.hpp\<close>: its handshake with two encoded keys and
  the eight bytes behind the request, and its frames, a text between the bytes 0 and 255; and what
  \<open>hybi07.hpp\<close> and \<open>hybi08.hpp\<close> change of version 13. The MD5 buffer and the array of the final key
  are not initialised; their contents are arguments. \<open>None\<close> is the use of a null pointer.
\<close>

subsection \<open>Handshake\<close>

definition validate_handshake00 :: "request \<Rightarrow> error_code option" where
  "validate_handshake00 r =
     (if m_method r \<noteq> ascii ''GET'' then Some (ProcError P_invalid_http_method)
      else if m_version r \<noteq> ascii ''HTTP/1.1'' then Some (ProcError P_invalid_http_version)
      else if get_header (ascii ''Sec-WebSocket-Key1'') r = [] \<or> get_header (ascii ''Sec-WebSocket-Key2'') r = []
              \<or> get_header (ascii ''Sec-WebSocket-Key3'') r = []
      then Some (ProcError P_missing_required_header)
      else None)"

text \<open>\<open>htonl\<close> on a little-endian host turns the bytes of the number round.\<close>

definition decode_client_key :: "bytes \<Rightarrow> bytes" where
  "decode_client_key key =
     (let spaces = of_nat (length (filter (\<lambda>c. c = 0x20) key)) :: u32;
          digits = filter (\<lambda>c. c \<noteq> 0x20 \<and> 0x30 \<le> c \<and> c \<le> 0x39) key;
          num = ucast (strtoul digits) :: u32
      in if 0 < spaces \<and> 0 < num then rev (uint32_c (num div spaces)) else replicate 4 0)"

definition get_uri00 :: "bool \<Rightarrow> request \<Rightarrow> uri" where
  "get_uri00 secure r =
     (let h = get_header (ascii ''Host'') r
      in case rfind 0x3A h of
           None \<Rightarrow> uri_of_secure secure h (m_uri r)
         | Some last_colon \<Rightarrow>
             if (case rfind 0x5D h of Some last_sbrace \<Rightarrow> last_colon < last_sbrace | None \<Rightarrow> False)
             then uri_of_secure secure h (m_uri r)
             else uri_of_secure_port_string secure (take last_colon h) (drop (last_colon + 1) h) (m_uri r))"

definition final_key :: "bytes \<Rightarrow> request \<Rightarrow> bytes" where
  "final_key junk req =
     (let key3 = get_header (ascii ''Sec-WebSocket-Key3'') req
      in decode_client_key (get_header (ascii ''Sec-WebSocket-Key1'') req)
         @ decode_client_key (get_header (ascii ''Sec-WebSocket-Key2'') req)
         @ take 8 key3 @ drop (8 + min 8 (length key3)) junk)"

text \<open>A chain of operations on the response, each of which may raise an exception.\<close>

definition then_do :: "response result \<Rightarrow> (response \<Rightarrow> response result) \<Rightarrow> response result" where
  "then_do r f = (case r of Inl e \<Rightarrow> Inl e | Inr res \<Rightarrow> f res)"

definition process_handshake00 ::
  "bytes \<Rightarrow> bytes \<Rightarrow> bool \<Rightarrow> request \<Rightarrow> bytes \<Rightarrow> response \<Rightarrow> (error_code option \<times> response) result" where
  "process_handshake00 junk md5_buf0 secure req subprotocol res =
     map_sum id (\<lambda>res. (None, if subprotocol \<noteq> []
                             then replace_header (ascii ''Sec-WebSocket-Protocol'') subprotocol res else res))
       (then_do (append_header (ascii ''Sec-WebSocket-Key3'') (md5_hash_string md5_buf0 (final_key junk req)) res) (\<lambda>res.
        then_do (append_header (ascii ''Upgrade'') (ascii ''WebSocket'') res) (\<lambda>res.
        then_do (append_header (ascii ''Connection'') (ascii ''Upgrade'') res) (\<lambda>res.
        then_do (if get_header (ascii ''Sec-WebSocket-Origin'') res = []
                 then append_header (ascii ''Sec-WebSocket-Origin'') (get_header (ascii ''Origin'') req) res
                 else Inr res) (\<lambda>res.
        if get_header (ascii ''Sec-WebSocket-Location'') res = []
        then append_header (ascii ''Sec-WebSocket-Location'') (uri_str (get_uri00 secure req)) res
        else Inr res)))))"

definition client_handshake_request00 :: "error_code option" where
  "client_handshake_request00 = Some (ProcError P_no_protocol_support)"

definition validate_server_handshake_response00 :: "error_code option" where
  "validate_server_handshake_response00 = Some (ProcError P_no_protocol_support)"

definition get_raw00 :: "response \<Rightarrow> bytes" where
  "get_raw00 res =
     raw_response (remove_header (ascii ''Sec-WebSocket-Key3'') res) @ get_header (ascii ''Sec-WebSocket-Key3'') res"

definition get_origin00 :: "request \<Rightarrow> bytes" where
  "get_origin00 r = get_header (ascii ''Origin'') r"

definition extract_subprotocols00 :: "request \<Rightarrow> bytes list \<Rightarrow> error_code option \<times> bytes list" where
  "extract_subprotocols00 req subprotocol_list =
     (if get_header (ascii ''Sec-WebSocket-Protocol'') req \<noteq> [] then
        (case get_header_as_plist (ascii ''Sec-WebSocket-Protocol'') req of
           (False, p) \<Rightarrow> (None, subprotocol_list @ map fst p)
         | (True, _) \<Rightarrow> (Some (ProcError P_subprotocol_parse_error), subprotocol_list))
      else (None, subprotocol_list))"

subsection \<open>Versions 7 and 8\<close>

definition client_handshake_request07 :: "error_code option" where
  "client_handshake_request07 = Some (ProcError P_no_protocol_support)"

definition client_handshake_request08 :: "error_code option" where
  "client_handshake_request08 = Some (ProcError P_no_protocol_support)"

definition get_origin08 :: "request \<Rightarrow> bytes" where
  "get_origin08 r = get_header (ascii ''Sec-WebSocket-Origin'') r"

subsection \<open>Frames\<close>

definition msg_hdr :: u8 where "msg_hdr = 0x00"
definition msg_ftr :: u8 where "msg_ftr = 0xff"

datatype state00 = HEADER00 | PAYLOAD00 | READY00 | FATAL_ERROR00

record hybi00 =
  z_state :: state00
  z_msg :: message_ptr

definition new_hybi00 :: hybi00 where
  "new_hybi00 = \<lparr>z_state = HEADER00, z_msg = None\<rparr>"

text \<open>The loop on what is left of the buffer, with the number of bytes processed.\<close>

function consume00_loop ::
  "bytes \<Rightarrow> nat \<Rightarrow> error_code option \<Rightarrow> hybi00 \<Rightarrow> (hybi00 \<times> nat \<times> error_code option) option" where
  "consume00_loop buf p ec s =
     (case buf of
        [] \<Rightarrow> Some (s, p, ec)
      | c # rest \<Rightarrow>
          (case z_state s of
             HEADER00 \<Rightarrow>
               if c = msg_hdr then
                 (case get_message_op TEXT 1 of
                    None \<Rightarrow> consume00_loop rest (p + 1) (Some (WsError E_no_incoming_buffers))
                             (s\<lparr>z_msg := None, z_state := FATAL_ERROR00\<rparr>)
                  | Some m \<Rightarrow> consume00_loop rest (p + 1) ec (s\<lparr>z_msg := Some m, z_state := PAYLOAD00\<rparr>))
               else consume00_loop buf p (Some (ProcError P_protocol_violation)) (s\<lparr>z_state := FATAL_ERROR00\<rparr>)
           | PAYLOAD00 \<Rightarrow>
               (case z_msg s of
                  None \<Rightarrow> None
                | Some m \<Rightarrow>
                    let payload = takeWhile (\<lambda>b. b \<noteq> msg_ftr) buf; l = length payload;
                        s = s\<lparr>z_msg := Some (append_payload payload m)\<rparr>
                    in if l \<noteq> length buf
                       then consume00_loop (drop (l + 1) buf) (p + l + 1) ec (s\<lparr>z_state := READY00\<rparr>)
                       else consume00_loop [] (p + l) ec s)
           | _ \<Rightarrow> Some (s, p, ec)))"
  by pat_completeness auto
termination
  by (relation "measures [\<lambda>(buf, _). length buf, \<lambda>(_, _, _, s). if z_state s = HEADER00 then 1 else 0]") auto

declare consume00_loop.simps [simp del]

definition consume00 :: "bytes \<Rightarrow> hybi00 \<Rightarrow> (hybi00 \<times> nat \<times> error_code option) option" where
  "consume00 buf s = consume00_loop buf 0 None s"

definition ready00 :: "hybi00 \<Rightarrow> bool" where "ready00 s \<longleftrightarrow> z_state s = READY00"
definition get_error00 :: "hybi00 \<Rightarrow> bool" where "get_error00 s \<longleftrightarrow> False"

definition get_message00 :: "hybi00 \<Rightarrow> hybi00 \<times> message_ptr" where
  "get_message00 s = (s\<lparr>z_msg := None, z_state := HEADER00\<rparr>, z_msg s)"

definition prepare_data_frame00 :: "message_ptr \<Rightarrow> message_ptr \<Rightarrow> message_ptr \<times> error_code option" where
  "prepare_data_frame00 in_ptr out_ptr =
     (case (in_ptr, out_ptr) of
        (Some i, Some out) \<Rightarrow>
          if m_opcode i \<noteq> TEXT then (out_ptr, Some (ProcError P_invalid_opcode))
          else if \<not> validate (m_payload i) then (out_ptr, Some (ProcError P_invalid_payload))
          else
            let out = set_header [msg_hdr] out;
                out = append_payload [msg_ftr] (set_payload (m_payload i) out)
            in (Some (set_prepared True out), None)
      | _ \<Rightarrow> (out_ptr, Some (ProcError P_invalid_arguments)))"

definition prepare_ping00 :: "error_code option" where
  "prepare_ping00 = Some (ProcError P_no_protocol_support)"

definition prepare_pong00 :: "error_code option" where
  "prepare_pong00 = Some (ProcError P_no_protocol_support)"

definition prepare_close00 :: "message_ptr \<Rightarrow> message_ptr \<times> error_code option" where
  "prepare_close00 out_ptr =
     (case out_ptr of
        None \<Rightarrow> (None, Some (ProcError P_invalid_arguments))
      | Some out \<Rightarrow> (Some (set_prepared True (set_payload [0xff, 0x00] out)), None))"

subsection \<open>Reading frames\<close>

text \<open>In a payload there is a message to append to.\<close>

definition hybi00_ok :: "hybi00 \<Rightarrow> bool" where
  "hybi00_ok s \<longleftrightarrow> (z_state s = PAYLOAD00 \<or> z_state s = READY00 \<longrightarrow> z_msg s \<noteq> None)"

lemma consume00_nothing [simp]: "consume00_loop [] p ec s = Some (s, p, ec)"
  by (simp add: consume00_loop.simps)

lemma consume00_stop:
  "z_state s = READY00 \<or> z_state s = FATAL_ERROR00 \<Longrightarrow> consume00_loop buf p ec s = Some (s, p, ec)"
  by (subst consume00_loop.simps) (auto split: list.split)

lemma consume00_header:
  assumes "z_state s = HEADER00"
  shows "consume00_loop (msg_hdr # rest) p ec s =
      consume00_loop rest (p + 1) ec (s\<lparr>z_msg := Some (new_message TEXT 1), z_state := PAYLOAD00\<rparr>)"
    and "c \<noteq> msg_hdr \<Longrightarrow> consume00_loop (c # rest) p ec s =
      Some (s\<lparr>z_state := FATAL_ERROR00\<rparr>, p, Some (ProcError P_protocol_violation))"
  using assms by (subst consume00_loop.simps, simp add: get_message_op_def consume00_stop)+

lemma consume00_more:
  assumes "z_state s = PAYLOAD00" "z_msg s = Some m" "msg_ftr \<notin> set buf"
  shows "consume00_loop buf p ec s = Some (if buf = [] then s else s\<lparr>z_msg := Some (append_payload buf m)\<rparr>, p + length buf, ec)"
proof (cases buf)
  case (Cons c rest)
  have "takeWhile (\<lambda>b. b \<noteq> msg_ftr) buf = buf" using assms(3) by (auto simp: takeWhile_eq_all_conv)
  then show ?thesis using assms(1,2) Cons by (subst consume00_loop.simps) (simp add: Let_def)
qed simp

lemma consume00_end:
  assumes "z_state s = PAYLOAD00" "z_msg s = Some m" "msg_ftr \<notin> set pl"
  shows "consume00_loop (pl @ msg_ftr # rest) p ec s =
    Some (s\<lparr>z_msg := Some (append_payload pl m), z_state := READY00\<rparr>, p + length pl + 1, ec)"
proof -
  have t: "takeWhile (\<lambda>b. b \<noteq> msg_ftr) (pl @ msg_ftr # rest) = pl"
    using assms(3) by (induction pl) auto
  obtain c cs where c: "pl @ msg_ftr # rest = c # cs" by (cases "pl @ msg_ftr # rest") auto
  have l: "length (c # cs) \<noteq> length pl" using arg_cong [OF c, of length] by simp
  have d: "drop (length pl + 1) (c # cs) = rest" unfolding c [symmetric] by simp
  show ?thesis
    using assms(1,2) t d l unfolding c
    by (subst consume00_loop.simps) (simp only: list.case state00.case option.case Let_def refl if_False
        not_False_eq_True if_True, simp add: consume00_stop)
qed

lemma payload_cases:
  fixes buf :: bytes
  obtains "msg_ftr \<notin> set buf" | pl rest where "buf = pl @ msg_ftr # rest" "msg_ftr \<notin> set pl"
  using split_list_first by metis

text \<open>for any bytes in any portions the reader does not use a missing message, takes no more than
  it is given, and stops only for a finished message or an error.\<close>

theorem consume00_total:
  assumes "hybi00_ok s"
  shows "\<exists>s' n ec. consume00 buf s = Some (s', n, ec) \<and> hybi00_ok s' \<and> n \<le> length buf
    \<and> (n < length buf \<longrightarrow> ready00 s' \<or> z_state s' = FATAL_ERROR00) \<and> (ec \<noteq> None \<longrightarrow> z_state s' = FATAL_ERROR00)"
proof -
  have payload: "\<exists>s' n ec. consume00_loop buf p None s = Some (s', n, ec) \<and> hybi00_ok s' \<and> n \<le> p + length buf
    \<and> (n < p + length buf \<longrightarrow> ready00 s' \<or> z_state s' = FATAL_ERROR00) \<and> ec = None"
    if "z_state s = PAYLOAD00" "z_msg s = Some m" for s m buf p
  proof (cases rule: payload_cases [of buf])
    case 1
    then show ?thesis using that by (simp add: consume00_more hybi00_ok_def)
  next
    case (2 pl rest)
    then show ?thesis using that by (simp add: consume00_end hybi00_ok_def ready00_def)
  qed
  show ?thesis
  proof (cases "z_state s")
    case HEADER00
    show ?thesis
    proof (cases buf)
      case Nil
      then show ?thesis using assms HEADER00 by (simp add: consume00_def)
    next
      case (Cons c rest)
      show ?thesis
      proof (cases "c = msg_hdr")
        case True
        then show ?thesis
          using payload [of "s\<lparr>z_msg := Some (new_message TEXT 1), z_state := PAYLOAD00\<rparr>" _ rest 1] HEADER00 Cons
          by (fastforce simp: consume00_def consume00_header(1))
      next
        case False
        then show ?thesis
          using HEADER00 Cons by (simp add: consume00_def consume00_header(2) hybi00_ok_def)
      qed
    qed
  next
    case PAYLOAD00
    then obtain m where "z_msg s = Some m" using assms by (auto simp: hybi00_ok_def)
    then show ?thesis using payload [OF PAYLOAD00, of m buf 0] by (auto simp: consume00_def)
  qed (use assms in \<open>simp_all add: consume00_def consume00_stop ready00_def\<close>)
qed

subsection \<open>Writing and reading\<close>

lemma valid_no_footer: "\<lbrakk>accepts n s; n < 9\<rbrakk> \<Longrightarrow> msg_ftr \<notin> set s"
proof (induction n s rule: accepts.induct)
  case (2 n b bs)
  have "byte_class 255 = 8" by (simp add: byte_class_def)
  then have "cstep n (byte_class 255) = 1" by (simp add: cstep_def)
  then show ?case
    using 2 cstep_bound [OF byte_class_bound, of n "unat b"] by (auto simp: msg_ftr_def)
qed simp

lemma prepared00:
  assumes "prepare_data_frame00 (Some i) (Some out) = (Some out', None)"
  shows "m_header out' @ m_payload out' = msg_hdr # m_payload i @ [msg_ftr]" "msg_ftr \<notin> set (m_payload i)"
proof -
  have v: "validate (m_payload i)" and o: "out' = set_prepared True
      (append_payload [msg_ftr] (set_payload (m_payload i) (set_header [msg_hdr] out)))"
    using assms by (auto simp: prepare_data_frame00_def Let_def split: if_splits)
  show "m_header out' @ m_payload out' = msg_hdr # m_payload i @ [msg_ftr]"
    by (simp add: o message_setters)
  show "msg_ftr \<notin> set (m_payload i)"
    using v valid_no_footer [of 0] by (simp add: validate_accepts)
qed

text \<open>C27: a text written by this processor is read back by it, cut into two portions anywhere, and
  nothing behind its last byte is used.\<close>

theorem hybi00_round_trip:
  assumes "prepare_data_frame00 (Some i) (Some out) = (Some out', None)"
    and "m_header out' @ m_payload out' = a @ b" "b \<noteq> []"
  shows "\<exists>s s' m. consume00 a new_hybi00 = Some (s, length a, None)
    \<and> consume00 (b @ tail) s = Some (s', length b, None) \<and> ready00 s'
    \<and> snd (get_message00 s') = Some m \<and> m_opcode m = TEXT \<and> m_payload m = m_payload i"
proof -
  let ?m = "new_message TEXT 1"
  have new: "z_state new_hybi00 = HEADER00" "m_payload ?m = []" "m_opcode ?m = TEXT"
    by (simp_all add: new_hybi00_def new_message_def)
  have w: "a @ b = msg_hdr # m_payload i @ [msg_ftr]" "msg_ftr \<notin> set (m_payload i)"
    using prepared00 [OF assms(1)] assms(2) by simp_all
  obtain b1 where b: "b = b1 @ [msg_ftr]"
    using w(1) assms(3) by (metis append_Cons append_butlast_last_id last_appendR last_snoc)
  show ?thesis
  proof (cases a)
    case Nil
    let ?s = "new_hybi00\<lparr>z_msg := Some ?m, z_state := PAYLOAD00\<rparr>"
    have "b @ tail = msg_hdr # m_payload i @ msg_ftr # tail" using w(1) Nil by simp
    then have "consume00 (b @ tail) new_hybi00 =
        Some (?s\<lparr>z_msg := Some (append_payload (m_payload i) ?m), z_state := READY00\<rparr>, length b, None)"
      using consume00_end [of ?s ?m "m_payload i" tail 1 None] w Nil new
      by (simp add: consume00_def consume00_header(1))
    then show ?thesis
      using Nil new by (simp add: consume00_def ready00_def get_message00_def append_payload_def)
  next
    case (Cons c a1)
    then have c: "c = msg_hdr" "m_payload i = a1 @ b1" using w(1) b by auto
    let ?p = "new_hybi00\<lparr>z_msg := Some ?m, z_state := PAYLOAD00\<rparr>"
    let ?s = "if a1 = [] then ?p else ?p\<lparr>z_msg := Some (append_payload a1 ?m)\<rparr>"
    let ?ma = "if a1 = [] then ?m else append_payload a1 ?m"
    have "consume00 a new_hybi00 = Some (?s, length a, None)"
      using consume00_more [of ?p ?m a1 1 None] w(2) Cons c new
      by (auto simp: consume00_def consume00_header(1))
    moreover have "consume00 (b @ tail) ?s =
        Some (?s\<lparr>z_msg := Some (append_payload b1 ?ma), z_state := READY00\<rparr>, length b, None)"
      using consume00_end [of ?s ?ma b1 tail 0 None] w(2) c b by (simp add: consume00_def)
    ultimately show ?thesis
      using c(2) new by (auto simp: ready00_def get_message00_def append_payload_def)
  qed
qed

lemma hybi00_round_trip_witness:
  "\<exists>s s' m. consume00 [0, 0x68] new_hybi00 = Some (s, length [0 :: u8, 0x68], None)
    \<and> consume00 ([0x69, 0xff] @ [0]) s = Some (s', length [0x69 :: u8, 0xff], None) \<and> ready00 s'
    \<and> snd (get_message00 s') = Some m \<and> m_opcode m = TEXT
    \<and> m_payload m = m_payload (set_payload [0x68, 0x69] (new_message TEXT 0))"
proof (rule hybi00_round_trip)
  let ?i = "set_payload [0x68, 0x69] (new_message TEXT 0)" and ?out = "new_message TEXT 0"
  let ?out' = "set_prepared True (append_payload [0xff] (set_payload [0x68, 0x69] (set_header [0] ?out)))"
  have "validate [0x68, 0x69]" by code_simp
  then show "prepare_data_frame00 (Some ?i) (Some ?out) = (Some ?out', None)"
    by (simp add: prepare_data_frame00_def message_setters new_message_def msg_hdr_def msg_ftr_def Let_def)
  show "m_header ?out' @ m_payload ?out' = [0, 0x68] @ [0x69, 0xff]" by (simp add: message_setters)
qed simp

text \<open>The close frame this processor writes is an error for the one that reads it.\<close>

lemma hybi00_close_unread:
  "prepare_close00 (Some out) = (Some out', None) \<Longrightarrow>
    consume00 (m_payload out') new_hybi00 =
      Some (new_hybi00\<lparr>z_state := FATAL_ERROR00\<rparr>, 0, Some (ProcError P_protocol_violation))"
  using consume00_header(2) [of new_hybi00 "0xff" "[0]" 0 None]
  by (auto simp: prepare_close00_def message_setters consume00_def new_hybi00_def msg_hdr_def)

lemma consume00_total_witness:
  "\<exists>s' n ec. consume00 [0, 0x68, 0xff, 0] new_hybi00 = Some (s', n, ec) \<and> hybi00_ok s' \<and> n \<le> length [0 :: u8, 0x68, 0xff, 0]
    \<and> (n < length [0 :: u8, 0x68, 0xff, 0] \<longrightarrow> ready00 s' \<or> z_state s' = FATAL_ERROR00)
    \<and> (ec \<noteq> None \<longrightarrow> z_state s' = FATAL_ERROR00)"
  by (rule consume00_total) (simp add: hybi00_ok_def new_hybi00_def)

subsection \<open>The answer to the two keys\<close>

text \<open>
  A number with spaces between its digits is decoded to the number divided by the count of its
  spaces; the draft has the number be a multiple of the count.
\<close>

lemma decode_client_key_number:
  assumes "filter (\<lambda>c. c \<noteq> 0x20 \<and> 0x30 \<le> c \<and> c \<le> 0x39) key = digits n"
    and "length (filter (\<lambda>c. c = 0x20) key) = k" "0 < n" "n < 2 ^ 32" "0 < k" "k < 2 ^ 32"
  shows "decode_client_key key = rev (uint32_c (of_nat (n div k)))"
proof -
  have "c_string (digits n) = digits n"
    using digits_plain [of _ n] by (simp add: c_string_def takeWhile_eq_all_conv)
  then have s: "strtoul (digits n) = of_nat n"
    using scan_digits [of "[]" n] assms(4) by (simp add: strtoul_def)
  have u: "(ucast (of_nat n :: u64) :: u32) = of_nat n"
    using assms(4) by (simp add: word_unat_eq_iff u64_of_nat_inj u32_of_nat_inj unsigned_ucast_eq take_bit_nat_eq_self)
  have "(of_nat n div of_nat k :: u32) = of_nat (n div k)"
    using assms(4,6) by (simp add: word_unat_eq_iff unat_div u32_of_nat_inj order.strict_trans1 [OF div_le_dividend])
  moreover have "0 < (of_nat n :: u32)" "0 < (of_nat k :: u32)"
    using assms(3-6) by (simp_all add: word_less_nat_alt u32_of_nat_inj)
  ultimately show ?thesis using s u assms(1,2) by (simp add: decode_client_key_def Let_def)
qed

end
