(* ===== verification/Connection.thy ===== *)
theory Connection
  imports Hybi13 Hybi00
begin

text \<open>
  The connection object (\<open>websocketpp/connection.hpp\<close>, \<open>impl/connection_impl.hpp\<close>) once its
  handshake is done: sending, pinging and closing, reading frames, answering control frames, the
  write queue and the end of the connection. Every handler is one definition on the state;
  what the code asks of its transport (a read, a write, a shutdown, a timer, a posted call) is
  kept in the fields \<open>t_\<close>, and the completion of each is a call of its handler. The locks are
  held for parts of a handler only; the processor is one of the versions 7, 8 and 13, which share
  their frames, or that of the first draft; \<open>send\<close>, which the application calls from its own threads, is
  split at the point where it has given up the state lock. \<open>None\<close> is undefined behaviour.
\<close>

subsection \<open>State\<close>

datatype session_state = Connecting | Open | Closing | Closed

datatype internal_state =
    USER_INIT | TRANSPORT_INIT | READ_HTTP_REQUEST | WRITE_HTTP_REQUEST | READ_HTTP_RESPONSE
  | WRITE_HTTP_RESPONSE | PROCESS_HTTP_REQUEST | PROCESS_CONNECTION

datatype http_state =
    HTTP_init | HTTP_deferred | HTTP_headers_written | HTTP_body_written | HTTP_closed

datatype terminate_status = T_failed | T_closed | T_unknown

datatype timer = Open_handshake_timer | Close_handshake_timer | Pong_timer bytes

text \<open>The static members of the configuration class.\<close>

record config =
  drop_on_protocol_error :: bool
  silent_close :: bool

definition core_config :: config where
  "core_config = \<lparr>drop_on_protocol_error = False, silent_close = False\<rparr>"

text \<open>
  The processor is \<open>m_hybi00\<close> where the handshake installed that of version 0, and \<open>m_processor\<close>
  otherwise. \<open>m_rng\<close> is the stream of values the random number generator gives, \<open>rng_used\<close> how many were
  taken. \<open>app\<close> is the state of the application behind the callbacks. The last four fields record
  for the properties every message accepted for writing, every byte given to the transport, the
  shutdowns that completed, and the calls of \<open>send\<close> that have passed the test of the state.
\<close>

record ('d, 'a) connection =
  c_state :: session_state
  m_internal_state :: internal_state
  m_is_server :: bool
  m_processor :: "'d hybi13"
  m_hybi00 :: "hybi00 option"
  m_rng :: "nat \<Rightarrow> u32"
  rng_used :: nat
  m_open_handshake_timeout_dur :: int
  m_close_handshake_timeout_dur :: int
  m_pong_timeout_dur :: int
  m_send_queue :: "message list"
  m_send_buffer_size :: u64
  m_send_buffer :: "bytes list"
  m_current_msgs :: "message list"
  m_write_flag :: bool
  m_read_flag :: bool
  m_local_close_code :: close_code
  m_local_close_reason :: bytes
  m_remote_close_code :: close_code
  m_remote_close_reason :: bytes
  m_ec :: "error_code option"
  m_is_http :: bool
  m_http_state :: http_state
  m_was_clean :: bool
  m_handshake_timer :: "timer option"
  m_ping_timer :: "timer option"
  t_write :: "bytes list option"
  t_reads :: nat
  t_dispatch :: nat
  t_timers :: "timer list"
  t_shutdown :: "terminate_status list"
  app :: 'a
  pushed :: "message list"
  wire :: bytes
  ended :: "terminate_status list"
  senders :: "message list"

text \<open>The callbacks of the application; each acts on the connection through its operations.\<close>

record ('d, 'a) handlers =
  m_message_handler :: "(message \<Rightarrow> ('d, 'a) connection \<Rightarrow> ('d, 'a) connection) option"
  m_ping_handler :: "(bytes \<Rightarrow> ('d, 'a) connection \<Rightarrow> ('d, 'a) connection \<times> bool) option"
  m_pong_handler :: "(bytes \<Rightarrow> ('d, 'a) connection \<Rightarrow> ('d, 'a) connection) option"
  m_pong_timeout_handler :: "(bytes \<Rightarrow> ('d, 'a) connection \<Rightarrow> ('d, 'a) connection) option"
  m_open_handler :: "(('d, 'a) connection \<Rightarrow> ('d, 'a) connection) option"
  m_close_handler :: "(('d, 'a) connection \<Rightarrow> ('d, 'a) connection) option"
  m_fail_handler :: "(('d, 'a) connection \<Rightarrow> ('d, 'a) connection) option"

definition call :: "('c \<Rightarrow> 'c) option \<Rightarrow> 'c \<Rightarrow> 'c" where
  "call h c = (case h of None \<Rightarrow> c | Some f \<Rightarrow> f c)"

definition call_with :: "('x \<Rightarrow> 'c \<Rightarrow> 'c) option \<Rightarrow> 'x \<Rightarrow> 'c \<Rightarrow> 'c" where
  "call_with h x c = (case h of None \<Rightarrow> c | Some f \<Rightarrow> f x c)"

text \<open>The constructor; the processor is the one the handshake installs.\<close>

definition new_connection ::
  "bool \<Rightarrow> 'd hybi13 \<Rightarrow> (nat \<Rightarrow> u32) \<Rightarrow> int \<Rightarrow> int \<Rightarrow> int \<Rightarrow> 'a \<Rightarrow> ('d, 'a) connection" where
  "new_connection is_server p rng open_dur close_dur pong_dur a =
     \<lparr>c_state = Connecting, m_internal_state = USER_INIT, m_is_server = is_server, m_processor = p,
      m_hybi00 = None, m_rng = rng, rng_used = 0, m_open_handshake_timeout_dur = open_dur,
      m_close_handshake_timeout_dur = close_dur, m_pong_timeout_dur = pong_dur,
      m_send_queue = [], m_send_buffer_size = 0, m_send_buffer = [], m_current_msgs = [],
      m_write_flag = False, m_read_flag = True,
      m_local_close_code = abnormal_close, m_local_close_reason = [],
      m_remote_close_code = abnormal_close, m_remote_close_reason = [],
      m_ec = None, m_is_http = False, m_http_state = HTTP_init, m_was_clean = False,
      m_handshake_timer = None, m_ping_timer = None,
      t_write = None, t_reads = 0, t_dispatch = 0, t_timers = [], t_shutdown = [],
      app = a, pushed = [], wire = [], ended = [], senders = []\<rparr>"

subsection \<open>What is asked of the transport\<close>

definition dispatch_write_frame :: "('d, 'a) connection \<Rightarrow> ('d, 'a) connection" where
  "dispatch_write_frame c = c\<lparr>t_dispatch := t_dispatch c + 1\<rparr>"

definition set_timer :: "timer \<Rightarrow> ('d, 'a) connection \<Rightarrow> ('d, 'a) connection" where
  "set_timer t c = c\<lparr>t_timers := t_timers c @ [t]\<rparr>"

text \<open>A cancelled timer calls its handler with \<open>operation_aborted\<close>, which all of them ignore.\<close>

definition cancel_timer :: "timer option \<Rightarrow> ('d, 'a) connection \<Rightarrow> ('d, 'a) connection" where
  "cancel_timer t c = (case t of None \<Rightarrow> c | Some t \<Rightarrow> c\<lparr>t_timers := remove1 t (t_timers c)\<rparr>)"

definition cancel_handshake_timer :: "('d, 'a) connection \<Rightarrow> ('d, 'a) connection" where
  "cancel_handshake_timer c = (cancel_timer (m_handshake_timer c) c)\<lparr>m_handshake_timer := None\<rparr>"

definition async_read :: "('d, 'a) connection \<Rightarrow> ('d, 'a) connection" where
  "async_read c = c\<lparr>t_reads := t_reads c + 1\<rparr>"

definition async_shutdown :: "terminate_status \<Rightarrow> ('d, 'a) connection \<Rightarrow> ('d, 'a) connection" where
  "async_shutdown st c = c\<lparr>t_shutdown := t_shutdown c @ [st]\<rparr>"

text \<open>The next value of the random number generator; the processor of a server, and that of version 0,
  draw none.\<close>

definition draw_key :: "('d, 'a) connection \<Rightarrow> u32 \<times> ('d, 'a) connection" where
  "draw_key c =
     (if m_is_server c \<or> m_hybi00 c \<noteq> None then (0, c) else (m_rng c (rng_used c), c\<lparr>rng_used := rng_used c + 1\<rparr>))"

subsection \<open>The virtual functions of the processor\<close>

definition con_consume ::
  "'d extension \<Rightarrow> bytes \<Rightarrow> ('d, 'a) connection \<Rightarrow> (('d, 'a) connection \<times> nat \<times> error_code option) option" where
  "con_consume E buf c =
     (case m_hybi00 c of
        None \<Rightarrow>
          (case consume E (m_processor c) buf of
             None \<Rightarrow> None
           | Some (p, n, ec) \<Rightarrow> Some (c\<lparr>m_processor := p\<rparr>, n, ec))
      | Some z \<Rightarrow>
          (case consume00 buf z of
             None \<Rightarrow> None
           | Some (z, n, ec) \<Rightarrow> Some (c\<lparr>m_hybi00 := Some z\<rparr>, n, ec)))"

definition con_ready :: "('d, 'a) connection \<Rightarrow> bool" where
  "con_ready c = (case m_hybi00 c of None \<Rightarrow> ready (m_processor c) | Some z \<Rightarrow> ready00 z)"

definition con_get_message :: "('d, 'a) connection \<Rightarrow> (('d, 'a) connection \<times> message_ptr) option" where
  "con_get_message c =
     (case m_hybi00 c of
        None \<Rightarrow>
          (case get_ready_message (m_processor c) of
             None \<Rightarrow> None
           | Some (p, msg) \<Rightarrow> Some (c\<lparr>m_processor := p\<rparr>, msg))
      | Some z \<Rightarrow> (case get_message00 z of (z, msg) \<Rightarrow> Some (c\<lparr>m_hybi00 := Some z\<rparr>, msg)))"

definition con_prepare_data ::
  "'d extension \<Rightarrow> u32 \<Rightarrow> message_ptr \<Rightarrow> message_ptr \<Rightarrow> ('d, 'a) connection
     \<Rightarrow> ('d, 'a) connection \<times> message_ptr \<times> error_code option" where
  "con_prepare_data E key msg out c =
     (case m_hybi00 c of
        None \<Rightarrow> (case prepare_data_frame E (m_processor c) key msg out of
                   (p, r) \<Rightarrow> (c\<lparr>m_processor := p\<rparr>, r))
      | Some z \<Rightarrow> (c, prepare_data_frame00 msg out))"

definition con_prepare_ping ::
  "u32 \<Rightarrow> bytes \<Rightarrow> message_ptr \<Rightarrow> ('d, 'a) connection \<Rightarrow> message_ptr \<times> error_code option" where
  "con_prepare_ping key payload out c =
     (case m_hybi00 c of
        None \<Rightarrow> prepare_ping (m_processor c) key payload out
      | Some z \<Rightarrow> (out, prepare_ping00))"

definition con_prepare_pong ::
  "u32 \<Rightarrow> bytes \<Rightarrow> message_ptr \<Rightarrow> ('d, 'a) connection \<Rightarrow> message_ptr \<times> error_code option" where
  "con_prepare_pong key payload out c =
     (case m_hybi00 c of
        None \<Rightarrow> prepare_pong (m_processor c) key payload out
      | Some z \<Rightarrow> (out, prepare_pong00))"

definition con_prepare_close ::
  "u32 \<Rightarrow> close_code \<Rightarrow> bytes \<Rightarrow> message_ptr \<Rightarrow> ('d, 'a) connection \<Rightarrow> message_ptr \<times> error_code option" where
  "con_prepare_close key code reason out c =
     (case m_hybi00 c of
        None \<Rightarrow> prepare_close (m_processor c) key code reason out
      | Some z \<Rightarrow> prepare_close00 out)"

lemma con_processor [simp]:
  assumes "m_hybi00 c = None"
  shows "con_consume E buf c =
      (case consume E (m_processor c) buf of
         None \<Rightarrow> None
       | Some (p, n, ec) \<Rightarrow> Some (c\<lparr>m_processor := p\<rparr>, n, ec))"
    and "con_ready c = ready (m_processor c)"
    and "con_get_message c =
      (case get_ready_message (m_processor c) of
         None \<Rightarrow> None
       | Some (p, msg) \<Rightarrow> Some (c\<lparr>m_processor := p\<rparr>, msg))"
    and "con_prepare_data E key msg out c =
      (case prepare_data_frame E (m_processor c) key msg out of (p, r) \<Rightarrow> (c\<lparr>m_processor := p\<rparr>, r))"
    and "con_prepare_ping key payload out c = prepare_ping (m_processor c) key payload out"
    and "con_prepare_pong key payload out c = prepare_pong (m_processor c) key payload out"
    and "con_prepare_close key code reason out c = prepare_close (m_processor c) key code reason out"
  using assms
  by (simp_all add: con_consume_def con_ready_def con_get_message_def con_prepare_data_def
      con_prepare_ping_def con_prepare_pong_def con_prepare_close_def)

subsection \<open>The write queue\<close>

definition write_push :: "message_ptr \<Rightarrow> ('d, 'a) connection \<Rightarrow> ('d, 'a) connection" where
  "write_push msg c =
     (case msg of
        None \<Rightarrow> c
      | Some m \<Rightarrow> c\<lparr>m_send_buffer_size := m_send_buffer_size c + of_nat (length (m_payload m)),
                    m_send_queue := m_send_queue c @ [m], pushed := pushed c @ [m]\<rparr>)"

definition write_pop :: "('d, 'a) connection \<Rightarrow> ('d, 'a) connection \<times> message_ptr" where
  "write_pop c =
     (case m_send_queue c of
        [] \<Rightarrow> (c, None)
      | m # rest \<Rightarrow>
          (c\<lparr>m_send_buffer_size := m_send_buffer_size c - of_nat (length (m_payload m)),
             m_send_queue := rest\<rparr>, Some m))"

definition get_buffered_amount :: "('d, 'a) connection \<Rightarrow> u64" where
  "get_buffered_amount c = m_send_buffer_size c"

text \<open>Pushing a message and posting \<open>write_frame\<close> when no write is under way.\<close>

definition push_and_dispatch :: "message_ptr \<Rightarrow> ('d, 'a) connection \<Rightarrow> ('d, 'a) connection" where
  "push_and_dispatch msg c =
     (let c = write_push msg c;
          needs_writing = (\<not> m_write_flag c \<and> m_send_queue c \<noteq> [])
      in if needs_writing then dispatch_write_frame c else c)"

text \<open>The loop of \<open>write_frame\<close> that takes messages off the queue up to a terminal one.\<close>

function pull_messages :: "('d, 'a) connection \<Rightarrow> ('d, 'a) connection" where
  "pull_messages c =
     (case write_pop c of
        (c', None) \<Rightarrow> c'
      | (c', Some m) \<Rightarrow>
          let c' = c'\<lparr>m_current_msgs := m_current_msgs c' @ [m]\<rparr>
          in if \<not> m_terminal m then pull_messages c' else c')"
  by pat_completeness auto
termination
  by (relation "measure (\<lambda>c. length (m_send_queue c))")
    (auto simp: write_pop_def split: list.splits)

declare pull_messages.simps [simp del]

definition buffers :: "message list \<Rightarrow> bytes list" where
  "buffers ms = concat (map (\<lambda>m. [m_header m, m_payload m]) ms)"

definition write_frame :: "('d, 'a) connection \<Rightarrow> ('d, 'a) connection" where
  "write_frame c =
     (if m_write_flag c then c
      else
        let c = pull_messages c
        in if m_current_msgs c = [] then c
           else
             let c = c\<lparr>m_write_flag := True,
                       m_send_buffer := m_send_buffer c @ buffers (m_current_msgs c)\<rparr>
             in c\<lparr>t_write := Some (m_send_buffer c), wire := wire c @ concat (m_send_buffer c)\<rparr>)"

subsection \<open>The end of the connection\<close>

definition terminate :: "error_code option \<Rightarrow> ('d, 'a) connection \<Rightarrow> ('d, 'a) connection" where
  "terminate ec c =
     (let c = cancel_handshake_timer c;
          c = (case ec of
                 None \<Rightarrow> c
               | Some e \<Rightarrow> c\<lparr>m_ec := Some e, m_local_close_code := abnormal_close,
                             m_local_close_reason := ascii (code_message e)\<rparr>);
          c = (if m_is_http c then c\<lparr>m_http_state := HTTP_closed\<rparr> else c)
      in if c_state c = Connecting then async_shutdown T_failed (c\<lparr>c_state := Closed\<rparr>)
         else if c_state c \<noteq> Closed then async_shutdown T_closed (c\<lparr>c_state := Closed\<rparr>)
         else c)"

text \<open>The termination handler belongs to the endpoint, which drops its reference.\<close>

definition handle_terminate ::
  "('d, 'a) handlers \<Rightarrow> terminate_status \<Rightarrow> ('d, 'a) connection \<Rightarrow> ('d, 'a) connection" where
  "handle_terminate H tstat c =
     (case tstat of
        T_failed \<Rightarrow>
          if m_ec c \<noteq> Some (WsError E_http_connection_ended) then call (m_fail_handler H) c else c
      | T_closed \<Rightarrow> call (m_close_handler H) c
      | T_unknown \<Rightarrow> c)"

definition handle_open_handshake_timeout ::
  "error_code option \<Rightarrow> ('d, 'a) connection \<Rightarrow> ('d, 'a) connection" where
  "handle_open_handshake_timeout ec c =
     (if ec = Some (TransportError T_operation_aborted) then c
      else if ec \<noteq> None then c
      else terminate (Some (WsError E_open_handshake_timeout)) c)"

definition handle_close_handshake_timeout ::
  "error_code option \<Rightarrow> ('d, 'a) connection \<Rightarrow> ('d, 'a) connection" where
  "handle_close_handshake_timeout ec c =
     (if ec = Some (TransportError T_operation_aborted) then c
      else if ec \<noteq> None then c
      else terminate (Some (WsError E_close_handshake_timeout)) c)"

definition handle_pong_timeout ::
  "('d, 'a) handlers \<Rightarrow> bytes \<Rightarrow> error_code option \<Rightarrow> ('d, 'a) connection \<Rightarrow> ('d, 'a) connection" where
  "handle_pong_timeout H payload ec c =
     (if ec \<noteq> None then c else call_with (m_pong_timeout_handler H) payload c)"

text \<open>The last message of an empty vector does not exist.\<close>

definition handle_write_frame ::
  "error_code option \<Rightarrow> ('d, 'a) connection \<Rightarrow> ('d, 'a) connection option" where
  "handle_write_frame ec c =
     (if m_current_msgs c = [] then None
      else
        let terminal = m_terminal (last (m_current_msgs c));
            c = c\<lparr>m_send_buffer := [], m_current_msgs := []\<rparr>
        in if ec \<noteq> None then Some (terminate ec c)
           else if terminal then Some (terminate None c)
           else
             let c = c\<lparr>m_write_flag := False\<rparr>
             in if m_send_queue c \<noteq> [] then Some (dispatch_write_frame c) else Some c)"

subsection \<open>Sending\<close>

text \<open>\<open>send\<close> after its test of the state; between the two the state lock is free.\<close>

definition send_unlocked ::
  "'d extension \<Rightarrow> message \<Rightarrow> ('d, 'a) connection \<Rightarrow> ('d, 'a) connection \<times> error_code option" where
  "send_unlocked E msg c =
     (if m_prepared msg then (push_and_dispatch (Some msg) c, None)
      else
        let (key, c) = draw_key c;
            (c, outgoing_msg, ec) = con_prepare_data E key (Some msg) (get_message CONTINUATION) c
        in if ec \<noteq> None then (c, ec) else (push_and_dispatch outgoing_msg c, None))"

definition send_msg ::
  "'d extension \<Rightarrow> message \<Rightarrow> ('d, 'a) connection \<Rightarrow> ('d, 'a) connection \<times> error_code option" where
  "send_msg E msg c =
     (if c_state c \<noteq> Open then (c, Some (WsError E_invalid_state)) else send_unlocked E msg c)"

definition send_string ::
  "'d extension \<Rightarrow> bytes \<Rightarrow> opcode \<Rightarrow> ('d, 'a) connection \<Rightarrow> ('d, 'a) connection \<times> error_code option" where
  "send_string E payload op c =
     (case get_message_op op (of_nat (length payload)) of
        None \<Rightarrow> (c, Some (WsError E_no_outgoing_buffers))
      | Some msg \<Rightarrow> send_msg E (set_compressed True (append_payload payload msg)) c)"

definition send_data ::
  "'d extension \<Rightarrow> bytes \<Rightarrow> opcode \<Rightarrow> ('d, 'a) connection \<Rightarrow> ('d, 'a) connection \<times> error_code option" where
  "send_data E payload op c =
     (case get_message_op op (of_nat (length payload)) of
        None \<Rightarrow> (c, Some (WsError E_no_outgoing_buffers))
      | Some msg \<Rightarrow> send_msg E (append_payload payload msg) c)"

definition set_ping_timer ::
  "('d, 'a) handlers \<Rightarrow> bytes \<Rightarrow> ('d, 'a) connection \<Rightarrow> ('d, 'a) connection" where
  "set_ping_timer H payload c =
     (if m_pong_timeout_handler H = None then c
      else
        let c = cancel_timer (m_ping_timer c) c
        in if m_pong_timeout_dur c > 0
           then set_timer (Pong_timer payload) (c\<lparr>m_ping_timer := Some (Pong_timer payload)\<rparr>)
           else c)"

definition ping ::
  "('d, 'a) handlers \<Rightarrow> bytes \<Rightarrow> ('d, 'a) connection \<Rightarrow> ('d, 'a) connection \<times> error_code option" where
  "ping H payload c =
     (if c_state c \<noteq> Open then (c, Some (WsError E_invalid_state))
      else
        let (key, c) = draw_key c;
            (msg, ec) = con_prepare_ping key payload (get_message CONTINUATION) c
        in if ec \<noteq> None then (c, ec)
           else (push_and_dispatch msg (set_ping_timer H payload c), None))"

definition pong :: "bytes \<Rightarrow> ('d, 'a) connection \<Rightarrow> ('d, 'a) connection \<times> error_code option" where
  "pong payload c =
     (if c_state c \<noteq> Open then (c, Some (WsError E_invalid_state))
      else
        let (key, c) = draw_key c;
            (msg, ec) = con_prepare_pong key payload (get_message CONTINUATION) c
        in if ec \<noteq> None then (c, ec) else (push_and_dispatch msg c, None))"

subsection \<open>Closing\<close>

text \<open>The codes a close frame is sent with.\<close>

definition choose_close ::
  "config \<Rightarrow> close_code \<Rightarrow> bytes \<Rightarrow> bool \<Rightarrow> ('d, 'a) connection \<Rightarrow> close_code \<times> bytes" where
  "choose_close cfg code reason ack c =
     (if silent_close cfg then (no_status, [])
      else if code \<noteq> blank then (code, reason)
      else if \<not> ack then (no_status, [])
      else if m_remote_close_code c = no_status then (normal_close, [])
      else (m_remote_close_code c, m_remote_close_reason c))"

definition send_close_frame ::
  "config \<Rightarrow> close_code \<Rightarrow> bytes \<Rightarrow> bool \<Rightarrow> bool \<Rightarrow> ('d, 'a) connection
     \<Rightarrow> ('d, 'a) connection \<times> error_code option" where
  "send_close_frame cfg code reason ack terminal c =
     (let (local_code, local_reason) = choose_close cfg code reason ack c;
          c = c\<lparr>m_local_close_code := local_code, m_local_close_reason := local_reason\<rparr>;
          (key, c) = draw_key c;
          (msg, ec) = con_prepare_close key local_code local_reason (get_message CONTINUATION) c
      in if ec \<noteq> None then (c, ec)
         else
           let msg = (if terminal then map_option (set_terminal True) msg else msg);
               c = c\<lparr>c_state := Closing\<rparr>;
               c = (if ack then c\<lparr>m_was_clean := True\<rparr> else c);
               c = (if m_close_handshake_timeout_dur c > 0
                    then set_timer Close_handshake_timer (c\<lparr>m_handshake_timer := Some Close_handshake_timer\<rparr>)
                    else c)
           in (push_and_dispatch msg c, None))"

definition send_close_ack ::
  "config \<Rightarrow> close_code \<Rightarrow> bytes \<Rightarrow> ('d, 'a) connection \<Rightarrow> ('d, 'a) connection \<times> error_code option" where
  "send_close_ack cfg code reason c = send_close_frame cfg code reason True (m_is_server c) c"

definition close_connection ::
  "config \<Rightarrow> close_code \<Rightarrow> bytes \<Rightarrow> ('d, 'a) connection \<Rightarrow> ('d, 'a) connection \<times> error_code option" where
  "close_connection cfg code reason c =
     (let tr = take (min (length reason) close_reason_size) reason
      in if c_state c \<noteq> Open then (c, Some (WsError E_invalid_state))
         else send_close_frame cfg code tr False (status_terminal code) c)"

subsection \<open>Reading\<close>

definition process_close_frame ::
  "config \<Rightarrow> message \<Rightarrow> ('d, 'a) connection \<Rightarrow> ('d, 'a) connection" where
  "process_close_frame cfg msg c =
     (let (code, ec) = extract_code (m_payload msg);
          c = c\<lparr>m_remote_close_code := code\<rparr>
      in if ec \<noteq> None then
           (if drop_on_protocol_error cfg then terminate ec c
            else fst (send_close_ack cfg protocol_error (ascii ''Invalid close code'') c))
         else
           let (reason, ec) = extract_reason (m_payload msg);
               c = c\<lparr>m_remote_close_reason := reason\<rparr>
           in if ec \<noteq> None then
                (if drop_on_protocol_error cfg then terminate ec c
                 else fst (send_close_ack cfg protocol_error (ascii ''Invalid close reason'') c))
              else if c_state c = Open then fst (send_close_ack cfg blank [] c)
              else if c_state c = Closing \<and> \<not> m_was_clean c then
                let c = c\<lparr>m_was_clean := True\<rparr>
                in if m_is_server c then terminate None c else c
              else c)"

definition process_control_frame ::
  "config \<Rightarrow> ('d, 'a) handlers \<Rightarrow> message \<Rightarrow> ('d, 'a) connection \<Rightarrow> ('d, 'a) connection" where
  "process_control_frame cfg H msg c =
     (let op = m_opcode msg
      in if c_state c = Closed then c
         else if op \<noteq> CLOSE \<and> c_state c \<noteq> Open then c
         else if op = PING then
           let (c, should_reply) = (case m_ping_handler H of
                                      None \<Rightarrow> (c, True)
                                    | Some f \<Rightarrow> f (m_payload msg) c)
           in if should_reply then fst (pong (m_payload msg) c) else c
         else if op = PONG then
           let c = call_with (m_pong_handler H) (m_payload msg) c
           in cancel_timer (m_ping_timer c) c
         else if op = CLOSE then process_close_frame cfg msg c
         else c)"

definition read_frame :: "('d, 'a) connection \<Rightarrow> ('d, 'a) connection" where
  "read_frame c = (if \<not> m_read_flag c then c else async_read c)"

text \<open>What follows an error of \<open>consume\<close>.\<close>

definition consume_failed ::
  "config \<Rightarrow> error_code \<Rightarrow> ('d, 'a) connection \<Rightarrow> ('d, 'a) connection" where
  "consume_failed cfg ec c =
     (if drop_on_protocol_error cfg then terminate (Some ec) c
      else
        let (c, close_ec) = close_connection cfg (to_ws (Some ec)) (ascii (code_message ec)) c
        in if close_ec \<noteq> None then terminate close_ec c else c)"

definition deliver_ready ::
  "config \<Rightarrow> ('d, 'a) handlers \<Rightarrow> ('d, 'a) connection \<Rightarrow> ('d, 'a) connection option" where
  "deliver_ready cfg H c =
     (if \<not> con_ready c then Some c
      else
        case con_get_message c of
          None \<Rightarrow> None
        | Some (c, None) \<Rightarrow> Some c
        | Some (c, Some msg) \<Rightarrow>
            if \<not> is_control (m_opcode msg) then
              Some (if c_state c \<noteq> Open then c else call_with (m_message_handler H) msg c)
            else Some (process_control_frame cfg H msg c))"

text \<open>
  The loop over the bytes read. The flag tells whether it ran to its end, so that the next read
  is issued, or the handler returned.
\<close>

partial_function (option) read_loop ::
  "'d extension \<Rightarrow> config \<Rightarrow> ('d, 'a) handlers \<Rightarrow> bytes \<Rightarrow> ('d, 'a) connection
     \<Rightarrow> (('d, 'a) connection \<times> bool) option" where
  "read_loop E cfg H buf c =
     (if buf = [] then Some (c, True)
      else
        case con_consume E buf c of
          None \<Rightarrow> None
        | Some (c, n, ec) \<Rightarrow>
            (case ec of
               Some e \<Rightarrow> Some (consume_failed cfg e c, False)
             | None \<Rightarrow>
                 (case deliver_ready cfg H c of
                    None \<Rightarrow> None
                  | Some c \<Rightarrow> read_loop E cfg H (drop n buf) c)))"

declare read_loop.simps [code]

definition handle_read_frame ::
  "'d extension \<Rightarrow> config \<Rightarrow> ('d, 'a) handlers \<Rightarrow> error_code option \<Rightarrow> bytes \<Rightarrow> ('d, 'a) connection
     \<Rightarrow> ('d, 'a) connection option" where
  "handle_read_frame E cfg H ec buf c =
     (let ecm = (if ec = None \<and> m_internal_state c \<noteq> PROCESS_CONNECTION
                 then Some (WsError E_invalid_state) else ec)
      in case ecm of
           Some e \<Rightarrow>
             if e = TransportError T_eof \<and> c_state c = Closed then Some c
             else if e = TransportError T_eof \<and> c_state c = Closing \<and> \<not> m_is_server c
             then Some (terminate None c)
             else if e = WsError E_invalid_state \<and> c_state c = Closed then Some c
             else Some (terminate (Some e) c)
         | None \<Rightarrow>
             (case read_loop E cfg H buf c of
                None \<Rightarrow> None
              | Some (c, go_on) \<Rightarrow> Some (if go_on then read_frame c else c)))"

definition handle_pause_reading :: "('d, 'a) connection \<Rightarrow> ('d, 'a) connection" where
  "handle_pause_reading c = c\<lparr>m_read_flag := False\<rparr>"

definition handle_resume_reading :: "('d, 'a) connection \<Rightarrow> ('d, 'a) connection" where
  "handle_resume_reading c = read_frame (c\<lparr>m_read_flag := True\<rparr>)"

subsection \<open>An open connection\<close>

text \<open>
  The end of the handshake of a server (\<open>handle_write_http_response\<close> once the response is
  written): the state is open, the application is told, and the bytes that came after the
  request are read as frames.
\<close>

definition open_connection ::
  "'d extension \<Rightarrow> config \<Rightarrow> ('d, 'a) handlers \<Rightarrow> bytes \<Rightarrow> ('d, 'a) connection
     \<Rightarrow> ('d, 'a) connection option" where
  "open_connection E cfg H rest c =
     handle_read_frame E cfg H None rest
       (call (m_open_handler H) (c\<lparr>m_internal_state := PROCESS_CONNECTION, c_state := Open\<rparr>))"

text \<open>
  What can happen to a connection: calls of the application from its threads (\<open>send\<close> in two
  steps), and the completion of what was asked of the transport.
\<close>

datatype conn_event =
    Send_begins message | Send_ends message | Pings bytes | Pongs bytes | Closes_with close_code bytes
  | Read_done bytes | Read_failed error_code | Write_done "error_code option" | Dispatched
  | Timer_fired timer | Shutdown_done

fun conn_enabled :: "conn_event \<Rightarrow> ('d, 'a) connection \<Rightarrow> bool" where
  "conn_enabled (Send_ends msg) c \<longleftrightarrow> msg \<in> set (senders c)"
| "conn_enabled (Read_done buf) c \<longleftrightarrow> t_reads c > 0 \<and> buf \<noteq> []"
| "conn_enabled (Read_failed e) c \<longleftrightarrow> t_reads c > 0"
| "conn_enabled (Write_done ec) c \<longleftrightarrow> t_write c \<noteq> None"
| "conn_enabled Dispatched c \<longleftrightarrow> t_dispatch c > 0"
| "conn_enabled (Timer_fired t) c \<longleftrightarrow> t \<in> set (t_timers c)"
| "conn_enabled Shutdown_done c \<longleftrightarrow> t_shutdown c \<noteq> []"
| "conn_enabled _ c \<longleftrightarrow> True"

fun conn_happen ::
  "'d extension \<Rightarrow> config \<Rightarrow> ('d, 'a) handlers \<Rightarrow> conn_event \<Rightarrow> ('d, 'a) connection
     \<Rightarrow> ('d, 'a) connection option" where
  "conn_happen E cfg H (Send_begins msg) c =
     Some (if c_state c \<noteq> Open then c else c\<lparr>senders := msg # senders c\<rparr>)"
| "conn_happen E cfg H (Send_ends msg) c =
     Some (fst (send_unlocked E msg (c\<lparr>senders := remove1 msg (senders c)\<rparr>)))"
| "conn_happen E cfg H (Pings payload) c = Some (fst (ping H payload c))"
| "conn_happen E cfg H (Pongs payload) c = Some (fst (pong payload c))"
| "conn_happen E cfg H (Closes_with code reason) c = Some (fst (close_connection cfg code reason c))"
| "conn_happen E cfg H (Read_done buf) c =
     handle_read_frame E cfg H None buf (c\<lparr>t_reads := t_reads c - 1\<rparr>)"
| "conn_happen E cfg H (Read_failed e) c =
     handle_read_frame E cfg H (Some e) [] (c\<lparr>t_reads := t_reads c - 1\<rparr>)"
| "conn_happen E cfg H (Write_done ec) c = handle_write_frame ec (c\<lparr>t_write := None\<rparr>)"
| "conn_happen E cfg H Dispatched c = Some (write_frame (c\<lparr>t_dispatch := t_dispatch c - 1\<rparr>))"
| "conn_happen E cfg H (Timer_fired t) c =
     (let c = c\<lparr>t_timers := remove1 t (t_timers c)\<rparr>
      in Some (case t of
                 Open_handshake_timer \<Rightarrow> handle_open_handshake_timeout None c
               | Close_handshake_timer \<Rightarrow> handle_close_handshake_timeout None c
               | Pong_timer payload \<Rightarrow> handle_pong_timeout H payload None c))"
| "conn_happen E cfg H Shutdown_done c =
     (let st = hd (t_shutdown c)
      in Some (handle_terminate H st
                 (c\<lparr>t_shutdown := tl (t_shutdown c), ended := ended c @ [st]\<rparr>)))"

inductive conn_reachable ::
  "'d extension \<Rightarrow> config \<Rightarrow> ('d, 'a) handlers \<Rightarrow> ('d, 'a) connection \<Rightarrow> ('d, 'a) connection \<Rightarrow> bool"
  for E cfg H c0 where
  conn_start: "conn_reachable E cfg H c0 c0"
| conn_event: "conn_reachable E cfg H c0 c \<Longrightarrow> conn_enabled ev c
     \<Longrightarrow> conn_happen E cfg H ev c = Some c' \<Longrightarrow> conn_reachable E cfg H c0 c'"

text \<open>A run given as a list of events; \<open>None\<close> when one cannot happen.\<close>

fun conn_run ::
  "'d extension \<Rightarrow> config \<Rightarrow> ('d, 'a) handlers \<Rightarrow> conn_event list \<Rightarrow> ('d, 'a) connection
     \<Rightarrow> ('d, 'a) connection option" where
  "conn_run E cfg H [] c = Some c"
| "conn_run E cfg H (ev # evs) c =
     (if conn_enabled ev c
      then (case conn_happen E cfg H ev c of None \<Rightarrow> None | Some c' \<Rightarrow> conn_run E cfg H evs c')
      else None)"

lemma conn_run_reachable:
  "conn_reachable E cfg H c0 c \<Longrightarrow> conn_run E cfg H evs c = Some c' \<Longrightarrow> conn_reachable E cfg H c0 c'"
  by (induction evs arbitrary: c) (auto split: if_splits option.splits intro: conn_event)

text \<open>
  The operations a callback may use on its connection, any number of times, and the changes it
  makes to the application's own state.
\<close>

inductive api ::
  "config \<Rightarrow> ('d, 'a) handlers \<Rightarrow> 'd extension \<Rightarrow> ('d, 'a) connection \<Rightarrow> ('d, 'a) connection \<Rightarrow> bool"
  for cfg H E c where
  api_none: "api cfg H E c c"
| api_send: "api cfg H E c c1 \<Longrightarrow> api cfg H E c (fst (send_msg E msg c1))"
| api_ping: "api cfg H E c c1 \<Longrightarrow> api cfg H E c (fst (ping H payload c1))"
| api_pong: "api cfg H E c c1 \<Longrightarrow> api cfg H E c (fst (pong payload c1))"
| api_close: "api cfg H E c c1 \<Longrightarrow> api cfg H E c (fst (close_connection cfg code reason c1))"
| api_app: "api cfg H E c c1 \<Longrightarrow> api cfg H E c (c1\<lparr>app := a\<rparr>)"

text \<open>The contract of the application: its callbacks act on the connection by its operations only.\<close>

locale application =
  fixes cfg :: config and H :: "('d, 'a) handlers" and E :: "'d extension"
  assumes message_api: "m_message_handler H = Some f \<Longrightarrow> api cfg H E c (f msg c)"
    and ping_api: "m_ping_handler H = Some g \<Longrightarrow> api cfg H E c (fst (g payload c))"
    and pong_api: "m_pong_handler H = Some f' \<Longrightarrow> api cfg H E c (f' payload c)"
    and pong_timeout_api: "m_pong_timeout_handler H = Some f' \<Longrightarrow> api cfg H E c (f' payload c)"
    and open_api: "m_open_handler H = Some k \<Longrightarrow> api cfg H E c (k c)"
    and close_api: "m_close_handler H = Some k \<Longrightarrow> api cfg H E c (k c)"
    and fail_api: "m_fail_handler H = Some k \<Longrightarrow> api cfg H E c (k c)"

end
