(* ===== verification/Opening.thy ===== *)
theory Opening
  imports Connection
begin

text \<open>
  The connection object (\<open>websocketpp/connection.hpp\<close>, \<open>impl/connection_impl.hpp\<close>) up to the end of
  its opening handshake, on both sides: what the application may set, the start, the request and the
  response on the wire, the choice of the processor, the calls of the application, and the change to
  the open connection of the theory \<open>Connection\<close>, which this state contains. What is asked of the
  transport and not yet answered is the list \<open>o_pending\<close>. A connection of the first draft is
  opened, and its frames are read and written, like those of the other versions, by the processor
  the handshake installs.
\<close>

subsection \<open>State\<close>

datatype processor = Proc00 | Proc07 | Proc08 | Proc13

datatype pending = Transport_init | Request_read | Response_write | Request_write | Response_read

text \<open>
  What the configuration class fixes, the extension object a new processor has, and the contents
  of the memory the processors use without setting it.
\<close>

record 'd setting =
  s_config :: config
  s_extension :: "'d negotiation"
  s_extension0 :: 'd
  enable_extensions :: bool
  connection_read_buffer_size :: nat
  client_version :: int
  s_sha1 :: "u32 list"
  s_key00 :: bytes
  s_md5 :: bytes

text \<open>\<open>o_rest\<close> is \<open>m_buf\<close> up to \<open>m_buf_cursor\<close>.\<close>

record ('d, 'a) opening_con =
  o_con :: "('d, 'a) connection"
  o_request :: request
  o_response :: response
  o_uri :: "uri option"
  m_subprotocol :: bytes
  m_requested_subprotocols :: "bytes list"
  m_user_agent :: bytes
  o_max_message_size :: u64
  m_handshake_buffer :: bytes
  o_processor :: "processor option"
  o_rest :: bytes
  is_secure :: bool
  o_pending :: "pending list"

text \<open>The callbacks; those for frames may use what the handshake has found.\<close>

record ('d, 'a) opening_handlers =
  m_http_handler :: "(('d, 'a) opening_con \<Rightarrow> ('d, 'a) opening_con) option"
  m_validate_handler :: "(('d, 'a) opening_con \<Rightarrow> ('d, 'a) opening_con \<times> bool) option"
  frame_handlers :: "('d, 'a) opening_con \<Rightarrow> ('d, 'a) handlers"

text \<open>
  Ways to fail that leave the handlers: an exception of the HTTP classes or of the library that is
  not caught, and undefined behaviour.
\<close>

datatype failure = Http_failure exn | Websocket_failure error_code | Undefined

type_synonym 'x outcome = "failure + 'x"

definition new_opening ::
  "('d, 'a) connection \<Rightarrow> uri option \<Rightarrow> bytes \<Rightarrow> u64 \<Rightarrow> bool \<Rightarrow> ('d, 'a) opening_con" where
  "new_opening c u ua max_size secure =
     \<lparr>o_con = c, o_request = new_request, o_response = new_response, o_uri = u, m_subprotocol = [],
      m_requested_subprotocols = [], m_user_agent = ua, o_max_message_size = max_size,
      m_handshake_buffer = [], o_processor = None, o_rest = [], is_secure = secure,
      o_pending = []\<rparr>"

definition on_con :: "(('d, 'a) connection \<Rightarrow> ('d, 'a) connection) \<Rightarrow> ('d, 'a) opening_con \<Rightarrow> ('d, 'a) opening_con" where
  "on_con f x = x\<lparr>o_con := f (o_con x)\<rparr>"

lemma on_con_simps [simp]:
  "o_con (on_con f x) = f (o_con x)" "o_request (on_con f x) = o_request x" "o_response (on_con f x) = o_response x"
  "o_uri (on_con f x) = o_uri x" "m_subprotocol (on_con f x) = m_subprotocol x"
  "m_requested_subprotocols (on_con f x) = m_requested_subprotocols x" "m_user_agent (on_con f x) = m_user_agent x"
  "o_max_message_size (on_con f x) = o_max_message_size x" "m_handshake_buffer (on_con f x) = m_handshake_buffer x"
  "o_processor (on_con f x) = o_processor x" "o_rest (on_con f x) = o_rest x" "is_secure (on_con f x) = is_secure x"
  "o_pending (on_con f x) = o_pending x"
  by (simp_all add: on_con_def)

definition ask :: "pending \<Rightarrow> ('d, 'a) opening_con \<Rightarrow> ('d, 'a) opening_con" where
  "ask p x = x\<lparr>o_pending := o_pending x @ [p]\<rparr>"

definition in_istate :: "internal_state \<Rightarrow> ('d, 'a) opening_con \<Rightarrow> bool" where
  "in_istate s x \<longleftrightarrow> m_internal_state (o_con x) = s"

definition to_istate :: "internal_state \<Rightarrow> ('d, 'a) opening_con \<Rightarrow> ('d, 'a) opening_con" where
  "to_istate s x = on_con (\<lambda>c. c\<lparr>m_internal_state := s\<rparr>) x"

definition stop :: "error_code option \<Rightarrow> ('d, 'a) opening_con \<Rightarrow> ('d, 'a) opening_con" where
  "stop ec x = on_con (terminate ec) x"

definition answer_with :: "status \<Rightarrow> ('d, 'a) opening_con \<Rightarrow> ('d, 'a) opening_con" where
  "answer_with code x = x\<lparr>o_response := set_status code (o_response x)\<rparr>"

subsection \<open>What the application sets and reads\<close>

text \<open>The error code given is set on some of the paths only.\<close>

definition add_subprotocol ::
  "bytes \<Rightarrow> error_code option \<Rightarrow> ('d, 'a) opening_con \<Rightarrow> ('d, 'a) opening_con \<times> error_code option" where
  "add_subprotocol val ec x =
     (if m_is_server (o_con x) then (x, Some (WsError E_client_only))
      else if val = [] \<or> list_ex is_not_token_char val then (x, Some (WsError E_invalid_subprotocol))
      else (x\<lparr>m_requested_subprotocols := m_requested_subprotocols x @ [val]\<rparr>, ec))"

definition select_subprotocol ::
  "bytes \<Rightarrow> error_code option \<Rightarrow> ('d, 'a) opening_con \<Rightarrow> ('d, 'a) opening_con \<times> error_code option" where
  "select_subprotocol val ec x =
     (if \<not> m_is_server (o_con x) then (x, Some (WsError E_server_only))
      else if val = [] then (x, None)
      else if val \<notin> set (m_requested_subprotocols x) then (x, Some (WsError E_unrequested_subprotocol))
      else (x\<lparr>m_subprotocol := val\<rparr>, ec))"

text \<open>The forms that raise an exception instead.\<close>

definition or_throw :: "('d, 'a) opening_con \<times> error_code option \<Rightarrow> ('d, 'a) opening_con outcome" where
  "or_throw r = (case r of (x, None) \<Rightarrow> Inr x | (_, Some ec) \<Rightarrow> Inl (Websocket_failure ec))"

definition add_subprotocol_throw :: "bytes \<Rightarrow> ('d, 'a) opening_con \<Rightarrow> ('d, 'a) opening_con outcome" where
  "add_subprotocol_throw val x = or_throw (add_subprotocol val None x)"

definition select_subprotocol_throw :: "bytes \<Rightarrow> ('d, 'a) opening_con \<Rightarrow> ('d, 'a) opening_con outcome" where
  "select_subprotocol_throw val x = or_throw (select_subprotocol val None x)"

definition get_request_header :: "bytes \<Rightarrow> ('d, 'a) opening_con \<Rightarrow> bytes" where
  "get_request_header key x = get_header key (o_request x)"

definition get_request_body :: "('d, 'a) opening_con \<Rightarrow> bytes" where
  "get_request_body x = m_body (o_request x)"

definition get_response_header :: "bytes \<Rightarrow> ('d, 'a) opening_con \<Rightarrow> bytes" where
  "get_response_header key x = get_header key (o_response x)"

text \<open>What is read through the pointer to the URI, which is null before there is one.\<close>

definition from_uri :: "(uri \<Rightarrow> 'x) \<Rightarrow> ('d, 'a) opening_con \<Rightarrow> 'x outcome" where
  "from_uri f x = (case o_uri x of None \<Rightarrow> Inl Undefined | Some u \<Rightarrow> Inr (f u))"

definition con_get_secure :: "('d, 'a) opening_con \<Rightarrow> bool outcome" where
  "con_get_secure x = from_uri m_secure x"

definition con_get_host :: "('d, 'a) opening_con \<Rightarrow> bytes outcome" where
  "con_get_host x = from_uri m_host x"

definition con_get_resource :: "('d, 'a) opening_con \<Rightarrow> bytes outcome" where
  "con_get_resource x = from_uri m_resource x"

definition con_get_port :: "('d, 'a) opening_con \<Rightarrow> u16 outcome" where
  "con_get_port x = from_uri m_port x"

definition con_set_uri :: "uri option \<Rightarrow> ('d, 'a) opening_con \<Rightarrow> ('d, 'a) opening_con" where
  "con_set_uri u x = x\<lparr>o_uri := u\<rparr>"

text \<open>The forms of the operations of an open connection that raise an exception instead.\<close>

definition or_throw_con :: "('d, 'a) connection \<times> error_code option \<Rightarrow> ('d, 'a) connection outcome" where
  "or_throw_con r = (case r of (c, None) \<Rightarrow> Inr c | (_, Some ec) \<Rightarrow> Inl (Websocket_failure ec))"

definition ping_throw :: "('d, 'a) handlers \<Rightarrow> bytes \<Rightarrow> ('d, 'a) connection \<Rightarrow> ('d, 'a) connection outcome" where
  "ping_throw H payload c = or_throw_con (ping H payload c)"

definition pong_throw :: "bytes \<Rightarrow> ('d, 'a) connection \<Rightarrow> ('d, 'a) connection outcome" where
  "pong_throw payload c = or_throw_con (pong payload c)"

definition close_throw ::
  "config \<Rightarrow> close_code \<Rightarrow> bytes \<Rightarrow> ('d, 'a) connection \<Rightarrow> ('d, 'a) connection outcome" where
  "close_throw cfg code reason c = or_throw_con (close_connection cfg code reason c)"

definition invalid_call :: "'x outcome" where
  "invalid_call = Inl (Websocket_failure (WsError E_invalid_state))"

definition con_set_status :: "status \<Rightarrow> ('d, 'a) opening_con \<Rightarrow> ('d, 'a) opening_con outcome" where
  "con_set_status code x =
     (if \<not> in_istate PROCESS_HTTP_REQUEST x then invalid_call
      else Inr (x\<lparr>o_response := set_status code (o_response x)\<rparr>))"

definition con_set_status_msg :: "status \<Rightarrow> bytes \<Rightarrow> ('d, 'a) opening_con \<Rightarrow> ('d, 'a) opening_con outcome" where
  "con_set_status_msg code msg x =
     (if \<not> in_istate PROCESS_HTTP_REQUEST x then invalid_call
      else Inr (x\<lparr>o_response := set_status_msg code msg (o_response x)\<rparr>))"

definition con_set_body :: "bytes \<Rightarrow> ('d, 'a) opening_con \<Rightarrow> ('d, 'a) opening_con outcome" where
  "con_set_body val x =
     (if \<not> in_istate PROCESS_HTTP_REQUEST x then invalid_call
      else Inr (x\<lparr>o_response := set_body val (o_response x)\<rparr>))"

definition con_append_header :: "bytes \<Rightarrow> bytes \<Rightarrow> ('d, 'a) opening_con \<Rightarrow> ('d, 'a) opening_con outcome" where
  "con_append_header key val x =
     (if m_is_server (o_con x) then
        (if in_istate PROCESS_HTTP_REQUEST x
         then map_sum Http_failure (\<lambda>r. x\<lparr>o_response := r\<rparr>) (append_header key val (o_response x))
         else invalid_call)
      else
        (if in_istate USER_INIT x
         then map_sum Http_failure (\<lambda>r. x\<lparr>o_request := r\<rparr>) (append_header key val (o_request x))
         else invalid_call))"

definition con_replace_header :: "bytes \<Rightarrow> bytes \<Rightarrow> ('d, 'a) opening_con \<Rightarrow> ('d, 'a) opening_con outcome" where
  "con_replace_header key val x =
     (if m_is_server (o_con x) then
        (if in_istate PROCESS_HTTP_REQUEST x
         then Inr (x\<lparr>o_response := replace_header key val (o_response x)\<rparr>) else invalid_call)
      else
        (if in_istate USER_INIT x
         then Inr (x\<lparr>o_request := replace_header key val (o_request x)\<rparr>) else invalid_call))"

definition con_remove_header :: "bytes \<Rightarrow> ('d, 'a) opening_con \<Rightarrow> ('d, 'a) opening_con outcome" where
  "con_remove_header key x =
     (if m_is_server (o_con x) then
        (if in_istate PROCESS_HTTP_REQUEST x
         then Inr (x\<lparr>o_response := remove_header key (o_response x)\<rparr>) else invalid_call)
      else
        (if in_istate USER_INIT x
         then Inr (x\<lparr>o_request := remove_header key (o_request x)\<rparr>) else invalid_call))"

definition defer_http_response :: "('d, 'a) opening_con \<Rightarrow> ('d, 'a) opening_con" where
  "defer_http_response x = on_con (\<lambda>c. (cancel_handshake_timer c)\<lparr>m_http_state := HTTP_deferred\<rparr>) x"

subsection \<open>The processor of a version\<close>

text \<open>
  \<open>get_processor\<close> creates the object; \<open>install\<close> assigns it to the connection, as \<open>m_hybi00\<close> when it
  is that of version 0.
\<close>

definition get_processor :: "int \<Rightarrow> processor option" where
  "get_processor version =
     (if version = 0 then Some Proc00
      else if version = 7 then Some Proc07
      else if version = 8 then Some Proc08
      else if version = 13 then Some Proc13
      else None)"

fun get_version :: "processor \<Rightarrow> int" where
  "get_version Proc00 = 0"
| "get_version Proc07 = 7"
| "get_version Proc08 = 8"
| "get_version Proc13 = 13"

definition versions_supported :: "int list" where
  "versions_supported = [0, 7, 8, 13]"

definition install :: "'d setting \<Rightarrow> processor option \<Rightarrow> ('d, 'a) opening_con \<Rightarrow> ('d, 'a) opening_con" where
  "install S p x =
     on_con (\<lambda>c. c\<lparr>m_processor := new_hybi13 (m_is_server c) (o_max_message_size x) (s_extension0 S),
                   m_hybi00 := (if p = Some Proc00 then Some new_hybi00 else None)\<rparr>)
       (x\<lparr>o_processor := p\<rparr>)"

text \<open>The virtual functions of the processor.\<close>

fun proc_validate_handshake :: "processor \<Rightarrow> request \<Rightarrow> error_code option" where
  "proc_validate_handshake Proc00 r = validate_handshake00 r"
| "proc_validate_handshake _ r = validate_handshake r"

fun proc_negotiate ::
  "'d setting \<Rightarrow> processor \<Rightarrow> 'p parser_scheme \<Rightarrow> ('d, 'a) opening_con
     \<Rightarrow> ('d, 'a) opening_con \<times> error_code option \<times> bytes" where
  "proc_negotiate S Proc00 header x = (x, None, [])"
| "proc_negotiate S _ header x =
     (let (d, ec, reply) =
        negotiate_extensions_helper (enable_extensions S) (s_extension S) (m_is_server (o_con x))
          (m_permessage_deflate (m_processor (o_con x))) header
      in (on_con (\<lambda>c. c\<lparr>m_processor := (m_processor c)\<lparr>m_permessage_deflate := d\<rparr>\<rparr>) x, ec, reply))"

fun proc_get_uri :: "processor \<Rightarrow> bool \<Rightarrow> request \<Rightarrow> uri" where
  "proc_get_uri Proc00 secure r = get_uri00 secure r"
| "proc_get_uri _ secure r = get_uri secure r"

fun proc_extract_subprotocols :: "processor \<Rightarrow> request \<Rightarrow> bytes list \<Rightarrow> error_code option \<times> bytes list" where
  "proc_extract_subprotocols Proc00 r ps = extract_subprotocols00 r ps"
| "proc_extract_subprotocols _ r ps = extract_subprotocols r ps"

fun proc_process_handshake ::
  "'d setting \<Rightarrow> processor \<Rightarrow> bool \<Rightarrow> request \<Rightarrow> bytes \<Rightarrow> response \<Rightarrow> (error_code option \<times> response) result" where
  "proc_process_handshake S Proc00 secure r sub res = process_handshake00 (s_key00 S) (s_md5 S) secure r sub res"
| "proc_process_handshake S _ secure r sub res = process_handshake (s_sha1 S) r sub res"

fun proc_get_raw :: "processor \<Rightarrow> response \<Rightarrow> bytes" where
  "proc_get_raw Proc00 res = get_raw00 res"
| "proc_get_raw _ res = raw_response res"

fun proc_get_origin :: "processor \<Rightarrow> request \<Rightarrow> bytes" where
  "proc_get_origin Proc00 r = get_origin00 r"
| "proc_get_origin Proc13 r = get_origin r"
| "proc_get_origin _ r = get_origin08 r"

definition con_get_origin :: "('d, 'a) opening_con \<Rightarrow> bytes outcome" where
  "con_get_origin x =
     (case o_processor x of None \<Rightarrow> Inl Undefined | Some p \<Rightarrow> Inr (proc_get_origin p (o_request x)))"

text \<open>Only version 13 makes requests, and it draws four values for the key.\<close>

fun proc_client_request ::
  "'d setting \<Rightarrow> processor \<Rightarrow> uri \<Rightarrow> ('d, 'a) opening_con \<Rightarrow> (('d, 'a) opening_con \<times> error_code option) outcome" where
  "proc_client_request S Proc00 u x = Inr (x, client_handshake_request00)"
| "proc_client_request S Proc07 u x = Inr (x, client_handshake_request07)"
| "proc_client_request S Proc08 u x = Inr (x, client_handshake_request08)"
| "proc_client_request S Proc13 u x =
     map_sum Http_failure
       (\<lambda>(ec, r). (on_con (\<lambda>c. c\<lparr>rng_used := rng_used c + 4\<rparr>) (x\<lparr>o_request := r\<rparr>), ec))
       (client_handshake_request (s_extension S) (m_permessage_deflate (m_processor (o_con x)))
          (\<lambda>i. m_rng (o_con x) (rng_used (o_con x) + i)) u (m_requested_subprotocols x) (o_request x))"

fun proc_validate_response :: "'d setting \<Rightarrow> processor \<Rightarrow> request \<Rightarrow> response \<Rightarrow> error_code option" where
  "proc_validate_response S Proc00 r res = validate_server_handshake_response00"
| "proc_validate_response S _ r res = validate_server_handshake_response (s_sha1 S) r res"

subsection \<open>Writing the response\<close>

definition write_http_response :: "error_code option \<Rightarrow> ('d, 'a) opening_con \<Rightarrow> ('d, 'a) opening_con" where
  "write_http_response ec x =
     (if ec = Some (WsError E_http_connection_ended) then x
      else
        let x = (if m_status_code (o_response x) = 0
                 then on_con (\<lambda>c. c\<lparr>m_ec := Some (WsError E_general)\<rparr>) (answer_with 500 x)
                 else on_con (\<lambda>c. c\<lparr>m_ec := ec\<rparr>) x);
            res = (o_response x)\<lparr>m_version := ascii ''HTTP/1.1''\<rparr>;
            res = (if get_header (ascii ''Server'') res = [] then
                     (if m_user_agent x \<noteq> [] then replace_header (ascii ''Server'') (m_user_agent x) res
                      else remove_header (ascii ''Server'') res)
                   else res);
            x = x\<lparr>o_response := res,
                  m_handshake_buffer := (case o_processor x of
                                           Some p \<Rightarrow> proc_get_raw p res
                                         | None \<Rightarrow> raw_response res)\<rparr>
        in ask Response_write x)"

definition write_http_response_error :: "error_code option \<Rightarrow> ('d, 'a) opening_con \<Rightarrow> ('d, 'a) opening_con" where
  "write_http_response_error ec x =
     (if \<not> in_istate READ_HTTP_REQUEST x then stop (Some (WsError E_invalid_state)) x
      else write_http_response ec (to_istate PROCESS_HTTP_REQUEST x))"

definition send_http_response :: "('d, 'a) opening_con \<Rightarrow> ('d, 'a) opening_con \<times> error_code option" where
  "send_http_response x =
     (if m_http_state (o_con x) \<noteq> HTTP_deferred then (x, Some (WsError E_invalid_state))
      else (write_http_response None (on_con (\<lambda>c. c\<lparr>m_http_state := HTTP_body_written\<rparr>) x), None))"

definition send_http_response_throw :: "('d, 'a) opening_con \<Rightarrow> ('d, 'a) opening_con outcome" where
  "send_http_response_throw x = or_throw (send_http_response x)"

subsection \<open>The server\<close>

text \<open>The test all four handlers of the handshake begin with.\<close>

datatype verdict = Ignored | Failed error_code | Passed

definition check_state :: "internal_state \<Rightarrow> error_code option \<Rightarrow> ('d, 'a) opening_con \<Rightarrow> verdict" where
  "check_state expected ec x =
     (case ec of
        Some e \<Rightarrow>
          if e = TransportError T_eof \<and> c_state (o_con x) = Closed then Ignored else Failed e
      | None \<Rightarrow>
          if c_state (o_con x) = Connecting then
            (if \<not> in_istate expected x then Failed (WsError E_invalid_state) else Passed)
          else if c_state (o_con x) = Closed then Ignored
          else Failed (WsError E_invalid_state))"

text \<open>The list of the versions, separated by commas.\<close>

fun separated :: "bytes list \<Rightarrow> bytes" where
  "separated [] = []"
| "separated [v] = v"
| "separated (v # w # vs) = v @ ascii '','' @ separated (w # vs)"

definition initialize_processor ::
  "'d setting \<Rightarrow> ('d, 'a) opening_con \<Rightarrow> ('d, 'a) opening_con \<times> error_code option" where
  "initialize_processor S x =
     (if \<not> is_websocket_handshake (o_request x) then (x, None)
      else
        let version = get_websocket_version (o_request x)
        in if version < 0 then (answer_with 400 x, Some (WsError E_invalid_version))
           else
             let x = install S (get_processor version) x
             in if o_processor x \<noteq> None then (x, None)
                else
                  let x = answer_with 400 x;
                      supported = separated (map decimal versions_supported)
                  in (x\<lparr>o_response := replace_header (ascii ''Sec-WebSocket-Version'') supported (o_response x)\<rparr>,
                      Some (WsError E_unsupported_version)))"

text \<open>A request that does not ask for a WebSocket connection.\<close>

definition process_plain_request ::
  "('d, 'a) opening_handlers \<Rightarrow> ('d, 'a) opening_con \<Rightarrow> (('d, 'a) opening_con \<times> error_code option) outcome" where
  "process_plain_request H x =
     (let u = get_uri_from_host (o_request x) (if is_secure x then ascii ''https'' else ascii ''http'');
          x = x\<lparr>o_uri := Some u\<rparr>
      in if \<not> m_valid u then Inr (answer_with 400 x, Some (WsError E_invalid_uri))
         else case m_http_handler H of
                Some f \<Rightarrow>
                  let x = f (on_con (\<lambda>c. c\<lparr>m_is_http := True\<rparr>) x)
                  in Inr (x, if c_state (o_con x) = Closed then Some (WsError E_http_connection_ended) else None)
              | None \<Rightarrow> map_sum id (\<lambda>x. (x, Some (WsError E_upgrade_required))) (con_set_status 426 x))"

text \<open>The application decides about a valid request, and the processor writes the answer.\<close>

definition answer_upgrade ::
  "'d setting \<Rightarrow> ('d, 'a) opening_handlers \<Rightarrow> processor \<Rightarrow> ('d, 'a) opening_con
     \<Rightarrow> (('d, 'a) opening_con \<times> error_code option) outcome" where
  "answer_upgrade S H p x =
     (let (x, accepted) = (case m_validate_handler H of None \<Rightarrow> (x, True) | Some f \<Rightarrow> f x)
      in if accepted then
           let x = answer_with 101 x
           in case proc_process_handshake S p (is_secure x) (o_request x) (m_subprotocol x) (o_response x) of
                Inl e \<Rightarrow> Inl (Http_failure e)
              | Inr (ec, res) \<Rightarrow>
                  let x = x\<lparr>o_response := res\<rparr>
                  in Inr (if ec \<noteq> None then answer_with 500 x else x, ec)
         else Inr (if m_status_code (o_response x) = 0 then answer_with 400 x else x, Some (WsError E_rejected)))"

definition process_upgrade ::
  "'d setting \<Rightarrow> ('d, 'a) opening_handlers \<Rightarrow> processor \<Rightarrow> ('d, 'a) opening_con
     \<Rightarrow> (('d, 'a) opening_con \<times> error_code option) outcome" where
  "process_upgrade S H p x =
     (case proc_validate_handshake p (o_request x) of
        Some e \<Rightarrow> Inr (answer_with 400 x, Some e)
      | None \<Rightarrow>
          (case proc_negotiate S p (o_request x) x of (x, ec, reply) \<Rightarrow>
             if ec = Some (ProcError P_extension_parse_error) then Inr (answer_with 400 x, ec)
             else
               let x = (if ec = None \<and> reply \<noteq> []
                        then x\<lparr>o_response := replace_header (ascii ''Sec-WebSocket-Extensions'') reply (o_response x)\<rparr>
                        else x);
                   u = proc_get_uri p (is_secure x) (o_request x);
                   x = x\<lparr>o_uri := Some u\<rparr>
               in if \<not> m_valid u then Inr (answer_with 400 x, Some (WsError E_invalid_uri))
                  else
                    let (_, ps) = proc_extract_subprotocols p (o_request x) (m_requested_subprotocols x)
                    in answer_upgrade S H p (x\<lparr>m_requested_subprotocols := ps\<rparr>)))"

definition process_handshake_request ::
  "'d setting \<Rightarrow> ('d, 'a) opening_handlers \<Rightarrow> ('d, 'a) opening_con
     \<Rightarrow> (('d, 'a) opening_con \<times> error_code option) outcome" where
  "process_handshake_request S H x =
     (if \<not> is_websocket_handshake (o_request x) then process_plain_request H x
      else case o_processor x of
             None \<Rightarrow> Inl Undefined
           | Some p \<Rightarrow> process_upgrade S H p x)"

definition read_handshake :: "('d, 'a) opening_con \<Rightarrow> ('d, 'a) opening_con" where
  "read_handshake x =
     ask Request_read
       (if m_open_handshake_timeout_dur (o_con x) > 0
        then on_con (\<lambda>c. set_timer Open_handshake_timer (c\<lparr>m_handshake_timer := Some Open_handshake_timer\<rparr>)) x
        else x)"

text \<open>The request is complete and its processor known; \<open>rest\<close> is what came after it.\<close>

definition process_request ::
  "'d setting \<Rightarrow> ('d, 'a) opening_handlers \<Rightarrow> bytes \<Rightarrow> ('d, 'a) opening_con \<Rightarrow> ('d, 'a) opening_con outcome" where
  "process_request S H rest x =
     map_sum id (\<lambda>(x, ec).
         if \<not> m_is_http (o_con x) \<or> m_http_state (o_con x) = HTTP_init then write_http_response ec x else x)
       (process_handshake_request S H (to_istate PROCESS_HTTP_REQUEST (x\<lparr>o_rest := rest\<rparr>)))"

definition request_complete ::
  "'d setting \<Rightarrow> ('d, 'a) opening_handlers \<Rightarrow> bytes \<Rightarrow> ('d, 'a) opening_con \<Rightarrow> ('d, 'a) opening_con outcome" where
  "request_complete S H rest x =
     (case initialize_processor S x of
        (x, Some ec) \<Rightarrow> Inr (write_http_response_error (Some ec) x)
      | (x, None) \<Rightarrow>
          if o_processor x \<noteq> Some Proc00 then process_request S H rest x
          else if 8 \<le> length rest then
            process_request S H (drop 8 rest)
              (x\<lparr>o_request := replace_header (ascii ''Sec-WebSocket-Key3'') (take 8 rest) (o_request x)\<rparr>)
          else Inr (write_http_response_error (Some (ProcError P_short_key3)) (answer_with 500 x)))"

definition handle_read_handshake ::
  "'d setting \<Rightarrow> ('d, 'a) opening_handlers \<Rightarrow> error_code option \<Rightarrow> bytes \<Rightarrow> ('d, 'a) opening_con
     \<Rightarrow> ('d, 'a) opening_con outcome" where
  "handle_read_handshake S H ec buf x =
     (case check_state READ_HTTP_REQUEST ec x of
        Ignored \<Rightarrow> Inr x
      | Failed e \<Rightarrow> Inr (stop (Some e) x)
      | Passed \<Rightarrow>
          if connection_read_buffer_size S < length buf then Inr (stop (Some (WsError E_general)) x)
          else case consume_request buf (o_request x) of
                 Inl (Http_exception msg code) \<Rightarrow>
                   Inr (write_http_response_error (Some (WsError E_http_parse_error))
                          (x\<lparr>o_response := set_status_msg code [] (o_response x)\<rparr>))
               | Inl e \<Rightarrow> Inl (Http_failure e)
               | Inr (n, r) \<Rightarrow>
                   if length buf < n then Inr (stop (Some (WsError E_general)) (x\<lparr>o_request := r\<rparr>))
                   else if m_ready r then request_complete S H (drop n buf) (x\<lparr>o_request := r\<rparr>)
                   else Inr (ask Request_read (x\<lparr>o_request := r\<rparr>)))"

text \<open>The open handler is called, and the open connection reads what came behind the handshake.\<close>

definition become_open ::
  "'d setting \<Rightarrow> ('d, 'a) opening_handlers \<Rightarrow> bytes \<Rightarrow> ('d, 'a) opening_con \<Rightarrow> ('d, 'a) opening_con outcome" where
  "become_open S H rest x =
     (if o_processor x = None then Inl Undefined
      else case open_connection (extension.truncate (s_extension S)) (s_config S) (frame_handlers H x) rest (o_con x) of
             None \<Rightarrow> Inl Undefined
           | Some c \<Rightarrow> Inr (x\<lparr>o_con := c, o_rest := rest\<rparr>))"

definition handle_write_http_response ::
  "'d setting \<Rightarrow> ('d, 'a) opening_handlers \<Rightarrow> error_code option \<Rightarrow> ('d, 'a) opening_con \<Rightarrow> ('d, 'a) opening_con outcome" where
  "handle_write_http_response S H ec x =
     (case check_state PROCESS_HTTP_REQUEST ec x of
        Ignored \<Rightarrow> Inr x
      | Failed e \<Rightarrow> Inr (stop (Some e) x)
      | Passed \<Rightarrow>
          let x = on_con cancel_handshake_timer x
          in if m_status_code (o_response x) \<noteq> 101 then
               let x = (if m_is_http (o_con x)
                        then on_con (\<lambda>c. c\<lparr>m_ec := Some (WsError E_http_connection_ended)\<rparr>) x else x)
               in Inr (stop (m_ec (o_con x)) x)
             else become_open S H (o_rest x) x)"

subsection \<open>The client\<close>

text \<open>An error of the processor is logged and nothing more is done.\<close>

definition send_http_request :: "'d setting \<Rightarrow> ('d, 'a) opening_con \<Rightarrow> ('d, 'a) opening_con outcome" where
  "send_http_request S x =
     (case (o_processor x, o_uri x) of
        (None, _) \<Rightarrow> Inr x
      | (Some _, None) \<Rightarrow> Inl Undefined
      | (Some p, Some u) \<Rightarrow>
          (case proc_client_request S p u x of
             Inl e \<Rightarrow> Inl e
           | Inr (x, Some ec) \<Rightarrow> Inr x
           | Inr (x, None) \<Rightarrow>
               let req = (if get_header (ascii ''User-Agent'') (o_request x) = [] then
                            (if m_user_agent x \<noteq> []
                             then replace_header (ascii ''User-Agent'') (m_user_agent x) (o_request x)
                             else remove_header (ascii ''User-Agent'') (o_request x))
                          else o_request x);
                   x = x\<lparr>o_request := req, m_handshake_buffer := raw_request req\<rparr>;
                   x = (if m_open_handshake_timeout_dur (o_con x) > 0
                        then on_con (\<lambda>c. set_timer Open_handshake_timer (c\<lparr>m_handshake_timer := Some Open_handshake_timer\<rparr>)) x
                        else x)
               in Inr (ask Request_write x)))"

definition handle_send_http_request ::
  "error_code option \<Rightarrow> ('d, 'a) opening_con \<Rightarrow> ('d, 'a) opening_con outcome" where
  "handle_send_http_request ec x =
     (case check_state WRITE_HTTP_REQUEST ec x of
        Ignored \<Rightarrow> Inr x
      | Failed e \<Rightarrow> Inr (stop (Some e) x)
      | Passed \<Rightarrow> Inr (ask Response_read (to_istate READ_HTTP_RESPONSE x)))"

text \<open>After a failed negotiation of extensions the connection is terminated and then opened.\<close>

definition response_complete ::
  "'d setting \<Rightarrow> ('d, 'a) opening_handlers \<Rightarrow> bytes \<Rightarrow> ('d, 'a) opening_con \<Rightarrow> ('d, 'a) opening_con outcome" where
  "response_complete S H rest x =
     (let x = on_con cancel_handshake_timer x
      in case o_processor x of
           None \<Rightarrow> Inl Undefined
         | Some p \<Rightarrow>
             (case proc_validate_response S p (o_request x) (o_response x) of
                Some e \<Rightarrow> Inr (stop (Some e) x)
              | None \<Rightarrow>
                  (case proc_negotiate S p (o_response x) x of (x, ec, _) \<Rightarrow>
                     become_open S H rest
                       (if ec \<noteq> None then stop (Some (WsError E_extension_neg_failed)) x else x))))"

definition handle_read_http_response ::
  "'d setting \<Rightarrow> ('d, 'a) opening_handlers \<Rightarrow> error_code option \<Rightarrow> bytes \<Rightarrow> ('d, 'a) opening_con
     \<Rightarrow> ('d, 'a) opening_con outcome" where
  "handle_read_http_response S H ec buf x =
     (case check_state READ_HTTP_RESPONSE ec x of
        Ignored \<Rightarrow> Inr x
      | Failed e \<Rightarrow> Inr (stop (Some e) x)
      | Passed \<Rightarrow>
          (case consume_response buf (o_response x) of
             Inl (Http_exception msg code) \<Rightarrow> Inr (stop (Some (WsError E_general)) x)
           | Inl e \<Rightarrow> Inl (Http_failure e)
           | Inr (n, res) \<Rightarrow>
               let x = x\<lparr>o_response := res\<rparr>
               in if headers_ready res then response_complete S H (drop n buf) x
                  else Inr (ask Response_read x)))"

subsection \<open>The start and what can happen\<close>

definition start_opening :: "('d, 'a) opening_con \<Rightarrow> ('d, 'a) opening_con" where
  "start_opening x =
     (if \<not> in_istate USER_INIT x then stop (Some (WsError E_invalid_state)) x
      else ask Transport_init (to_istate TRANSPORT_INIT x))"

definition handle_transport_init ::
  "'d setting \<Rightarrow> error_code option \<Rightarrow> ('d, 'a) opening_con \<Rightarrow> ('d, 'a) opening_con outcome" where
  "handle_transport_init S ec x =
     (let ecm = (if \<not> in_istate TRANSPORT_INIT x then Some (WsError E_invalid_state) else ec)
      in if ecm \<noteq> None then Inr (stop ecm x)
         else if m_is_server (o_con x) then Inr (read_handshake (to_istate READ_HTTP_REQUEST x))
         else send_http_request S (install S (get_processor (client_version S)) (to_istate WRITE_HTTP_REQUEST x)))"

text \<open>
  The completions of what was asked of the transport for the handshake, the sending of a deferred
  response, and what can happen to any connection.
\<close>

datatype opening_event =
    Initialized "error_code option"
  | Request_was_read "error_code option" bytes
  | Response_was_written "error_code option"
  | Request_was_written "error_code option"
  | Response_was_read "error_code option" bytes
  | Response_sent
  | Event conn_event

fun opening_enabled :: "opening_event \<Rightarrow> ('d, 'a) opening_con \<Rightarrow> bool" where
  "opening_enabled (Initialized ec) x \<longleftrightarrow> Transport_init \<in> set (o_pending x)"
| "opening_enabled (Request_was_read ec buf) x \<longleftrightarrow> Request_read \<in> set (o_pending x)"
| "opening_enabled (Response_was_written ec) x \<longleftrightarrow> Response_write \<in> set (o_pending x)"
| "opening_enabled (Request_was_written ec) x \<longleftrightarrow> Request_write \<in> set (o_pending x)"
| "opening_enabled (Response_was_read ec buf) x \<longleftrightarrow> Response_read \<in> set (o_pending x)"
| "opening_enabled Response_sent x \<longleftrightarrow> True"
| "opening_enabled (Event ev) x \<longleftrightarrow> conn_enabled ev (o_con x)"

definition answered :: "pending \<Rightarrow> ('d, 'a) opening_con \<Rightarrow> ('d, 'a) opening_con" where
  "answered p x = x\<lparr>o_pending := remove1 p (o_pending x)\<rparr>"

fun opening_happen ::
  "'d setting \<Rightarrow> ('d, 'a) opening_handlers \<Rightarrow> opening_event \<Rightarrow> ('d, 'a) opening_con \<Rightarrow> ('d, 'a) opening_con outcome" where
  "opening_happen S H (Initialized ec) x = handle_transport_init S ec (answered Transport_init x)"
| "opening_happen S H (Request_was_read ec buf) x = handle_read_handshake S H ec buf (answered Request_read x)"
| "opening_happen S H (Response_was_written ec) x = handle_write_http_response S H ec (answered Response_write x)"
| "opening_happen S H (Request_was_written ec) x = handle_send_http_request ec (answered Request_write x)"
| "opening_happen S H (Response_was_read ec buf) x = handle_read_http_response S H ec buf (answered Response_read x)"
| "opening_happen S H Response_sent x = Inr (fst (send_http_response x))"
| "opening_happen S H (Event ev) x =
     (case conn_happen (extension.truncate (s_extension S)) (s_config S) (frame_handlers H x) ev (o_con x) of
        None \<Rightarrow> Inl Undefined
      | Some c \<Rightarrow> Inr (x\<lparr>o_con := c\<rparr>))"

inductive opening_reachable ::
  "'d setting \<Rightarrow> ('d, 'a) opening_handlers \<Rightarrow> ('d, 'a) opening_con \<Rightarrow> ('d, 'a) opening_con \<Rightarrow> bool"
  for S H x0 where
  opening_start: "opening_reachable S H x0 x0"
| opening_event: "opening_reachable S H x0 x \<Longrightarrow> opening_enabled ev x
     \<Longrightarrow> opening_happen S H ev x = Inr x' \<Longrightarrow> opening_reachable S H x0 x'"

text \<open>A run given as a list of events; \<open>None\<close> when one cannot happen or fails.\<close>

fun opening_run ::
  "'d setting \<Rightarrow> ('d, 'a) opening_handlers \<Rightarrow> opening_event list \<Rightarrow> ('d, 'a) opening_con \<Rightarrow> ('d, 'a) opening_con option" where
  "opening_run S H [] x = Some x"
| "opening_run S H (ev # evs) x =
     (if opening_enabled ev x
      then (case opening_happen S H ev x of Inl _ \<Rightarrow> None | Inr x' \<Rightarrow> opening_run S H evs x')
      else None)"

lemma opening_step:
  "\<lbrakk>opening_enabled ev x; opening_happen S H ev x = Inr x'\<rbrakk> \<Longrightarrow>
    opening_run S H (ev # evs) x = opening_run S H evs x'"
  by simp

lemma opening_run_reachable:
  "opening_reachable S H x0 x \<Longrightarrow> opening_run S H evs x = Some x' \<Longrightarrow> opening_reachable S H x0 x'"
  by (induction evs arbitrary: x) (auto split: if_splits sum.splits intro: opening_event)

declare opening_run.simps(2) [simp del]

end
