(* ===== verification/ConnectionRuns.thy ===== *)
theory ConnectionRuns
  imports Connection FrameTransfer
begin

text \<open>
  Invariants of an open connection without compression, over every interleaving of application
  calls and transport completions: the write queue loses and reorders nothing and always has a
  write or a posted call to move it on, the connection ends exactly once, and no bytes from the
  peer lead to undefined behaviour. The processor may be that of any version.
\<close>

subsection \<open>The write side\<close>

definition payload_total :: "message list \<Rightarrow> nat" where
  "payload_total ms = sum_list (map (\<lambda>m. length (m_payload m)) ms)"

lemma payload_total_simps [simp]:
  "payload_total [] = 0" "payload_total (m # ms) = length (m_payload m) + payload_total ms"
  "payload_total (ms @ ns) = payload_total ms + payload_total ns"
  by (simp_all add: payload_total_def)

lemma buffers_simps [simp]:
  "buffers [] = []" "buffers (ms @ ns) = buffers ms @ buffers ns"
  "buffers (m # ms) = m_header m # m_payload m # buffers ms"
  by (simp_all add: buffers_def)

definition write_ok :: "('d, 'a) connection \<Rightarrow> bool" where
  "write_ok c \<longleftrightarrow>
     m_send_buffer_size c = of_nat (payload_total (m_send_queue c))
     \<and> t_write c = (if m_current_msgs c = [] then None else Some (m_send_buffer c))
     \<and> m_send_buffer c = buffers (m_current_msgs c)
     \<and> (m_current_msgs c \<noteq> [] \<longrightarrow> m_write_flag c)
     \<and> (m_write_flag c \<and> m_current_msgs c = [] \<longrightarrow> c_state c = Closed)
     \<and> (\<not> m_write_flag c \<and> m_send_queue c \<noteq> [] \<longrightarrow> t_dispatch c > 0)
     \<and> (\<exists>written. pushed c = written @ m_current_msgs c @ m_send_queue c
          \<and> wire c = concat (buffers (written @ m_current_msgs c)))
     \<and> (\<forall>m \<in> set (butlast (m_current_msgs c)). \<not> m_terminal m)"

text \<open>The part of the state the write side looks at.\<close>

definition write_view where
  "write_view c = (m_send_buffer_size c, m_send_queue c, t_write c, m_current_msgs c, m_send_buffer c,
     m_write_flag c, t_dispatch c, pushed c, wire c)"

lemma write_ok_cong:
  assumes "write_view c' = write_view c" and "c_state c = Closed \<longrightarrow> c_state c' = Closed"
  shows "write_ok c \<Longrightarrow> write_ok c'"
  using assms by (auto simp: write_ok_def write_view_def)

lemma push_and_dispatch_write_ok:
  assumes "write_ok c"
  shows "write_ok (push_and_dispatch msg c)"
proof (cases msg)
  case None
  then show ?thesis
    using assms
    by (auto simp: write_ok_def push_and_dispatch_def write_push_def dispatch_write_frame_def Let_def)
next
  case (Some m)
  obtain w where w: "pushed c = w @ m_current_msgs c @ m_send_queue c"
    "wire c = concat (buffers (w @ m_current_msgs c))"
    using assms by (auto simp: write_ok_def)
  show ?thesis
    using assms w Some
    by (auto simp: write_ok_def push_and_dispatch_def write_push_def dispatch_write_frame_def Let_def
        algebra_simps)
qed

lemma pull_messages_spec:
  "\<exists>xs ys. m_send_queue c = xs @ ys
     \<and> pull_messages c = c\<lparr>m_current_msgs := m_current_msgs c @ xs, m_send_queue := ys,
          m_send_buffer_size := m_send_buffer_size c - of_nat (payload_total xs)\<rparr>
     \<and> (xs = [] \<longrightarrow> ys = []) \<and> (\<forall>m \<in> set (butlast xs). \<not> m_terminal m)"
proof (induction c rule: pull_messages.induct)
  case (1 c)
  show ?case
  proof (cases "m_send_queue c")
    case Nil
    then show ?thesis
      by (subst pull_messages.simps) (auto simp: write_pop_def)
  next
    case (Cons m rest)
    let ?c = "c\<lparr>m_send_buffer_size := m_send_buffer_size c - of_nat (length (m_payload m)),
      m_send_queue := rest, m_current_msgs := m_current_msgs c @ [m]\<rparr>"
    have p: "pull_messages c = (if \<not> m_terminal m then pull_messages ?c else ?c)"
      using Cons by (subst pull_messages.simps) (simp add: write_pop_def)
    show ?thesis
    proof (cases "m_terminal m")
      case True
      then show ?thesis
        using Cons p by (intro exI [of _ "[m]"] exI [of _ rest]) simp
    next
      case False
      let ?c' = "c\<lparr>m_send_buffer_size := m_send_buffer_size c - of_nat (length (m_payload m)),
        m_send_queue := rest\<rparr>"
      have wp: "write_pop c = (?c', Some m)" using Cons by (simp add: write_pop_def)
      obtain xs ys where r: "rest = xs @ ys"
        "pull_messages ?c = ?c\<lparr>m_current_msgs := m_current_msgs ?c @ xs, m_send_queue := ys,
          m_send_buffer_size := m_send_buffer_size ?c - of_nat (payload_total xs)\<rparr>"
        "xs = [] \<longrightarrow> ys = []" "\<forall>m \<in> set (butlast xs). \<not> m_terminal m"
        using 1 [OF wp [symmetric] refl refl False] by auto
      have "pull_messages c = c\<lparr>m_current_msgs := m_current_msgs c @ (m # xs), m_send_queue := ys,
          m_send_buffer_size := m_send_buffer_size c - of_nat (payload_total (m # xs))\<rparr>"
        unfolding p using False by (simp add: r(2) diff_diff_eq)
      then show ?thesis
        using Cons False r(1,3,4) by (intro exI [of _ "m # xs"] exI [of _ ys]) simp
    qed
  qed
qed

lemma write_frame_write_ok:
  assumes "write_ok c"
  shows "write_ok (write_frame (c\<lparr>t_dispatch := t_dispatch c - 1\<rparr>))"
proof (cases "m_write_flag c")
  case True
  then show ?thesis using assms by (auto simp: write_frame_def write_ok_def)
next
  case False
  let ?c = "c\<lparr>t_dispatch := t_dispatch c - 1\<rparr>"
  obtain w where w: "pushed c = w @ m_send_queue c" "wire c = concat (buffers w)"
    and e: "m_current_msgs c = []" "m_send_buffer c = []" "t_write c = None"
    and b: "m_send_buffer_size c = of_nat (payload_total (m_send_queue c))"
    using assms False by (auto simp: write_ok_def)
  obtain xs ys where p: "m_send_queue c = xs @ ys"
    "pull_messages ?c = ?c\<lparr>m_current_msgs := m_current_msgs ?c @ xs, m_send_queue := ys,
       m_send_buffer_size := m_send_buffer_size ?c - of_nat (payload_total xs)\<rparr>"
    "xs = [] \<longrightarrow> ys = []" "\<forall>m \<in> set (butlast xs). \<not> m_terminal m"
    using pull_messages_spec [of ?c] by auto
  show ?thesis
  proof (cases "xs = []")
    case True
    then show ?thesis using p e b w False by (auto simp: write_frame_def write_ok_def Let_def)
  next
    case ne: False
    then have "write_frame ?c = c\<lparr>t_dispatch := t_dispatch c - 1, m_current_msgs := xs, m_send_queue := ys,
        m_send_buffer_size := of_nat (payload_total ys), m_write_flag := True,
        m_send_buffer := buffers xs, t_write := Some (buffers xs),
        wire := wire c @ concat (buffers xs)\<rparr>"
      using False p e b by (simp add: write_frame_def Let_def)
    then show ?thesis using p e w ne by (auto simp: write_ok_def)
  qed
qed

lemma terminate_view [simp]: "write_view (terminate ec c) = write_view c"
  by (simp add: terminate_def Let_def write_view_def cancel_handshake_timer_def cancel_timer_def
      async_shutdown_def split: option.splits)

lemma terminate_closed [simp]: "c_state (terminate ec c) = Closed"
  by (auto simp: terminate_def Let_def async_shutdown_def)

lemma handle_write_frame_write_ok:
  assumes "write_ok c" and "t_write c \<noteq> None"
  shows "\<exists>c'. handle_write_frame ec (c\<lparr>t_write := None\<rparr>) = Some c' \<and> write_ok c'"
proof -
  let ?c = "c\<lparr>t_write := None, m_send_buffer := [], m_current_msgs := []\<rparr>"
  obtain w where w: "pushed c = w @ m_current_msgs c @ m_send_queue c"
    "wire c = concat (buffers (w @ m_current_msgs c))"
    and ne: "m_current_msgs c \<noteq> []" "m_write_flag c"
    and b: "m_send_buffer_size c = of_nat (payload_total (m_send_queue c))"
    using assms by (auto simp: write_ok_def split: if_splits)
  have p: "pushed c = (w @ m_current_msgs c) @ m_send_queue c" using w by simp
  have t: "write_ok (terminate e ?c)" for e
  proof -
    have "write_view (terminate e ?c) = write_view ?c" by simp
    then show ?thesis using p w(2) b ne by (auto simp: write_ok_def write_view_def)
  qed
  have n: "write_ok (?c\<lparr>m_write_flag := False\<rparr>)" if "m_send_queue c = []"
    using that p w(2) b by (auto simp: write_ok_def)
  have d: "write_ok (dispatch_write_frame (?c\<lparr>m_write_flag := False\<rparr>))"
    using p w(2) b by (auto simp: write_ok_def dispatch_write_frame_def)
  show ?thesis
    using ne t n d by (simp add: handle_write_frame_def Let_def)
qed

subsection \<open>The life of the connection\<close>

text \<open>It ends once: one shutdown is asked for, exactly when the state becomes closed.\<close>

definition life_ok :: "('d, 'a) connection \<Rightarrow> bool" where
  "life_ok c \<longleftrightarrow> c_state c \<noteq> Connecting \<and> m_internal_state c = PROCESS_CONNECTION
     \<and> set (t_shutdown c @ ended c) \<subseteq> {T_closed}
     \<and> length (t_shutdown c @ ended c) = (if c_state c = Closed then 1 else 0)"

definition life_view where
  "life_view c = (c_state c, m_internal_state c, t_shutdown c, ended c)"

text \<open>The connection was not taken for one that only wants an HTTP response.\<close>

definition not_http :: "('d, 'a) connection \<Rightarrow> bool" where
  "not_http c \<longleftrightarrow> \<not> m_is_http c \<and> m_http_state c = HTTP_init"

lemma not_http_simps [simp]:
  "not_http (c\<lparr>m_processor := p\<rparr>) = not_http c" "not_http (c\<lparr>m_hybi00 := z\<rparr>) = not_http c" "not_http (c\<lparr>t_reads := n\<rparr>) = not_http c"
  by (simp_all add: not_http_def)

text \<open>What only the reading side changes.\<close>

definition read_view where
  "read_view c = (m_processor c, m_hybi00 c, t_reads c, m_read_flag c, m_is_server c, not_http c)"

definition conn_ok :: "('d, 'a) connection \<Rightarrow> bool" where
  "conn_ok c \<longleftrightarrow> write_ok c \<and> life_ok c"

lemma conn_ok_cong:
  assumes "write_view c' = write_view c" and "life_view c' = life_view c"
  shows "conn_ok c \<Longrightarrow> conn_ok c'"
proof -
  assume c: "conn_ok c"
  have "c_state c' = c_state c" using assms(2) by (simp add: life_view_def)
  then have "write_ok c'" using write_ok_cong [OF assms(1)] c by (simp add: conn_ok_def)
  moreover have "life_ok c'" using c assms(2) by (simp add: conn_ok_def life_ok_def life_view_def)
  ultimately show ?thesis by (simp add: conn_ok_def)
qed

lemmas views = write_view_def life_view_def read_view_def not_http_def

lemma push_views [simp]:
  "life_view (push_and_dispatch msg c) = life_view c"
  "read_view (push_and_dispatch msg c) = read_view c"
  by (simp_all add: views push_and_dispatch_def write_push_def dispatch_write_frame_def Let_def
      split: option.splits)

lemma draw_key_views:
  assumes "draw_key c = (key, c')"
  shows "write_view c' = write_view c" "life_view c' = life_view c" "read_view c' = read_view c"
  using assms by (auto simp: draw_key_def views split: if_splits)

lemma push_conn_ok: "conn_ok c \<Longrightarrow> conn_ok (push_and_dispatch msg c)"
proof -
  assume "conn_ok c"
  then have "write_ok (push_and_dispatch msg c)" "life_ok c"
    by (simp_all add: conn_ok_def push_and_dispatch_write_ok)
  moreover have "life_view (push_and_dispatch msg c) = life_view c" by simp
  ultimately show ?thesis unfolding conn_ok_def life_ok_def life_view_def by simp
qed

lemma prepare_data_same:
  "prepare_data_frame disabled_extension s key i out = (s', r) \<Longrightarrow> s' = s"
  by (auto simp: prepare_data_frame_def Let_def split: option.splits if_splits)

text \<open>An operation keeps the invariant and leaves the reading side alone.\<close>

definition benign :: "(unit, 'a) connection \<Rightarrow> (unit, 'a) connection \<Rightarrow> bool" where
  "benign c c' \<longleftrightarrow> (conn_ok c \<longrightarrow> conn_ok c') \<and> read_view c' = read_view c"

lemma benign_refl [simp]: "benign c c"
  by (simp add: benign_def)

lemma benign_trans: "benign c c1 \<Longrightarrow> benign c1 c2 \<Longrightarrow> benign c c2"
  by (simp add: benign_def)

lemma benign_views:
  assumes "write_view c' = write_view c" and "life_view c' = life_view c" and "read_view c' = read_view c"
  shows "benign c c'"
  using conn_ok_cong [OF assms(1,2)] assms(3) by (simp add: benign_def)

lemma benign_push: "benign c (push_and_dispatch msg c)"
  by (simp add: benign_def push_conn_ok)

lemma benign_draw: "draw_key c = (key, c') \<Longrightarrow> benign c c'"
  using draw_key_views [of c key c'] by (intro benign_views)

lemma send_unlocked_benign: "benign c (fst (send_unlocked disabled_extension msg c))"
proof -
  obtain key c1 where d: "draw_key c = (key, c1)" by fastforce
  obtain c2 out ec where p: "con_prepare_data disabled_extension key (Some msg)
      (get_message CONTINUATION) c1 = (c2, out, ec)" by (cases rule: prod_cases3)
  have "c2 = c1"
    using p prepare_data_same [of "m_processor c1" key "Some msg" "get_message CONTINUATION"]
    by (cases "m_hybi00 c1") (auto simp: con_prepare_data_def split: prod.splits)
  then show ?thesis
    using benign_trans [OF benign_draw [OF d] benign_push] benign_draw [OF d] benign_push d p
    by (auto simp: send_unlocked_def)
qed

lemma send_msg_benign: "benign c (fst (send_msg disabled_extension msg c))"
  using send_unlocked_benign [of c msg] by (simp add: send_msg_def)

lemma set_ping_timer_benign: "benign c (set_ping_timer H payload c)"
  by (rule benign_views)
    (simp_all add: set_ping_timer_def views cancel_timer_def set_timer_def Let_def split: option.splits)

lemma ping_benign: "benign c (fst (ping H payload c))"
proof -
  obtain key c1 where d: "draw_key c = (key, c1)" by fastforce
  show ?thesis
    using d benign_trans [OF benign_draw [OF d] benign_trans [OF set_ping_timer_benign benign_push]]
      benign_draw [OF d]
    by (auto simp: ping_def split: prod.splits)
qed

lemma pong_benign: "benign c (fst (pong payload c))"
proof -
  obtain key c1 where d: "draw_key c = (key, c1)" by fastforce
  show ?thesis
    using d benign_trans [OF benign_draw [OF d] benign_push] benign_draw [OF d]
    by (auto simp: pong_def split: prod.splits)
qed

text \<open>The step of a close frame from an open or closing state to closing.\<close>

lemma to_closing:
  assumes "write_view c' = write_view c" and "read_view c' = read_view c"
    and "c_state c \<notin> {Connecting, Closed}" and "c_state c' = Closing"
    and "m_internal_state c' = m_internal_state c" "t_shutdown c' = t_shutdown c" "ended c' = ended c"
  shows "benign c c'"
proof -
  have "conn_ok c \<Longrightarrow> conn_ok c'"
    using assms write_ok_cong [OF assms(1)] by (auto simp: conn_ok_def life_ok_def)
  then show ?thesis using assms(2) by (simp add: benign_def)
qed

lemma send_close_frame_benign:
  assumes "c_state c \<notin> {Connecting, Closed}"
  shows "benign c (fst (send_close_frame cfg code reason ack terminal c))"
proof -
  obtain lc lr where l: "choose_close cfg code reason ack c = (lc, lr)" by fastforce
  let ?c = "c\<lparr>m_local_close_code := lc, m_local_close_reason := lr\<rparr>"
  obtain key c1 where d: "draw_key ?c = (key, c1)" by fastforce
  have 1: "write_view c1 = write_view c" "life_view c1 = life_view c" "read_view c1 = read_view c"
    using draw_key_views [OF d] by (simp_all add: views)
  obtain msg ec where p: "con_prepare_close key lc lr (get_message CONTINUATION) c1 = (msg, ec)"
    by fastforce
  let ?c2 = "c1\<lparr>c_state := Closing\<rparr>"
  let ?c3 = "if ack then ?c2\<lparr>m_was_clean := True\<rparr> else ?c2"
  let ?c4 = "if m_close_handshake_timeout_dur ?c3 > 0
    then set_timer Close_handshake_timer (?c3\<lparr>m_handshake_timer := Some Close_handshake_timer\<rparr>) else ?c3"
  have "write_view ?c4 = write_view c1" "read_view ?c4 = read_view c1" "c_state ?c4 = Closing"
    "m_internal_state ?c4 = m_internal_state c1" "t_shutdown ?c4 = t_shutdown c1" "ended ?c4 = ended c1"
    by (simp_all add: views set_timer_def)
  then have "benign c ?c4" using 1 assms by (intro to_closing) (simp_all add: life_view_def)
  then have "benign c (push_and_dispatch m ?c4)" for m by (rule benign_trans [OF _ benign_push])
  moreover have "benign c c1" using 1 by (rule benign_views)
  ultimately show ?thesis
    using l d p by (simp add: send_close_frame_def Let_def)
qed

lemma close_connection_benign: "benign c (fst (close_connection cfg code reason c))"
  using send_close_frame_benign [of c] by (simp add: close_connection_def Let_def)

lemma terminate_benign: "benign c (terminate ec c)"
proof -
  have r: "read_view (terminate ec c) = read_view c"
    by (simp add: terminate_def Let_def read_view_def not_http_def cancel_handshake_timer_def cancel_timer_def
        async_shutdown_def split: option.splits)
  have l: "life_ok c \<Longrightarrow> life_ok (terminate ec c)"
    by (auto simp: life_ok_def terminate_def Let_def cancel_handshake_timer_def cancel_timer_def
        async_shutdown_def split: option.splits if_splits)
  have "write_ok c \<Longrightarrow> write_ok (terminate ec c)"
    by (rule write_ok_cong) simp_all
  then show ?thesis using r l by (simp add: benign_def conn_ok_def)
qed

lemma api_benign:
  fixes H :: "(unit, 'a) handlers"
  shows "api cfg H disabled_extension c c' \<Longrightarrow> benign c c'"
proof (induction rule: api.induct)
  case (api_app c1 a)
  have "benign c1 (c1\<lparr>app := a\<rparr>)" by (rule benign_views) (simp_all add: views)
  with api_app show ?case by (blast intro: benign_trans)
qed (blast intro: benign_trans benign_refl send_msg_benign ping_benign pong_benign close_connection_benign)+

subsection \<open>The reading side\<close>

text \<open>Between two calls of \<open>consume\<close> the processor waits for at least one byte.\<close>

definition waiting :: "unit hybi13 \<Rightarrow> bool" where
  "waiting s \<longleftrightarrow> proc_ok s \<and> \<not> ready s \<and> m_bytes_needed s > 0"

lemma consume_iter_reads:
  assumes "waiting s" and "buf \<noteq> []" and "consume_iter disabled_extension s buf = Next s' n"
  shows "0 < n"
proof (cases "m_state s")
  case HEADER_BASIC
  obtain s1 n1 where c: "copy_basic_header_bytes s buf = (s1, n1)" by fastforce
  moreover have "n = n1"
    using assms(3) HEADER_BASIC c by (auto simp: consume_iter_def split: if_splits option.splits)
  ultimately show ?thesis using copy_basic_read [OF c] assms(1,2) by (simp add: waiting_def word_gt_0)
next
  case HEADER_EXTENDED
  then obtain s1 n1 where c: "copy_extended_header_bytes s buf = Some (s1, n1)"
    using assms(3) by (auto simp: consume_iter_def split: option.splits)
  moreover have "n = n1"
    using assms(3) HEADER_EXTENDED c
    by (auto simp: consume_iter_def split: if_splits option.splits dest!: start_message_next)
  ultimately show ?thesis
    using copy_extended_read [OF c] assms(1,2) by (simp add: waiting_def word_gt_0 unat_gt_0)
next
  case APPLICATION
  then have "0 < min (unat (m_bytes_needed s)) (length buf)"
    using assms(1,2) by (simp add: waiting_def word_gt_0 unat_gt_0)
  then show ?thesis
    using assms(3) APPLICATION
    by (auto simp: consume_iter_def split: if_splits option.splits prod.splits dest!: process_payload_read)
qed (use assms(1) in \<open>auto simp: waiting_def proc_ok_def state_ok_def ready_def\<close>)

lemma consume_waiting:
  assumes "waiting s" and "buf \<noteq> []"
  shows "\<exists>s' n ec. consume disabled_extension s buf = Some (s', n, ec) \<and> n \<le> length buf
    \<and> (ec = None \<longrightarrow> 0 < n \<and> proc_ok s' \<and> (ready s' \<or> waiting s'))"
proof -
  have ok: "proc_ok s" and g: "consume_guard s buf"
    using assms by (auto simp: waiting_def consume_guard_def proc_ok_def state_ok_def ready_def)
  obtain s' n ec where c: "consume_loop disabled_extension s buf 0 = Some (s', n, ec)" "n \<le> length buf"
    "ec = None \<longrightarrow> proc_ok s' \<and> (m_state s' = READY \<or> m_bytes_needed s' > 0)"
    using consume_loop_total [OF ok, of buf 0] by auto
  have "0 < n" if "ec = None"
  proof (cases "consume_iter disabled_extension s buf")
    case (Next s1 k)
    have "0 < k" by (rule consume_iter_reads [OF assms Next])
    moreover have "proc_ok s1" using consume_iter_ok [OF ok g] Next by simp
    ultimately show ?thesis
      using c(1) g Next consume_loop_total [of s1 "drop k buf" k]
      by (subst (asm) consume_loop.simps) auto
  qed (use c(1) g that consume_iter_ok [OF ok g] in \<open>subst (asm) consume_loop.simps, auto\<close>)+
  then show ?thesis using c by (auto simp: consume_def waiting_def ready_def)
qed

text \<open>Version 0: between two calls of \<open>consume\<close> the reader is before or inside a text.\<close>

definition waiting00 :: "hybi00 \<Rightarrow> bool" where
  "waiting00 z \<longleftrightarrow> hybi00_ok z \<and> (z_state z = HEADER00 \<or> z_state z = PAYLOAD00)"

lemma consume00_waiting:
  assumes "waiting00 z" and "buf \<noteq> []"
  shows "\<exists>z' n ec. consume00 buf z = Some (z', n, ec) \<and> n \<le> length buf
    \<and> (ec = None \<longrightarrow> 0 < n \<and> hybi00_ok z' \<and> (ready00 z' \<or> waiting00 z'))"
proof -
  have inside: "\<exists>z' n. consume00_loop buf p None z = Some (z', n, None) \<and> n \<le> p + length buf \<and> p \<le> n
      \<and> (buf \<noteq> [] \<longrightarrow> p < n) \<and> hybi00_ok z' \<and> (ready00 z' \<or> waiting00 z')"
    if "z_state z = PAYLOAD00" "z_msg z = Some m" for z m buf p
  proof (cases rule: payload_cases [of buf])
    case 1
    then show ?thesis using that by (simp add: consume00_more hybi00_ok_def waiting00_def)
  next
    case (2 pl rest)
    then show ?thesis using that by (simp add: consume00_end hybi00_ok_def ready00_def)
  qed
  show ?thesis
  proof (cases "z_state z")
    case HEADER00
    obtain c rest where b: "buf = c # rest" using assms(2) by (cases buf) auto
    show ?thesis
    proof (cases "c = msg_hdr")
      case True
      let ?z = "z\<lparr>z_msg := Some (new_message TEXT 1), z_state := PAYLOAD00\<rparr>"
      obtain z' n where "consume00_loop rest 1 None ?z = Some (z', n, None)" "n \<le> 1 + length rest" "1 \<le> n"
        "hybi00_ok z'" "ready00 z' \<or> waiting00 z'"
        using inside [of ?z "new_message TEXT 1" rest 1] by auto
      then show ?thesis using HEADER00 b True by (simp add: consume00_def consume00_header(1))
    next
      case False
      then show ?thesis using HEADER00 b by (simp add: consume00_def consume00_header(2))
    qed
  next
    case PAYLOAD00
    then obtain m where "z_msg z = Some m" using assms(1) by (auto simp: waiting00_def hybi00_ok_def)
    then show ?thesis using inside [OF PAYLOAD00, of m buf 0] assms(2) by (auto simp: consume00_def)
  qed (use assms(1) in \<open>auto simp: waiting00_def\<close>)
qed

text \<open>The same of the connection, whichever processor it has.\<close>

definition con_reader_ok :: "(unit, 'a) connection \<Rightarrow> bool" where
  "con_reader_ok c = (case m_hybi00 c of None \<Rightarrow> proc_ok (m_processor c) | Some z \<Rightarrow> hybi00_ok z)"

definition con_waiting :: "(unit, 'a) connection \<Rightarrow> bool" where
  "con_waiting c = (case m_hybi00 c of None \<Rightarrow> waiting (m_processor c) | Some z \<Rightarrow> waiting00 z)"

lemma con_waiting_cong:
  assumes "m_processor c' = m_processor c" and "m_hybi00 c' = m_hybi00 c"
  shows "con_waiting c' = con_waiting c"
  using assms by (simp add: con_waiting_def cong: option.case_cong)

lemma con_waiting_simps [simp]:
  "con_waiting (c\<lparr>c_state := x0\<rparr>) = con_waiting c"
  "con_waiting (c\<lparr>m_internal_state := x1\<rparr>) = con_waiting c"
  "con_waiting (c\<lparr>t_reads := x2\<rparr>) = con_waiting c"
  "con_waiting (c\<lparr>t_timers := x3\<rparr>) = con_waiting c"
  "con_waiting (c\<lparr>t_shutdown := x4\<rparr>) = con_waiting c"
  "con_waiting (c\<lparr>m_handshake_timer := x5\<rparr>) = con_waiting c"
  "con_waiting (c\<lparr>m_ec := x6\<rparr>) = con_waiting c"
  "con_waiting (c\<lparr>m_http_state := x7\<rparr>) = con_waiting c"
  "con_waiting (c\<lparr>m_is_http := x8\<rparr>) = con_waiting c"
  "con_waiting (c\<lparr>ended := x9\<rparr>) = con_waiting c"
  "con_waiting (c\<lparr>senders := x10\<rparr>) = con_waiting c"
  "con_waiting (c\<lparr>app := x11\<rparr>) = con_waiting c"
  "con_waiting (c\<lparr>m_local_close_code := x12\<rparr>) = con_waiting c"
  "con_waiting (c\<lparr>m_local_close_reason := x13\<rparr>) = con_waiting c"
  "con_waiting (c\<lparr>rng_used := x14\<rparr>) = con_waiting c"
  by (rule con_waiting_cong; simp)+

lemma con_waiting_async_read [simp]: "con_waiting (async_read c) = con_waiting c"
  by (rule con_waiting_cong) (simp_all add: async_read_def)

text \<open>The processor is used up or replaced by a later state of itself, and nothing else changes.\<close>

definition processor_step :: "(unit, 'a) connection \<Rightarrow> (unit, 'a) connection \<Rightarrow> bool" where
  "processor_step c c' \<longleftrightarrow>
     (\<exists>p z. c' = c\<lparr>m_processor := p, m_hybi00 := z\<rparr>) \<and> (m_hybi00 c' = None \<longleftrightarrow> m_hybi00 c = None)"

lemma processor_step_13: "m_hybi00 c = None \<Longrightarrow> processor_step c (c\<lparr>m_processor := p\<rparr>)"
  unfolding processor_step_def by (rule conjI, rule exI [of _ p], rule exI [of _ None]) simp_all

lemma processor_step_00: "m_hybi00 c = Some z \<Longrightarrow> processor_step c (c\<lparr>m_hybi00 := Some z'\<rparr>)"
  unfolding processor_step_def
  by (rule conjI, rule exI [of _ "m_processor c"], rule exI [of _ "Some z'"]) simp_all

lemma con_consume_waiting:
  assumes "con_waiting c" and "buf \<noteq> []"
  shows "\<exists>c' n ec. con_consume disabled_extension buf c = Some (c', n, ec) \<and> n \<le> length buf
    \<and> processor_step c c' \<and> (ec = None \<longrightarrow> 0 < n \<and> con_reader_ok c' \<and> (con_ready c' \<or> con_waiting c'))"
proof (cases "m_hybi00 c")
  case None
  then obtain p n ec where "consume disabled_extension (m_processor c) buf = Some (p, n, ec)" "n \<le> length buf"
    "ec = None \<longrightarrow> 0 < n \<and> proc_ok p \<and> (ready p \<or> waiting p)"
    using consume_waiting [of "m_processor c" buf] assms by (auto simp: con_waiting_def)
  moreover have "processor_step c (c\<lparr>m_processor := p\<rparr>)"
    using processor_step_13 [OF None] .
  ultimately show ?thesis
    using None by (simp add: con_reader_ok_def con_waiting_def)
next
  case (Some z)
  then obtain z' n ec where "consume00 buf z = Some (z', n, ec)" "n \<le> length buf"
    "ec = None \<longrightarrow> 0 < n \<and> hybi00_ok z' \<and> (ready00 z' \<or> waiting00 z')"
    using consume00_waiting [of z buf] assms by (auto simp: con_waiting_def)
  moreover have "processor_step c (c\<lparr>m_hybi00 := Some z'\<rparr>)" using processor_step_00 [OF Some] .
  ultimately show ?thesis
    using Some by (simp add: con_reader_ok_def con_waiting_def con_consume_def con_ready_def)
qed

lemma ready_waiting:
  assumes "proc_ok s" and "ready s"
  shows "\<exists>s' m. get_ready_message s = Some (s', Some m) \<and> waiting s'"
proof -
  obtain s' m where "get_ready_message s = Some (s', Some m)" "proc_ok s'" "m_state s' = HEADER_BASIC"
    "m_bytes_needed s' = 2"
    using ready_message [OF assms] by metis
  then show ?thesis by (auto simp: waiting_def ready_def)
qed

lemma con_message:
  assumes "con_reader_ok c" and "con_ready c"
  shows "\<exists>c' m. con_get_message c = Some (c', Some m) \<and> con_waiting c' \<and> processor_step c c'"
proof (cases "m_hybi00 c")
  case None
  then obtain p m where "get_ready_message (m_processor c) = Some (p, Some m)" "waiting p"
    using ready_waiting [of "m_processor c"] assms by (auto simp: con_reader_ok_def)
  moreover have "processor_step c (c\<lparr>m_processor := p\<rparr>)" using processor_step_13 [OF None] .
  ultimately show ?thesis using None by (simp add: con_waiting_def)
next
  case (Some z)
  then obtain m where "z_msg z = Some m" using assms by (auto simp: con_reader_ok_def con_ready_def ready00_def hybi00_ok_def)
  then show ?thesis
    using Some processor_step_00 [OF Some]
    by (simp add: con_waiting_def con_get_message_def get_message00_def waiting00_def hybi00_ok_def)
qed

text \<open>What the reading handlers keep of the reading side, apart from the processor.\<close>

definition reads_same :: "(unit, 'a) connection \<Rightarrow> (unit, 'a) connection \<Rightarrow> bool" where
  "reads_same c c' \<longleftrightarrow> t_reads c' = t_reads c \<and> m_read_flag c' = m_read_flag c \<and> m_is_server c' = m_is_server c
     \<and> not_http c' = not_http c \<and> (m_hybi00 c' = None \<longleftrightarrow> m_hybi00 c = None)"

lemma reads_same_refl [simp]: "reads_same c c" by (simp add: reads_same_def)

text \<open>The invariant of a connection between two events, kept by every event that can happen.\<close>

definition running :: "(unit, 'a) connection \<Rightarrow> bool" where
  "running c \<longleftrightarrow> conn_ok c \<and> not_http c \<and> t_reads c \<le> 1 \<and> (t_reads c = 1 \<longrightarrow> con_waiting c)"

text \<open>Whether the processor is that of version 0 is settled by the handshake.\<close>

definition same_version :: "(unit, 'a) connection \<Rightarrow> (unit, 'a) connection \<Rightarrow> bool" where
  "same_version c c' \<longleftrightarrow> (m_hybi00 c' = None \<longleftrightarrow> m_hybi00 c = None)"

lemma same_version_refl [simp]: "same_version c c"
  by (simp add: same_version_def)

locale plain_application = application cfg H disabled_extension
  for cfg :: config and H :: "(unit, 'a) handlers"
begin

lemma message_benign: "benign c (call_with (m_message_handler H) msg c)"
  by (cases "m_message_handler H") (auto simp: call_with_def intro: api_benign message_api)

lemma pong_handler_benign: "benign c (call_with (m_pong_handler H) payload c)"
  by (cases "m_pong_handler H") (auto simp: call_with_def intro: api_benign pong_api)

lemma pong_timeout_benign: "benign c (call_with (m_pong_timeout_handler H) payload c)"
  by (cases "m_pong_timeout_handler H") (auto simp: call_with_def intro: api_benign pong_timeout_api)

lemma open_benign: "benign c (call (m_open_handler H) c)"
  by (cases "m_open_handler H") (auto simp: call_def intro: api_benign open_api)

lemma close_benign: "benign c (call (m_close_handler H) c)"
  by (cases "m_close_handler H") (auto simp: call_def intro: api_benign close_api)

lemma fail_benign: "benign c (call (m_fail_handler H) c)"
  by (cases "m_fail_handler H") (auto simp: call_def intro: api_benign fail_api)

lemma cancel_timer_benign: "benign c (cancel_timer t c)"
  by (rule benign_views) (auto simp: views cancel_timer_def split: option.splits)

lemma process_close_frame_benign:
  assumes "c_state c \<notin> {Connecting, Closed}"
  shows "benign c (process_close_frame cfg msg c)"
proof -
  obtain code ec where e: "extract_code (m_payload msg) = (code, ec)" by fastforce
  obtain reason ec' where e': "extract_reason (m_payload msg) = (reason, ec')" by fastforce
  let ?c1 = "c\<lparr>m_remote_close_code := code\<rparr>"
  let ?c2 = "?c1\<lparr>m_remote_close_reason := reason\<rparr>"
  have b: "benign c ?c1" "benign c ?c2" "benign c (?c2\<lparr>m_was_clean := True\<rparr>)"
    by (rule benign_views; simp add: views)+
  have s: "benign ?c1 (fst (send_close_ack cfg k r ?c1))" "benign ?c2 (fst (send_close_ack cfg k r ?c2))"
    for k r
    using assms by (simp_all add: send_close_ack_def send_close_frame_benign)
  note t = benign_trans [OF b(1) s(1)] benign_trans [OF b(2) s(2)] benign_trans [OF b(1) terminate_benign]
    benign_trans [OF b(2) terminate_benign] benign_trans [OF b(3) terminate_benign]
  show ?thesis
    using b t by (simp add: process_close_frame_def Let_def e e')
qed

lemma process_control_frame_benign:
  assumes "conn_ok c"
  shows "benign c (process_control_frame cfg H msg c)"
proof -
  have st: "c_state c \<noteq> Connecting" using assms by (simp add: conn_ok_def life_ok_def)
  have ping: "benign c (fst (case m_ping_handler H of None \<Rightarrow> (c, True) | Some f \<Rightarrow> f (m_payload msg) c))"
    by (cases "m_ping_handler H") (auto intro: api_benign ping_api)
  have pong: "benign c (cancel_timer (m_ping_timer c1) c1)"
    if "c1 = call_with (m_pong_handler H) (m_payload msg) c" for c1
    using benign_trans [OF pong_handler_benign cancel_timer_benign] that by simp
  show ?thesis
    using st ping pong benign_trans [OF ping pong_benign] process_close_frame_benign [of c msg]
    by (auto simp: process_control_frame_def Let_def split: prod.splits)
qed

lemma benign_conn: "benign c c' \<Longrightarrow> conn_ok c \<Longrightarrow>
    conn_ok c' \<and> con_waiting c' = con_waiting c \<and> reads_same c c'"
  using con_waiting_cong [of c' c] by (simp add: benign_def read_view_def reads_same_def)

lemma processor_step_ok: "conn_ok c \<Longrightarrow> processor_step c c' \<Longrightarrow> conn_ok c' \<and> reads_same c c'"
  using conn_ok_cong [of c' c] by (auto simp: processor_step_def views reads_same_def)

lemma deliver_ready_ok:
  assumes "conn_ok c" and "con_reader_ok c" and "con_ready c \<or> con_waiting c"
  shows "\<exists>c'. deliver_ready cfg H c = Some c' \<and> conn_ok c' \<and> con_waiting c' \<and> reads_same c c'"
proof (cases "con_ready c")
  case False
  then show ?thesis using assms by (simp add: deliver_ready_def)
next
  case True
  obtain c1 m where g: "con_get_message c = Some (c1, Some m)" and w: "con_waiting c1" "processor_step c c1"
    using con_message [OF assms(2) True] by blast
  have k: "conn_ok c1" "reads_same c c1" using processor_step_ok [OF assms(1) w(2)] by simp_all
  have "benign c1 (call_with (m_message_handler H) m c1)" by (rule message_benign)
  moreover have "benign c1 (process_control_frame cfg H m c1)"
    by (rule process_control_frame_benign [OF k(1)])
  ultimately have r: "\<exists>c'. deliver_ready cfg H c = Some c' \<and> benign c1 c'"
    using True g by (auto simp: deliver_ready_def Let_def)
  then obtain c' where c': "deliver_ready cfg H c = Some c'" "benign c1 c'" by blast
  from benign_conn [OF c'(2) k(1)] c'(1) w k(2) show ?thesis by (auto simp: reads_same_def)
qed

lemma consume_failed_benign: "benign c (consume_failed cfg e c)"
proof -
  obtain c1 ec where k: "close_connection cfg (to_ws (Some e)) (ascii (code_message e)) c = (c1, ec)"
    by fastforce
  then have "benign c c1" using close_connection_benign [of c cfg "to_ws (Some e)" "ascii (code_message e)"] by simp
  then show ?thesis
    using k benign_trans [of c c1 "terminate ec c1"] terminate_benign [of c1 ec]
      terminate_benign [of c "Some e"]
    by (simp add: consume_failed_def)
qed

lemma read_loop_ok:
  assumes "conn_ok c" and "con_waiting c"
  shows "\<exists>c' go_on. read_loop disabled_extension cfg H buf c = Some (c', go_on) \<and> conn_ok c'
    \<and> reads_same c c' \<and> (go_on \<longrightarrow> con_waiting c')"
  using assms
proof (induction "length buf" arbitrary: buf c rule: less_induct)
  case less
  show ?case
  proof (cases "buf = []")
    case True
    then have "read_loop disabled_extension cfg H buf c = Some (c, True)" by (subst read_loop.simps) simp
    then show ?thesis using less.prems by (intro exI [of _ c] exI [of _ True]) simp
  next
    case False
    obtain c1 n ec where c: "con_consume disabled_extension buf c = Some (c1, n, ec)" "n \<le> length buf"
      "processor_step c c1" "ec = None \<longrightarrow> 0 < n \<and> con_reader_ok c1 \<and> (con_ready c1 \<or> con_waiting c1)"
      using con_consume_waiting [OF less.prems(2) False] by blast
    have k: "conn_ok c1" "reads_same c c1" using processor_step_ok [OF less.prems(1) c(3)] by simp_all
    show ?thesis
    proof (cases ec)
      case (Some e)
      then have "read_loop disabled_extension cfg H buf c = Some (consume_failed cfg e c1, False)"
        using False c(1) by (subst read_loop.simps) simp
      then show ?thesis
        using benign_conn [OF consume_failed_benign [of c1 e] k(1)] k(2)
        by (intro exI [of _ "consume_failed cfg e c1"] exI [of _ False]) (simp add: reads_same_def)
    next
      case None
      then obtain c2 where d: "deliver_ready cfg H c1 = Some c2" "conn_ok c2" "con_waiting c2"
        "reads_same c1 c2"
        using deliver_ready_ok [OF k(1)] c(4) by auto
      have "length (drop n buf) < length buf" using c(4) None False by (simp add: Suc_le_eq)
      from less.hyps [OF this d(2,3)] obtain c' go_on where
        "read_loop disabled_extension cfg H (drop n buf) c2 = Some (c', go_on)" "conn_ok c'"
        "reads_same c2 c'" "go_on \<longrightarrow> con_waiting c'" by blast
      then show ?thesis
        using False c(1) None d k(2) by (subst read_loop.simps) (simp add: reads_same_def)
    qed
  qed
qed

lemma handle_read_frame_ok:
  assumes "conn_ok c" and "con_waiting c" and "t_reads c = 0"
  shows "\<exists>c'. handle_read_frame disabled_extension cfg H ec buf c = Some c' \<and> conn_ok c'
    \<and> t_reads c' \<le> 1 \<and> (t_reads c' = 1 \<longrightarrow> con_waiting c') \<and> not_http c' = not_http c \<and> same_version c c'"
proof -
  have i: "m_internal_state c = PROCESS_CONNECTION" using assms(1) by (simp add: conn_ok_def life_ok_def)
  have t: "conn_ok (terminate e c) \<and> t_reads (terminate e c) = 0 \<and> not_http (terminate e c) = not_http c
      \<and> same_version c (terminate e c)" for e
    using benign_conn [OF terminate_benign assms(1)] assms(3) by (simp add: reads_same_def same_version_def)
  show ?thesis
  proof (cases ec)
    case (Some e)
    then show ?thesis using t assms by (simp add: handle_read_frame_def same_version_def)
  next
    case None
    obtain c' go_on where l: "read_loop disabled_extension cfg H buf c = Some (c', go_on)" "conn_ok c'"
      "reads_same c c'" "go_on \<longrightarrow> con_waiting c'"
      using read_loop_ok [OF assms(1,2)] by blast
    have "conn_ok (async_read c')"
      by (rule conn_ok_cong [OF _ _ l(2)]) (simp_all add: views async_read_def)
    then show ?thesis
      using l i None assms(3)
      by (auto simp: handle_read_frame_def read_frame_def reads_same_def same_version_def)
        (simp_all add: async_read_def not_http_def)
  qed
qed

lemma benign_running: "benign c c' \<Longrightarrow> running c \<Longrightarrow> running c'"
  using con_waiting_cong [of c' c] by (simp add: benign_def running_def read_view_def)

lemma benign_version: "benign c c' \<Longrightarrow> same_version c c'"
  by (simp add: benign_def read_view_def same_version_def)

lemma read_event_running:
  assumes "running c" and "t_reads c > 0"
  shows "\<exists>c'. handle_read_frame disabled_extension cfg H ec buf (c\<lparr>t_reads := t_reads c - 1\<rparr>) = Some c'
    \<and> running c' \<and> same_version c c'"
proof -
  let ?c = "c\<lparr>t_reads := t_reads c - 1\<rparr>"
  have "conn_ok ?c"
    by (rule conn_ok_cong [of _ c]) (use assms in \<open>simp_all add: views running_def\<close>)
  moreover have "t_reads ?c = 0" "con_waiting ?c" "not_http ?c"
    using assms by (simp_all add: running_def)
  ultimately show ?thesis
    using handle_read_frame_ok [of ?c ec buf] by (auto simp: running_def same_version_def)
qed

lemma write_event_running:
  assumes "running c" and "t_write c \<noteq> None"
  shows "\<exists>c'. handle_write_frame ec (c\<lparr>t_write := None\<rparr>) = Some c' \<and> running c' \<and> same_version c c'"
proof -
  have w: "write_ok c" "life_ok c" using assms(1) by (simp_all add: running_def conn_ok_def)
  obtain c' where c': "handle_write_frame ec (c\<lparr>t_write := None\<rparr>) = Some c'" "write_ok c'"
    using handle_write_frame_write_ok [OF w(1) assms(2)] by blast
  have "life_ok c' \<and> read_view c' = read_view c"
  proof -
    let ?c = "c\<lparr>t_write := None, m_send_buffer := [], m_current_msgs := []\<rparr>"
    have l: "life_ok ?c" "life_ok (?c\<lparr>m_write_flag := False\<rparr>)"
      "life_ok (dispatch_write_frame (?c\<lparr>m_write_flag := False\<rparr>))"
      using w(2) by (simp_all add: life_ok_def dispatch_write_frame_def)
    have t: "life_ok (terminate e ?c)" "read_view (terminate e ?c) = read_view ?c" for e
      using l(1) by (auto simp: life_ok_def read_view_def not_http_def terminate_def Let_def cancel_handshake_timer_def
          cancel_timer_def async_shutdown_def split: option.splits if_splits)
    show ?thesis
      using c'(1) l t
      by (auto simp: handle_write_frame_def Let_def dispatch_write_frame_def read_view_def not_http_def split: if_splits)
  qed
  then show ?thesis
    using c' assms(1) con_waiting_cong [of c' c]
    by (auto simp: running_def conn_ok_def read_view_def same_version_def)
qed

lemma dispatch_event_running:
  assumes "running c"
  shows "running (write_frame (c\<lparr>t_dispatch := t_dispatch c - 1\<rparr>))
    \<and> same_version c (write_frame (c\<lparr>t_dispatch := t_dispatch c - 1\<rparr>))"
proof -
  let ?c = "c\<lparr>t_dispatch := t_dispatch c - 1\<rparr>"
  obtain xs ys where p: "pull_messages ?c = ?c\<lparr>m_current_msgs := m_current_msgs ?c @ xs, m_send_queue := ys,
       m_send_buffer_size := m_send_buffer_size ?c - of_nat (payload_total xs)\<rparr>"
    using pull_messages_spec [of ?c] by blast
  then have "life_view (write_frame ?c) = life_view c" "read_view (write_frame ?c) = read_view c"
    by (simp_all add: write_frame_def views Let_def)
  moreover have "write_ok (write_frame ?c)"
    by (rule write_frame_write_ok) (use assms in \<open>simp add: running_def conn_ok_def\<close>)
  ultimately show ?thesis
    using assms con_waiting_cong [of "write_frame ?c" c]
    by (simp add: running_def conn_ok_def life_ok_def life_view_def read_view_def not_http_def
        same_version_def)
qed

lemma timer_event_benign:
  "\<exists>c'. conn_happen disabled_extension cfg H (Timer_fired t) c = Some c' \<and> benign c c'"
proof -
  let ?c = "c\<lparr>t_timers := remove1 t (t_timers c)\<rparr>"
  have b: "benign c ?c" by (rule benign_views) (simp_all add: views)
  have "benign c (terminate e ?c)" "benign c (call_with (m_pong_timeout_handler H) payload ?c)"
    for e payload
    using benign_trans [OF b terminate_benign] benign_trans [OF b pong_timeout_benign] by blast+
  then show ?thesis
    by (auto simp: Let_def handle_open_handshake_timeout_def handle_close_handshake_timeout_def
        handle_pong_timeout_def split: timer.split)
qed

lemma shutdown_event_benign:
  assumes "conn_ok c" and "t_shutdown c \<noteq> []"
  shows "\<exists>c'. conn_happen disabled_extension cfg H Shutdown_done c = Some c' \<and> benign c c'"
proof -
  let ?st = "hd (t_shutdown c)"
  let ?c = "c\<lparr>t_shutdown := tl (t_shutdown c), ended := ended c @ [?st]\<rparr>"
  obtain st rest where s: "t_shutdown c = st # rest" using assms(2) by (cases "t_shutdown c") auto
  have "write_ok ?c" by (rule write_ok_cong [of _ c]) (use assms(1) in \<open>simp_all add: views conn_ok_def\<close>)
  moreover have "life_ok ?c" using assms(1) s by (auto simp: conn_ok_def life_ok_def)
  ultimately have b: "benign c ?c" by (simp add: benign_def conn_ok_def read_view_def not_http_def)
  have "benign c (handle_terminate H st' ?c)" for st'
    using b benign_trans [OF b close_benign] benign_trans [OF b fail_benign]
    by (simp add: handle_terminate_def split: terminate_status.split)
  then show ?thesis by (simp add: Let_def)
qed

lemma happen_running:
  assumes "running c" and "conn_enabled ev c"
  shows "\<exists>c'. conn_happen disabled_extension cfg H ev c = Some c' \<and> running c' \<and> same_version c c'"
proof (cases ev)
  case (Send_begins msg)
  have "benign c (c\<lparr>senders := msg # senders c\<rparr>)" by (rule benign_views) (simp_all add: views)
  with Send_begins assms show ?thesis by (auto intro: benign_running benign_version)
next
  case (Send_ends msg)
  have "benign c (c\<lparr>senders := remove1 msg (senders c)\<rparr>)" by (rule benign_views) (simp_all add: views)
  from benign_trans [OF this send_unlocked_benign] Send_ends assms(1) show ?thesis
    by (auto intro: benign_running benign_version)
next
  case (Pings payload)
  then show ?thesis using assms(1) by (auto intro: benign_running benign_version ping_benign)
next
  case (Pongs payload)
  then show ?thesis using assms(1) by (auto intro: benign_running benign_version pong_benign)
next
  case (Closes_with code reason)
  then show ?thesis using assms(1) by (auto intro: benign_running benign_version close_connection_benign)
next
  case (Read_done buf)
  then show ?thesis using assms read_event_running by auto
next
  case (Read_failed e)
  then show ?thesis using assms read_event_running by auto
next
  case (Write_done ec)
  then show ?thesis using assms write_event_running by auto
next
  case Dispatched
  then show ?thesis using assms dispatch_event_running by auto
next
  case (Timer_fired t)
  then show ?thesis using assms(1) timer_event_benign [of t c] benign_running benign_version by blast
next
  case Shutdown_done
  have "conn_ok c" using assms(1) by (simp add: running_def)
  then obtain c' where "conn_happen disabled_extension cfg H Shutdown_done c = Some c'" "benign c c'"
    using shutdown_event_benign [of c] assms(2) Shutdown_done by auto
  then show ?thesis
    using Shutdown_done benign_running [of c c'] benign_version [of c c'] assms(1) by auto
qed

lemma any_opened_running:
  assumes "conn_ok (c\<lparr>m_internal_state := PROCESS_CONNECTION, c_state := Open\<rparr>)"
    and "con_waiting c" "t_reads c = 0" "not_http c"
  shows "\<exists>c'. open_connection disabled_extension cfg H rest c = Some c' \<and> running c' \<and> same_version c c'"
proof -
  let ?c = "c\<lparr>m_internal_state := PROCESS_CONNECTION, c_state := Open\<rparr>"
  have "conn_ok (call (m_open_handler H) ?c) \<and> con_waiting (call (m_open_handler H) ?c)
      \<and> t_reads (call (m_open_handler H) ?c) = 0 \<and> not_http (call (m_open_handler H) ?c)
      \<and> same_version c (call (m_open_handler H) ?c)"
    using benign_conn [OF open_benign assms(1)] assms(2-4)
      con_waiting_cong [of ?c c]
    by (auto simp: reads_same_def not_http_def same_version_def)
  then show ?thesis
    using handle_read_frame_ok [of "call (m_open_handler H) ?c" None rest] assms
    by (auto simp: open_connection_def running_def same_version_def)
qed

lemma opened_running:
  assumes "waiting p"
  shows "\<exists>c. open_connection disabled_extension cfg H rest (new_connection srv p rng od cd pd a) = Some c
    \<and> running c \<and> m_hybi00 c = None"
proof -
  let ?c = "new_connection srv p rng od cd pd a"
  have "\<exists>c'. open_connection disabled_extension cfg H rest ?c = Some c' \<and> running c' \<and> same_version ?c c'"
    by (rule any_opened_running)
    (simp_all add: con_waiting_def assms conn_ok_def write_ok_def life_ok_def new_connection_def not_http_def)
  then show ?thesis by (auto simp: same_version_def new_connection_def)
qed

lemma reachable_running:
  assumes "running c0" and "conn_reachable disabled_extension cfg H c0 c"
  shows "running c \<and> same_version c0 c"
  using assms(2)
proof (induction rule: conn_reachable.induct)
  case (conn_event c ev c')
  then show ?case using happen_running [of c ev] by (auto simp: same_version_def)
qed (simp add: assms(1) same_version_def)

end

end
