(* ===== verification/Broadcast.thy ===== *)
theory Broadcast
  imports Camera Message Utf8
begin

text \<open>
  The broadcast server of \<open>broadcastTest.cpp\<close>: the class \<open>broadcast_server\<close>, its two worker
  threads and \<open>main\<close>. Every read or write of a shared member is one step, so the threads
  interleave between any two of them; the critical sections that hold \<open>m_action_lock\<close> are single
  steps. The looping thread takes no lock. Connections are numbered; a connection is open from
  its handshake until it starts closing, and \<open>on_close\<close> runs some time after that. Sending on a
  connection that is not open, or a text that is not UTF-8, throws, as
  \<open>connection_impl.hpp\<close> and \<open>prepare_data_frame\<close> do, and nothing catches it in a worker thread.
\<close>

subsection \<open>Data\<close>

datatype action_type = SUBSCRIBE | UNSUBSCRIBE | MESSAGE

type_synonym hdl = nat

record action =
  a_type :: action_type
  a_hdl :: hdl
  a_msg :: message_ptr

text \<open>
  The member \<open>b\<close>: not initialised by the constructor, later the address of the local variable
  \<open>a\<close> of \<open>process_messages\<close>, which is alive while that iteration runs and dead afterwards. To
  read a dead \<open>a\<close> through \<open>b\<close> is undefined behaviour and is the fault \<open>Dangling_read\<close>; the
  mere comparison of the pointer is not a read of the object.
\<close>

datatype action_ref = Indeterminate | Points_to action bool

datatype crash =
    Camera_fault fault | Uninitialised_pointer | Dangling_read | Bad_iterator | Null_message | Null_string
  | Encode_exception | Send_exception

text \<open>Where the two worker threads stand.\<close>

datatype proc_pc = P_wait | P_dispatch action | P_get_data | P_end

datatype loop_pc =
    L_top | L_find | L_deref hdl nat | L_stop | L_data | L_else | L_image | L_send_image bytes
  | L_count | L_string | L_send_text bytes | L_inc | L_clear_stop | L_clear_data | L_clear_count

text \<open>
  The members of the class, the global camera and its environment, the programs counters, and
  for the properties: which connections are open, have ever been and have been reported closed,
  the messages received and taken from the queue, and what was sent.
  A node of \<open>m_connections\<close> carries a number, which an iterator remembers.
\<close>

record 's server =
  m_connections :: "hdl \<Rightarrow> (nat \<times> bytes) option"
  next_node :: nat
  m_actions :: "action list"
  b_ref :: action_ref
  stop_streaming :: bool
  get_data :: bool
  client2_data_count :: nat
  proc_at :: proc_pc
  loop_at :: loop_pc
  cam1 :: camera
  world :: "'s env"
  opened :: "hdl set"
  seen :: "hdl set"
  closed :: "hdl set"
  received :: "action list"
  taken :: "action list"
  outbox :: "(hdl \<times> opcode \<times> bytes) list"

definition max_client2_data_count :: nat where "max_client2_data_count = 1"

definition new_server :: "camera \<Rightarrow> 's env \<Rightarrow> 's server" where
  "new_server c e =
     \<lparr>m_connections = (\<lambda>_. None), next_node = 0, m_actions = [], b_ref = Indeterminate,
      stop_streaming = False, get_data = False, client2_data_count = 0,
      proc_at = P_wait, loop_at = L_top, cam1 = c, world = e,
      opened = {}, seen = {}, closed = {}, received = [], taken = [], outbox = []\<rparr>"

subsection \<open>Handlers\<close>

text \<open>\<open>m_connections[hdl]\<close> as an lvalue: a missing key gets a new node with an empty string.\<close>

definition map_index :: "hdl \<Rightarrow> 's server \<Rightarrow> 's server" where
  "map_index h s =
     (case m_connections s h of
        Some _ \<Rightarrow> s
      | None \<Rightarrow> s\<lparr>m_connections := (m_connections s)(h := Some (next_node s, [])),
                   next_node := next_node s + 1\<rparr>)"

definition map_assign :: "hdl \<Rightarrow> bytes \<Rightarrow> 's server \<Rightarrow> 's server" where
  "map_assign h v s =
     (let s = map_index h s
      in s\<lparr>m_connections := (m_connections s)(h := Some (fst (the (m_connections s h)), v))\<rparr>)"

definition on_open :: "hdl \<Rightarrow> bytes \<Rightarrow> 's server \<Rightarrow> 's server" where
  "on_open h client_id s = map_assign h client_id s"

text \<open>The log line after the \<open>erase\<close> indexes the map with the erased key.\<close>

definition on_close :: "hdl \<Rightarrow> 's server \<Rightarrow> 's server" where
  "on_close h s = map_index h (s\<lparr>m_connections := (m_connections s)(h := None)\<rparr>)"

definition on_message :: "hdl \<Rightarrow> message_ptr \<Rightarrow> 's server \<Rightarrow> 's server" where
  "on_message h msg s =
     (let a = \<lparr>a_type = MESSAGE, a_hdl = h, a_msg = msg\<rparr>
      in s\<lparr>m_actions := m_actions s @ [a], received := received s @ [a]\<rparr>)"

subsection \<open>The thread that handles messages\<close>

text \<open>One step of \<open>process_messages\<close>; it blocks (\<open>None\<close>) while the queue is empty.\<close>

definition process_messages :: "'s server \<Rightarrow> (crash + 's server) option" where
  "process_messages s =
     (case proc_at s of
        P_wait \<Rightarrow>
          (case m_actions s of
             [] \<Rightarrow> None
           | a # rest \<Rightarrow>
               Some (Inr (s\<lparr>m_actions := rest, b_ref := Points_to a True, taken := taken s @ [a],
                            proc_at := P_dispatch a\<rparr>)))
      | P_dispatch a \<Rightarrow>
          (case a_type a of
             MESSAGE \<Rightarrow>
               (case a_msg a of
                  None \<Rightarrow> Some (Inl Null_message)
                | Some m \<Rightarrow>
                    let message = m_payload m
                    in if message = ascii ''stop_streaming'' then
                         Some (Inr (s\<lparr>stop_streaming := True, proc_at := P_end\<rparr>))
                       else if message = ascii ''start_stream'' then
                         Some (Inr (s\<lparr>stop_streaming := False, proc_at := P_end\<rparr>))
                       else if message = ascii ''get_data'' then
                         Some (Inr (s\<lparr>stop_streaming := True, proc_at := P_get_data\<rparr>))
                       else Some (Inr (s\<lparr>proc_at := P_end\<rparr>)))
           | _ \<Rightarrow> Some (Inr (s\<lparr>proc_at := P_end\<rparr>)))
      | P_get_data \<Rightarrow> Some (Inr (s\<lparr>get_data := True, proc_at := P_end\<rparr>))
      | P_end \<Rightarrow>
          Some (Inr (s\<lparr>proc_at := P_wait,
                       b_ref := (case b_ref s of
                                   Points_to a _ \<Rightarrow> Points_to a False
                                 | Indeterminate \<Rightarrow> Indeterminate)\<rparr>)))"

subsection \<open>The thread that sends\<close>

definition read_b :: "'s server \<Rightarrow> (action \<Rightarrow> 's server \<Rightarrow> crash + 's server) \<Rightarrow> crash + 's server" where
  "read_b s k =
     (case b_ref s of
        Indeterminate \<Rightarrow> Inl Uninitialised_pointer
      | Points_to a alive \<Rightarrow> if alive then k a s else Inl Dangling_read)"

definition server_send :: "hdl \<Rightarrow> bytes \<Rightarrow> opcode \<Rightarrow> 's server \<Rightarrow> crash + 's server" where
  "server_send h payload op s =
     (if h \<notin> opened s then Inl Send_exception
      else if op = TEXT \<and> \<not> validate payload then Inl Send_exception
      else Inr (s\<lparr>outbox := outbox s @ [(h, op, payload)]\<rparr>))"

definition send_to_b :: "bytes \<Rightarrow> opcode \<Rightarrow> loop_pc \<Rightarrow> 's server \<Rightarrow> crash + 's server" where
  "send_to_b payload op next s =
     read_b s (\<lambda>a s. map_sum id (\<lambda>s. s\<lparr>loop_at := next\<rparr>) (server_send (a_hdl a) payload op s))"

text \<open>
  One step of \<open>looping\<close>. The encoder of OpenCV is the parameter \<open>imencode\<close>, \<open>None\<close> when it
  throws (an empty image). \<open>max_client2_data_count\<close> is a constant member.
\<close>

definition looping ::
  "'s sdk \<Rightarrow> 'img vision \<Rightarrow> ('img \<Rightarrow> bytes option) \<Rightarrow> 's server \<Rightarrow> crash + 's server" where
  "looping S V imencode s =
     (case loop_at s of
        L_top \<Rightarrow> (case b_ref s of
                    Indeterminate \<Rightarrow> Inl Uninitialised_pointer
                  | Points_to _ _ \<Rightarrow> Inr (s\<lparr>loop_at := L_find\<rparr>))
      | L_find \<Rightarrow>
          read_b s (\<lambda>a s. Inr (s\<lparr>loop_at := (case m_connections s (a_hdl a) of
                                               None \<Rightarrow> L_top
                                             | Some (node, _) \<Rightarrow> L_deref (a_hdl a) node)\<rparr>))
      | L_deref h node \<Rightarrow>
          (case m_connections s h of
             None \<Rightarrow> Inl Bad_iterator
           | Some (n, _) \<Rightarrow> if n = node then Inr (s\<lparr>loop_at := L_stop\<rparr>) else Inl Bad_iterator)
      | L_stop \<Rightarrow> Inr (s\<lparr>loop_at := (if \<not> stop_streaming s then L_data else L_else)\<rparr>)
      | L_data \<Rightarrow> Inr (s\<lparr>loop_at := (if \<not> get_data s then L_image else L_else)\<rparr>)
      | L_else \<Rightarrow> Inr (s\<lparr>loop_at := (if get_data s then L_count else L_top)\<rparr>)
      | L_image \<Rightarrow>
          (case getImage S V (cam1 s) (world s) of
             Inl f \<Rightarrow> Inl (Camera_fault f)
           | Inr (img, c, e) \<Rightarrow>
               (case imencode img of
                  None \<Rightarrow> Inl Encode_exception
                | Some buf \<Rightarrow> Inr (s\<lparr>cam1 := c, world := e, loop_at := L_send_image buf\<rparr>)))
      | L_send_image buf \<Rightarrow> send_to_b buf BINARY L_top s
      | L_count \<Rightarrow>
          Inr (s\<lparr>loop_at := (if client2_data_count s < max_client2_data_count
                             then L_string else L_clear_stop)\<rparr>)
      | L_string \<Rightarrow>
          (case getString S (cam1 s) (world s) of
             Inl f \<Rightarrow> Inl (Camera_fault f)
           | Inr (None, e) \<Rightarrow> Inl Null_string
           | Inr (Some str, e) \<Rightarrow> Inr (s\<lparr>world := e, loop_at := L_send_text str\<rparr>))
      | L_send_text str \<Rightarrow> send_to_b str TEXT L_inc s
      | L_inc \<Rightarrow> Inr (s\<lparr>client2_data_count := client2_data_count s + 1, loop_at := L_top\<rparr>)
      | L_clear_stop \<Rightarrow> Inr (s\<lparr>stop_streaming := False, loop_at := L_clear_data\<rparr>)
      | L_clear_data \<Rightarrow> Inr (s\<lparr>get_data := False, loop_at := L_clear_count\<rparr>)
      | L_clear_count \<Rightarrow> Inr (s\<lparr>client2_data_count := 0, loop_at := L_top\<rparr>))"

subsection \<open>The server as a whole\<close>

text \<open>
  What can happen: a connection opens and \<open>on_open\<close> runs; it stops being open; \<open>on_close\<close> runs;
  a message arrives on a connection not yet reported closed; a worker thread takes a step.
\<close>

datatype event = Opens hdl bytes | Leaves hdl | Closes hdl | Arrives hdl message | Proc | Loop

fun enabled :: "event \<Rightarrow> 's server \<Rightarrow> bool" where
  "enabled (Opens h _) s \<longleftrightarrow> h \<notin> seen s"
| "enabled (Leaves h) s \<longleftrightarrow> h \<in> opened s"
| "enabled (Closes h) s \<longleftrightarrow> h \<in> seen s \<and> h \<notin> opened s \<and> h \<notin> closed s"
| "enabled (Arrives h _) s \<longleftrightarrow> h \<in> seen s \<and> h \<notin> closed s"
| "enabled Proc s \<longleftrightarrow> process_messages s \<noteq> None"
| "enabled Loop s \<longleftrightarrow> True"

fun happen ::
  "'s sdk \<Rightarrow> 'img vision \<Rightarrow> ('img \<Rightarrow> bytes option) \<Rightarrow> event \<Rightarrow> 's server \<Rightarrow> crash + 's server" where
  "happen S V E (Opens h cid) s =
     Inr (on_open h cid (s\<lparr>opened := insert h (opened s), seen := insert h (seen s)\<rparr>))"
| "happen S V E (Leaves h) s = Inr (s\<lparr>opened := opened s - {h}\<rparr>)"
| "happen S V E (Closes h) s = Inr (on_close h (s\<lparr>closed := insert h (closed s)\<rparr>))"
| "happen S V E (Arrives h m) s = Inr (on_message h (Some m) s)"
| "happen S V E Proc s = (case process_messages s of None \<Rightarrow> Inr s | Some r \<Rightarrow> r)"
| "happen S V E Loop s = looping S V E s"

inductive reachable ::
  "'s sdk \<Rightarrow> 'img vision \<Rightarrow> ('img \<Rightarrow> bytes option) \<Rightarrow> 's server \<Rightarrow> 's server \<Rightarrow> bool"
  for S V E s0 where
  start: "reachable S V E s0 s0"
| event: "reachable S V E s0 s \<Longrightarrow> enabled ev s \<Longrightarrow> happen S V E ev s = Inr s' \<Longrightarrow> reachable S V E s0 s'"

text \<open>A run given as a list of events; \<open>None\<close> when one of them cannot happen.\<close>

fun run ::
  "'s sdk \<Rightarrow> 'img vision \<Rightarrow> ('img \<Rightarrow> bytes option) \<Rightarrow> event list \<Rightarrow> 's server \<Rightarrow> (crash + 's server) option" where
  "run S V E [] s = Some (Inr s)"
| "run S V E (ev # evs) s =
     (if enabled ev s then
        (case happen S V E ev s of
           Inl c \<Rightarrow> Some (Inl c)
         | Inr s' \<Rightarrow> run S V E evs s')
      else None)"

lemma run_reachable:
  "reachable S V E s0 s \<Longrightarrow> run S V E evs s = Some (Inr s') \<Longrightarrow> reachable S V E s0 s'"
  by (induction evs arbitrary: s) (auto split: if_splits sum.splits intro: reachable.event)

subsection \<open>Invariant\<close>

definition maps_ok :: "'s server \<Rightarrow> bool" where
  "maps_ok s \<longleftrightarrow> opened s \<subseteq> seen s \<and> closed s \<subseteq> seen s \<and> opened s \<inter> closed s = {}
     \<and> dom (m_connections s) = seen s
     \<and> (\<forall>h n v. m_connections s h = Some (n, v) \<longrightarrow> n < next_node s)"

definition count_ok :: "'s server \<Rightarrow> bool" where
  "count_ok s \<longleftrightarrow> client2_data_count s \<le> max_client2_data_count
     \<and> (loop_at s = L_string \<or> loop_at s = L_inc \<or> (\<exists>str. loop_at s = L_send_text str)
          \<longrightarrow> client2_data_count s < max_client2_data_count)"

definition queue_ok :: "'s server \<Rightarrow> bool" where
  "queue_ok s \<longleftrightarrow> received s = taken s @ m_actions s
     \<and> (\<forall>a \<in> set (received s). a_type a = MESSAGE \<and> a_msg a \<noteq> None \<and> a_hdl a \<in> seen s)"

definition b_ok :: "'s server \<Rightarrow> bool" where
  "b_ok s \<longleftrightarrow>
     (case b_ref s of
        Indeterminate \<Rightarrow> taken s = [] \<and> proc_at s = P_wait \<and> loop_at s = L_top
      | Points_to a alive \<Rightarrow> taken s \<noteq> [] \<and> last (taken s) = a \<and> alive = (proc_at s \<noteq> P_wait))
     \<and> (\<forall>a. proc_at s = P_dispatch a \<longrightarrow> b_ref s = Points_to a True)"

lemmas srv_ok_defs = maps_ok_def count_ok_def queue_ok_def b_ok_def

definition srv_ok :: "'s server \<Rightarrow> bool" where
  "srv_ok s \<longleftrightarrow> maps_ok s \<and> count_ok s \<and> queue_ok s \<and> b_ok s"

lemma new_server_ok: "srv_ok (new_server c e)"
  by (simp add: srv_ok_def srv_ok_defs new_server_def)

lemma map_index_frame [simp]:
  "opened (map_index h s) = opened s" "seen (map_index h s) = seen s" "closed (map_index h s) = closed s"
  "client2_data_count (map_index h s) = client2_data_count s" "loop_at (map_index h s) = loop_at s"
  "received (map_index h s) = received s" "taken (map_index h s) = taken s"
  "m_actions (map_index h s) = m_actions s" "b_ref (map_index h s) = b_ref s"
  "proc_at (map_index h s) = proc_at s" "outbox (map_index h s) = outbox s"
  "stop_streaming (map_index h s) = stop_streaming s" "get_data (map_index h s) = get_data s"
  "dom (m_connections (map_index h s)) = insert h (dom (m_connections s))"
  by (auto simp: map_index_def split: option.splits)

lemma map_index_nodes:
  assumes "\<And>h n v. m_connections s h = Some (n, v) \<Longrightarrow> n < next_node s"
  shows "m_connections (map_index h s) h' = Some (n, v) \<Longrightarrow> n < next_node (map_index h s)"
  using assms by (auto simp: map_index_def less_Suc_eq split: option.splits if_splits)

lemma on_open_ok:
  assumes "srv_ok s" and "h \<notin> seen s"
  shows "srv_ok (on_open h v (s\<lparr>opened := insert h (opened s), seen := insert h (seen s)\<rparr>))"
proof -
  let ?s = "s\<lparr>opened := insert h (opened s), seen := insert h (seen s)\<rparr>"
  have m: "h \<notin> dom (m_connections s)" "h \<notin> closed s" using assms by (auto simp: srv_ok_def maps_ok_def)
  have e: "on_open h v ?s = ?s\<lparr>m_connections := (m_connections s)(h := Some (next_node s, v)),
      next_node := next_node s + 1\<rparr>"
    using m by (auto simp: on_open_def map_assign_def map_index_def Let_def split: option.splits)
  show ?thesis
    unfolding e using assms m
    by (auto simp: srv_ok_def srv_ok_defs less_Suc_eq split: action_ref.splits)
qed

lemma on_close_ok:
  assumes "srv_ok s" and "h \<in> seen s" "h \<notin> opened s"
  shows "srv_ok (on_close h (s\<lparr>closed := insert h (closed s)\<rparr>))"
proof -
  let ?s = "s\<lparr>closed := insert h (closed s), m_connections := (m_connections s)(h := None)\<rparr>"
  have e: "on_close h (s\<lparr>closed := insert h (closed s)\<rparr>) = map_index h ?s"
    by (simp add: on_close_def)
  have n: "m_connections s h' = Some (k, v) \<Longrightarrow> k < next_node s" for h' k v
    using assms(1) unfolding srv_ok_def maps_ok_def by blast
  have "m_connections (map_index h ?s) h' = Some (k, w) \<Longrightarrow> k < next_node (map_index h ?s)" for h' k w
    by (rule map_index_nodes) (use n in \<open>auto split: if_splits\<close>)
  then have "maps_ok (map_index h ?s)"
    using assms by (auto simp: srv_ok_def maps_ok_def insert_absorb)
  moreover have "count_ok (map_index h ?s)" "queue_ok (map_index h ?s)" "b_ok (map_index h ?s)"
    using assms(1)
    by (simp_all add: srv_ok_def count_ok_def queue_ok_def b_ok_def split: action_ref.splits)
  ultimately show ?thesis unfolding e srv_ok_def by simp
qed

lemma on_message_ok:
  assumes "srv_ok s" and "h \<in> seen s"
  shows "srv_ok (on_message h (Some m) s)"
  using assms by (auto simp: srv_ok_def srv_ok_defs on_message_def Let_def split: action_ref.splits)

text \<open>The message thread touches neither the connections nor the count.\<close>

lemma process_messages_frame:
  assumes "process_messages s = Some (Inr s')"
  shows "opened s' = opened s" "seen s' = seen s" "closed s' = closed s"
    "m_connections s' = m_connections s" "next_node s' = next_node s"
    "client2_data_count s' = client2_data_count s" "loop_at s' = loop_at s"
    "received s' = received s" "outbox s' = outbox s"
    "taken s' @ m_actions s' = taken s @ m_actions s"
  using assms
  by (auto simp: process_messages_def Let_def
      split: proc_pc.splits list.splits action_type.splits option.splits if_splits)

lemma process_messages_b:
  assumes "b_ok s" and "process_messages s = Some (Inr s')"
  shows "b_ok s'"
  using assms
  by (cases "proc_at s")
    (auto simp: process_messages_def Let_def b_ok_def
      split: list.splits action_type.splits option.splits if_splits action_ref.splits)

lemma process_messages_ok:
  assumes "srv_ok s" and "process_messages s = Some (Inr s')"
  shows "srv_ok s'"
proof -
  note f = process_messages_frame [OF assms(2)]
  have "maps_ok s'" "count_ok s'" "queue_ok s'"
    using assms(1) unfolding srv_ok_def maps_ok_def count_ok_def queue_ok_def f by auto
  then show ?thesis
    using assms(1) process_messages_b [OF _ assms(2)] by (simp add: srv_ok_def)
qed

lemma process_messages_no_crash:
  assumes "srv_ok s"
  shows "process_messages s \<noteq> Some (Inl c)"
proof (cases "proc_at s")
  case (P_dispatch a)
  then have b: "b_ref s = Points_to a True" using assms by (auto simp: srv_ok_def b_ok_def)
  then have "taken s \<noteq> []" "last (taken s) = a" using assms by (auto simp: srv_ok_def b_ok_def)
  then have "a \<in> set (received s)"
    using assms last_in_set [of "taken s"] by (auto simp: srv_ok_def queue_ok_def)
  then have "a_type a = MESSAGE" "a_msg a \<noteq> None"
    using assms by (auto simp: srv_ok_def queue_ok_def)
  then show ?thesis using P_dispatch by (auto simp: process_messages_def Let_def split: if_splits)
qed (auto simp: process_messages_def split: list.splits)

text \<open>What a successful read of \<open>b\<close> and a successful send come to.\<close>

lemma read_b_Inr:
  "read_b s k = Inr s' \<Longrightarrow>
     \<exists>a. b_ref s = Points_to a True \<and> k a s = Inr s'"
  by (auto simp: read_b_def split: action_ref.splits if_splits)

lemma send_to_b_Inr:
  assumes "send_to_b payload op next s = Inr s'"
  obtains a where "b_ref s = Points_to a True" "a_hdl a \<in> opened s"
    "op = TEXT \<Longrightarrow> validate payload"
    "s' = s\<lparr>outbox := outbox s @ [(a_hdl a, op, payload)], loop_at := next\<rparr>"
proof -
  obtain a where b: "b_ref s = Points_to a True"
    "map_sum id (\<lambda>s. s\<lparr>loop_at := next\<rparr>) (server_send (a_hdl a) payload op s) = Inr s'"
    using read_b_Inr [OF assms [unfolded send_to_b_def]] by blast
  then show thesis
    by (intro that [of a]) (auto simp: server_send_def split: if_splits)
qed


lemma looping_frame:
  assumes "looping S V E s = Inr s'"
  shows "opened s' = opened s" "seen s' = seen s" "closed s' = closed s"
    "m_connections s' = m_connections s" "next_node s' = next_node s" "m_actions s' = m_actions s"
    "b_ref s' = b_ref s" "proc_at s' = proc_at s" "received s' = received s" "taken s' = taken s"
  using assms
  by (auto simp: looping_def Let_def split: loop_pc.splits action_ref.splits option.splits
      sum.splits prod.splits if_splits elim!: send_to_b_Inr dest!: read_b_Inr)

lemma looping_count:
  assumes "count_ok s" and "looping S V E s = Inr s'"
  shows "count_ok s'"
  using assms
  by (auto simp: looping_def count_ok_def Let_def split: loop_pc.splits action_ref.splits option.splits
      sum.splits prod.splits if_splits elim!: send_to_b_Inr dest!: read_b_Inr)

lemma looping_b:
  assumes "b_ok s" and "looping S V E s = Inr s'"
  shows "b_ok s'"
proof (cases "b_ref s")
  case Indeterminate
  then show ?thesis using assms by (auto simp: b_ok_def looping_def)
next
  case (Points_to a alive)
  then show ?thesis using assms(1) looping_frame [OF assms(2)] by (simp add: b_ok_def)
qed

lemma looping_ok:
  assumes "srv_ok s" and "looping S V E s = Inr s'"
  shows "srv_ok s'"
proof -
  have "maps_ok s'" "queue_ok s'"
    using assms(1) unfolding srv_ok_def maps_ok_def queue_ok_def looping_frame [OF assms(2)] by auto
  then show ?thesis
    using assms(1) looping_count [OF _ assms(2)] looping_b [OF _ assms(2)] by (simp add: srv_ok_def)
qed

lemma happen_ok:
  assumes "srv_ok s" and "enabled ev s" and "happen S V E ev s = Inr s'"
  shows "srv_ok s'"
proof (cases ev)
  case (Opens h cid)
  then show ?thesis using assms on_open_ok by auto
next
  case (Leaves h)
  then have "s' = s\<lparr>opened := opened s - {h}\<rparr>" using assms by simp
  then show ?thesis
    using assms(1) by (auto simp: srv_ok_def srv_ok_defs split: action_ref.splits)
next
  case (Closes h)
  then show ?thesis using assms on_close_ok by auto
next
  case (Arrives h m)
  then show ?thesis using assms on_message_ok by auto
next
  case Proc
  then show ?thesis using assms process_messages_ok by auto
next
  case Loop
  then show ?thesis using assms looping_ok by auto
qed

lemma reachable_ok:
  "reachable S V E (new_server c e) s \<Longrightarrow> srv_ok s"
  by (induction rule: reachable.induct) (auto intro: new_server_ok happen_ok)

subsection \<open>What a step sends\<close>

lemma process_messages_outbox:
  assumes "srv_ok s" and "process_messages s = Some r" and "r = Inr s'"
  shows "outbox s' = outbox s"
  using process_messages_frame [of s s'] assms by simp

lemma looping_outbox:
  assumes "looping S V E s = Inr s'" and "outbox s' \<noteq> outbox s"
  obtains a op x where "b_ref s = Points_to a True" "a_hdl a \<in> opened s"
    "op \<noteq> TEXT \<or> validate x" "outbox s' = outbox s @ [(a_hdl a, op, x)]"
proof (cases "loop_at s")
  case (L_send_image buf)
  then have "send_to_b buf BINARY L_top s = Inr s'" using assms(1) by (simp add: looping_def)
  then obtain a where "b_ref s = Points_to a True" "a_hdl a \<in> opened s"
    "s' = s\<lparr>outbox := outbox s @ [(a_hdl a, BINARY, buf)], loop_at := L_top\<rparr>"
    by (elim send_to_b_Inr)
  with L_send_image show thesis by (intro that [of a BINARY buf]) auto
next
  case (L_send_text str)
  then have "send_to_b str TEXT L_inc s = Inr s'" using assms(1) by (simp add: looping_def)
  then obtain a where "b_ref s = Points_to a True" "a_hdl a \<in> opened s" "validate str"
    "s' = s\<lparr>outbox := outbox s @ [(a_hdl a, TEXT, str)], loop_at := L_inc\<rparr>"
    by (elim send_to_b_Inr) simp
  with L_send_text show thesis by (intro that [of a TEXT str]) auto
qed (use assms in \<open>auto simp: looping_def split: action_ref.splits option.splits sum.splits
       prod.splits if_splits dest!: read_b_Inr\<close>)

lemma happen_outbox:
  assumes "srv_ok s" and "happen S V E ev s = Inr s'" and "outbox s' \<noteq> outbox s"
  shows "ev = Loop"
proof (cases ev)
  case (Opens h cid)
  then show ?thesis
    using assms by (auto simp: on_open_def map_assign_def Let_def)
next
  case Proc
  then show ?thesis
    using assms process_messages_frame(9) [of s s'] by (auto split: option.splits)
qed (use assms in \<open>auto simp: on_close_def on_message_def Let_def\<close>)

text \<open>Nothing to do: the flags hold the sender back and no message is on its way.\<close>

definition idle :: "'s server \<Rightarrow> bool" where
  "idle s \<longleftrightarrow> stop_streaming s \<and> \<not> get_data s \<and> proc_at s \<in> {P_wait, P_end} \<and> m_actions s = []
     \<and> (loop_at s \<in> {L_top, L_find, L_stop, L_else} \<or> (\<exists>h n. loop_at s = L_deref h n))"

fun quiet :: "event \<Rightarrow> bool" where
  "quiet (Arrives h m) \<longleftrightarrow> False"
| "quiet ev \<longleftrightarrow> True"

lemma looping_idle:
  assumes "idle s" and "looping S V E s = Inr s'"
  shows "idle s' \<and> outbox s' = outbox s"
proof (cases "loop_at s")
  case L_find
  then show ?thesis
    using assms by (cases "b_ref s") (auto simp: idle_def looping_def read_b_def split: option.splits if_splits)
qed (use assms in \<open>auto simp: idle_def looping_def split: action_ref.splits option.splits if_splits\<close>)

lemma happen_idle:
  assumes "idle s" and "quiet ev" and "enabled ev s" and "happen S V E ev s = Inr s'"
  shows "idle s' \<and> outbox s' = outbox s"
proof (cases ev)
  case Proc
  then show ?thesis using assms by (auto simp: process_messages_def idle_def)
next
  case Loop
  then show ?thesis using assms looping_idle [of s S V E s'] by simp
qed (use assms in \<open>auto simp: idle_def on_open_def map_assign_def on_close_def Let_def\<close>)

lemma run_idle:
  "idle s \<Longrightarrow> list_all quiet evs \<Longrightarrow> run S V E evs s = Some (Inr s') \<Longrightarrow> idle s' \<and> outbox s' = outbox s"
proof (induction evs arbitrary: s)
  case (Cons ev evs)
  then obtain s1 where s1: "enabled ev s" "happen S V E ev s = Inr s1" "run S V E evs s1 = Some (Inr s')"
    by (auto split: if_splits sum.splits)
  with happen_idle [of s ev S V E s1] Cons.prems have "idle s1 \<and> outbox s1 = outbox s" by simp
  with Cons.IH [of s1] Cons.prems s1 show ?case by simp
qed simp

subsection \<open>A round of the sending thread on its own\<close>

lemma run_append:
  "run S V E (xs @ ys) s =
     (case run S V E xs s of
        Some (Inr s') \<Rightarrow> run S V E ys s'
      | r \<Rightarrow> r)"
  by (induction xs arbitrary: s) (auto split: sum.splits)

text \<open>From the top to the test of the flags, given that the action \<open>b\<close> points to is alive and
  names a registered connection.\<close>

lemma loop_to_flags:
  assumes "loop_at s = L_top" and "b_ref s = Points_to a True" and "m_connections s (a_hdl a) \<noteq> None"
  shows "run S V E [Loop, Loop, Loop] s = Some (Inr (s\<lparr>loop_at := L_stop\<rparr>))"
  using assms by (auto simp: looping_def read_b_def)

lemma loop_serves:
  assumes "loop_at s = L_stop" and "stop_streaming s" "get_data s" "client2_data_count s = 0"
    and "b_ref s = Points_to a True" and "a_hdl a \<in> opened s"
    and "getString S (cam1 s) (world s) = Inr (Some str, e)" and "validate str"
  shows "run S V E (replicate 6 Loop) s =
     Some (Inr (s\<lparr>world := e, outbox := outbox s @ [(a_hdl a, TEXT, str)],
                  client2_data_count := 1, loop_at := L_top\<rparr>))"
  using assms
  by (simp add: eval_nat_numeral looping_def send_to_b_def read_b_def server_send_def
      max_client2_data_count_def)

lemma loop_clears:
  assumes "loop_at s = L_stop" and "stop_streaming s" "get_data s" "client2_data_count s = 1"
  shows "run S V E (replicate 6 Loop) s =
     Some (Inr (s\<lparr>stop_streaming := False, get_data := False, client2_data_count := 0,
                  loop_at := L_top\<rparr>))"
  using assms by (simp add: eval_nat_numeral looping_def max_client2_data_count_def)

lemma loop_streams:
  assumes "loop_at s = L_stop" and "\<not> stop_streaming s" "\<not> get_data s"
    and "getImage S V (cam1 s) (world s) = Inr (img, c, e)" and "E img = Some buf"
  shows "run S V E [Loop, Loop, Loop] s =
     Some (Inr (s\<lparr>cam1 := c, world := e, loop_at := L_send_image buf\<rparr>))"
  using assms by (simp add: looping_def)

subsection \<open>The sender after the action has died\<close>

text \<open>How many steps the sender can take at most before it reads through \<open>b\<close>.\<close>

fun to_read :: "loop_pc \<Rightarrow> nat" where
  "to_read L_find = 0"
| "to_read L_top = 1"
| "to_read L_clear_count = 2"
| "to_read L_clear_data = 3"
| "to_read L_clear_stop = 4"
| "to_read L_inc = 2"
| "to_read (L_send_text _) = 0"
| "to_read L_string = 1"
| "to_read L_count = 5"
| "to_read L_else = 6"
| "to_read (L_send_image _) = 0"
| "to_read L_image = 1"
| "to_read L_data = 7"
| "to_read L_stop = 8"
| "to_read (L_deref _ _) = 9"

lemma to_read_le: "to_read pc \<le> 9"
  by (cases pc) simp_all

lemma looping_on_dead:
  assumes "b_ref s = Points_to a False" and "looping S V E s = Inr s'"
  shows "to_read (loop_at s') < to_read (loop_at s)"
  using assms
  by (auto simp: looping_def send_to_b_def read_b_def split: loop_pc.splits option.splits
      sum.splits prod.splits if_splits)

lemma happen_on_dead:
  assumes "b_ref s = Points_to a False" and "ev \<noteq> Proc" and "happen S V E ev s = Inr s'"
  shows "b_ref s' = Points_to a False
    \<and> to_read (loop_at s') + (if ev = Loop then 1 else 0) \<le> to_read (loop_at s)"
proof (cases ev)
  case Loop
  then show ?thesis
    using assms looping_on_dead [of s a S V E s'] looping_frame(7) [of S V E s s'] by simp
qed (use assms in \<open>auto simp: on_open_def map_assign_def on_close_def on_message_def Let_def\<close>)

lemma run_on_dead:
  "b_ref s = Points_to a False \<Longrightarrow> Proc \<notin> set evs \<Longrightarrow> run S V E evs s = Some (Inr s') \<Longrightarrow>
     to_read (loop_at s') + count_list evs Loop \<le> to_read (loop_at s)"
proof (induction evs arbitrary: s)
  case (Cons ev evs)
  then obtain s1 where s1: "happen S V E ev s = Inr s1" "run S V E evs s1 = Some (Inr s')"
    by (auto split: if_splits sum.splits)
  with happen_on_dead [of s a ev S V E s1] Cons.IH [of s1] Cons.prems show ?case
    by (auto split: if_splits)
qed simp

subsection \<open>A demonstration server\<close>

text \<open>
  The camera and SDK of \<open>Camera\<close>, an encoder that never throws, and the runs of the examples:
  one connection that opens and asks for data, the handling of its message not yet finished.
\<close>

definition demo_encode :: "bytes \<times> (int \<times> int) list list \<Rightarrow> bytes option" where
  "demo_encode img = Some (fst img)"

definition demo_server :: "unit server" where "demo_server = new_server demo_camera demo_env"

definition command :: "string \<Rightarrow> message" where
  "command str = set_payload (ascii str) (new_message TEXT 0)"

definition ask_for_data :: "event list" where
  "ask_for_data = [Opens 1 [0x41], Arrives 1 (command ''get_data''), Proc, Proc, Proc]"

text \<open>
  Nine steps serve the request, seven more clear the first flag; then the first message is done
  with, the second request is taken and sets both flags, and the sender goes on clearing.
\<close>

definition lost_request :: "event list" where
  "lost_request = ask_for_data @ replicate 16 Loop
     @ [Arrives 1 (command ''get_data''), Proc, Proc, Proc, Proc, Loop, Loop]"

subsection \<open>Properties\<close>

text \<open>C10: In every reachable state each connection ever opened is registered, closed ones included
  (\<open>on_close\<close> erases its key and puts it back when it logs); the counter of strings never passes
  its maximum; messages are taken in the order received; the message thread never fails.\<close>
theorem server_invariant:
  assumes "reachable S V E (new_server c e) s"
  shows "dom (m_connections s) = seen s \<and> opened s \<union> closed s \<subseteq> dom (m_connections s)
    \<and> client2_data_count s \<le> max_client2_data_count
    \<and> received s = taken s @ m_actions s \<and> process_messages s \<noteq> Some (Inl cr)"
proof -
  have ok: "srv_ok s" using assms by (rule reachable_ok)
  have "maps_ok s" "count_ok s" "queue_ok s" using ok by (simp_all add: srv_ok_def)
  then show ?thesis
    using process_messages_no_crash [OF ok] by (auto simp: maps_ok_def count_ok_def queue_ok_def)
qed

text \<open>Whatever the server sends goes to one connection only, the one whose message was taken
  last, which is open, and a text is well-formed UTF-8; and nothing is ever sent while the message
  thread waits for the next message.\<close>
theorem sends_to_last_sender:
  assumes "reachable S V E (new_server c e) s" and "happen S V E ev s = Inr s'"
    and "outbox s' \<noteq> outbox s"
  shows "ev = Loop \<and> taken s \<noteq> [] \<and> a_hdl (last (taken s)) \<in> opened s
    \<and> (\<exists>op x. outbox s' = outbox s @ [(a_hdl (last (taken s)), op, x)]
         \<and> (op = TEXT \<longrightarrow> utf8_well_formed x))
    \<and> proc_at s \<noteq> P_wait"
proof -
  have ok: "srv_ok s" using assms(1) by (rule reachable_ok)
  have ev: "ev = Loop" by (rule happen_outbox [OF ok assms(2,3)])
  then have l: "looping S V E s = Inr s'" using assms(2) by simp
  obtain a op x where "b_ref s = Points_to a True" "a_hdl a \<in> opened s"
    "op \<noteq> TEXT \<or> validate x" "outbox s' = outbox s @ [(a_hdl a, op, x)]"
    by (rule looping_outbox [OF l assms(3)])
  moreover have "b_ok s" using ok by (simp add: srv_ok_def)
  ultimately show ?thesis
    using ev by (auto simp: b_ok_def validate_accepts accepts_iff_well_formed)
qed

text \<open>A request for data that nobody disturbs is served while the handling of its message is
  unfinished: one round of the sender sends the string of the camera to the requester, the next
  one clears the request, and streaming is on again.\<close>
theorem get_data_served:
  assumes "loop_at s = L_top" and "stop_streaming s" "get_data s" "client2_data_count s = 0"
    and "b_ref s = Points_to a True" and "a_hdl a \<in> opened s" "m_connections s (a_hdl a) \<noteq> None"
    and "getString S (cam1 s) (world s) = Inr (Some str, e')" and "validate str"
  shows "\<exists>s'. run S V E (replicate 18 Loop) s = Some (Inr s')
    \<and> outbox s' = outbox s @ [(a_hdl a, TEXT, str)]
    \<and> \<not> stop_streaming s' \<and> \<not> get_data s' \<and> client2_data_count s' = 0 \<and> loop_at s' = L_top"
proof -
  let ?s1 = "s\<lparr>loop_at := L_stop\<rparr>"
  let ?s2 = "?s1\<lparr>world := e', outbox := outbox ?s1 @ [(a_hdl a, TEXT, str)],
      client2_data_count := 1, loop_at := L_top\<rparr>"
  let ?s3 = "?s2\<lparr>loop_at := L_stop\<rparr>"
  have r: "replicate 18 Loop = [Loop, Loop, Loop] @ replicate 6 Loop @ [Loop, Loop, Loop] @ replicate 6 Loop"
    by (simp add: eval_nat_numeral)
  have "run S V E [Loop, Loop, Loop] s = Some (Inr ?s1)"
    by (rule loop_to_flags [OF assms(1,5,7)])
  moreover have "run S V E (replicate 6 Loop) ?s1 = Some (Inr ?s2)"
    by (rule loop_serves) (use assms in simp_all)
  moreover have "run S V E [Loop, Loop, Loop] ?s2 = Some (Inr ?s3)"
    by (rule loop_to_flags) (use assms in simp_all)
  moreover have "run S V E (replicate 6 Loop) ?s3 =
      Some (Inr (?s3\<lparr>stop_streaming := False, get_data := False, client2_data_count := 0, loop_at := L_top\<rparr>))"
    by (rule loop_clears) (use assms in simp_all)
  ultimately show ?thesis unfolding r run_append by simp
qed

text \<open>C11: The sender reads the action of the last message through a pointer that outlives it. Once a
  message has been handled and the message thread waits for the next one, the sender at the top
  of its round reads a dead object in its second step; and wherever it stands and whatever else
  happens, short of the message thread taking a step, it cannot take more than nine steps without
  a crash.\<close>
theorem sender_outlives_action:
  assumes "reachable S V E (new_server c e) s" and "taken s \<noteq> []" and "proc_at s = P_wait"
  shows "(loop_at s = L_top \<longrightarrow> run S V E [Loop, Loop] s = Some (Inl Dangling_read))
    \<and> (Proc \<notin> set evs \<and> run S V E evs s = Some (Inr s') \<longrightarrow> count_list evs Loop \<le> 9)"
proof -
  obtain a where b: "b_ref s = Points_to a False"
    using reachable_ok [OF assms(1)] assms(2,3)
    by (auto simp: srv_ok_def b_ok_def split: action_ref.splits)
  have "count_list evs Loop \<le> to_read (loop_at s)"
    if "Proc \<notin> set evs" "run S V E evs s = Some (Inr s')"
    using run_on_dead [OF b that] by simp
  then show ?thesis
    using b to_read_le [of "loop_at s"] by (auto simp: looping_def read_b_def)
qed

text \<open>While the flags hold the sender back and no message arrives nothing is ever sent again,
  whatever connections open or close.\<close>
theorem stopped_is_silent:
  assumes "idle s" and "list_all quiet evs" and "run S V E evs s = Some (Inr s')"
  shows "outbox s' = outbox s \<and> stop_streaming s' \<and> \<not> get_data s'"
  using run_idle [OF assms] by (simp add: idle_def)

text \<open>C12: Streaming to a connection that has closed ends the program: the connection is still
  registered, so the round goes on to send and the exception leaves the thread, unless the action
  of the last message is already dead and the look-up reads it.\<close>
theorem stream_to_closed_crashes:
  assumes "reachable S V E (new_server c e) s" and "loop_at s = L_top" and "taken s \<noteq> []"
    and "a_hdl (last (taken s)) \<notin> opened s" and "\<not> stop_streaming s" "\<not> get_data s"
    and "getImage S V (cam1 s) (world s) = Inr (img, c', e')" and "E img = Some buf"
  shows "run S V E (replicate 7 Loop) s =
    Some (Inl (if proc_at s = P_wait then Dangling_read else Send_exception))"
proof (cases "proc_at s = P_wait")
  case True
  obtain a where "b_ref s = Points_to a False"
    using reachable_ok [OF assms(1)] assms(3) True
    by (auto simp: srv_ok_def b_ok_def split: action_ref.splits)
  then show ?thesis using assms(2) True by (simp add: eval_nat_numeral looping_def read_b_def)
next
  case False
  have ok: "srv_ok s" using assms(1) by (rule reachable_ok)
  have t: "taken s \<noteq> []" and m: "last (taken s) \<in> set (received s)"
    using ok assms(3) last_in_set [of "taken s"] by (auto simp: srv_ok_def queue_ok_def)
  have b: "b_ref s = Points_to (last (taken s)) True"
    using ok t False by (auto simp: srv_ok_def b_ok_def split: action_ref.splits)
  let ?a = "last (taken s)"
  let ?s1 = "s\<lparr>loop_at := L_stop\<rparr>"
  let ?s2 = "?s1\<lparr>cam1 := c', world := e', loop_at := L_send_image buf\<rparr>"
  have "a_hdl ?a \<in> seen s" using ok m by (simp add: srv_ok_def queue_ok_def)
  then have "a_hdl ?a \<in> dom (m_connections s)" using ok by (simp add: srv_ok_def maps_ok_def)
  then have reg: "m_connections s (a_hdl ?a) \<noteq> None" by blast
  have "replicate 7 Loop = [Loop, Loop, Loop] @ [Loop, Loop, Loop] @ [Loop]"
    by (simp add: eval_nat_numeral)
  moreover have "run S V E [Loop, Loop, Loop] s = Some (Inr ?s1)"
    by (rule loop_to_flags [OF assms(2) b reg])
  moreover have "run S V E [Loop, Loop, Loop] ?s1 = Some (Inr ?s2)"
    by (rule loop_streams) (use assms in simp_all)
  moreover have "run S V E [Loop] ?s2 = Some (Inl Send_exception)"
    using b assms(4) by (simp add: looping_def send_to_b_def read_b_def server_send_def)
  ultimately show ?thesis using False by (simp only: run_append option.case sum.case if_False)
qed

text \<open>A close that is reported between the look-up and the use of the iterator leaves the sender
  with an iterator to a node that was freed.\<close>
theorem close_invalidates_iterator:
  assumes "reachable S V E (new_server c e) s" and "loop_at s = L_deref h node"
    and "m_connections s h = Some (node, v)" and "h \<notin> opened s" "h \<notin> closed s"
  shows "run S V E [Closes h, Loop] s = Some (Inl Bad_iterator)"
proof -
  have ok: "maps_ok s" using reachable_ok [OF assms(1)] by (simp add: srv_ok_def)
  then have "h \<in> seen s" "node < next_node s" using assms(3) unfolding maps_ok_def by blast+
  then show ?thesis
    using assms by (simp add: on_close_def map_index_def looping_def)
qed

text \<open>A second request that arrives while the sender clears the first one is lost: its flag is
  cleared and streaming stays stopped although one string only was sent. The run is closed and
  starts from a fresh server.\<close>
theorem get_data_lost:
  "\<exists>s. run demo_sdk demo_vision demo_encode lost_request demo_server = Some (Inr s)
     \<and> map (\<lambda>a. m_payload (the (a_msg a))) (taken s) = [ascii ''get_data'', ascii ''get_data'']
     \<and> length (outbox s) = 1 \<and> idle s \<and> loop_at s = L_top"
proof -
  have "case run demo_sdk demo_vision demo_encode lost_request demo_server of
      Some (Inr s) \<Rightarrow>
        map (\<lambda>a. m_payload (the (a_msg a))) (taken s) = [ascii ''get_data'', ascii ''get_data'']
        \<and> length (outbox s) = 1 \<and> loop_at s = L_top \<and> stop_streaming s \<and> \<not> get_data s
        \<and> (case proc_at s of P_end \<Rightarrow> True | _ \<Rightarrow> False) \<and> m_actions s = []
    | _ \<Rightarrow> False" by code_simp
  then show ?thesis
    unfolding idle_def by (auto split: option.splits sum.splits proc_pc.splits)
qed

subsection \<open>Witnesses\<close>

text \<open>The state after a run that is known to succeed.\<close>

definition after :: "event list \<Rightarrow> unit server" where
  "after evs = projr (the (run demo_sdk demo_vision demo_encode evs demo_server))"

definition runs :: "event list \<Rightarrow> bool" where
  "runs evs = (case run demo_sdk demo_vision demo_encode evs demo_server of
                 Some (Inr s) \<Rightarrow> True | _ \<Rightarrow> False)"

lemma after_reachable:
  assumes "runs evs"
  shows "reachable demo_sdk demo_vision demo_encode (new_server demo_camera demo_env) (after evs)"
    and "run demo_sdk demo_vision demo_encode evs demo_server = Some (Inr (after evs))"
proof -
  show r: "run demo_sdk demo_vision demo_encode evs demo_server = Some (Inr (after evs))"
    using assms by (auto simp: runs_def after_def split: option.splits sum.splits)
  then show "reachable demo_sdk demo_vision demo_encode (new_server demo_camera demo_env) (after evs)"
    unfolding demo_server_def by (intro run_reachable [OF reachable.start])
qed

lemma after_append:
  assumes "runs xs" and "runs (xs @ ys)"
  shows "run demo_sdk demo_vision demo_encode ys (after xs) = Some (Inr (after (xs @ ys)))"
  using after_reachable(2) [OF assms(1)] after_reachable(2) [OF assms(2)]
  by (simp add: run_append)

lemma after_snoc:
  assumes "runs xs" and "runs (xs @ [ev])"
  shows "happen demo_sdk demo_vision demo_encode ev (after xs) = Inr (after (xs @ [ev]))"
  using after_append [OF assms] by (auto split: if_splits sum.splits)

definition start_stream :: "event list" where
  "start_stream = [Opens 1 [0x41], Arrives 1 (command ''start_stream''), Proc, Proc]"

theorem server_invariant_witness:
  "received (after lost_request) = taken (after lost_request) @ m_actions (after lost_request)"
proof -
  have r: "runs lost_request" by code_simp
  from server_invariant [OF after_reachable(1) [OF r]] show ?thesis by blast
qed

theorem sends_to_last_sender_witness:
  "a_hdl (last (taken (after (ask_for_data @ replicate 7 Loop)))) \<in> opened (after (ask_for_data @ replicate 7 Loop))"
proof -
  let ?xs = "ask_for_data @ replicate 7 Loop"
  have r: "runs ?xs" "runs (?xs @ [Loop])" by code_simp+
  have "length (outbox (after (?xs @ [Loop]))) \<noteq> length (outbox (after ?xs))" by code_simp
  then have o: "outbox (after (?xs @ [Loop])) \<noteq> outbox (after ?xs)" by metis
  from sends_to_last_sender [OF after_reachable(1) [OF r(1)] after_snoc [OF r] o] show ?thesis by simp
qed

theorem sender_outlives_action_witness:
  "run demo_sdk demo_vision demo_encode [Loop, Loop] (after (start_stream @ [Proc]))
     = Some (Inl Dangling_read)"
proof -
  have r: "runs (start_stream @ [Proc])" by code_simp
  have "taken (after (start_stream @ [Proc])) \<noteq> []" "proc_at (after (start_stream @ [Proc])) = P_wait"
    "loop_at (after (start_stream @ [Proc])) = L_top" by code_simp+
  then show ?thesis using sender_outlives_action [OF after_reachable(1) [OF r]] by simp
qed

theorem get_data_served_witness:
  "\<exists>s'. run demo_sdk demo_vision demo_encode (replicate 18 Loop) (after ask_for_data) = Some (Inr s')
     \<and> outbox s' = [(1, TEXT, [0x30, 0x3A, 0x41, 0x42, 0x3A, 0x37, 0x3B])] \<and> \<not> stop_streaming s'"
proof -
  let ?s = "after ask_for_data" and ?str = "[0x30, 0x3A, 0x41, 0x42, 0x3A, 0x37, 0x3B] :: bytes"
  let ?a = "\<lparr>a_type = MESSAGE, a_hdl = 1, a_msg = Some (command ''get_data'')\<rparr>"
  let ?g = "getString demo_sdk (cam1 ?s) (world ?s)"
  have s: "loop_at ?s = L_top" "stop_streaming ?s" "get_data ?s" "client2_data_count ?s = 0"
    "b_ref ?s = Points_to ?a True" "a_hdl ?a \<in> opened ?s" "m_connections ?s (a_hdl ?a) \<noteq> None"
    "?g = Inr (Some ?str, snd (projr ?g))" "validate ?str" by code_simp+
  have "outbox ?s = []" by code_simp
  with get_data_served [OF s, where V = demo_vision and E = demo_encode] show ?thesis by auto
qed

theorem stopped_is_silent_witness:
  "outbox (after (lost_request @ [Opens 2 [], Loop, Loop, Leaves 2, Closes 2, Loop]))
     = outbox (after lost_request)"
proof -
  let ?ys = "[Opens 2 [], Loop, Loop, Leaves 2, Closes 2, Loop]"
  have "stop_streaming (after lost_request)" "\<not> get_data (after lost_request)"
    "proc_at (after lost_request) = P_end" "m_actions (after lost_request) = []"
    "loop_at (after lost_request) = L_top" by code_simp+
  then have i: "idle (after lost_request)" by (simp add: idle_def)
  have r: "runs lost_request" "runs (lost_request @ ?ys)" by code_simp+
  from stopped_is_silent [OF i _ after_append [OF r]] show ?thesis by simp
qed

theorem stream_to_closed_crashes_witness:
  "run demo_sdk demo_vision demo_encode (replicate 7 Loop) (after (start_stream @ [Leaves 1, Closes 1]))
     = Some (Inl Send_exception)"
proof -
  let ?xs = "start_stream @ [Leaves 1, Closes 1]"
  let ?g = "getImage demo_sdk demo_vision (cam1 (after ?xs)) (world (after ?xs))"
  have r: "runs ?xs" by code_simp
  have s: "loop_at (after ?xs) = L_top" "taken (after ?xs) \<noteq> []"
    "a_hdl (last (taken (after ?xs))) \<notin> opened (after ?xs)"
    "\<not> stop_streaming (after ?xs)" "\<not> get_data (after ?xs)"
    "?g = Inr (fst (projr ?g), fst (snd (projr ?g)), snd (snd (projr ?g)))" by code_simp+
  have "proc_at (after ?xs) \<noteq> P_wait" by code_simp
  with stream_to_closed_crashes [OF after_reachable(1) [OF r] s, OF demo_encode_def]
  show ?thesis by simp
qed

theorem close_invalidates_iterator_witness:
  "run demo_sdk demo_vision demo_encode [Closes 1, Loop] (after (start_stream @ [Loop, Loop, Leaves 1]))
     = Some (Inl Bad_iterator)"
proof -
  let ?xs = "start_stream @ [Loop, Loop, Leaves 1]"
  have r: "runs ?xs" by code_simp
  have s: "loop_at (after ?xs) = L_deref 1 0" "m_connections (after ?xs) 1 = Some (0, [0x41])"
    "1 \<notin> opened (after ?xs)" "1 \<notin> closed (after ?xs)" by code_simp+
  from close_invalidates_iterator [OF after_reachable(1) [OF r] s] show ?thesis .
qed

end
