(* ===== verification/ServerConnection.thy ===== *)
theory ServerConnection
  imports ConnectionRuns Broadcast
begin

text \<open>
  The connections of the program: the callbacks \<open>broadcast_server\<close> registers, the configuration it
  uses, and the properties of its connections over all runs.
\<close>

text \<open>The handlers \<open>bind\<close> makes for the connection \<open>h\<close>, whose client sent the identifier \<open>cid\<close>.\<close>

definition broadcast_handlers :: "hdl \<Rightarrow> bytes \<Rightarrow> (unit, 's server) handlers" where
  "broadcast_handlers h cid =
     \<lparr>m_message_handler = Some (\<lambda>msg c. c\<lparr>app := on_message h (Some msg) (app c)\<rparr>),
      m_ping_handler = None, m_pong_handler = None, m_pong_timeout_handler = None,
      m_open_handler = Some (\<lambda>c. c\<lparr>app := on_open h cid (app c)\<rparr>),
      m_close_handler = Some (\<lambda>c. c\<lparr>app := on_close h (app c)\<rparr>),
      m_fail_handler = None\<rparr>"

interpretation srv: plain_application core_config "broadcast_handlers h cid" for h cid
  by unfold_locales (auto simp: broadcast_handlers_def intro: api_app [OF api_none])

definition core_max_message_size :: u64 where "core_max_message_size = 32000000"
definition core_timeout :: int where "core_timeout = 5000"

text \<open>A connection of the server whose handshake has just ended, with the bytes read after it.\<close>

definition server_connection ::
  "hdl \<Rightarrow> bytes \<Rightarrow> (nat \<Rightarrow> u32) \<Rightarrow> bytes \<Rightarrow> 's server \<Rightarrow> (unit, 's server) connection option" where
  "server_connection h cid rng rest a =
     open_connection disabled_extension core_config (broadcast_handlers h cid) rest
       (new_connection True (new_hybi13 True core_max_message_size ()) rng core_timeout core_timeout
          core_timeout a)"

text \<open>What its states are: reachable by any events after the handshake.\<close>

definition server_state ::
  "hdl \<Rightarrow> bytes \<Rightarrow> (nat \<Rightarrow> u32) \<Rightarrow> bytes \<Rightarrow> 's server \<Rightarrow> (unit, 's server) connection \<Rightarrow> bool" where
  "server_state h cid rng rest a c \<longleftrightarrow>
     (\<exists>c0. server_connection h cid rng rest a = Some c0
        \<and> conn_reachable disabled_extension core_config (broadcast_handlers h cid) c0 c)"

lemma waiting_new: "waiting (new_hybi13 srv limit ())"
  using boundary_new [of srv limit "()"] by (simp add: waiting_def boundary_def ready_def)

lemma server_connection_running:
  "\<exists>c. server_connection h cid rng rest a = Some c \<and> running c \<and> m_hybi00 c = None"
  unfolding server_connection_def by (rule srv.opened_running [OF waiting_new])

lemma server_state_running:
  assumes "server_state h cid rng rest a c"
  shows "running c" "m_hybi00 c = None"
proof -
  obtain c0 where c0: "server_connection h cid rng rest a = Some c0"
    "conn_reachable disabled_extension core_config (broadcast_handlers h cid) c0 c"
    using assms by (auto simp: server_state_def)
  have "running c0" "m_hybi00 c0 = None" using server_connection_running [of h cid rng rest a] c0(1) by simp_all
  from srv.reachable_running [OF this(1) c0(2)] this(2) show "running c" "m_hybi00 c = None"
    by (simp_all add: same_version_def)
qed

subsection \<open>The answer to a close frame\<close>

text \<open>
  A server that has a code and a reason to echo pushes a terminal close frame with them: its payload
  is the two bytes of the code in network order and the reason, and header and payload together are
  the bytes of that frame, unmasked.
\<close>

definition acked :: "close_code \<Rightarrow> bytes \<Rightarrow> ('d, 'a) connection \<Rightarrow> ('d, 'a) connection \<Rightarrow> bool" where
  "acked code reason c c' \<longleftrightarrow>
     c_state c' = Closing \<and> m_was_clean c'
     \<and> m_remote_close_code c' = code \<and> m_remote_close_reason c' = reason
     \<and> m_local_close_code c' = code \<and> m_local_close_reason c' = reason
     \<and> (\<exists>m. pushed c' = pushed c @ [m] \<and> m_opcode m = CLOSE \<and> m_terminal m
          \<and> m_payload m = uint16_c (htons code) @ reason
          \<and> m_header m @ m_payload m = frame_wire False CLOSE 0 (m_payload m))"

lemma pushed_push [simp]:
  "pushed (push_and_dispatch (Some m) c) = pushed c @ [m]"
  "c_state (push_and_dispatch msg c) = c_state c" "m_was_clean (push_and_dispatch msg c) = m_was_clean c"
  "m_remote_close_code (push_and_dispatch msg c) = m_remote_close_code c"
  "m_remote_close_reason (push_and_dispatch msg c) = m_remote_close_reason c"
  "m_local_close_code (push_and_dispatch msg c) = m_local_close_code c"
  "m_local_close_reason (push_and_dispatch msg c) = m_local_close_reason c"
  by (simp_all add: push_and_dispatch_def write_push_def dispatch_write_frame_def Let_def
      split: option.splits)

lemma server_close_payload:
  assumes "sendable code" and "p_server s"
    and "prepare_close s rng code reason (get_message CONTINUATION) = (Some out, None)"
  shows "m_payload out = uint16_c (htons code) @ reason"
proof -
  have "code \<noteq> no_status" using assms(1) by (auto simp: sendable_iff status_invalid_def)
  then show ?thesis
    using assms(2,3)
    by (auto simp: prepare_close_def prepare_control_def get_message_def Let_def set_prepared_def
        set_opcode_def split: if_splits)
qed

text \<open>Reading does not change the side a processor is on.\<close>

lemma process_payload_server:
  "process_payload_bytes E s buf = Some (s', n, ec) \<Longrightarrow> p_server s' = p_server s"
  by (auto simp: process_payload_bytes_def Let_def split: option.splits prod.splits if_splits)

lemma finalize_message_server:
  "finalize_message E s = Some (s', ec) \<Longrightarrow> p_server s' = p_server s"
  by (auto simp: finalize_message_def Let_def split: option.splits prod.splits if_splits)

definition same_side :: "'d hybi13 \<Rightarrow> 'd turn \<Rightarrow> bool" where
  "same_side s r =
     (case r of
        Next s' n \<Rightarrow> p_server s' = p_server s
      | Break s' n ec \<Rightarrow> p_server s' = p_server s
      | Undefined \<Rightarrow> True)"

lemma consume_iter_server: "same_side s (consume_iter E s buf)"
proof (cases "m_state s")
  case HEADER_BASIC
  then show ?thesis
    by (simp add: consume_iter_def copy_basic_header_bytes_def same_side_def split: option.split)
next
  case HEADER_EXTENDED
  then show ?thesis
    by (simp add: consume_iter_def copy_extended_header_bytes_def start_message_def same_side_def Let_def
        split: option.split)
next
  case APPLICATION
  define k where "k = min (unat (m_bytes_needed s)) (length buf)"
  define r where "r = (if 0 < k then process_payload_bytes E s (take k buf) else Some (s, 0, None))"
  have c: "consume_iter E s buf =
      (case r of
         None \<Rightarrow> Undefined
       | Some (s, n, Some ec) \<Rightarrow> Break s n (Some ec)
       | Some (s, n, None) \<Rightarrow>
           if m_bytes_needed s > 0 then Next s n
           else if get_fin (m_basic_header s) then
             (case finalize_message E s of
                None \<Rightarrow> Undefined
              | Some (s, Some ec) \<Rightarrow> Break s n (Some ec)
              | Some (s, None) \<Rightarrow> Next s n)
           else Next (reset_headers s) n)"
    unfolding consume_iter_def r_def k_def APPLICATION Let_def by simp
  show ?thesis
  proof (cases r)
    case None
    then show ?thesis by (simp add: c same_side_def)
  next
    case (Some r1)
    obtain s1 n e where r1: "r = Some (s1, n, e)" using Some by (cases r1) simp
    have s1: "p_server s1 = p_server s"
      using r1 process_payload_server [of E s "take k buf" s1 n e] by (simp add: r_def split: if_splits)
    show ?thesis
    proof (cases "finalize_message E s1")
      case None
      then show ?thesis by (simp add: c r1 same_side_def s1 reset_headers_def split: option.split)
    next
      case (Some r2)
      obtain s2 e2 where r2: "finalize_message E s1 = Some (s2, e2)" using Some by (cases r2) simp
      then show ?thesis
        using finalize_message_server [OF r2] s1
        by (simp add: c r1 same_side_def reset_headers_def split: option.split)
    qed
  qed
qed (simp_all add: consume_iter_def same_side_def)

lemma consume_server:
  assumes "consume E s buf = Some (s', n, ec)"
  shows "p_server s' = p_server s"
proof -
  have "consume_loop E s buf p = Some (s', n, ec) \<Longrightarrow> p_server s' = p_server s" for p
  proof (induction E s buf p rule: consume_loop.induct)
    case (1 E s buf p)
    note l = consume_loop.simps [of E s buf p] and side = consume_iter_server [of s E buf]
    show ?case
    proof (cases "consume_guard s buf")
      case True
      show ?thesis
      proof (cases "consume_iter E s buf")
        case (Next s1 k)
        then have "p_server s' = p_server s1" using 1(1) [OF True Next] 1(2) True l by simp
        then show ?thesis using side Next by (simp add: same_side_def)
      qed (use 1(2) True l side in \<open>simp_all add: same_side_def\<close>)
    qed (use 1(2) l in simp)
  qed
  then show ?thesis using assms by (simp add: consume_def)
qed

lemma get_ready_message_server:
  "get_ready_message s = Some (s', m) \<Longrightarrow> p_server s' = p_server s"
  by (auto simp: get_ready_message_def reset_headers_def Let_def split: if_splits option.splits)

lemma send_close_ack_echo:
  assumes "\<not> silent_close cfg" and "m_remote_close_code c = code" "m_remote_close_reason c = reason"
    and "sendable code" and "length reason \<le> 123" and "m_is_server c" and "p_server (m_processor c)"
    and "m_hybi00 c = None"
  shows "acked code reason c (fst (send_close_ack cfg blank [] c))"
proof -
  have "code \<noteq> no_status" using assms(4) by (auto simp: sendable_iff status_invalid_def)
  then have k: "choose_close cfg blank [] True c = (code, reason)"
    using assms(1-3) by (simp add: choose_close_def)
  obtain out' where o: "prepare_close (m_processor c) 0 code reason (get_message CONTINUATION) = (Some out', None)"
    "m_opcode out' = CLOSE"
    "m_header out' @ m_payload out' = frame_wire False CLOSE 0 (uint16_c (htons code) @ reason)"
    using prepare_close_sendable [OF assms(4,5), of "m_processor c" 0 "empty_message CONTINUATION"] assms(7)
    by (metis get_message_def)
  have p: "m_payload out' = uint16_c (htons code) @ reason"
    using server_close_payload [OF assms(4,7) o(1)] .
  show ?thesis
    using k o p assms(2,3,6,8)
    by (simp add: acked_def send_close_ack_def send_close_frame_def draw_key_def Let_def
        set_terminal_def set_timer_def)
qed

lemma read_close_frame:
  assumes "\<not> silent_close cfg" and "c_state c = Open" and "m_internal_state c = PROCESS_CONNECTION"
    and "m_is_server c" and "boundary (m_processor c)" and "p_server (m_processor c)"
    and "sendable code" and "length reason \<le> 123" and "utf8_well_formed reason" and "m_hybi00 c = None"
  shows "\<exists>c'. handle_read_frame disabled_extension cfg H None
       (frame_wire (p_server (m_processor c)) CLOSE key (uint16_c (htons code) @ reason)) c = Some c'
     \<and> acked code reason c c'"
proof -
  let ?w = "frame_wire (p_server (m_processor c)) CLOSE key (uint16_c (htons code) @ reason)"
  obtain s1 s2 m where d: "consume disabled_extension (m_processor c) ?w = Some (s1, length ?w, None)"
    "ready s1" "get_ready_message s1 = Some (s2, Some m)" "m_opcode m = CLOSE"
    "extract_code (m_payload m) = (code, None)" "extract_reason (m_payload m) = (reason, None)"
    by (rule close_frame_delivered [OF assms(7,8,5), of key]) (use assms(9) in auto)
  have "p_server s2"
    using consume_server [OF d(1)] get_ready_message_server [OF d(3)] assms(6) by simp
  have ne: "?w \<noteq> []" by (simp add: frame_wire_def Let_def)
  let ?c2 = "c\<lparr>m_processor := s2, m_remote_close_code := code, m_remote_close_reason := reason\<rparr>"
  let ?c3 = "fst (send_close_ack cfg blank [] ?c2)"
  have "process_control_frame cfg H m (c\<lparr>m_processor := s2\<rparr>) = ?c3"
    using d(4-6) assms(2,10) by (simp add: process_control_frame_def process_close_frame_def Let_def)
  then have "deliver_ready cfg H (c\<lparr>m_processor := s1\<rparr>) = Some ?c3"
    using d(2-4) assms(10) by (simp add: deliver_ready_def is_control_def)
  moreover have "read_loop disabled_extension cfg H [] ?c3 = Some (?c3, True)"
    by (subst read_loop.simps) simp
  ultimately have "read_loop disabled_extension cfg H ?w c = Some (?c3, True)"
    using ne d(1) assms(10) by (subst read_loop.simps) simp
  then have h: "handle_read_frame disabled_extension cfg H None ?w c = Some (read_frame ?c3)"
    using assms(3) by (simp add: handle_read_frame_def)
  have "acked code reason ?c2 ?c3"
    using assms \<open>p_server s2\<close> by (intro send_close_ack_echo) simp_all
  then have "acked code reason c (read_frame ?c3)"
    by (simp add: acked_def read_frame_def async_read_def)
  with h show ?thesis by blast
qed

subsection \<open>A demonstration connection\<close>

text \<open>A fresh connection of the demonstration server, and the runs of the examples.\<close>

definition demo_conn :: "(unit, unit server) connection" where
  "demo_conn = the (server_connection 1 [0x41] (\<lambda>_. 0) [] demo_server)"

definition demo_run :: "conn_event list \<Rightarrow> (unit, unit server) connection option" where
  "demo_run evs = conn_run disabled_extension core_config (broadcast_handlers 1 [0x41]) evs demo_conn"

text \<open>\<open>send\<close> tests the state, \<open>close\<close> runs on another thread, \<open>send\<close> goes on.\<close>

definition send_races_close :: "conn_event list" where
  "send_races_close = [Send_begins (command ''data''), Closes_with normal_close [],
     Send_ends (command ''data''), Dispatched, Dispatched]"

text \<open>A close frame with the code 1005, which must not be sent, answering one of the server's.\<close>

definition close_then_bad_close :: "conn_event list" where
  "close_then_bad_close = [Closes_with normal_close [],
     Read_done [0x88, 0x82, 0, 0, 0, 0, 0x03, 0xED]]"

text \<open>A reason of 124 bytes: sixty-two times the two bytes of U+00E9.\<close>

definition long_reason :: bytes where
  "long_reason = concat (replicate 62 [0xC3, 0xA9])"

subsection \<open>Properties\<close>

text \<open>C13: No event of a server's connection leads to undefined behaviour: whatever bytes arrive, in
  whatever order writes, timers and calls of the application complete, the handler returns.\<close>
theorem connection_total:
  assumes "server_state h cid rng rest a c" and "conn_enabled ev c"
  shows "\<exists>c'. conn_happen disabled_extension core_config (broadcast_handlers h cid) ev c = Some c'
    \<and> server_state h cid rng rest a c'"
proof -
  obtain c' where "conn_happen disabled_extension core_config (broadcast_handlers h cid) ev c = Some c'"
    using srv.happen_running [OF server_state_running(1) [OF assms(1)] assms(2)] by blast
  with assms show ?thesis by (auto simp: server_state_def intro: conn_event)
qed

text \<open>C14: The write queue refines a sequence of frames: what the transport was given is the bytes of the
  accepted messages, whole and in order, up to the ones still queued, and the buffered amount is
  the size of the queued payloads.\<close>
theorem write_queue_in_order:
  assumes "server_state h cid rng rest a c"
  shows "\<exists>written. pushed c = written @ m_send_queue c
    \<and> wire c = concat (map (\<lambda>m. m_header m @ m_payload m) written)
    \<and> get_buffered_amount c = of_nat (sum_list (map (\<lambda>m. length (m_payload m)) (m_send_queue c)))"
proof -
  have w: "write_ok c" using server_state_running(1) [OF assms] by (simp add: running_def conn_ok_def)
  have b: "concat (buffers ms) = concat (map (\<lambda>m. m_header m @ m_payload m) ms)" for ms
    by (induction ms) simp_all
  from w obtain written where "pushed c = written @ m_current_msgs c @ m_send_queue c"
    "wire c = concat (buffers (written @ m_current_msgs c))" by (auto simp: write_ok_def)
  with w show ?thesis
    by (intro exI [of _ "written @ m_current_msgs c"])
      (simp add: write_ok_def get_buffered_amount_def payload_total_def b del: buffers_simps)
qed

text \<open>C15: No wake-up is lost: while the connection is not closed and messages are queued, a write is
  under way or a call of \<open>write_frame\<close> is posted.\<close>
theorem no_lost_wakeup:
  assumes "server_state h cid rng rest a c" and "m_send_queue c \<noteq> []" and "c_state c \<noteq> Closed"
  shows "t_write c \<noteq> None \<or> t_dispatch c > 0"
  using server_state_running(1) [OF assms(1)] assms(2,3)
  by (auto simp: running_def conn_ok_def write_ok_def split: if_splits)

text \<open>C16: A connection ends at most once, exactly when its state is closed: one shutdown is asked for,
  and the close handler, never the fail handler, is the one it leads to.\<close>
theorem ends_once:
  assumes "server_state h cid rng rest a c"
  shows "t_shutdown c @ ended c = (if c_state c = Closed then [T_closed] else [])
    \<and> c_state c \<noteq> Connecting"
proof -
  have "life_ok c" using server_state_running(1) [OF assms] by (simp add: running_def conn_ok_def)
  then show ?thesis
    by (cases "t_shutdown c @ ended c") (auto simp: life_ok_def split: if_splits)
qed

text \<open>C17: A client's close frame is answered: the server reads code and reason, goes to closing,
  and queues exactly one close frame, whose payload is that code and that reason, after which it
  drops the connection.\<close>
theorem close_is_acknowledged:
  assumes "server_state h cid rng rest a c" and "c_state c = Open" and "t_reads c > 0"
    and "m_is_server c" and "boundary (m_processor c)" and "p_server (m_processor c)"
    and "sendable code" and "length reason \<le> 123" and "utf8_well_formed reason" and "\<not> p_server client"
  shows "\<exists>out c'. prepare_close client key code reason (get_message CONTINUATION) = (Some out, None)
    \<and> conn_happen disabled_extension core_config (broadcast_handlers h cid)
         (Read_done (m_header out @ m_payload out)) c = Some c'
    \<and> acked code reason c c'"
proof -
  let ?c = "c\<lparr>t_reads := t_reads c - 1\<rparr>"
  obtain out where o: "prepare_close client key code reason (get_message CONTINUATION) = (Some out, None)"
    "m_header out @ m_payload out = frame_wire True CLOSE key (uint16_c (htons code) @ reason)"
    using prepare_close_sendable [OF assms(7,8), of client key "empty_message CONTINUATION"] assms(10)
    by (metis get_message_def)
  have "m_internal_state c = PROCESS_CONNECTION"
    using server_state_running(1) [OF assms(1)] by (simp add: running_def conn_ok_def life_ok_def)
  then obtain c' where "handle_read_frame disabled_extension core_config (broadcast_handlers h cid) None
      (frame_wire (p_server (m_processor ?c)) CLOSE key (uint16_c (htons code) @ reason)) ?c = Some c'"
    "acked code reason ?c c'"
    using read_close_frame [of core_config ?c code reason "broadcast_handlers h cid" key] assms
      server_state_running(2) [OF assms(1)]
    by (auto simp: core_config_def)
  with o assms(6) show ?thesis by (auto simp: acked_def)
qed

text \<open>A message can follow the close frame: \<open>send\<close> gives up the lock between its test of the state
  and the push, so a close in between puts its frame first.\<close>
theorem data_after_close:
  "\<exists>c. demo_run send_races_close = Some c \<and> c_state c = Closing
     \<and> map m_opcode (pushed c) = [CLOSE, TEXT]
     \<and> wire c = concat (map (\<lambda>m. m_header m @ m_payload m) (pushed c))"
proof -
  have "case demo_run send_races_close of
      Some c \<Rightarrow> (case c_state c of Closing \<Rightarrow> True | _ \<Rightarrow> False) \<and> map m_opcode (pushed c) = [CLOSE, TEXT]
        \<and> wire c = concat (map (\<lambda>m. m_header m @ m_payload m) (pushed c))
    | None \<Rightarrow> False" by code_simp
  then show ?thesis by (auto split: option.splits session_state.splits)
qed

text \<open>An endpoint that is closing answers an invalid close frame with a second close frame.\<close>
theorem second_close_frame:
  "\<exists>c. demo_run close_then_bad_close = Some c \<and> map m_opcode (pushed c) = [CLOSE, CLOSE]"
proof -
  have "case demo_run close_then_bad_close of
      Some c \<Rightarrow> map m_opcode (pushed c) = [CLOSE, CLOSE] | None \<Rightarrow> False" by code_simp
  then show ?thesis by (auto split: option.splits)
qed

text \<open>\<open>close\<close> cuts a long reason at 123 bytes, which can be inside a character: the reason that is
  sent is not valid UTF-8 although the one given is.\<close>
theorem cut_reason_not_utf8:
  "\<exists>c m. demo_run [Closes_with normal_close long_reason] = Some c \<and> pushed c = [m]
     \<and> utf8_well_formed long_reason \<and> \<not> utf8_well_formed (fst (extract_reason (m_payload m)))"
proof -
  have "case demo_run [Closes_with normal_close long_reason] of
      Some c \<Rightarrow> (case pushed c of [m] \<Rightarrow> \<not> validate (fst (extract_reason (m_payload m))) | _ \<Rightarrow> False)
    | None \<Rightarrow> False" by code_simp
  moreover have "validate long_reason" by code_simp
  ultimately show ?thesis
    unfolding validate_accepts accepts_iff_well_formed
    by (auto split: option.splits list.splits)
qed

text \<open>Pausing and resuming before the read under way completes asks for a second read into the same
  buffer.\<close>

lemma resume_reads_twice:
  "t_reads (handle_resume_reading (handle_pause_reading c)) = t_reads c + 1"
  by (simp add: handle_resume_reading_def handle_pause_reading_def read_frame_def async_read_def)

subsection \<open>Witnesses\<close>

lemma demo_state:
  assumes "demo_run evs = Some c"
  shows "server_state 1 [0x41] (\<lambda>_. 0) [] demo_server c"
proof -
  obtain c0 where c0: "server_connection 1 [0x41] (\<lambda>_. 0) [] demo_server = Some c0"
    using server_connection_running [of 1 "[0x41]" "\<lambda>_. 0" "[]" demo_server] by blast
  then have "conn_reachable disabled_extension core_config (broadcast_handlers 1 [0x41]) c0 c"
    using conn_run_reachable [OF conn_start] assms by (simp add: demo_run_def demo_conn_def)
  with c0 show ?thesis by (auto simp: server_state_def)
qed

lemma demo_start: "server_state 1 [0x41] (\<lambda>_. 0) [] demo_server demo_conn"
  by (rule demo_state [of "[]"]) (simp add: demo_run_def)

theorem connection_total_witness:
  "\<exists>c'. conn_happen disabled_extension core_config (broadcast_handlers 1 [0x41]) (Read_done [0xFF, 0xFF]) demo_conn = Some c'"
proof -
  have "t_reads demo_conn > 0" by code_simp
  then have "conn_enabled (Read_done [0xFF, 0xFF]) demo_conn" by simp
  from connection_total [OF demo_start this] show ?thesis by blast
qed

text \<open>A message that is queued: the state after \<open>send\<close>, before \<open>write_frame\<close> runs.\<close>

definition queued :: "(unit, unit server) connection" where
  "queued = the (demo_run [Send_begins (command ''data''), Send_ends (command ''data'')])"

lemma queued_state: "server_state 1 [0x41] (\<lambda>_. 0) [] demo_server queued"
proof -
  have "case demo_run [Send_begins (command ''data''), Send_ends (command ''data'')] of
      Some c \<Rightarrow> True | None \<Rightarrow> False" by code_simp
  then show ?thesis by (intro demo_state) (auto simp: queued_def split: option.splits)
qed

theorem write_queue_in_order_witness:
  "\<exists>written. pushed queued = written @ m_send_queue queued \<and> get_buffered_amount queued = 4"
proof -
  have "sum_list (map (\<lambda>m. length (m_payload m)) (m_send_queue queued)) = 4" by code_simp
  with write_queue_in_order [OF queued_state] show ?thesis by auto
qed

theorem no_lost_wakeup_witness: "t_dispatch queued > 0"
proof -
  have "m_send_queue queued \<noteq> []" by code_simp
  moreover have "case c_state queued of Open \<Rightarrow> True | _ \<Rightarrow> False" by code_simp
  then have "c_state queued \<noteq> Closed" by (auto split: session_state.splits)
  moreover have "t_write queued = None" by code_simp
  ultimately show ?thesis using no_lost_wakeup [OF queued_state] by blast
qed

theorem ends_once_witness: "t_shutdown demo_conn @ ended demo_conn = []"
proof -
  have "case c_state demo_conn of Open \<Rightarrow> True | _ \<Rightarrow> False" by code_simp
  then have "c_state demo_conn \<noteq> Closed" by (auto split: session_state.splits)
  with ends_once [OF demo_start] show ?thesis by simp
qed

theorem close_is_acknowledged_witness:
  "\<exists>out c'. prepare_close client_proc 0 normal_close (ascii ''bye'') (get_message CONTINUATION) = (Some out, None)
     \<and> conn_happen disabled_extension core_config (broadcast_handlers 1 [0x41])
         (Read_done (m_header out @ m_payload out)) demo_conn = Some c'
     \<and> acked normal_close (ascii ''bye'') demo_conn c'"
proof -
  have "case c_state demo_conn of Open \<Rightarrow> True | _ \<Rightarrow> False" by code_simp
  then have st: "c_state demo_conn = Open" by (auto split: session_state.splits)
  have r: "t_reads demo_conn > 0" "m_is_server demo_conn" by code_simp+
  have p: "m_processor demo_conn = new_hybi13 True core_max_message_size ()"
    by (simp add: demo_conn_def server_connection_def open_connection_def handle_read_frame_def
        read_loop.simps call_def broadcast_handlers_def new_connection_def read_frame_def async_read_def)
  have b: "boundary (m_processor demo_conn)" "p_server (m_processor demo_conn)"
    unfolding p by (rule boundary_new) (simp add: new_hybi13_def reset_headers_def)
  have s: "sendable normal_close" "length (ascii ''bye'') \<le> 123"
    by (simp_all add: sendable_def normal_close_def)
  have "validate (ascii ''bye'')" by code_simp
  then have u: "utf8_well_formed (ascii ''bye'')"
    by (simp add: validate_accepts accepts_iff_well_formed)
  have "\<not> p_server client_proc" by (simp add: client_proc_def new_hybi13_def reset_headers_def)
  from close_is_acknowledged [OF demo_start st r b s u this] show ?thesis .
qed

end
