(* ===== verification/OpeningRuns.thy ===== *)
theory OpeningRuns
  imports Opening ServerConnection
begin

text \<open>
  Properties of the opening handshake: the program's server reaches, for every request its parser
  reads in any portions and that asks for version 7, 8 or 13, the open connection the theory
  \<open>ServerConnection\<close> starts from; what a connection whose handshake
  has not ended is waiting for; the client's side; both sides together.
\<close>

subsection \<open>The program's server\<close>

definition core_user_agent :: bytes where "core_user_agent = ascii ''WebSocket++/0.8.2''"

definition core_setting :: "u32 list \<Rightarrow> bytes \<Rightarrow> bytes \<Rightarrow> unit setting" where
  "core_setting w key00 md50 =
     \<lparr>s_config = core_config, s_extension = disabled_negotiation, s_extension0 = (),
      enable_extensions = True, connection_read_buffer_size = 16384, client_version = 13,
      s_sha1 = w, s_key00 = key00, s_md5 = md50\<rparr>"

text \<open>\<open>on_open\<close> reads the identifier of the client from a header of the request.\<close>

definition program_handlers :: "hdl \<Rightarrow> (unit, 's server) opening_handlers" where
  "program_handlers h =
     \<lparr>m_http_handler = None, m_validate_handler = None,
      frame_handlers = (\<lambda>x. broadcast_handlers h (get_request_header (ascii ''Client-ID'') x))\<rparr>"

definition core_connection ::
  "bool \<Rightarrow> (nat \<Rightarrow> u32) \<Rightarrow> 'a \<Rightarrow> (unit, 'a) connection" where
  "core_connection is_server rng a =
     new_connection is_server (new_hybi13 is_server core_max_message_size ()) rng core_timeout core_timeout core_timeout a"

definition server_opening :: "(nat \<Rightarrow> u32) \<Rightarrow> 'a \<Rightarrow> (unit, 'a) opening_con" where
  "server_opening rng a =
     start_opening (new_opening (core_connection True rng a) None core_user_agent core_max_message_size False)"

text \<open>The state in which the server waits for the first bytes.\<close>

definition server_reading :: "(nat \<Rightarrow> u32) \<Rightarrow> 'a \<Rightarrow> (unit, 'a) opening_con" where
  "server_reading rng a =
     (new_opening ((core_connection True rng a)\<lparr>m_internal_state := READ_HTTP_REQUEST,
          m_handshake_timer := Some Open_handshake_timer, t_timers := [Open_handshake_timer]\<rparr>)
        None core_user_agent core_max_message_size False)"

lemmas opening_ops = on_con_def ask_def in_istate_def to_istate_def answer_with_def answered_def

lemma extension_truncated: "extension.truncate disabled_negotiation = disabled_extension"
  by (simp add: disabled_negotiation_def extension.truncate_def disabled_extension_def)

lemma server_starts:
  "opening_enabled (Initialized None) (server_opening rng a)"
  "opening_happen S H (Initialized None) (server_opening rng a) =
     Inr ((server_reading rng a)\<lparr>o_pending := [Request_read]\<rparr>)"
  by (simp_all add: server_opening_def start_opening_def new_opening_def server_reading_def opening_ops
      handle_transport_init_def core_connection_def new_connection_def read_handshake_def core_timeout_def
      set_timer_def)

text \<open>
  A request for a connection of version 7, 8 or 13 as the program's server accepts it: a GET of
  HTTP/1.1 with the two upgrade tokens, a key, a host that makes a valid URI, and a list of
  extensions that parses (none of them is implemented) or none.
\<close>

definition upgrade_request :: "request \<Rightarrow> bool" where
  "upgrade_request r \<longleftrightarrow> is_websocket_handshake r \<and> get_websocket_version r \<in> {7, 8, 13}
     \<and> validate_handshake r = None
     \<and> \<not> fst (get_header_as_plist (ascii ''Sec-WebSocket-Extensions'') r)
     \<and> m_valid (get_uri False r)"

text \<open>
  The request that arrives in the given reads, none longer than the buffer of the connection: the
  parser needs all of them, and the last one may have bytes behind the request.
\<close>

fun request_arrives :: "bytes list \<Rightarrow> request \<Rightarrow> (request \<times> bytes) option" where
  "request_arrives [] r = None"
| "request_arrives (buf # bufs) r =
     (if 16384 < length buf then None
      else case consume_request buf r of
             Inl e \<Rightarrow> None
           | Inr (n, r') \<Rightarrow>
               if m_ready r' then (if bufs = [] then Some (r', drop n buf) else None)
               else request_arrives bufs r')"

text \<open>What depends on the header fields and the request line only.\<close>

lemma same_head:
  fixes r r' :: request
  assumes "m_headers r' = m_headers r" "m_uri r' = m_uri r"
  shows "get_header k r' = get_header k r" "is_websocket_handshake r' = is_websocket_handshake r"
    "get_uri secure r' = get_uri secure r" "get_uri_from_host r' scheme = get_uri_from_host r scheme"
    "extract_subprotocols r' ps = extract_subprotocols r ps"
  unfolding get_header_def get_header_as_plist_def is_websocket_handshake_def get_uri_def get_uri_from_host_def
    extract_subprotocols_def assms by (rule refl)+

lemma version_13:
  "\<lbrakk>m_ready r; get_header (ascii ''Sec-WebSocket-Version'') r = ascii ''13''\<rbrakk> \<Longrightarrow> get_websocket_version r = 13"
proof -
  have "extract_int (ascii ''13'') = Some 13" "ascii ''13'' \<noteq> []" by code_simp+
  then show "\<lbrakk>m_ready r; get_header (ascii ''Sec-WebSocket-Version'') r = ascii ''13''\<rbrakk> \<Longrightarrow> get_websocket_version r = 13"
    by (simp add: get_websocket_version_def)
qed

text \<open>Extensions that are asked for are passed over.\<close>

lemma no_extensions:
  "\<not> fst (get_header_as_plist (ascii ''Sec-WebSocket-Extensions'') r) \<Longrightarrow>
    negotiate_extensions_helper True disabled_negotiation srv d r = (d, None, [])"
  by (cases "get_header_as_plist (ascii ''Sec-WebSocket-Extensions'') r")
    (simp add: negotiate_extensions_helper_def disabled_negotiation_def)

lemma absent_extensions:
  "get_header (ascii ''Sec-WebSocket-Extensions'') r = [] \<Longrightarrow>
    \<not> fst (get_header_as_plist (ascii ''Sec-WebSocket-Extensions'') r)"
  by (simp add: get_header_as_plist_def get_header_def split: option.splits)

text \<open>The response of the server, before and after the header with its name.\<close>

definition upgrade_response :: "u32 list \<Rightarrow> request \<Rightarrow> response" where
  "upgrade_response w r = replace_header (ascii ''Server'') core_user_agent
     (switching (new_response\<lparr>m_headers := server_headers []
        (fst (process_handshake_key w (get_header (ascii ''Sec-WebSocket-Key'') r)))\<rparr>))"

lemma negotiate_nothing:
  assumes "enable_extensions S" "s_extension S = disabled_negotiation" "p \<noteq> Proc00"
    and "\<not> fst (get_header_as_plist (ascii ''Sec-WebSocket-Extensions'') r)"
  shows "proc_negotiate S p r x = (x, None, [])"
  using assms(1-3) by (cases p) (simp_all add: no_extensions [OF assms(4)] on_con_def)

text \<open>What the processors of the versions 7, 8 and 13 make of a valid request nobody objects to.\<close>

definition accepted :: "u32 list \<Rightarrow> ('d, 'a) opening_con \<Rightarrow> ('d, 'a) opening_con" where
  "accepted w x = x\<lparr>o_uri := Some (get_uri (is_secure x) (o_request x)),
     m_requested_subprotocols := snd (extract_subprotocols (o_request x) (m_requested_subprotocols x)),
     o_response := (set_status 101 (o_response x))\<lparr>m_headers := server_headers (m_subprotocol x)
       (fst (process_handshake_key w (get_header (ascii ''Sec-WebSocket-Key'') (o_request x))))\<rparr>\<rparr>"

lemma process_handshake_status:
  "process_handshake w r sub (set_status 101 new_response) =
    Inr (None, (set_status 101 new_response)\<lparr>m_headers :=
      server_headers sub (fst (process_handshake_key w (get_header (ascii ''Sec-WebSocket-Key'') r)))\<rparr>)"
  by (simp add: process_handshake_def process_handshake_key_def append_header_def replace_header_def
      get_header_def new_response_def set_status_def tokens_here names_less name_irrefl server_headers_def Let_def)

lemma process_upgrade_13:
  assumes "p \<noteq> Proc00" "validate_handshake (o_request x) = None" "enable_extensions S"
    "s_extension S = disabled_negotiation"
    "\<not> fst (get_header_as_plist (ascii ''Sec-WebSocket-Extensions'') (o_request x))"
    "m_valid (get_uri (is_secure x) (o_request x))" "m_validate_handler H = None" "o_response x = new_response"
  shows "process_upgrade S H p x = Inr (accepted (s_sha1 S) x, None)"
proof -
  obtain e ps where ps: "extract_subprotocols (o_request x) (m_requested_subprotocols x) = (e, ps)" by fastforce
  have "proc_negotiate S p (o_request x) x = (x, None, [])"
    using assms(1,3-5) by (intro negotiate_nothing) simp_all
  moreover have "proc_validate_handshake p (o_request x) = validate_handshake (o_request x)"
    "proc_get_uri p (is_secure x) (o_request x) = get_uri (is_secure x) (o_request x)"
    "proc_extract_subprotocols p (o_request x) qs = extract_subprotocols (o_request x) qs"
    "proc_process_handshake S p sec rq sub res = process_handshake (s_sha1 S) rq sub res" for qs sec rq sub res
    using assms(1) by (cases p; simp)+
  ultimately show ?thesis
    using assms ps by (simp add: process_upgrade_def answer_upgrade_def answer_with_def process_handshake_status
        accepted_def Let_def)
qed

lemma server_name_less:
  "ci_less (ascii ''Connection'') (ascii ''Server'')" "\<not> ci_less (ascii ''Server'') (ascii ''Connection'')"
  "ci_less (ascii ''Sec-WebSocket-Accept'') (ascii ''Server'')"
  "\<not> ci_less (ascii ''Server'') (ascii ''Sec-WebSocket-Accept'')"
  "ci_less (ascii ''Sec-WebSocket-Protocol'') (ascii ''Server'')"
  "\<not> ci_less (ascii ''Server'') (ascii ''Sec-WebSocket-Protocol'')"
  "ci_less (ascii ''Server'') (ascii ''Upgrade'')" "\<not> ci_less (ascii ''Upgrade'') (ascii ''Server'')"
  by code_simp+

lemma write_accepted:
  assumes "o_response x = (set_status 101 new_response)\<lparr>m_headers := server_headers sub key\<rparr>"
    and "m_user_agent x \<noteq> []" "o_processor x = Some p" "p \<noteq> Proc00"
  shows "write_http_response None x =
    (let res = replace_header (ascii ''Server'') (m_user_agent x)
                 (switching (new_response\<lparr>m_headers := server_headers sub key\<rparr>))
     in x\<lparr>o_con := (o_con x)\<lparr>m_ec := None\<rparr>, o_response := res, m_handshake_buffer := raw_response res,
          o_pending := o_pending x @ [Response_write]\<rparr>)"
proof -
  have "get_header (ascii ''Server'') (switching (new_response\<lparr>m_headers := server_headers sub key\<rparr>)) = []"
    by (simp add: get_header_def switching_def set_status_def server_headers_def server_name_less)
  moreover have "proc_get_raw p res = raw_response res" for res using assms(4) by (cases p) simp_all
  ultimately show ?thesis
    using assms by (simp add: write_http_response_def opening_ops switching_def set_status_def new_response_def Let_def)
qed

text \<open>The processor for the version, and what it answers.\<close>

lemma server_answers:
  assumes "upgrade_request r" "p \<noteq> Proc00"
  shows "\<exists>x. process_request (core_setting w k m) (program_handlers h) rest
      (install (core_setting w k m) (Some p) ((server_reading rng a)\<lparr>o_request := r\<rparr>)) = Inr x
    \<and> o_con x = (core_connection True rng a)\<lparr>m_internal_state := PROCESS_HTTP_REQUEST,
          m_handshake_timer := Some Open_handshake_timer, t_timers := [Open_handshake_timer]\<rparr>
    \<and> o_request x = r \<and> o_rest x = rest \<and> o_processor x = Some p
    \<and> o_response x = upgrade_response w r \<and> m_handshake_buffer x = raw_response (upgrade_response w r)
    \<and> o_uri x = Some (get_uri False r) \<and> m_requested_subprotocols x = snd (extract_subprotocols r [])
    \<and> o_pending x = [Response_write]"
proof -
  let ?S = "core_setting w k m"
  let ?x = "to_istate PROCESS_HTTP_REQUEST ((install ?S (Some p) ((server_reading rng a)\<lparr>o_request := r\<rparr>))\<lparr>o_rest := rest\<rparr>)"
  have x: "o_request ?x = r" "o_response ?x = new_response" "o_processor ?x = Some p" "\<not> is_secure ?x"
    "m_user_agent ?x \<noteq> []" "m_subprotocol ?x = []" "o_rest ?x = rest" "o_pending ?x = []"
    "o_con ?x = (core_connection True rng a)\<lparr>m_internal_state := PROCESS_HTTP_REQUEST,
          m_handshake_timer := Some Open_handshake_timer, t_timers := [Open_handshake_timer]\<rparr>"
    "m_user_agent ?x = core_user_agent" "m_requested_subprotocols ?x = []"
    using assms(2)
    by (simp_all add: install_def opening_ops server_reading_def new_opening_def core_user_agent_def core_connection_def ascii_def
        new_connection_def core_setting_def)
  have r: "validate_handshake r = None" "is_websocket_handshake r" "m_valid (get_uri False r)"
    "\<not> fst (get_header_as_plist (ascii ''Sec-WebSocket-Extensions'') r)"
    using assms(1) by (simp_all add: upgrade_request_def)
  have "process_upgrade ?S (program_handlers h) p ?x = Inr (accepted w ?x, None)"
    using process_upgrade_13 [of p ?x ?S "program_handlers h"] assms(2) r x
    by (simp add: core_setting_def program_handlers_def)
  then have p: "process_handshake_request ?S (program_handlers h) ?x = Inr (accepted w ?x, None)"
    using r(2) x(1,3) by (simp add: process_handshake_request_def)
  have a: "\<not> m_is_http (o_con (accepted w ?x))"
    using x(9) by (simp add: accepted_def core_connection_def new_connection_def)
  have "o_response (accepted w ?x) = (set_status 101 new_response)\<lparr>m_headers := server_headers []
      (fst (process_handshake_key w (get_header (ascii ''Sec-WebSocket-Key'') r)))\<rparr>"
    using x(1,2,6) by (simp add: accepted_def)
  from write_accepted [OF this, of p] x assms(2) have wr: "write_http_response None (accepted w ?x) =
     (accepted w ?x)\<lparr>o_con := (o_con ?x)\<lparr>m_ec := None\<rparr>, o_response := upgrade_response w r,
       m_handshake_buffer := raw_response (upgrade_response w r), o_pending := [Response_write]\<rparr>"
    by (simp add: accepted_def upgrade_response_def Let_def)
  have "process_request ?S (program_handlers h) rest (install ?S (Some p) ((server_reading rng a)\<lparr>o_request := r\<rparr>)) =
      Inr (write_http_response None (accepted w ?x))"
    using p a by (simp add: process_request_def)
  then show ?thesis
    unfolding wr using x by (simp add: accepted_def core_connection_def new_connection_def)
qed

text \<open>The server that has read a part of the request.\<close>

definition server_read :: "(nat \<Rightarrow> u32) \<Rightarrow> 'a \<Rightarrow> request \<Rightarrow> (unit, 'a) opening_con" where
  "server_read rng a r = (server_reading rng a)\<lparr>o_request := r, o_pending := [Request_read]\<rparr>"

lemma server_read_state:
  "check_state READ_HTTP_REQUEST None (answered Request_read (server_read rng a r)) = Passed"
  "o_request (answered Request_read (server_read rng a r)) = r"
  "answered Request_read (server_read rng a r) = (server_reading rng a)\<lparr>o_request := r\<rparr>"
  "opening_enabled (Request_was_read ec buf) (server_read rng a r)"
  by (simp_all add: check_state_def server_read_def server_reading_def new_opening_def core_connection_def
      new_connection_def in_istate_def answered_def)

lemma server_reads_more:
  assumes "consume_request buf r = Inr (n, r')" "n \<le> length buf" "length buf \<le> 16384" "\<not> m_ready r'"
  shows "opening_happen (core_setting w k m) H (Request_was_read None buf) (server_read rng a r) =
    Inr (server_read rng a r')"
  using assms server_read_state(1,2) [of rng a r]
  by (simp add: handle_read_handshake_def core_setting_def server_read_state(3) ask_def)
    (simp add: server_read_def server_reading_def new_opening_def)

lemma server_reads:
  assumes "consume_request buf r = Inr (n, r')" "n \<le> length buf" "length buf \<le> 16384" "m_ready r'"
    and "upgrade_request r'"
  shows "\<exists>x p. opening_happen (core_setting w k m) (program_handlers h) (Request_was_read None buf)
        (server_read rng a r) = Inr x
    \<and> o_con x = (core_connection True rng a)\<lparr>m_internal_state := PROCESS_HTTP_REQUEST,
          m_handshake_timer := Some Open_handshake_timer, t_timers := [Open_handshake_timer]\<rparr>
    \<and> o_request x = r' \<and> o_rest x = drop n buf \<and> o_processor x = Some p \<and> p \<noteq> Proc00
    \<and> o_response x = upgrade_response w r'
    \<and> m_handshake_buffer x = raw_response (upgrade_response w r')
    \<and> o_uri x = Some (get_uri False r') \<and> m_requested_subprotocols x = snd (extract_subprotocols r' [])
    \<and> o_pending x = [Response_write]"
proof -
  let ?S = "core_setting w k m"
  let ?x = "(server_reading rng a)\<lparr>o_request := r'\<rparr>"
  obtain p where p: "get_processor (get_websocket_version r') = Some p" "p \<noteq> Proc00" "0 \<le> get_websocket_version r'"
    using assms(5) by (auto simp: upgrade_request_def get_processor_def)
  have "is_websocket_handshake r'" using assms(5) by (simp add: upgrade_request_def)
  then have i: "initialize_processor ?S ?x = (install ?S (Some p) ?x, None)"
    "o_processor (install ?S (Some p) ?x) = Some p"
    using p by (simp_all add: initialize_processor_def install_def on_con_def Let_def)
  have "opening_happen ?S (program_handlers h) (Request_was_read None buf) (server_read rng a r) =
      process_request ?S (program_handlers h) (drop n buf) (install ?S (Some p) ?x)"
    using assms(1-4) p(2) i server_read_state(1,2) [of rng a r]
    by (simp add: handle_read_handshake_def request_complete_def core_setting_def server_read_state(3))
  then show ?thesis using server_answers [OF assms(5) p(2), of w k m h "drop n buf" rng a] p(2) by auto
qed

text \<open>The response is written: the connection is open, and reads what was behind the request.\<close>

lemma server_written:
  assumes "o_con x = (core_connection True rng a)\<lparr>m_internal_state := PROCESS_HTTP_REQUEST,
          m_handshake_timer := Some Open_handshake_timer, t_timers := [Open_handshake_timer]\<rparr>"
    and "o_request x = r" "o_rest x = rest" "o_processor x = Some p" "p \<noteq> Proc00"
    and "o_response x = upgrade_response w r" "o_pending x = [Response_write]"
  shows "\<exists>c. opening_run (core_setting w k m) (program_handlers h) [Response_was_written None] x =
      Some (x\<lparr>o_con := c, o_pending := []\<rparr>)
    \<and> server_connection h (get_header (ascii ''Client-ID'') r) rng rest a = Some c"
proof -
  let ?S = "core_setting w k m" and ?H = "program_handlers h"
  let ?x = "answered Response_write x"
  have p: "check_state PROCESS_HTTP_REQUEST None ?x = Passed" "m_status_code (o_response ?x) = 101"
    using assms(1,6) by (simp_all add: check_state_def answered_def in_istate_def core_connection_def new_connection_def
        upgrade_response_def replace_header_def switching_def set_status_def)
  let ?y = "on_con cancel_handshake_timer ?x"
  have y: "o_con ?y = (core_connection True rng a)\<lparr>m_internal_state := PROCESS_HTTP_REQUEST\<rparr>"
    "o_processor ?y = Some p" "o_rest ?x = rest" "?y\<lparr>o_con := c, o_rest := rest\<rparr> = x\<lparr>o_con := c, o_pending := []\<rparr>"
    "frame_handlers ?H ?y = broadcast_handlers h (get_header (ascii ''Client-ID'') r)" for c
    using assms by (simp_all add: on_con_def answered_def cancel_handshake_timer_def cancel_timer_def core_connection_def
        new_connection_def program_handlers_def get_request_header_def get_header_def)
  obtain c where c: "server_connection h (get_header (ascii ''Client-ID'') r) rng rest a = Some c"
    using server_connection_running by blast
  have "open_connection (extension.truncate (s_extension ?S)) (s_config ?S) (frame_handlers ?H ?y) rest (o_con ?y) = Some c"
    using c y(1,5) extension_truncated
    by (simp add: server_connection_def open_connection_def core_setting_def core_connection_def)
  then have "handle_write_http_response ?S ?H None ?x = Inr (?y\<lparr>o_con := c, o_rest := rest\<rparr>)"
    using p y(2,3) by (simp add: handle_write_http_response_def become_open_def Let_def)
  then have h: "opening_happen ?S ?H (Response_was_written None) x = Inr (x\<lparr>o_con := c, o_pending := []\<rparr>)"
    unfolding y(4) by simp
  have e: "opening_enabled (Response_was_written None) x" using assms(7) by simp
  show ?thesis using c unfolding opening_step [OF e h] by simp
qed

lemma opening_run_append:
  "opening_run S H (xs @ ys) x = (case opening_run S H xs x of None \<Rightarrow> None | Some x' \<Rightarrow> opening_run S H ys x')"
  by (induction xs arbitrary: x) (simp_all add: opening_run.simps(2) split: sum.split)

lemma server_request:
  assumes "request_arrives bufs r0 = Some (r, rest)" "upgrade_request r" "well_typed r0" "reader_ok r0"
  shows "\<exists>x p. opening_run (core_setting w k m) (program_handlers h) (map (Request_was_read None) bufs)
        (server_read rng a r0) = Some x
    \<and> o_con x = (core_connection True rng a)\<lparr>m_internal_state := PROCESS_HTTP_REQUEST,
          m_handshake_timer := Some Open_handshake_timer, t_timers := [Open_handshake_timer]\<rparr>
    \<and> o_request x = r \<and> o_rest x = rest \<and> o_processor x = Some p \<and> p \<noteq> Proc00
    \<and> o_response x = upgrade_response w r
    \<and> m_handshake_buffer x = raw_response (upgrade_response w r)
    \<and> o_uri x = Some (get_uri False r) \<and> m_requested_subprotocols x = snd (extract_subprotocols r [])
    \<and> o_pending x = [Response_write]"
  using assms(1,3,4)
proof (induction bufs arbitrary: r0)
  case (Cons buf bufs)
  let ?ev = "Request_was_read None buf :: opening_event"
  obtain n r1 where c: "consume_request buf r0 = Inr (n, r1)" and l: "length buf \<le> 16384"
    using Cons.prems(1) by (auto split: if_splits sum.splits)
  have g: "well_typed r1" "reader_ok r1" "n \<le> length buf"
    using consume_request_good [OF Cons.prems(2,3), of buf] c by (auto simp: good_result_def)
  note e = server_read_state(4) [of None buf rng a r0]
  show ?case
  proof (cases "m_ready r1")
    case True
    then have b: "bufs = []" "r = r1" "rest = drop n buf"
      using Cons.prems(1) c l by (auto split: if_splits)
    obtain x p where x: "opening_happen (core_setting w k m) (program_handlers h) ?ev (server_read rng a r0) = Inr x"
      "o_con x = (core_connection True rng a)\<lparr>m_internal_state := PROCESS_HTTP_REQUEST,
          m_handshake_timer := Some Open_handshake_timer, t_timers := [Open_handshake_timer]\<rparr>
      \<and> o_request x = r \<and> o_rest x = rest \<and> o_processor x = Some p \<and> p \<noteq> Proc00
      \<and> o_response x = upgrade_response w r \<and> m_handshake_buffer x = raw_response (upgrade_response w r)
      \<and> o_uri x = Some (get_uri False r) \<and> m_requested_subprotocols x = snd (extract_subprotocols r [])
      \<and> o_pending x = [Response_write]"
      using server_reads [OF c g(3) l True, of w k m h rng a] assms(2) b(2,3) by blast
    then show ?thesis unfolding b(1) list.map opening_step [OF e x(1)] by auto
  next
    case False
    then have "request_arrives bufs r1 = Some (r, rest)" using Cons.prems(1) c l by simp
    from Cons.IH [OF this g(1,2)]
    show ?thesis unfolding list.map opening_step [OF e server_reads_more [OF c g(3) l False]] .
  qed
qed simp

lemma server_opens:
  assumes "request_arrives bufs new_request = Some (r, rest)" "upgrade_request r"
  shows "\<exists>x. opening_run (core_setting w k m) (program_handlers h)
      (Initialized None # map (Request_was_read None) bufs @ [Response_was_written None])
      (server_opening rng a) = Some x
    \<and> server_connection h (get_header (ascii ''Client-ID'') r) rng rest a = Some (o_con x)
    \<and> o_pending x = [] \<and> m_handshake_buffer x = raw_response (upgrade_response w r)
    \<and> o_uri x = Some (get_uri False r) \<and> m_requested_subprotocols x = snd (extract_subprotocols r [])"
proof -
  let ?S = "core_setting w k m" and ?H = "program_handlers h"
  have "well_typed new_request" "reader_ok new_request"
    by (simp_all add: well_typed_def reader_ok_def new_request_def token_def crlf_def)
  then obtain x p where x: "opening_run ?S ?H (map (Request_was_read None) bufs) (server_read rng a new_request) = Some x"
    "o_con x = (core_connection True rng a)\<lparr>m_internal_state := PROCESS_HTTP_REQUEST,
          m_handshake_timer := Some Open_handshake_timer, t_timers := [Open_handshake_timer]\<rparr>"
    "o_request x = r" "o_rest x = rest" "o_processor x = Some p" "p \<noteq> Proc00"
    "o_response x = upgrade_response w r" "m_handshake_buffer x = raw_response (upgrade_response w r)"
    "o_uri x = Some (get_uri False r)" "m_requested_subprotocols x = snd (extract_subprotocols r [])"
    "o_pending x = [Response_write]"
    using server_request [OF assms, of w k m h rng a] by blast
  obtain c where c: "opening_run ?S ?H [Response_was_written None] x = Some (x\<lparr>o_con := c, o_pending := []\<rparr>)"
    "server_connection h (get_header (ascii ''Client-ID'') r) rng rest a = Some c"
    using server_written [OF x(2-7,11), of k m h] by blast
  have "server_read rng a new_request = (server_reading rng a)\<lparr>o_pending := [Request_read]\<rparr>"
    by (simp add: server_read_def server_reading_def new_opening_def)
  then have "opening_run ?S ?H (Initialized None # map (Request_was_read None) bufs @ [Response_was_written None])
      (server_opening rng a) = Some (x\<lparr>o_con := c, o_pending := []\<rparr>)"
    using x(1) c(1) unfolding opening_step [OF server_starts] by (simp add: opening_run_append)
  then show ?thesis using c(2) x(8-10) by simp
qed


lemma upgrade_headers:
  "m_headers (upgrade_response w r) =
    [(ascii ''Connection'', connection_token),
     (ascii ''Sec-WebSocket-Accept'', fst (process_handshake_key w (get_header (ascii ''Sec-WebSocket-Key'') r))),
     (ascii ''Server'', core_user_agent), (ascii ''Upgrade'', upgrade_token)]"
  by (simp add: upgrade_response_def replace_header_def switching_def set_status_def server_headers_def
      server_name_less)

lemma upgrade_accept_key:
  assumes "length w = 80" "length (get_header (ascii ''Sec-WebSocket-Key'') r) < 2 ^ 28"
  shows "get_header (ascii ''Sec-WebSocket-Accept'') (upgrade_response w r) =
    rfc4648 (fips_sha1 (get_header (ascii ''Sec-WebSocket-Key'') r @ handshake_guid))"
proof -
  have "get_header (ascii ''Sec-WebSocket-Accept'') (upgrade_response w r) =
      fst (process_handshake_key w (get_header (ascii ''Sec-WebSocket-Key'') r))"
    unfolding get_header_def upgrade_headers by (simp add: names_less name_irrefl)
  then show ?thesis
    using assms calc_fips [OF assms(1), of "get_header (ascii ''Sec-WebSocket-Key'') r @ handshake_guid"]
    by (simp add: process_handshake_key_def base64_encode_rfc4648 handshake_guid_def Let_def)
qed

text \<open>C28: for every request of version 7, 8 or 13 that the parser reads in any portions of at most 16384
  bytes each, that is a GET of HTTP/1.1 with the two upgrade tokens, a key and a host that makes a
  valid URI, and whose extension header parses or is absent, the server of the program answers with the
  key RFC 6455 asks for, and once the answer is written its connection is the open connection of the
  identifier found in the request, which has read the bytes behind the request as frames. This is the
  state the properties of the open connection start from.\<close>

theorem handshake_reaches_server_connection:
  assumes "request_arrives bufs new_request = Some (r, rest)" "upgrade_request r"
  shows "\<exists>x. opening_run (core_setting w k m) (program_handlers h)
      (Initialized None # map (Request_was_read None) bufs @ [Response_was_written None])
      (server_opening rng a) = Some x
    \<and> server_connection h (get_header (ascii ''Client-ID'') r) rng rest a = Some (o_con x)
    \<and> o_pending x = [] \<and> m_handshake_buffer x = raw_response (upgrade_response w r)
    \<and> (length w = 80 \<and> length (get_header (ascii ''Sec-WebSocket-Key'') r) < 2 ^ 28 \<longrightarrow>
         get_header (ascii ''Sec-WebSocket-Accept'') (upgrade_response w r) =
           rfc4648 (fips_sha1 (get_header (ascii ''Sec-WebSocket-Key'') r @ handshake_guid)))"
  using server_opens [OF assms, of w k m h rng a] upgrade_accept_key [of w r] by blast

subsection \<open>Both sides\<close>

definition no_handlers :: "('d, 'a) handlers" where
  "no_handlers =
     \<lparr>m_message_handler = None, m_ping_handler = None, m_pong_handler = None, m_pong_timeout_handler = None,
      m_open_handler = None, m_close_handler = None, m_fail_handler = None\<rparr>"

definition client_handlers :: "('d, 'a) opening_handlers" where
  "client_handlers = \<lparr>m_http_handler = None, m_validate_handler = None, frame_handlers = (\<lambda>_. no_handlers)\<rparr>"

text \<open>A client of the library that connects to a URI and asks for some subprotocols.\<close>

definition client_opening :: "uri \<Rightarrow> bytes list \<Rightarrow> (nat \<Rightarrow> u32) \<Rightarrow> 'a \<Rightarrow> (unit, 'a) opening_con" where
  "client_opening u ps rng a =
     start_opening ((new_opening (core_connection False rng a) (Some u) core_user_agent core_max_message_size
       (m_secure u))\<lparr>m_requested_subprotocols := ps\<rparr>)"

definition wire_request :: "uri \<Rightarrow> bytes list \<Rightarrow> (nat \<Rightarrow> u32) \<Rightarrow> request" where
  "wire_request u ps rng = replace_header (ascii ''User-Agent'') core_user_agent (client_request u ps rng)"

lemma agent_last:
  "ci_less (ascii ''Connection'') (ascii ''User-Agent'')" "\<not> ci_less (ascii ''User-Agent'') (ascii ''Connection'')"
  "ci_less (ascii ''Host'') (ascii ''User-Agent'')" "\<not> ci_less (ascii ''User-Agent'') (ascii ''Host'')"
  "ci_less (ascii ''Sec-WebSocket-Key'') (ascii ''User-Agent'')"
  "\<not> ci_less (ascii ''User-Agent'') (ascii ''Sec-WebSocket-Key'')"
  "ci_less (ascii ''Sec-WebSocket-Protocol'') (ascii ''User-Agent'')"
  "\<not> ci_less (ascii ''User-Agent'') (ascii ''Sec-WebSocket-Protocol'')"
  "ci_less (ascii ''Sec-WebSocket-Version'') (ascii ''User-Agent'')"
  "\<not> ci_less (ascii ''User-Agent'') (ascii ''Sec-WebSocket-Version'')"
  "ci_less (ascii ''Upgrade'') (ascii ''User-Agent'')" "\<not> ci_less (ascii ''User-Agent'') (ascii ''Upgrade'')"
  "ci_less (ascii ''Content-Length'') (ascii ''User-Agent'')" "ci_less (ascii ''Sec-WebSocket-Extensions'') (ascii ''User-Agent'')"
  "list_ex is_not_token_char (ascii ''User-Agent'') = False"
  by code_simp+

lemma extensions_less:
  "ci_less (ascii ''Connection'') (ascii ''Sec-WebSocket-Extensions'')"
  "ci_less (ascii ''Host'') (ascii ''Sec-WebSocket-Extensions'')"
  "ci_less (ascii ''Sec-WebSocket-Accept'') (ascii ''Sec-WebSocket-Extensions'')"
  "ci_less (ascii ''Sec-WebSocket-Extensions'') (ascii ''Sec-WebSocket-Key'')"
  "\<not> ci_less (ascii ''Sec-WebSocket-Key'') (ascii ''Sec-WebSocket-Extensions'')"
  "ci_less (ascii ''Sec-WebSocket-Extensions'') (ascii ''Sec-WebSocket-Protocol'')"
  "\<not> ci_less (ascii ''Sec-WebSocket-Protocol'') (ascii ''Sec-WebSocket-Extensions'')"
  "ci_less (ascii ''Sec-WebSocket-Extensions'') (ascii ''Sec-WebSocket-Version'')"
  "\<not> ci_less (ascii ''Sec-WebSocket-Version'') (ascii ''Sec-WebSocket-Extensions'')"
  "ci_less (ascii ''Sec-WebSocket-Extensions'') (ascii ''Upgrade'')"
  "\<not> ci_less (ascii ''Upgrade'') (ascii ''Sec-WebSocket-Extensions'')"
  "\<not> ci_less (ascii ''Server'') (ascii ''Sec-WebSocket-Extensions'')"
  "ci_less (ascii ''Sec-WebSocket-Extensions'') (ascii ''Server'')"
  "\<not> ci_less (ascii ''User-Agent'') (ascii ''Sec-WebSocket-Extensions'')"
  by code_simp+

lemma wire_headers:
  "m_headers (wire_request u ps rng) =
    client_headers u ps (client_key rng) @ [(ascii ''User-Agent'', core_user_agent)]"
  by (simp add: wire_request_def client_request_def replace_header_def client_headers_def agent_last name_irrefl)

lemma wire_find:
  "get_header (ascii ''Host'') (wire_request u ps rng) = get_host_port u"
  "get_header (ascii ''Sec-WebSocket-Key'') (wire_request u ps rng) = client_key rng"
  "get_header (ascii ''Upgrade'') (wire_request u ps rng) = ascii ''websocket''"
  "get_header (ascii ''Connection'') (wire_request u ps rng) = ascii ''Upgrade''"
  "get_header (ascii ''Sec-WebSocket-Version'') (wire_request u ps rng) = ascii ''13''"
  "get_header (ascii ''Content-Length'') (wire_request u ps rng) = []"
  "get_header (ascii ''Sec-WebSocket-Extensions'') (wire_request u ps rng) = []"
  "find_header (ascii ''Sec-WebSocket-Protocol'') (m_headers (wire_request u ps rng)) =
    (if ps = [] then None else Some (join_protocols ps))"
  unfolding get_header_def wire_headers
  by (simp_all add: client_headers_def names_less name_irrefl content_length_less extensions_less agent_last)

lemma agent_visible: "\<forall>c \<in> set core_user_agent. visible c" "core_user_agent \<noteq> []" "length core_user_agent = 17"
  by (simp_all add: core_user_agent_def visible_def is_whitespace_char_def ascii_def)


lemma wire_line:
  "m_method (wire_request u ps rng) = ascii ''GET''" "m_uri (wire_request u ps rng) = m_resource u"
  "m_version (wire_request u ps rng) = ascii ''HTTP/1.1''" "m_body (wire_request u ps rng) = []"
  by (simp_all add: wire_request_def replace_header_def client_request_def new_request_def)

lemma wire_sendable:
  assumes "connectable u ps"
  shows "request_sendable (wire_request u ps rng)"
proof -
  let ?r = "wire_request u ps rng"
  have s: "request_sendable (client_request u ps rng)" by (rule client_sendable [OF assms])
  have c: "32 \<notin> set (m_resource u)" "13 \<notin> set (m_resource u)"
    "length (m_host u) + length (m_resource u) + length (join_protocols ps) \<le> 15000"
    using assms by (simp_all add: connectable_def)
  have "length (raw_head ?r) + length (m_headers ?r) + 2 \<le> max_header_size"
    using host_port_ok(3) [OF assms] client_key_ok(1) [of rng] c(3) agent_visible(3)
    by (simp add: raw_head_def raw_headers_def wire_headers wire_line client_headers_def crlf_def max_header_size_def)
  moreover have "\<forall>(h, v) \<in> set (m_headers ?r). token h \<and> trimmed v"
    using s agent_last(15) visible_trimmed [OF agent_visible(1)]
    by (auto simp: wire_headers request_sendable_def client_request_def token_def)
  moreover have "headers_ok (m_headers ?r)"
    using names_less agent_last by (auto simp: headers_ok_def wire_headers client_headers_def ci_less_lower)
  moreover have "13 \<notin> set (ascii ''HTTP/1.1'')" "ascii ''GET'' \<noteq> []" by (simp_all add: ascii_def)
  ultimately show ?thesis
    using c(1,2) tokens(1) host_port_ok(2) [OF assms]
    by (simp add: request_sendable_def wire_find wire_line)
qed

text \<open>It arrives in one read, whatever follows it, and is a request the server accepts.\<close>

lemma wire_arrives:
  assumes "connectable u ps" "\<not> m_secure u" "length (raw_head (wire_request u ps rng) @ tail) \<le> 16384"
  obtains r where "request_arrives [raw_head (wire_request u ps rng) @ tail] new_request = Some (r, tail)"
    "upgrade_request r" "m_headers r = m_headers (wire_request u ps rng)" "get_uri False r = u"
    "extract_subprotocols r [] = (None, ps)"
proof -
  let ?r = "wire_request u ps rng"
  obtain r where r: "consume_request (raw_head ?r @ tail) new_request = Inr (length (raw_head ?r), r)" "m_ready r"
    "m_method r = m_method ?r" "m_uri r = m_uri ?r" "m_version r = m_version ?r" "m_headers r = m_headers ?r"
    using request_read [OF wire_sendable [OF assms(1)], of rng tail] by auto
  note h = same_head [OF r(6,4)]
  have u: "get_uri False r = u"
    unfolding h
    using uri_found [OF assms(1), of ?r] assms(2) wire_find(1) [of u ps rng] host_port_ok(2) [OF assms(1)]
    by (auto simp: wire_line get_header_def split: option.splits)
  moreover have "m_valid u" using assms(1) by (simp add: connectable_def plain_uri_def)
  moreover have "\<not> fst (get_header_as_plist (ascii ''Sec-WebSocket-Extensions'') r)"
    by (rule absent_extensions) (simp add: h wire_find)
  moreover have "get_websocket_version r = 13" by (rule version_13 [OF r(2)]) (simp add: h wire_find)
  moreover have "validate_handshake r = None"
    using client_key_ok(3) [of rng] by (simp add: validate_handshake_def h r(3,5) wire_find wire_line)
  moreover have "is_websocket_handshake r"
    unfolding h using has_tokens by (simp add: is_websocket_handshake_def wire_find)
  ultimately have up: "upgrade_request r" by (simp add: upgrade_request_def)
  have "extract_subprotocols r [] = (None, ps)"
    unfolding h using assms(1) by (intro subprotocols_found) (simp_all add: wire_find connectable_def)
  then show thesis using that [of r] up u r assms(3) by simp
qed

text \<open>The client's steps.\<close>

lemma client_asks:
  "\<exists>x. opening_run (core_setting w k m) H [Initialized None] (client_opening u ps rng a) = Some x
    \<and> o_request x = wire_request u ps rng \<and> m_handshake_buffer x = raw_request (wire_request u ps rng)
    \<and> o_pending x = [Request_write] \<and> o_processor x = Some Proc13 \<and> o_response x = new_response
    \<and> o_uri x = Some u
    \<and> o_con x = (core_connection False rng a)\<lparr>m_internal_state := WRITE_HTTP_REQUEST, rng_used := 4,
         m_handshake_timer := Some Open_handshake_timer, t_timers := [Open_handshake_timer]\<rparr>"
proof -
  let ?S = "core_setting w k m"
  define x0 where "x0 = install ?S (Some Proc13) ((new_opening ((core_connection False rng a)\<lparr>m_internal_state := WRITE_HTTP_REQUEST\<rparr>)
     (Some u) core_user_agent core_max_message_size (m_secure u))\<lparr>m_requested_subprotocols := ps\<rparr>)"
  have x0: "o_con x0 = (core_connection False rng a)\<lparr>m_internal_state := WRITE_HTTP_REQUEST\<rparr>"
    "o_processor x0 = Some Proc13" "o_uri x0 = Some u" "o_request x0 = new_request"
    "m_requested_subprotocols x0 = ps" "m_user_agent x0 = core_user_agent" "o_response x0 = new_response" "o_pending x0 = []"
    "m_open_handshake_timeout_dur (o_con x0) > 0" "m_rng (o_con x0) = rng" "rng_used (o_con x0) = 0"
    by (simp_all add: x0_def core_timeout_def install_def new_opening_def core_connection_def new_connection_def on_con_def core_setting_def)
  have g: "get_header (ascii ''User-Agent'') (client_request u ps rng) = []"
    by (simp add: get_header_def client_request_def client_headers_def agent_last)
  have s: "s_extension ?S = disabled_negotiation" by (simp add: core_setting_def)
  have c: "proc_client_request ?S Proc13 u x0 =
      Inr ((x0\<lparr>o_request := client_request u ps rng\<rparr>)\<lparr>o_con := (o_con x0)\<lparr>rng_used := 4\<rparr>\<rparr>, None)"
    using x0(4,5,10,11) by (simp add: s client_handshake_request_result client_request_def on_con_def)
  have "opening_happen ?S H (Initialized None) (client_opening u ps rng a) = send_http_request ?S x0"
    by (simp add: x0_def client_opening_def start_opening_def new_opening_def opening_ops handle_transport_init_def
        core_connection_def new_connection_def core_setting_def get_processor_def)
  also have "\<dots> = Inr (ask Request_write (on_con (\<lambda>c. set_timer Open_handshake_timer (c\<lparr>m_handshake_timer := Some Open_handshake_timer\<rparr>))
      ((x0\<lparr>o_con := (o_con x0)\<lparr>rng_used := 4\<rparr>, o_request := wire_request u ps rng,
            m_handshake_buffer := raw_request (wire_request u ps rng)\<rparr>))))"
    unfolding send_http_request_def x0(2,3) option.case prod.case c sum.case
    using x0(6,9) g agent_visible(2) by (simp add: wire_request_def Let_def)
  finally have h: "opening_happen ?S H (Initialized None) (client_opening u ps rng a) = \<dots>" .
  have e: "opening_enabled (Initialized None) (client_opening u ps rng a)"
    by (simp add: client_opening_def start_opening_def new_opening_def opening_ops core_connection_def new_connection_def)
  show ?thesis
    unfolding opening_step [OF e h] using x0
    by (simp add: ask_def set_timer_def core_connection_def new_connection_def)
qed


lemma raw_wire: "raw_request (wire_request u ps rng) = raw_head (wire_request u ps rng)"
  by (simp add: raw_request_def wire_line)

lemma raw_upgrade: "raw_response (upgrade_response w r) = raw_response_head (upgrade_response w r)"
  by (simp add: raw_response_def upgrade_response_def replace_header_def switching_def set_status_def new_response_def)

lemma upgrade_find:
  "get_header (ascii ''Upgrade'') (upgrade_response w r) = upgrade_token"
  "get_header (ascii ''Connection'') (upgrade_response w r) = connection_token"
  "get_header (ascii ''Content-Length'') (upgrade_response w r) = []"
  "get_header (ascii ''Sec-WebSocket-Extensions'') (upgrade_response w r) = []"
  "get_header (ascii ''Sec-WebSocket-Accept'') (upgrade_response w r) =
    fst (process_handshake_key w (get_header (ascii ''Sec-WebSocket-Key'') r))"
  unfolding get_header_def upgrade_headers
  by (simp_all add: names_less name_irrefl content_length_less extensions_less server_name_less)

lemma upgrade_sendable: "response_sendable (upgrade_response w r)"
proof -
  let ?r = "upgrade_response w r"
  have d: "decimal 101 = ascii ''101''" and s: "status_get_string 101 = ascii ''Switching Protocols''" by code_simp+
  have l: "m_version ?r = ascii ''HTTP/1.1''" "m_status_code ?r = 101" "m_status_msg ?r = ascii ''Switching Protocols''"
    by (simp_all add: upgrade_response_def replace_header_def switching_def set_status_def s)
  have "length (raw_response_head ?r) + length (m_headers ?r) + 2 \<le> max_header_size"
    using accept_ok(1) agent_visible(3)
    by (simp add: raw_response_head_def raw_headers_def upgrade_headers l d crlf_def max_header_size_def
        upgrade_token_def connection_token_def)
  moreover have "token (ascii ''Server'')" unfolding token_def by code_simp
  then have "\<forall>(h, v) \<in> set (m_headers ?r). token h \<and> trimmed v"
    using accept_ok(2) visible_trimmed [OF agent_visible(1)]
    by (simp add: upgrade_headers tokens values_trimmed upgrade_token_def connection_token_def)
  moreover have "headers_ok (m_headers ?r)"
    using names_less server_name_less by (auto simp: headers_ok_def upgrade_headers ci_less_lower)
  moreover have "32 \<notin> set (ascii ''HTTP/1.1'')" "13 \<notin> set (ascii ''HTTP/1.1'')"
    "13 \<notin> set (ascii ''Switching Protocols'')" by (simp_all add: ascii_def)
  ultimately show ?thesis by (simp add: response_sendable_def l upgrade_find)
qed

text \<open>An open connection nobody is told about and that has read nothing.\<close>

lemma opened_silent:
  "open_connection disabled_extension cfg no_handlers [] c =
    Some (read_frame (c\<lparr>m_internal_state := PROCESS_CONNECTION, c_state := Open\<rparr>))"
proof -
  have "read_loop disabled_extension cfg no_handlers [] c = Some (c, True)" for c :: "(unit, 'a) connection"
    by (subst read_loop.simps) simp
  then show ?thesis by (simp add: open_connection_def handle_read_frame_def call_def no_handlers_def)
qed

lemma server_silent_open: "server_connection h cid rng [] a = Some c \<Longrightarrow> c_state c = Open"
proof -
  have "read_loop disabled_extension cfg H [] c = Some (c, True)" for cfg H and c :: "(unit, 'a server) connection"
    by (subst read_loop.simps) simp
  then show "server_connection h cid rng [] a = Some c \<Longrightarrow> c_state c = Open"
    by (auto simp: server_connection_def open_connection_def handle_read_frame_def call_def broadcast_handlers_def
        read_frame_def async_read_def)
qed

lemma client_opens:
  assumes "o_request x = r" "o_processor x = Some Proc13" "o_response x = new_response" "length w = 80" "length ws = 80"
    and "length (get_header (ascii ''Sec-WebSocket-Key'') r) < 2 ^ 28"
    and "o_pending x = [Request_write]" "c_state (o_con x) = Connecting" "m_internal_state (o_con x) = WRITE_HTTP_REQUEST"
  shows "\<exists>y. opening_run (core_setting w k m) client_handlers
      [Request_was_written None, Response_was_read None (raw_response (upgrade_response ws r))] x = Some y
    \<and> c_state (o_con y) = Open \<and> o_pending y = [] \<and> o_uri y = o_uri x \<and> m_handshake_timer (o_con y) = None"
proof -
  let ?S = "core_setting w k m"
  let ?x1 = "(to_istate READ_HTTP_RESPONSE x)\<lparr>o_pending := [Response_read]\<rparr>"
  have e1: "opening_enabled (Request_was_written None) x" "opening_enabled (Response_was_read None buf) ?x1" for buf
    using assms(7) by simp_all
  have h1: "opening_happen ?S client_handlers (Request_was_written None) x = Inr ?x1"
    using assms(7-9) by (simp add: handle_send_http_request_def check_state_def opening_ops)
  obtain res where res: "consume_response (raw_response (upgrade_response ws r)) new_response =
      Inr (length (raw_response (upgrade_response ws r)), res)" "m_status_code res = 101"
    "m_headers res = m_headers (upgrade_response ws r)" "headers_ready res"
    using response_read [OF upgrade_sendable, of ws r "[]"]
    by (auto simp: raw_upgrade) (simp add: upgrade_response_def replace_header_def switching_def set_status_def)
  have g: "get_header key res = get_header key (upgrade_response ws r)" for key
    using res(3) by (simp add: get_header_def)
  let ?k = "get_header (ascii ''Sec-WebSocket-Key'') r"
  have "process_handshake_key w ?k = (fst (process_handshake_key ws ?k), None)"
    using calc_fips [OF assms(4), of "?k @ handshake_guid"] calc_fips [OF assms(5), of "?k @ handshake_guid"] assms(6)
    by (simp add: process_handshake_key_def handshake_guid_def Let_def)
  then have v: "validate_server_handshake_response w r res = None"
    using res(2) has_tokens
    by (simp add: validate_server_handshake_response_def g upgrade_find upgrade_token_def connection_token_def)
  let ?x2 = "on_con cancel_handshake_timer ((answered Response_read ?x1)\<lparr>o_response := res\<rparr>)"
  have n: "proc_negotiate ?S Proc13 res ?x2 = (?x2, None, [])"
    by (rule negotiate_nothing) (simp_all add: absent_extensions g upgrade_find core_setting_def)
  have c: "check_state READ_HTTP_RESPONSE None (answered Response_read ?x1) = Passed"
    using assms(8) by (simp add: check_state_def opening_ops)
  have o: "open_connection (extension.truncate (s_extension ?S)) (s_config ?S) (frame_handlers client_handlers ?x2) [] (o_con ?x2)
      = Some (read_frame ((o_con ?x2)\<lparr>m_internal_state := PROCESS_CONNECTION, c_state := Open\<rparr>))"
    by (simp add: core_setting_def extension_truncated client_handlers_def opened_silent)
  have p: "o_processor ?x2 = Some Proc13" "o_request ?x2 = r" "o_response ?x2 = res"
    "o_response (answered Response_read ?x1) = new_response" "s_sha1 ?S = w"
    using assms(1-3) by (simp_all add: answered_def to_istate_def core_setting_def)
  let ?y = "?x2\<lparr>o_con := read_frame ((o_con ?x2)\<lparr>m_internal_state := PROCESS_CONNECTION, c_state := Open\<rparr>), o_rest := []\<rparr>"
  have "response_complete ?S client_handlers [] ((answered Response_read ?x1)\<lparr>o_response := res\<rparr>) = Inr ?y"
    unfolding response_complete_def Let_def p(1) option.case proc_validate_response.simps p(2,3,5) v n prod.case
    using o p(1) by (simp add: become_open_def)
  then have h2: "opening_happen ?S client_handlers (Response_was_read None (raw_response (upgrade_response ws r))) ?x1 = Inr ?y"
    using c p(4) res(1,4) by (simp add: handle_read_http_response_def Let_def)
  show ?thesis
    unfolding opening_step [OF e1(1) h1] opening_step [OF e1(2) h2]
    using assms(7) by (simp add: read_frame_def async_read_def answered_def to_istate_def cancel_handshake_timer_def)
qed



lemma sample_insecure: "\<not> m_secure sample_uri"
  by (simp add: sample_uri_def uri_of_scheme_port_def scheme_secure_def ascii_def)

text \<open>The sample request in one read, with a byte of a frame behind it.\<close>

lemma handshake_reaches_server_connection_witness:
  "\<exists>bufs r x. length bufs = 1
    \<and> opening_run (core_setting (replicate 80 0) [] []) (program_handlers 1)
      (Initialized None # map (Request_was_read None) bufs @ [Response_was_written None])
      (server_opening (\<lambda>_. 0) demo_server) = Some x
    \<and> server_connection 1 (get_header (ascii ''Client-ID'') r) (\<lambda>_. 0) [0x81] demo_server = Some (o_con x)
    \<and> get_uri False r = sample_uri"
proof -
  let ?w = "wire_request sample_uri [ascii ''chat'', ascii ''superchat''] (\<lambda>_. 0)"
  have "length (raw_head ?w @ [0x81]) \<le> 16384"
    using wire_sendable [OF sample_connectable, of "\<lambda>_. 0"] by (simp add: request_sendable_def max_header_size_def)
  then obtain r where "request_arrives [raw_head ?w @ [0x81]] new_request = Some (r, [0x81])" "upgrade_request r"
    "get_uri False r = sample_uri"
    by (rule wire_arrives [OF sample_connectable sample_insecure])
  then show ?thesis
    using handshake_reaches_server_connection [of "[raw_head ?w @ [0x81]]" r "[0x81]" "replicate 80 0" "[]" "[]" 1
        "\<lambda>_. 0" demo_server]
    by (intro exI [of _ "[raw_head ?w @ [0x81]]"] exI [of _ r]) auto
qed


end
