(* ===== verification/OpeningSafety.thy ===== *)
theory OpeningSafety
  imports OpeningRuns
begin

text \<open>
  The server of the program over all events of its opening handshake, whatever bytes arrive and in
  whatever order reads, writes, timers and shutdowns complete: an invariant kept by every event.
\<close>

subsection \<open>A connection whose handshake has not ended\<close>

definition fresh_writes :: "('d, 'a) connection \<Rightarrow> bool" where
  "fresh_writes c \<longleftrightarrow> m_send_buffer_size c = 0 \<and> m_send_queue c = [] \<and> t_write c = None \<and> m_current_msgs c = []
     \<and> m_send_buffer c = [] \<and> \<not> m_write_flag c \<and> t_dispatch c = 0 \<and> pushed c = [] \<and> wire c = []
     \<and> t_reads c = 0 \<and> senders c = []"

lemma con_waiting_new:
  "con_waiting (c\<lparr>m_processor := new_hybi13 srv limit (), m_hybi00 := Some new_hybi00\<rparr>)"
  "con_waiting (c\<lparr>m_processor := new_hybi13 srv limit (), m_hybi00 := None\<rparr>)"
  using waiting_new
  by (simp_all add: con_waiting_def waiting00_def hybi00_ok_def new_hybi00_def)

definition early :: "'a \<Rightarrow> (unit, 'a) connection \<Rightarrow> bool" where
  "early a c \<longleftrightarrow> m_is_server c \<and> not_http c \<and> fresh_writes c \<and> app c = a \<and> con_waiting c
     \<and> m_open_handshake_timeout_dur c > 0
     \<and> set (t_timers c) \<subseteq> {Open_handshake_timer} \<and> m_handshake_timer c \<in> {None, Some Open_handshake_timer}
     \<and> (c_state c = Connecting \<and> t_shutdown c @ ended c = []
        \<or> c_state c = Closed \<and> t_shutdown c @ ended c = [T_failed])"

text \<open>The timer that ends a handshake is running.\<close>

definition armed :: "('d, 'a) connection \<Rightarrow> bool" where
  "armed c \<longleftrightarrow> m_handshake_timer c = Some Open_handshake_timer \<and> t_timers c = [Open_handshake_timer]"

lemma early_terminate:
  assumes "early a c"
  shows "early a (terminate e c)" "c_state (terminate e c) = Closed"
    "m_internal_state (terminate e c) = m_internal_state c"
proof -
  show "c_state (terminate e c) = Closed" by simp
  show "m_internal_state (terminate e c) = m_internal_state c"
    by (simp add: terminate_def Let_def cancel_handshake_timer_def cancel_timer_def async_shutdown_def split: option.split)
  show "early a (terminate e c)"
    using assms set_remove1_subset [of Open_handshake_timer "t_timers c"]
    by (auto simp: early_def fresh_writes_def not_http_def terminate_def Let_def cancel_handshake_timer_def
        cancel_timer_def async_shutdown_def split: option.split)
qed

lemma early_step:
  assumes "early a c" "conn_enabled ev c" "m_fail_handler H = None"
  shows "\<exists>c'. conn_happen E cfg H ev c = Some c' \<and> early a c' \<and> m_internal_state c' = m_internal_state c
    \<and> (c_state c' = Connecting \<longrightarrow> c_state c = Connecting \<and> (armed c \<longrightarrow> armed c'))
    \<and> (t_timers c = [] \<longrightarrow> t_timers c' = [])"
proof -
  have s: "c_state c \<noteq> Open" using assms(1) by (auto simp: early_def)
  show ?thesis
  proof (cases ev)
    case (Timer_fired t)
    let ?c = "c\<lparr>t_timers := remove1 t (t_timers c)\<rparr>"
    have t: "t = Open_handshake_timer" using assms(1,2) Timer_fired by (auto simp: early_def)
    have "early a ?c"
      using assms(1) set_remove1_subset [of t "t_timers c"] by (auto simp: early_def fresh_writes_def not_http_def)
    from early_terminate [OF this] show ?thesis
      using Timer_fired t assms(2) by (auto simp: handle_open_handshake_timeout_def)
  next
    case Shutdown_done
    then have "c_state c = Closed" "t_shutdown c = [T_failed]" "ended c = []"
      using assms(1,2) by (auto simp: early_def append_eq_Cons_conv)
    then show ?thesis
      using Shutdown_done assms(1,3)
      by (auto simp: early_def fresh_writes_def not_http_def handle_terminate_def call_def armed_def)
  qed (use assms(1,2) s in \<open>auto simp: early_def fresh_writes_def ping_def pong_def close_connection_def\<close>)
qed

subsection \<open>The invariant\<close>

fun phase :: "pending \<Rightarrow> (unit, 'a) opening_con \<Rightarrow> bool" where
  "phase Transport_init x \<longleftrightarrow> in_istate TRANSPORT_INIT x \<and> o_request x = new_request \<and> o_processor x = None
     \<and> t_timers (o_con x) = []"
| "phase Request_read x \<longleftrightarrow> in_istate READ_HTTP_REQUEST x \<and> well_typed (o_request x) \<and> reader_ok (o_request x)
     \<and> (c_state (o_con x) = Connecting \<longrightarrow> armed (o_con x))"
| "phase Response_write x \<longleftrightarrow> in_istate PROCESS_HTTP_REQUEST x
     \<and> (m_status_code (o_response x) = 101 \<longrightarrow> o_processor x \<noteq> None)
     \<and> (c_state (o_con x) = Connecting \<longrightarrow> armed (o_con x))"
| "phase _ x \<longleftrightarrow> False"

text \<open>Before the end of the handshake one thing is pending, or the connection is closed; after it nothing is.\<close>

definition server_inv :: "'s server \<Rightarrow> (unit, 's server) opening_con \<Rightarrow> bool" where
  "server_inv a x \<longleftrightarrow>
     (if in_istate PROCESS_CONNECTION x then o_pending x = [] \<and> running (o_con x)
      else early a (o_con x)
        \<and> (if o_pending x = [] then c_state (o_con x) = Closed
           else \<exists>p. o_pending x = [p] \<and> phase p x)
        \<and> (Request_read \<in> set (o_pending x) \<or> Transport_init \<in> set (o_pending x) \<longrightarrow>
             o_processor x = None \<and> o_response x = new_response))"


subsection \<open>Errors of the parser\<close>

text \<open>No exception of the parser carries the status of a successful upgrade.\<close>

lemma status_101 [simp]:
  "append_header k v p \<noteq> Inl (Http_exception m 101)" "strip_lws s \<noteq> Inl (Http_exception m 101)"
  "process_body inp p \<noteq> Inl (Http_exception m 101)" "prepare_body p \<noteq> Inl (Http_exception m 101)"
  "process_request_line line r \<noteq> Inl (Http_exception m 101)"
  by (auto simp: append_header_def strip_lws_def process_body_def prepare_body_def process_request_line_def
      set_method_def Let_def split: option.splits body_encoding.splits)

lemma header_status [simp]: "process_header line p \<noteq> Inl (Http_exception m 101)"
  by (auto simp: process_header_def split: option.splits sum.splits)

lemma blank_line_status [simp]: "blank_line inp rest r \<noteq> Inl (Http_exception m 101)"
  by (auto simp: blank_line_def Let_def split: option.splits sum.splits bool.splits if_splits)

lemma head_loop_status [simp]: "head_loop inp rest r \<noteq> Inl (Http_exception m 101)"
proof (induction inp rest r rule: head_loop.induct)
  case (1 inp rest r)
  show ?case
  proof (cases "split_on crlf rest")
    case None
    then show ?thesis by (subst head_loop.simps) (simp add: Let_def)
  next
    case (Some ab)
    obtain line rest' where ab: "ab = (line, rest')" by (cases ab)
    let ?r = "r\<lparr>m_header_bytes := m_header_bytes r + (length line + 3)\<rparr>"
    let ?p = "if m_method ?r = [] then process_request_line line ?r else process_header line ?r"
    have "head_loop inp rest' r' \<noteq> Inl (Http_exception m 101)"
      if "\<not> max_header_size < m_header_bytes ?r" "line \<noteq> []" "?p = Inr r'" for r'
      by (rule 1 [OF refl refl refl, of ab line rest' r']) (use Some ab that in auto)
    moreover have "?p \<noteq> Inl (Http_exception m 101)" by simp
    ultimately show ?thesis
      using Some ab by (subst head_loop.simps) (auto simp: Let_def split: sum.split)
  qed
qed

lemma consume_request_status [simp]: "consume_request inp r \<noteq> Inl (Http_exception m 101)"
  by (auto simp: consume_request_def split: option.splits sum.splits)


subsection \<open>The answer to a request\<close>

text \<open>Processing a request changes nothing of the connection besides the request, the response and the URI.\<close>

definition same_con :: "(unit, 'a) opening_con \<Rightarrow> (unit, 'a) opening_con \<Rightarrow> bool" where
  "same_con x y \<longleftrightarrow> o_con y = o_con x \<and> o_processor y = o_processor x \<and> o_pending y = o_pending x"

lemma same_con_simps [simp]:
  "same_con x x" "same_con x (answer_with code y) = same_con x y" "same_con x (y\<lparr>o_response := res\<rparr>) = same_con x y"
  "same_con x (y\<lparr>o_uri := u\<rparr>) = same_con x y" "same_con x (y\<lparr>m_requested_subprotocols := ps\<rparr>) = same_con x y"
  "m_status_code (o_response (answer_with code y)) = code"
  "o_processor (answer_with code y) = o_processor y"
  by (simp_all add: same_con_def answer_with_def set_status_def)

lemma tokens00: "\<not> list_ex is_not_token_char (ascii ''Sec-WebSocket-Key3'')"
  "\<not> list_ex is_not_token_char (ascii ''Sec-WebSocket-Origin'')"
  "\<not> list_ex is_not_token_char (ascii ''Sec-WebSocket-Location'')"
  by code_simp+

lemma process_handshake_returns:
  "\<exists>res'. proc_process_handshake S p secure r sub res = Inr (None, res') \<and> m_status_code res' = m_status_code res"
proof -
  have a: "\<exists>res'. append_header k v res = Inr res' \<and> m_status_code res' = m_status_code res"
    if "\<not> list_ex is_not_token_char k" for k v and res :: response
    using that by (simp add: append_header_def replace_header_def)
  have t: "\<exists>res'. then_do (Inr res) f = Inr res' \<and> m_status_code res' = m_status_code res"
    if "\<exists>res'. f res = Inr res' \<and> m_status_code res' = m_status_code res" for f and res :: response
    using that by (simp add: then_do_def)
  show ?thesis
  proof (cases "p = Proc00")
    case True
    obtain r1 where r1: "append_header (ascii ''Sec-WebSocket-Key3'') (md5_hash_string (s_md5 S) (final_key (s_key00 S) r)) res = Inr r1"
      "m_status_code r1 = m_status_code res" using a [OF tokens00(1)] by blast
    obtain r2 where r2: "append_header (ascii ''Upgrade'') (ascii ''WebSocket'') r1 = Inr r2" "m_status_code r2 = m_status_code r1"
      using a tokens_here(2) by blast
    obtain r3 where r3: "append_header (ascii ''Connection'') (ascii ''Upgrade'') r2 = Inr r3" "m_status_code r3 = m_status_code r2"
      using a tokens_here(3) by blast
    obtain r4 where r4: "append_header (ascii ''Sec-WebSocket-Origin'') (get_header (ascii ''Origin'') r) r3 = Inr r4"
      "m_status_code r4 = m_status_code r3" using a [OF tokens00(2)] by blast
    have l: "\<exists>r5. append_header (ascii ''Sec-WebSocket-Location'') v q = Inr r5 \<and> m_status_code r5 = m_status_code q" for v and q :: response
      using a [OF tokens00(3)] by blast
    show ?thesis
      using True r1 r2 r3 r4 l [of "uri_str (get_uri00 secure r)" r3] l [of "uri_str (get_uri00 secure r)" r4]
      by (auto simp: process_handshake00_def then_do_def replace_header_def)
  next
    case False
    then have "proc_process_handshake S p secure r sub res = process_handshake (s_sha1 S) r sub res" by (cases p) simp_all
    then show ?thesis
      by (auto simp: process_handshake_def process_handshake_key_def append_header_def replace_header_def tokens_here Let_def)
  qed
qed

lemma negotiate_same: "same_con x (fst (proc_negotiate (core_setting w k m) p r x))"
  "o_response (fst (proc_negotiate (core_setting w k m) p r x)) = o_response x"
proof -
  have d: "m_processor c\<lparr>m_permessage_deflate := d\<rparr> = m_processor c" for c :: "(unit, 'a) connection" and d
    by simp
  show "same_con x (fst (proc_negotiate (core_setting w k m) p r x))"
    "o_response (fst (proc_negotiate (core_setting w k m) p r x)) = o_response x"
    by (cases p; auto simp: same_con_def on_con_def d Let_def split: prod.split)+
qed

lemma process_handshake_request_safe:
  assumes "in_istate PROCESS_HTTP_REQUEST x" "m_status_code (o_response x) \<noteq> 101"
    and "is_websocket_handshake (o_request x) \<Longrightarrow> o_processor x \<noteq> None"
  shows "\<exists>y ec. process_handshake_request (core_setting w k m) (program_handlers h) x = Inr (y, ec) \<and> same_con x y
    \<and> (m_status_code (o_response y) = 101 \<longrightarrow> o_processor y \<noteq> None) \<and> ec \<noteq> Some (WsError E_http_connection_ended)"
proof (cases "is_websocket_handshake (o_request x)")
  case False
  then show ?thesis
    using assms(1,2)
    by (auto simp: process_handshake_request_def process_plain_request_def program_handlers_def con_set_status_def
        in_istate_def same_con_def answer_with_def set_status_def Let_def)
next
  case True
  then obtain p where p: "o_processor x = Some p" using assms(3) by blast
  let ?S = "core_setting w k m"
  obtain y ec reply where n: "proc_negotiate ?S p (o_request x) x = (y, ec, reply)" by (cases "proc_negotiate ?S p (o_request x) x") auto
  have y: "same_con x y" using negotiate_same(1) [of x w k m p "o_request x"] n by simp
  then have py: "o_processor y = Some p" using p by (simp add: same_con_def)
  have e: "proc_validate_handshake p r \<noteq> Some (WsError E_http_connection_ended)" for r
    by (cases p) (auto simp: validate_handshake_def validate_handshake00_def)
  have a: "\<exists>z ec. answer_upgrade ?S (program_handlers h) p z0 = Inr (z, ec) \<and> same_con x z
      \<and> (m_status_code (o_response z) = 101 \<longrightarrow> o_processor z \<noteq> None) \<and> ec \<noteq> Some (WsError E_http_connection_ended)"
    if "same_con x z0" for z0
  proof -
    obtain res' where "proc_process_handshake ?S p (is_secure z0) (o_request z0) (m_subprotocol z0) (set_status 101 (o_response z0)) = Inr (None, res')"
      using process_handshake_returns by blast
    then show ?thesis
      using that p by (simp add: answer_upgrade_def program_handlers_def answer_with_def Let_def) (simp add: same_con_def)
  qed
  show ?thesis
    using True p n e y py a
    by (auto simp: process_handshake_request_def process_upgrade_def Let_def split: option.split prod.split)
qed


lemma early_simps [simp]:
  "early a (c\<lparr>m_ec := e\<rparr>) = early a c" "early a (c\<lparr>m_internal_state := i\<rparr>) = early a c"
  "armed (c\<lparr>m_ec := e\<rparr>) = armed c" "armed (c\<lparr>m_internal_state := i\<rparr>) = armed c"
  by (simp_all add: early_def fresh_writes_def not_http_def armed_def)

lemma write_response_facts:
  assumes "ec \<noteq> Some (WsError E_http_connection_ended)"
  shows "\<exists>e. o_con (write_http_response ec x) = (o_con x)\<lparr>m_ec := e\<rparr>"
    "o_pending (write_http_response ec x) = o_pending x @ [Response_write]"
    "o_processor (write_http_response ec x) = o_processor x"
    "m_status_code (o_response (write_http_response ec x)) = 101 \<longleftrightarrow> m_status_code (o_response x) = 101"
  using assms
  by (auto simp: write_http_response_def opening_ops set_status_def replace_header_def remove_header_def Let_def)

lemma write_response_inv:
  assumes "ec \<noteq> Some (WsError E_http_connection_ended)" "early a (o_con x)" "armed (o_con x)" "o_pending x = []"
    and "in_istate PROCESS_HTTP_REQUEST x" "m_status_code (o_response x) = 101 \<longrightarrow> o_processor x \<noteq> None"
  shows "server_inv a (write_http_response ec x)"
proof -
  obtain e where "o_con (write_http_response ec x) = (o_con x)\<lparr>m_ec := e\<rparr>"
    using write_response_facts(1) [OF assms(1)] by blast
  then show ?thesis
    using assms write_response_facts(2-4) [OF assms(1), of x] by (simp add: server_inv_def in_istate_def)
qed

lemma stop_inv:
  assumes "early a (o_con x)" "o_pending x = []" "\<not> in_istate PROCESS_CONNECTION x"
  shows "server_inv a (stop e x)"
  using assms early_terminate [OF assms(1)] by (simp add: server_inv_def stop_def in_istate_def)

lemma write_error_inv:
  assumes "ec \<noteq> Some (WsError E_http_connection_ended)" "early a (o_con x)" "armed (o_con x)" "o_pending x = []"
    and "in_istate READ_HTTP_REQUEST x" "m_status_code (o_response x) \<noteq> 101"
  shows "server_inv a (write_http_response_error ec x)"
  unfolding write_http_response_error_def
  using assms write_response_inv [of ec a "to_istate PROCESS_HTTP_REQUEST x"] by (simp add: to_istate_def in_istate_def)

lemma process_request_inv:
  assumes "early a (o_con x)" "armed (o_con x)" "o_pending x = []" "in_istate READ_HTTP_REQUEST x"
    and "m_status_code (o_response x) \<noteq> 101" "is_websocket_handshake (o_request x) \<Longrightarrow> o_processor x \<noteq> None"
  shows "\<exists>y. process_request (core_setting w k m) (program_handlers h) rest x = Inr y \<and> server_inv a y"
proof -
  let ?x = "to_istate PROCESS_HTTP_REQUEST (x\<lparr>o_rest := rest\<rparr>)"
  obtain y ec where y: "process_handshake_request (core_setting w k m) (program_handlers h) ?x = Inr (y, ec)" "same_con ?x y"
    "m_status_code (o_response y) = 101 \<longrightarrow> o_processor y \<noteq> None" "ec \<noteq> Some (WsError E_http_connection_ended)"
    using process_handshake_request_safe [of ?x w k m h] assms(5,6) by (auto simp: to_istate_def in_istate_def)
  have c: "early a (o_con y)" "armed (o_con y)" "o_pending y = []" "in_istate PROCESS_HTTP_REQUEST y"
    using y(2) assms(1-3) by (simp_all add: same_con_def to_istate_def in_istate_def)
  have n: "\<not> m_is_http (o_con y)" using c(1) by (simp add: early_def not_http_def)
  have "server_inv a (write_http_response ec y)" by (rule write_response_inv) (use y c in auto)
  then show ?thesis using y(1) n by (simp add: process_request_def)
qed

lemma install_early:
  "early a (o_con x) \<Longrightarrow> early a (o_con (install (core_setting w k m) p x))"
  "armed (o_con (install S p x)) = armed (o_con x)" "o_pending (install S p x) = o_pending x"
  "in_istate i (install S p x) = in_istate i x"
  "o_response (install S p x) = o_response x" "o_request (install S p x) = o_request x" "o_processor (install S p x) = p"
  by (cases "p = Some Proc00", simp_all add: con_waiting_new install_def early_def fresh_writes_def not_http_def armed_def in_istate_def core_setting_def)

lemma request_complete_inv:
  assumes "early a (o_con x)" "armed (o_con x)" "o_pending x = []" "in_istate READ_HTTP_REQUEST x"
    and "o_response x = new_response" "o_processor x = None"
  shows "\<exists>y. request_complete (core_setting w k m) (program_handlers h) rest x = Inr y \<and> server_inv a y"
proof -
  let ?S = "core_setting w k m" and ?H = "program_handlers h"
  have s: "m_status_code (o_response x) = 0" using assms(5) by (simp add: new_response_def)
  show ?thesis
  proof (cases "is_websocket_handshake (o_request x)")
    case False
    then have "request_complete ?S ?H rest x = process_request ?S ?H rest x"
      using assms(6) by (simp add: request_complete_def initialize_processor_def)
    moreover have "\<exists>y. process_request ?S ?H rest x = Inr y \<and> server_inv a y"
      by (rule process_request_inv) (use assms s False in auto)
    ultimately show ?thesis by simp
  next
    case True
    let ?v = "get_websocket_version (o_request x)"
    let ?y = "install ?S (get_processor ?v) x"
    note i = install_early
    show ?thesis
    proof (cases "?v < 0 \<or> get_processor ?v = None")
      case bad: True
      have "early a (o_con ?y)" by (rule i(1) [OF assms(1)])
      then have w: "server_inv a (write_http_response_error (Some (WsError e)) (?y\<lparr>o_response := res\<rparr>))"
        "server_inv a (write_http_response_error (Some (WsError e)) (x\<lparr>o_response := res\<rparr>))"
        if "e \<noteq> E_http_connection_ended" "m_status_code res \<noteq> 101" for e res
        using that assms by (auto intro!: write_error_inv simp: i(2-7) in_istate_def) (simp add: install_def on_con_def)
      show ?thesis
      proof (cases "?v < 0")
        case True
        then show ?thesis
          using \<open>is_websocket_handshake (o_request x)\<close> w(2) [of E_invalid_version "set_status 400 (o_response x)"]
          by (simp add: request_complete_def initialize_processor_def answer_with_def set_status_def)
      next
        case False
        then have "o_processor ?y = None" using bad by (simp add: i(7))
        then show ?thesis
          using False \<open>is_websocket_handshake (o_request x)\<close>
            w(1) [of E_unsupported_version "replace_header (ascii ''Sec-WebSocket-Version'')
              (separated (map decimal versions_supported)) (set_status 400 (o_response x))"]
          by (simp add: request_complete_def initialize_processor_def answer_with_def set_status_def replace_header_def
              i(5) Let_def)
      qed
    next
      case False
      then obtain p where p: "get_processor ?v = Some p" "\<not> ?v < 0" by auto
      have init: "initialize_processor ?S x = (?y, None)"
        using True p by (simp add: initialize_processor_def i(7) Let_def)
      have y: "early a (o_con ?y)" "armed (o_con ?y)" "o_pending ?y = []" "in_istate READ_HTTP_REQUEST ?y"
        "m_status_code (o_response ?y) = 0" "o_processor ?y = Some p"
        using assms i(1) [OF assms(1)] p(1) s by (simp_all add: i(2-7))
      have go: "\<exists>z. process_request ?S ?H rest' (?y\<lparr>o_request := r\<rparr>) = Inr z \<and> server_inv a z" for rest' r
        by (rule process_request_inv) (use y in \<open>simp_all add: in_istate_def\<close>)
      have "server_inv a (write_http_response_error (Some (ProcError P_short_key3)) (answer_with 500 ?y))"
        by (rule write_error_inv) (use y in \<open>simp_all add: answer_with_def set_status_def in_istate_def\<close>)
      moreover have "?y = ?y\<lparr>o_request := o_request ?y\<rparr>" by simp
      ultimately show ?thesis
        using init y(6) go go [of rest "o_request ?y"] by (auto simp: request_complete_def)
    qed
  qed
qed


subsection \<open>The events\<close>

lemma start_inv: "server_inv a (server_opening rng a)"
  using waiting_new
  by (simp add: con_waiting_def server_inv_def server_opening_def start_opening_def new_opening_def opening_ops core_connection_def
      new_connection_def early_def fresh_writes_def not_http_def core_timeout_def)

lemma init_inv:
  assumes "server_inv a x" "opening_enabled (Initialized ec) x"
  shows "\<exists>y. opening_happen S H (Initialized ec) x = Inr y \<and> server_inv a y"
proof -
  have x: "early a (o_con x)" "o_pending x = [Transport_init]" "in_istate TRANSPORT_INIT x"
    "o_request x = new_request" "o_processor x = None" "o_response x = new_response" "t_timers (o_con x) = []"
    using assms by (auto simp: server_inv_def split: if_splits)
  have closed: "server_inv a (stop e (answered Transport_init x))" for e
    using x by (intro stop_inv) (auto simp: answered_def in_istate_def)
  have r: "well_typed new_request" "reader_ok new_request"
    by (simp_all add: well_typed_def reader_ok_def new_request_def token_def crlf_def)
  show ?thesis
  proof (cases ec)
    case (Some e)
    then show ?thesis using closed x(3) by (simp add: handle_transport_init_def answered_def in_istate_def)
  next
    case None
    have t: "m_is_server (o_con x)" "m_open_handshake_timeout_dur (o_con x) > 0" using x(1) by (simp_all add: early_def)
    show ?thesis
      using None x r t
      by (simp add: handle_transport_init_def opening_ops read_handshake_def server_inv_def)
        (auto simp: early_def fresh_writes_def not_http_def set_timer_def armed_def)
  qed
qed

lemma pending_phase:
  assumes "server_inv a x" "p \<in> set (o_pending x)"
  shows "o_pending x = [p]" "phase p x" "early a (o_con x)" "\<not> in_istate PROCESS_CONNECTION x"
  using assms by (auto simp: server_inv_def split: if_splits)

lemma check_state_cases:
  assumes "early a (o_con x)" "in_istate i x"
  shows "check_state i ec x = Ignored \<and> c_state (o_con x) = Closed
    \<or> (\<exists>e. check_state i ec x = Failed e) \<or> check_state i ec x = Passed \<and> c_state (o_con x) = Connecting"
  using assms by (auto simp: check_state_def early_def split: option.split)

text \<open>A handler that ignores its event, or ends the connection, leaves nothing pending.\<close>

lemma answered_inv:
  assumes "server_inv a x" "p \<in> set (o_pending x)"
  shows "early a (o_con (answered p x))" "o_pending (answered p x) = []"
    "\<not> in_istate PROCESS_CONNECTION (answered p x)" "in_istate i (answered p x) = in_istate i x"
    "c_state (o_con x) = Closed \<Longrightarrow> server_inv a (answered p x)" "server_inv a (stop e (answered p x))"
proof -
  note x = pending_phase [OF assms]
  show a: "early a (o_con (answered p x))" "o_pending (answered p x) = []"
    "\<not> in_istate PROCESS_CONNECTION (answered p x)" "in_istate i (answered p x) = in_istate i x"
    using x by (simp_all add: answered_def in_istate_def)
  show "server_inv a (stop e (answered p x))" using a(1-3) by (rule stop_inv)
  show "c_state (o_con x) = Closed \<Longrightarrow> server_inv a (answered p x)"
    using a(1-3) by (simp add: server_inv_def answered_def)
qed

lemma read_inv:
  assumes "server_inv a x" "Request_read \<in> set (o_pending x)"
  shows "\<exists>y. opening_happen (core_setting w k m) (program_handlers h) (Request_was_read ec buf) x = Inr y \<and> server_inv a y"
proof -
  note x = pending_phase [OF assms] and y = answered_inv [OF assms]
  let ?y = "answered Request_read x"
  have i: "in_istate READ_HTTP_REQUEST ?y" "well_typed (o_request ?y)" "reader_ok (o_request ?y)"
    using x(2) by (simp_all add: answered_def in_istate_def)
  have n: "o_processor ?y = None" "o_response ?y = new_response"
    using assms x(4) by (auto simp: server_inv_def answered_def split: if_splits)
  consider "check_state READ_HTTP_REQUEST ec ?y = Ignored" "c_state (o_con x) = Closed"
    | e where "check_state READ_HTTP_REQUEST ec ?y = Failed e"
    | "check_state READ_HTTP_REQUEST ec ?y = Passed" "c_state (o_con x) = Connecting"
    using check_state_cases [OF y(1) i(1), of ec] by (auto simp: answered_def)
  then show ?thesis
  proof cases
    case 1
    then show ?thesis using y(5) by (simp add: handle_read_handshake_def)
  next
    case 2
    then show ?thesis using y(6) by (simp add: handle_read_handshake_def)
  next
    case 3
    then have armed: "armed (o_con ?y)" using x(2) by (simp add: answered_def)
    show ?thesis
    proof (cases "connection_read_buffer_size (core_setting w k m) < length buf")
      case True
      then show ?thesis using 3 y(6) by (simp add: handle_read_handshake_def)
    next
      case False
      have g: "good_result buf (o_request ?y) (consume_request buf (o_request ?y))"
        by (rule consume_request_good [OF i(2,3)])
      show ?thesis
      proof (cases "consume_request buf (o_request ?y)")
        case (Inl e)
        then obtain msg c where e: "e = Http_exception msg c" using g by (auto simp: good_result_def split: exn.splits)
        then have "c \<noteq> 101" using Inl by (metis consume_request_status)
        then have "server_inv a (write_http_response_error (Some (WsError E_http_parse_error))
            (?y\<lparr>o_response := set_status_msg c [] (o_response ?y)\<rparr>))"
          using y(1-3) i(1) armed by (intro write_error_inv) (simp_all add: in_istate_def set_status_msg_def)
        then show ?thesis using 3 False Inl e by (simp add: handle_read_handshake_def)
      next
        case (Inr nr)
        obtain n' r where nr: "nr = (n', r)" by (cases nr)
        then have r: "well_typed r" "reader_ok r" "n' \<le> length buf" using g Inr by (auto simp: good_result_def)
        let ?z = "?y\<lparr>o_request := r\<rparr>"
        have "\<exists>z. request_complete (core_setting w k m) (program_handlers h) (drop n' buf) ?z = Inr z \<and> server_inv a z"
          by (rule request_complete_inv) (use y(1-3) i(1) armed n in \<open>simp_all add: in_istate_def\<close>)
        moreover have "server_inv a (ask Request_read ?z)"
          using y i(1) r armed n by (simp add: server_inv_def ask_def in_istate_def)
        ultimately show ?thesis
          using 3 False Inr nr r(3) by (simp add: handle_read_handshake_def)
      qed
    qed
  qed
qed


lemma opened_inv:
  assumes "early a (o_con x)" "c_state (o_con x) = Connecting" "o_processor x \<noteq> None" "o_pending x = []"
  shows "\<exists>y. become_open (core_setting w k m) (program_handlers h) rest x = Inr y \<and> server_inv a y"
proof -
  let ?c = "(o_con x)\<lparr>m_internal_state := PROCESS_CONNECTION, c_state := Open\<rparr>"
  have "conn_ok ?c"
    using assms(1,2) by (auto simp: early_def fresh_writes_def conn_ok_def write_ok_def life_ok_def)
  then obtain c where c: "open_connection disabled_extension core_config (frame_handlers (program_handlers h) x) rest (o_con x) = Some c"
    "running c"
    using srv.any_opened_running [of "o_con x" h "get_request_header (ascii ''Client-ID'') x" rest] assms(1)
    by (auto simp: early_def fresh_writes_def program_handlers_def)
  moreover have "m_internal_state c = PROCESS_CONNECTION" using c(2) by (simp add: running_def conn_ok_def life_ok_def)
  ultimately show ?thesis
    using assms(3,4)
    by (auto simp: become_open_def core_setting_def extension_truncated server_inv_def in_istate_def)
qed

lemma write_inv:
  assumes "server_inv a x" "Response_write \<in> set (o_pending x)"
  shows "\<exists>y. opening_happen (core_setting w k m) (program_handlers h) (Response_was_written ec) x = Inr y \<and> server_inv a y"
proof -
  note x = pending_phase [OF assms] and y = answered_inv [OF assms]
  let ?y = "answered Response_write x"
  have i: "in_istate PROCESS_HTTP_REQUEST ?y" using x(2) by (simp add: answered_def in_istate_def)
  consider "check_state PROCESS_HTTP_REQUEST ec ?y = Ignored" "c_state (o_con x) = Closed"
    | e where "check_state PROCESS_HTTP_REQUEST ec ?y = Failed e"
    | "check_state PROCESS_HTTP_REQUEST ec ?y = Passed" "c_state (o_con x) = Connecting"
    using check_state_cases [OF y(1) i(1), of ec] by (auto simp: answered_def)
  then show ?thesis
  proof cases
    case 1
    then show ?thesis using y(5) by (simp add: handle_write_http_response_def)
  next
    case 2
    then show ?thesis using y(6) by (simp add: handle_write_http_response_def)
  next
    case 3
    let ?z = "on_con cancel_handshake_timer ?y"
    have c: "early a (o_con ?z)" "c_state (o_con ?z) = Connecting" "m_internal_state (o_con ?z) = m_internal_state (o_con x)"
      using x(3) 3(2) set_remove1_subset [of Open_handshake_timer "t_timers (o_con x)"]
      by (auto simp: answered_def cancel_handshake_timer_def cancel_timer_def early_def fresh_writes_def not_http_def
          split: option.split)
    have z: "o_pending ?z = []" "\<not> in_istate PROCESS_CONNECTION ?z" "o_response ?z = o_response x"
      "o_processor ?z = o_processor x" "o_rest ?z = o_rest x" "\<not> m_is_http (o_con ?z)"
      using y(2) x(4) c by (simp_all add: in_istate_def answered_def early_def not_http_def)
    show ?thesis
    proof (cases "m_status_code (o_response x) = 101")
      case True
      then have "o_processor ?z \<noteq> None" using x(2) z(4) by simp
      with c(1,2) have "\<exists>y. become_open (core_setting w k m) (program_handlers h) (o_rest ?z) ?z = Inr y \<and> server_inv a y"
        using z(1) by (intro opened_inv)
      then show ?thesis using True 3(1) z(3,5) by (simp add: handle_write_http_response_def Let_def)
    next
      case False
      have "server_inv a (stop (m_ec (o_con ?z)) ?z)" using c(1) z(1,2) by (rule stop_inv)
      then show ?thesis using False 3(1) z(3,6) by (simp add: handle_write_http_response_def Let_def)
    qed
  qed
qed

lemma conn_event_inv:
  assumes "server_inv a x" "opening_enabled (Event ev) x"
  shows "\<exists>y. opening_happen (core_setting w k m) (program_handlers h) (Event ev) x = Inr y \<and> server_inv a y"
proof -
  let ?H = "frame_handlers (program_handlers h) x"
  have H: "?H = broadcast_handlers h (get_request_header (ascii ''Client-ID'') x)" by (simp add: program_handlers_def)
  show ?thesis
  proof (cases "in_istate PROCESS_CONNECTION x")
    case True
    then have r: "running (o_con x)" using assms by (auto simp: server_inv_def)
    obtain c where c: "conn_happen disabled_extension core_config ?H ev (o_con x) = Some c" "running c"
      using srv.happen_running [OF r, of ev h "get_request_header (ascii ''Client-ID'') x"] assms(2) H by auto
    then have "m_internal_state c = PROCESS_CONNECTION" by (simp add: running_def conn_ok_def life_ok_def)
    then show ?thesis
      using c True assms(1) by (simp add: core_setting_def extension_truncated server_inv_def in_istate_def)
  next
    case False
    then have e: "early a (o_con x)" using assms(1) by (simp add: server_inv_def)
    have f: "m_fail_handler ?H = None" by (simp add: H broadcast_handlers_def)
    obtain c where c: "conn_happen disabled_extension core_config ?H ev (o_con x) = Some c" "early a c"
      "m_internal_state c = m_internal_state (o_con x)"
      "c_state c = Connecting \<longrightarrow> c_state (o_con x) = Connecting \<and> (armed (o_con x) \<longrightarrow> armed c)"
      "t_timers (o_con x) = [] \<longrightarrow> t_timers c = []"
      using early_step [OF e _ f, of ev disabled_extension core_config] assms(2) by auto
    have ph: "phase p (x\<lparr>o_con := c\<rparr>)" if "phase p x" for p
      using that c by (cases p) (auto simp: in_istate_def)
    have "c_state (o_con x) = Closed \<Longrightarrow> c_state c = Closed" using c(2,4) by (auto simp: early_def)
    then have "server_inv a (x\<lparr>o_con := c\<rparr>)"
      using assms(1) False c(2,3) ph by (auto simp: server_inv_def in_istate_def split: if_splits)
    then show ?thesis using c(1) by (simp add: core_setting_def extension_truncated)
  qed
qed

lemma server_step:
  assumes "server_inv a x" "opening_enabled ev x"
  shows "\<exists>y. opening_happen (core_setting w k m) (program_handlers h) ev x = Inr y \<and> server_inv a y"
proof (cases ev)
  case (Initialized ec)
  then show ?thesis using init_inv assms by blast
next
  case (Request_was_read ec buf)
  then show ?thesis using read_inv [OF assms(1), of w k m h ec buf] assms(2) by simp
next
  case (Response_was_written ec)
  then show ?thesis using write_inv [OF assms(1), of w k m h ec] assms(2) by simp
next
  case (Request_was_written ec)
  then show ?thesis using pending_phase(2) [OF assms(1), of Request_write] assms(2) by simp
next
  case (Response_was_read ec buf)
  then show ?thesis using pending_phase(2) [OF assms(1), of Response_read] assms(2) by simp
next
  case Response_sent
  have "not_http (o_con x)" using assms(1) by (auto simp: server_inv_def early_def running_def split: if_splits)
  then show ?thesis using Response_sent assms(1) by (simp add: send_http_response_def not_http_def)
next
  case (Event e)
  then show ?thesis using conn_event_inv assms by blast
qed


lemma reachable_inv:
  assumes "opening_reachable (core_setting w k m) (program_handlers h) (server_opening rng a) x"
  shows "server_inv a x"
  using assms
proof (induction rule: opening_reachable.induct)
  case (opening_event x ev y)
  then show ?case using server_step [of a x ev w k m h] by auto
qed (rule start_inv)

subsection \<open>What it gives\<close>



text \<open>A server that has started reads bytes that are no request.\<close>

definition sample_reading :: "(unit, unit server) opening_con" where
  "sample_reading = (server_reading (\<lambda>_. 0) demo_server)\<lparr>o_pending := [Request_read]\<rparr>"

lemma sample_reachable:
  "opening_reachable S H (server_opening (\<lambda>_. 0) demo_server) sample_reading"
  unfolding sample_reading_def by (rule opening_event [OF opening_start server_starts])



subsection \<open>Handshakes that fail\<close>

text \<open>a client that gets a response it accepts but whose extension header does not parse ends the
  connection, and then opens it: the shutdown is under way and the state is open.\<close>

theorem extension_failure_reopens:
  fixes x :: "(unit, 'a) opening_con"
  assumes "o_processor x = Some Proc13" "c_state (o_con x) = Connecting"
    and "validate_server_handshake_response w (o_request x) (o_response x) = None"
    and "get_header_as_plist (ascii ''Sec-WebSocket-Extensions'') (o_response x) = (True, ps)"
  shows "\<exists>y. response_complete (core_setting w k m) client_handlers [] x = Inr y \<and> c_state (o_con y) = Open
    \<and> t_shutdown (o_con y) = t_shutdown (o_con x) @ [T_failed] \<and> m_ec (o_con y) = Some (WsError E_extension_neg_failed)"
proof -
  let ?S = "core_setting w k m" and ?x = "on_con cancel_handshake_timer x"
  have n: "proc_negotiate ?S Proc13 (o_response ?x) ?x = (?x, Some (ProcError P_extension_parse_error), [])"
    using assms(4) by (simp add: core_setting_def negotiate_extensions_helper_def on_con_def)
  have s: "s_sha1 ?S = w" by (simp add: core_setting_def)
  have "open_connection (extension.truncate (s_extension ?S)) (s_config ?S) (frame_handlers client_handlers z) [] c =
      Some (read_frame (c\<lparr>m_internal_state := PROCESS_CONNECTION, c_state := Open\<rparr>))" for z :: "(unit, 'a) opening_con" and c
    by (simp add: core_setting_def extension_truncated client_handlers_def opened_silent)
  then have "become_open ?S client_handlers [] z =
      Inr (z\<lparr>o_con := read_frame ((o_con z)\<lparr>m_internal_state := PROCESS_CONNECTION, c_state := Open\<rparr>), o_rest := []\<rparr>)"
    if "o_processor z = Some Proc13" for z :: "(unit, 'a) opening_con" using that by (simp add: become_open_def)
  moreover have "response_complete ?S client_handlers [] x =
      become_open ?S client_handlers [] (stop (Some (WsError E_extension_neg_failed)) ?x)"
    unfolding response_complete_def Let_def using assms(1,3) n s by simp
  ultimately show ?thesis
    using assms(1,2) by (simp add: stop_def read_frame_def async_read_def terminate_def async_shutdown_def
        cancel_handshake_timer_def cancel_timer_def Let_def split: option.split)
qed

text \<open>A request without an upgrade is answered with the status 426 and the connection ended.\<close>

lemma plain_request_426:
  assumes "\<not> is_websocket_handshake (o_request x)" "m_valid (get_uri_from_host (o_request x) (ascii ''http''))"
    "\<not> is_secure x" "in_istate PROCESS_HTTP_REQUEST x"
  shows "\<exists>y. process_handshake_request S (program_handlers h) x = Inr (y, Some (WsError E_upgrade_required))
    \<and> m_status_code (o_response y) = 426 \<and> o_con y = o_con x"
  using assms by (simp add: process_handshake_request_def process_plain_request_def program_handlers_def
      con_set_status_def in_istate_def set_status_def Let_def)

lemma extension_failure_reopens_witness:
  "let r = wire_request sample_uri [] (\<lambda>_. 0);
       x = (new_opening (core_connection False (\<lambda>_. 0) ()) None [] 0 False)\<lparr>o_request := r, o_processor := Some Proc13,
         o_response := replace_header (ascii ''Sec-WebSocket-Extensions'') (ascii '';'') (upgrade_response (replicate 80 0) r)\<rparr>
   in \<exists>y. response_complete (core_setting (replicate 80 0) [] []) client_handlers [] x = Inr y \<and> c_state (o_con y) = Open
    \<and> t_shutdown (o_con y) = t_shutdown (o_con x) @ [T_failed] \<and> m_ec (o_con y) = Some (WsError E_extension_neg_failed)"
  unfolding Let_def
proof (rule extension_failure_reopens)
  let ?r = "wire_request sample_uri [] (\<lambda>_. 0)" and ?w = "replicate 80 0"
  let ?res = "replace_header (ascii ''Sec-WebSocket-Extensions'') (ascii '';'') (upgrade_response ?w ?r)"
  let ?x = "(new_opening (core_connection False (\<lambda>_. 0) ()) None [] 0 False)\<lparr>o_request := ?r, o_processor := Some Proc13,
    o_response := ?res\<rparr>"
  show "o_processor ?x = Some Proc13" "c_state (o_con ?x) = Connecting"
    by (simp_all add: new_opening_def core_connection_def new_connection_def)
  have h: "m_headers ?res =
    [(ascii ''Connection'', connection_token),
     (ascii ''Sec-WebSocket-Accept'', fst (process_handshake_key ?w (get_header (ascii ''Sec-WebSocket-Key'') ?r))),
     (ascii ''Sec-WebSocket-Extensions'', ascii '';''),
     (ascii ''Server'', core_user_agent), (ascii ''Upgrade'', upgrade_token)]"
    unfolding replace_header_def by (simp add: upgrade_headers extensions_less)
  have "m_status_code ?res = 101"
    by (simp add: replace_header_def upgrade_response_def switching_def set_status_def)
  then have "validate_server_handshake_response ?w ?r ?res = None"
    using has_tokens h calc_fips [of ?w]
    by (simp add: validate_server_handshake_response_def get_header_def names_less name_irrefl extensions_less
        server_name_less upgrade_token_def connection_token_def process_handshake_key_def Let_def)
  then show "validate_server_handshake_response ?w (o_request ?x) (o_response ?x) = None" by simp
  have "parse_parameter_list (ascii '';'') = (True, [])" "ascii '';'' \<noteq> []" by code_simp+
  then show "get_header_as_plist (ascii ''Sec-WebSocket-Extensions'') (o_response ?x) = (True, [])"
    using h by (simp add: get_header_as_plist_def extensions_less name_irrefl)
qed

end
