(* ===== verification/AsioTransport.thy ===== *)
theory AsioTransport
  imports Errors Request Response Base64
begin

text \<open>
  The transport of a connection, \<open>transport/asio/connection.hpp\<close> over the plain socket of
  \<open>security/none.hpp\<close> or a socket that initialises and shuts down asynchronously: timers, the
  initialisation with an optional proxy, reading, writing and the shutdown. Asio is an environment of
  timers and operations that are under way; what the transport tells the connection is the list of
  its callbacks in the order they are made.
\<close>

subsection \<open>The environment\<close>

text \<open>
  A timer waits, was cancelled before it elapsed, or elapsed; then its callback is queued. An operation
  is under way until it completes with an error code and the bytes read, if any.
\<close>

datatype wait = Waiting | Cancelled | Elapsed | Done

datatype timer_callback = Post_init_timeout | Proxy_timeout | Shutdown_timeout | User_timer nat

record timer =
  t_expires :: nat
  t_wait :: wait
  t_callback :: timer_callback

datatype operation =
    Socket_post_init "nat option" | Socket_shutdown nat
  | Proxy_write "bytes list" | Proxy_read | Socket_read nat nat | Socket_write "bytes list"
  | Posted nat

type_synonym completion = "error_code option \<times> bytes"

datatype call =
    Tcp_pre_init | Tcp_post_init | Init_done "error_code option" | Shutdown_done "error_code option"
  | Read_done "error_code option" bytes | Write_done "error_code option"
  | Timer_done nat "error_code option" | Ran nat

datatype socket_state = UNINITIALIZED | READY | READING

record proxy_data =
  pd_req :: request
  pd_res :: response
  pd_write_buf :: bytes
  pd_timeout :: nat
  pd_timer :: "nat option"

record asio_con =
  a_proxy :: bytes
  a_proxy_data :: "proxy_data option"
  a_bufs :: "bytes list"
  a_tec :: "error_code option"
  a_socket :: socket_state
  now :: nat
  timers :: "timer list"
  ops :: "(operation \<times> completion option) list"
  calls :: "call list"

text \<open>
  The configuration, the socket policy and the program's handlers. A policy that calls its completion
  handler at once has the code it passes; \<open>None\<close> stands for one that completes later. The message
  of a system error and its translation are the platform's and the policy's.
\<close>

record transport_setting =
  timeout_socket_post_init :: nat
  timeout_socket_shutdown :: nat
  timeout_proxy :: nat
  post_init_at_once :: "error_code option option"
  shutdown_at_once :: "error_code option option"
  cancel_works :: bool
  tcp_pre_init_set :: bool
  tcp_post_init_set :: bool
  socket_ec :: "error_code option"
  translate_ec :: "error_code \<Rightarrow> error_code"
  system_message :: "system_error \<Rightarrow> string"

definition new_asio_con :: asio_con where
  "new_asio_con = \<lparr>a_proxy = [], a_proxy_data = None, a_bufs = [], a_tec = None,
     a_socket = UNINITIALIZED, now = 0, timers = [], ops = [], calls = []\<rparr>"

definition is_system :: "system_error \<Rightarrow> error_code option \<Rightarrow> bool" where
  "is_system e ec = (case ec of Some (SystemError e' _) \<Rightarrow> e' = e | _ \<Rightarrow> False)"

definition made :: "call \<Rightarrow> asio_con \<Rightarrow> asio_con" where
  "made k c = c\<lparr>calls := calls c @ [k]\<rparr>"

definition start_op :: "operation \<Rightarrow> asio_con \<Rightarrow> asio_con" where
  "start_op op c = c\<lparr>ops := ops c @ [(op, None)]\<rparr>"

definition cancelled_timer :: "timer \<Rightarrow> timer" where
  "cancelled_timer t = (if t_wait t = Waiting then t\<lparr>t_wait := Cancelled\<rparr> else t)"

definition cancel_timer :: "nat \<Rightarrow> asio_con \<Rightarrow> asio_con" where
  "cancel_timer i c = c\<lparr>timers := (timers c)[i := cancelled_timer (timers c ! i)]\<rparr>"

text \<open>\<open>is_neg(timer->expires_from_now())\<close>.\<close>

definition expired :: "nat \<Rightarrow> asio_con \<Rightarrow> bool" where
  "expired i c \<longleftrightarrow> t_expires (timers c ! i) < now c"

subsection \<open>The plain socket\<close>

definition socket_init_asio :: "asio_con \<Rightarrow> asio_con \<times> error_code option" where
  "socket_init_asio c =
     (if a_socket c \<noteq> UNINITIALIZED then (c, Some (SocketError S_invalid_state))
      else (c\<lparr>a_socket := READY\<rparr>, None))"

definition socket_pre_init :: "asio_con \<Rightarrow> asio_con \<times> error_code option" where
  "socket_pre_init c =
     (if a_socket c \<noteq> READY then (c, Some (SocketError S_invalid_state))
      else (c\<lparr>a_socket := READING\<rparr>, None))"

text \<open>Cancelling the socket ends what is under way with the code each operation reports for it.\<close>

definition aborted_code :: "transport_setting \<Rightarrow> operation \<Rightarrow> error_code" where
  "aborted_code S op =
     (case op of
        Socket_post_init _ \<Rightarrow> SocketError S_tls_handshake_failed
      | _ \<Rightarrow> SystemError Operation_aborted (system_message S Operation_aborted))"

definition aborted_op ::
  "transport_setting \<Rightarrow> operation \<times> completion option \<Rightarrow> operation \<times> completion option" where
  "aborted_op S = (\<lambda>(op, r). (op, case r of None \<Rightarrow> Some (Some (aborted_code S op), []) | Some x \<Rightarrow> Some x))"

definition cancel_socket_checked :: "transport_setting \<Rightarrow> asio_con \<Rightarrow> asio_con" where
  "cancel_socket_checked S c =
     (if cancel_works S then c\<lparr>ops := map (aborted_op S) (ops c)\<rparr> else c)"

subsection \<open>Timers\<close>

definition set_timer :: "nat \<Rightarrow> timer_callback \<Rightarrow> asio_con \<Rightarrow> asio_con \<times> nat" where
  "set_timer duration callback c =
     (c\<lparr>timers := timers c @ [\<lparr>t_expires = now c + duration, t_wait = Waiting, t_callback = callback\<rparr>]\<rparr>,
      length (timers c))"

definition handle_timer :: "error_code option \<Rightarrow> error_code option" where
  "handle_timer ec =
     (if ec = None then None
      else if is_system Operation_aborted ec then Some (TransportError T_operation_aborted)
      else Some (AsioError A_pass_through))"

subsection \<open>Initialisation\<close>

definition init_asio :: "asio_con \<Rightarrow> asio_con \<times> error_code option" where
  "init_asio c = socket_init_asio c"

definition handle_post_init_timeout ::
  "transport_setting \<Rightarrow> error_code option \<Rightarrow> asio_con \<Rightarrow> asio_con" where
  "handle_post_init_timeout S ec c =
     (if ec = Some (TransportError T_operation_aborted) then c
      else
        let ret_ec = (case ec of
                        Some e \<Rightarrow> Some e
                      | None \<Rightarrow> (case socket_ec S of
                                   Some e \<Rightarrow> Some e | None \<Rightarrow> Some (TransportError T_timeout)))
        in made (Init_done ret_ec) (cancel_socket_checked S c))"

definition handle_post_init ::
  "transport_setting \<Rightarrow> nat option \<Rightarrow> error_code option \<Rightarrow> asio_con \<Rightarrow> asio_con" where
  "handle_post_init S post_timer ec c =
     (if ec = Some (TransportError T_operation_aborted)
         \<or> (case post_timer of None \<Rightarrow> False | Some i \<Rightarrow> expired i c)
      then c
      else
        let c = (case post_timer of None \<Rightarrow> c | Some i \<Rightarrow> cancel_timer i c);
            c = (if tcp_post_init_set S then made Tcp_post_init c else c)
        in made (Init_done ec) c)"

definition post_init :: "transport_setting \<Rightarrow> asio_con \<Rightarrow> asio_con" where
  "post_init S c =
     (let (c, post_timer) =
        (if timeout_socket_post_init S > 0
         then let (c, i) = set_timer (timeout_socket_post_init S) Post_init_timeout c in (c, Some i)
         else (c, None))
      in case post_init_at_once S of
           Some ec \<Rightarrow> handle_post_init S post_timer ec c
         | None \<Rightarrow> start_op (Socket_post_init post_timer) c)"

subsection \<open>The proxy\<close>

definition set_proxy :: "transport_setting \<Rightarrow> bytes \<Rightarrow> asio_con \<Rightarrow> asio_con" where
  "set_proxy S u c = c\<lparr>a_proxy := u,
     a_proxy_data := Some \<lparr>pd_req = new_request, pd_res = new_response, pd_write_buf = [],
       pd_timeout = timeout_proxy S, pd_timer = None\<rparr>\<rparr>"

definition set_proxy_basic_auth ::
  "bytes \<Rightarrow> bytes \<Rightarrow> asio_con \<Rightarrow> asio_con \<times> error_code option" where
  "set_proxy_basic_auth username password c =
     (case a_proxy_data c of
        None \<Rightarrow> (c, Some (WsError E_invalid_state))
      | Some d \<Rightarrow>
          let val = ascii ''Basic '' @ base64_encode (username @ [0x3A] @ password)
          in (c\<lparr>a_proxy_data := Some (d\<lparr>pd_req :=
                replace_header (ascii ''Proxy-Authorization'') val (pd_req d)\<rparr>)\<rparr>, None))"

definition set_proxy_timeout :: "nat \<Rightarrow> asio_con \<Rightarrow> asio_con \<times> error_code option" where
  "set_proxy_timeout duration c =
     (case a_proxy_data c of
        None \<Rightarrow> (c, Some (WsError E_invalid_state))
      | Some d \<Rightarrow> (c\<lparr>a_proxy_data := Some (d\<lparr>pd_timeout := duration\<rparr>)\<rparr>, None))"

definition proxy_init :: "bytes \<Rightarrow> asio_con \<Rightarrow> (asio_con \<times> error_code option) result" where
  "proxy_init authority c =
     (case a_proxy_data c of
        None \<Rightarrow> Inr (c, Some (WsError E_invalid_state))
      | Some d \<Rightarrow>
          (case set_method (ascii ''CONNECT'') ((pd_req d)\<lparr>m_version := ascii ''HTTP/1.1''\<rparr>) of
             Inl e \<Rightarrow> Inl e
           | Inr req \<Rightarrow>
               Inr (c\<lparr>a_proxy_data := Some (d\<lparr>pd_req :=
                      replace_header (ascii ''Host'') authority (req\<lparr>m_uri := authority\<rparr>)\<rparr>)\<rparr>, None)))"

definition proxy_write :: "transport_setting \<Rightarrow> asio_con \<Rightarrow> asio_con" where
  "proxy_write S c =
     (case a_proxy_data c of
        None \<Rightarrow> made (Init_done (Some (AsioError A_general))) c
      | Some d \<Rightarrow>
          let buf = raw_request (pd_req d);
              c = c\<lparr>a_bufs := a_bufs c @ [buf]\<rparr>;
              (c, i) = set_timer (pd_timeout d) Proxy_timeout c;
              c = c\<lparr>a_proxy_data := Some (d\<lparr>pd_write_buf := buf, pd_timer := Some i\<rparr>)\<rparr>
          in start_op (Proxy_write (a_bufs c)) c)"

definition handle_proxy_timeout ::
  "transport_setting \<Rightarrow> error_code option \<Rightarrow> asio_con \<Rightarrow> asio_con" where
  "handle_proxy_timeout S ec c =
     (if ec = Some (TransportError T_operation_aborted) then c
      else if ec \<noteq> None then made (Init_done ec) c
      else made (Init_done (Some (TransportError T_timeout))) (cancel_socket_checked S c))"

text \<open>The timer of the proxy data; \<open>None\<close> is a null pointer the code would follow.\<close>

definition proxy_timer :: "asio_con \<Rightarrow> nat option" where
  "proxy_timer c = (case a_proxy_data c of None \<Rightarrow> None | Some d \<Rightarrow> pd_timer d)"

definition proxy_read :: "asio_con \<Rightarrow> asio_con result" where
  "proxy_read c = (if a_proxy_data c = None then Inl Out_of_range else Inr (start_op Proxy_read c))"

definition handle_proxy_write :: "error_code option \<Rightarrow> asio_con \<Rightarrow> asio_con result" where
  "handle_proxy_write ec c =
     (let c = c\<lparr>a_bufs := []\<rparr>
      in if is_system Operation_aborted ec then Inr c
         else case proxy_timer c of
                None \<Rightarrow> Inl Out_of_range
              | Some i \<Rightarrow>
                  if expired i c then Inr c
                  else if ec \<noteq> None
                  then Inr (made (Init_done (Some (AsioError A_pass_through))) (cancel_timer i c))
                  else proxy_read c)"

definition handle_proxy_read ::
  "transport_setting \<Rightarrow> error_code option \<Rightarrow> bytes \<Rightarrow> asio_con \<Rightarrow> asio_con result" where
  "handle_proxy_read S ec inp c =
     (if is_system Operation_aborted ec then Inr c
      else case (a_proxy_data c, proxy_timer c) of
             (Some d, Some i) \<Rightarrow>
               if expired i c then Inr c
               else
                 let c = cancel_timer i c
                 in if ec \<noteq> None then Inr (made (Init_done (Some (AsioError A_pass_through))) c)
                    else case consume_stream inp 0 (pd_res d) of
                           Inl e \<Rightarrow> Inl e
                         | Inr (_, res) \<Rightarrow>
                             let c = c\<lparr>a_proxy_data := Some (d\<lparr>pd_res := res\<rparr>)\<rparr>
                             in if \<not> headers_ready res
                                then Inr (made (Init_done (Some (AsioError A_general))) c)
                                else if m_status_code res \<noteq> 200
                                then Inr (made (Init_done (Some (AsioError A_proxy_failed))) c)
                                else Inr (post_init S (c\<lparr>a_proxy_data := None\<rparr>))
           | _ \<Rightarrow> Inl Out_of_range)"

definition handle_pre_init :: "transport_setting \<Rightarrow> error_code option \<Rightarrow> asio_con \<Rightarrow> asio_con" where
  "handle_pre_init S ec c =
     (let c = (if tcp_pre_init_set S then made Tcp_pre_init c else c);
          c = (if ec \<noteq> None then made (Init_done ec) c else c)
      in if a_proxy c \<noteq> [] then proxy_write S c else post_init S c)"

definition transport_init :: "transport_setting \<Rightarrow> asio_con \<Rightarrow> asio_con" where
  "transport_init S c = (let (c, ec) = socket_pre_init c in handle_pre_init S ec c)"

subsection \<open>Reading, writing, shutdown\<close>

definition async_read_at_least :: "nat \<Rightarrow> nat \<Rightarrow> asio_con \<Rightarrow> asio_con" where
  "async_read_at_least num_bytes len c = start_op (Socket_read num_bytes len) c"

definition handle_async_read ::
  "transport_setting \<Rightarrow> error_code option \<Rightarrow> bytes \<Rightarrow> asio_con \<Rightarrow> asio_con" where
  "handle_async_read S ec inp c =
     (if is_system Eof ec then made (Read_done (Some (TransportError T_eof)) inp) c
      else case ec of
             None \<Rightarrow> made (Read_done None inp) c
           | Some e \<Rightarrow> made (Read_done (Some (translate_ec S e)) inp) (c\<lparr>a_tec := ec\<rparr>))"

definition async_write :: "bytes list \<Rightarrow> asio_con \<Rightarrow> asio_con" where
  "async_write bufs c =
     (let c = c\<lparr>a_bufs := a_bufs c @ bufs\<rparr> in start_op (Socket_write (a_bufs c)) c)"

definition handle_async_write :: "error_code option \<Rightarrow> asio_con \<Rightarrow> asio_con" where
  "handle_async_write ec c =
     made (Write_done (if ec \<noteq> None then Some (TransportError T_pass_through) else None)) (c\<lparr>a_bufs := []\<rparr>)"

text \<open>\<open>interrupt\<close> and \<open>dispatch\<close> post a handler, which is ready to run at once.\<close>

definition post_handler :: "nat \<Rightarrow> asio_con \<Rightarrow> asio_con" where
  "post_handler h c = c\<lparr>ops := ops c @ [(Posted h, Some (None, []))]\<rparr>"

definition interrupt :: "nat \<Rightarrow> asio_con \<Rightarrow> asio_con \<times> error_code option" where
  "interrupt h c = (post_handler h c, None)"

definition dispatch :: "nat \<Rightarrow> asio_con \<Rightarrow> asio_con \<times> error_code option" where
  "dispatch h c = (post_handler h c, None)"

definition handle_async_shutdown_timeout ::
  "transport_setting \<Rightarrow> error_code option \<Rightarrow> asio_con \<Rightarrow> asio_con" where
  "handle_async_shutdown_timeout S ec c =
     (if ec = Some (TransportError T_operation_aborted) then c
      else
        let ret_ec = (if ec \<noteq> None then ec else Some (TransportError T_timeout))
        in made (Shutdown_done ret_ec) (cancel_socket_checked S c))"

definition handle_async_shutdown ::
  "transport_setting \<Rightarrow> nat \<Rightarrow> error_code option \<Rightarrow> asio_con \<Rightarrow> asio_con" where
  "handle_async_shutdown S shutdown_timer ec c =
     (if is_system Operation_aborted ec \<or> expired shutdown_timer c then c
      else
        let c = cancel_timer shutdown_timer c
        in case ec of
             None \<Rightarrow> made (Shutdown_done None) c
           | Some e \<Rightarrow>
               if is_system Not_connected ec then made (Shutdown_done None) c
               else made (Shutdown_done (Some (translate_ec S e))) (c\<lparr>a_tec := ec\<rparr>))"

definition async_shutdown :: "transport_setting \<Rightarrow> asio_con \<Rightarrow> asio_con" where
  "async_shutdown S c =
     (let (c, i) = set_timer (timeout_socket_shutdown S) Shutdown_timeout c
      in case shutdown_at_once S of
           Some ec \<Rightarrow> handle_async_shutdown S i ec c
         | None \<Rightarrow> start_op (Socket_shutdown i) c)"

subsection \<open>What asio does\<close>

text \<open>
  Time goes on; a timer elapses at its time or later; a queued callback of a timer or of an operation
  runs, one at a time, as the strand or the single thread of the \<open>io_service\<close> has it.
\<close>

datatype asio_event =
    Tick nat | Elapse nat | Timer_runs nat | Op_completes nat completion | Op_runs nat

text \<open>A read without an error has at least the bytes asked for, and no more than the buffer holds.\<close>

definition completion_ok :: "operation \<Rightarrow> completion \<Rightarrow> bool" where
  "completion_ok op r =
     (case op of
        Socket_read n len \<Rightarrow> length (snd r) \<le> len \<and> (fst r = None \<longrightarrow> min n len \<le> length (snd r))
      | _ \<Rightarrow> True)"

fun asio_enabled :: "asio_event \<Rightarrow> asio_con \<Rightarrow> bool" where
  "asio_enabled (Tick n) c \<longleftrightarrow> True"
| "asio_enabled (Elapse i) c \<longleftrightarrow>
     i < length (timers c) \<and> t_wait (timers c ! i) = Waiting \<and> t_expires (timers c ! i) \<le> now c"
| "asio_enabled (Timer_runs i) c \<longleftrightarrow>
     i < length (timers c) \<and> t_wait (timers c ! i) \<in> {Cancelled, Elapsed}"
| "asio_enabled (Op_completes k r) c \<longleftrightarrow>
     k < length (ops c) \<and> snd (ops c ! k) = None \<and> completion_ok (fst (ops c ! k)) r"
| "asio_enabled (Op_runs k) c \<longleftrightarrow> k < length (ops c) \<and> snd (ops c ! k) \<noteq> None"

definition set_wait :: "nat \<Rightarrow> wait \<Rightarrow> asio_con \<Rightarrow> asio_con" where
  "set_wait i w c = c\<lparr>timers := (timers c)[i := (timers c ! i)\<lparr>t_wait := w\<rparr>]\<rparr>"

fun run_callback :: "transport_setting \<Rightarrow> timer_callback \<Rightarrow> error_code option \<Rightarrow> asio_con \<Rightarrow> asio_con" where
  "run_callback S Post_init_timeout ec c = handle_post_init_timeout S ec c"
| "run_callback S Proxy_timeout ec c = handle_proxy_timeout S ec c"
| "run_callback S Shutdown_timeout ec c = handle_async_shutdown_timeout S ec c"
| "run_callback S (User_timer n) ec c = made (Timer_done n ec) c"

fun run_op :: "transport_setting \<Rightarrow> operation \<Rightarrow> completion \<Rightarrow> asio_con \<Rightarrow> asio_con result" where
  "run_op S (Socket_post_init t) (ec, _) c = Inr (handle_post_init S t ec c)"
| "run_op S (Socket_shutdown i) (ec, _) c = Inr (handle_async_shutdown S i ec c)"
| "run_op S (Proxy_write bufs) (ec, _) c = handle_proxy_write ec c"
| "run_op S Proxy_read (ec, inp) c = handle_proxy_read S ec inp c"
| "run_op S (Socket_read n len) (ec, inp) c = Inr (handle_async_read S ec inp c)"
| "run_op S (Socket_write bufs) (ec, _) c = Inr (handle_async_write ec c)"
| "run_op S (Posted h) _ c = Inr (made (Ran h) c)"

definition remove_nth :: "nat \<Rightarrow> 'a list \<Rightarrow> 'a list" where
  "remove_nth k xs = take k xs @ drop (Suc k) xs"

fun asio_step :: "transport_setting \<Rightarrow> asio_event \<Rightarrow> asio_con \<Rightarrow> asio_con result" where
  "asio_step S (Tick n) c = Inr (c\<lparr>now := now c + n\<rparr>)"
| "asio_step S (Elapse i) c = Inr (set_wait i Elapsed c)"
| "asio_step S (Timer_runs i) c =
     (let t = timers c ! i;
          ec = (if t_wait t = Cancelled
                then Some (SystemError Operation_aborted (system_message S Operation_aborted)) else None)
      in Inr (run_callback S (t_callback t) (handle_timer ec) (set_wait i Done c)))"
| "asio_step S (Op_completes k r) c = Inr (c\<lparr>ops := (ops c)[k := (fst (ops c ! k), Some r)]\<rparr>)"
| "asio_step S (Op_runs k) c =
     (case ops c ! k of
        (op, Some r) \<Rightarrow> run_op S op r (c\<lparr>ops := remove_nth k (ops c)\<rparr>)
      | (op, None) \<Rightarrow> Inr c)"

text \<open>
  Runs in which no operation's handler runs in the very instant a timer is due: then the test whether
  the timer is past its time and the timer's own callback do not disagree.
\<close>

definition off_deadline :: "asio_event \<Rightarrow> asio_con \<Rightarrow> bool" where
  "off_deadline ev c \<longleftrightarrow>
     (case ev of Op_runs k \<Rightarrow> \<forall>t \<in> set (timers c). t_expires t \<noteq> now c | _ \<Rightarrow> True)"

inductive asio_reachable :: "transport_setting \<Rightarrow> asio_con \<Rightarrow> asio_con \<Rightarrow> bool" for S c0 where
  asio_start: "asio_reachable S c0 c0"
| asio_event: "asio_reachable S c0 c \<Longrightarrow> asio_enabled ev c \<Longrightarrow> off_deadline ev c
     \<Longrightarrow> asio_step S ev c = Inr c' \<Longrightarrow> asio_reachable S c0 c'"

lemma asio_reachable_trans:
  "asio_reachable S c0 c \<Longrightarrow> asio_reachable S c c' \<Longrightarrow> asio_reachable S c0 c'"
  by (rotate_tac, induction rule: asio_reachable.induct) (auto intro: asio_event)

subsection \<open>An operation guarded by a timer\<close>

text \<open>
  The initialisation of the socket and its shutdown follow one pattern: an operation and a timer are
  started, the handler of the operation does nothing when it is late, and cancels the timer otherwise;
  the callback of the timer does nothing when it was cancelled, and cancels the socket otherwise.
\<close>

definition proxy_op :: "operation \<Rightarrow> bool" where
  "proxy_op op = (case op of Proxy_write _ \<Rightarrow> True | Proxy_read \<Rightarrow> True | _ \<Rightarrow> False)"

definition timer_is :: "asio_con \<Rightarrow> nat \<Rightarrow> timer_callback \<Rightarrow> bool" where
  "timer_is c i cb \<longleftrightarrow> i < length (timers c) \<and> t_callback (timers c ! i) = cb"

definition op_ids :: "asio_con \<Rightarrow> operation \<Rightarrow> bool" where
  "op_ids c op =
     (case op of
        Socket_post_init None \<Rightarrow> False
      | Socket_post_init (Some i) \<Rightarrow> timer_is c i Post_init_timeout
      | Socket_shutdown i \<Rightarrow> timer_is c i Shutdown_timeout
      | _ \<Rightarrow> True)"

text \<open>
  Every operation that has a timer knows it, and no proxy is in use, as on every connection of a
  server.
\<close>

definition direct :: "asio_con \<Rightarrow> bool" where
  "direct c \<longleftrightarrow> (\<forall>x \<in> set (ops c). op_ids c (fst x) \<and> \<not> proxy_op (fst x))
     \<and> (\<forall>i. \<not> timer_is c i Proxy_timeout)"

definition count :: "(call \<Rightarrow> bool) \<Rightarrow> asio_con \<Rightarrow> nat" where
  "count P c = length (filter P (calls c))"

definition under_way :: "operation \<Rightarrow> asio_con \<Rightarrow> bool" where
  "under_way op c \<longleftrightarrow> op \<in> fst ` set (ops c)"

definition same_timers :: "asio_con \<Rightarrow> asio_con \<Rightarrow> bool" where
  "same_timers c c' \<longleftrightarrow> now c' = now c \<and> timers c' = timers c"

definition same_ops :: "asio_con \<Rightarrow> asio_con \<Rightarrow> bool" where
  "same_ops c c' \<longleftrightarrow> map fst (ops c') = map fst (ops c)"

definition same_ids :: "asio_con \<Rightarrow> asio_con \<Rightarrow> bool" where
  "same_ids c c' \<longleftrightarrow> (\<forall>i cb. timer_is c' i cb = timer_is c i cb)"

lemma same_ids_timers: "same_timers c c' \<Longrightarrow> same_ids c c'"
  by (simp add: same_timers_def same_ids_def timer_is_def)

lemma same_ids_trans: "same_ids c c' \<Longrightarrow> same_ids c' c'' \<Longrightarrow> same_ids c c''"
  by (simp add: same_ids_def)

lemma callback_update:
  "t_callback t = t_callback (ts ! i) \<Longrightarrow> t_callback (ts[i := t] ! j) = t_callback (ts ! j)"
  by (cases "i < length ts") (auto simp: nth_list_update list_update_beyond not_less)

lemma same_ids_wait: "same_ids c (set_wait i w c)"
  by (simp add: same_ids_def timer_is_def set_wait_def callback_update)

lemma same_ids_cancel: "same_ids c (cancel_timer i c)"
  by (simp add: same_ids_def timer_is_def cancel_timer_def cancelled_timer_def callback_update)

lemma direct_keeps:
  assumes "direct c" and "same_ids c c'" and "fst ` set (ops c') \<subseteq> fst ` set (ops c)"
  shows "direct c'"
proof -
  have "op_ids c' op = op_ids c op" for op
    using assms(2) by (simp add: op_ids_def same_ids_def split: operation.split option.split)
  then show ?thesis
    using assms unfolding direct_def same_ids_def by (metis (no_types, lifting) image_iff subsetD imageI)
qed

lemma remove_nth_parts:
  assumes "k < length xs"
  shows "set (remove_nth k xs) \<subseteq> set xs"
    and "length (filter P xs) = length (filter P (remove_nth k xs)) + (if P (xs ! k) then 1 else 0)"
proof -
  have e: "xs = take k xs @ xs ! k # drop (Suc k) xs" using assms by (rule id_take_nth_drop)
  show "set (remove_nth k xs) \<subseteq> set xs"
    by (auto simp: remove_nth_def dest: in_set_takeD in_set_dropD)
  show "length (filter P xs) = length (filter P (remove_nth k xs)) + (if P (xs ! k) then 1 else 0)"
    by (subst e) (simp add: remove_nth_def)
qed

lemma remove_nth_map: "map f (remove_nth k xs) = remove_nth k (map f xs)"
  by (simp add: remove_nth_def take_map drop_map)

locale guarded_operation =
  fixes S :: transport_setting and opr :: "nat \<Rightarrow> operation" and tcb :: timer_callback
    and answer :: "call \<Rightarrow> bool"
  assumes direct_op: "\<not> proxy_op (opr i)" "tcb \<noteq> Proxy_timeout"
    and its_timer: "op_ids c (opr i) \<longleftrightarrow> timer_is c i tcb"
    and aborted: "run_callback S tcb (Some (TransportError T_operation_aborted)) c = c"
    and fires: "same_timers c (run_callback S tcb None c)" "same_ops c (run_callback S tcb None c)"
      "count answer (run_callback S tcb None c) = Suc (count answer c)"
    and late: "expired i c \<Longrightarrow> run_op S (opr i) r c = Inr c"
    and in_time: "\<not> expired i c \<Longrightarrow> run_op S (opr i) r c = Inr c \<or>
      (\<exists>c'. run_op S (opr i) r c = Inr c' \<and> same_timers (cancel_timer i c) c' \<and> ops c' = ops c
         \<and> count answer c' = Suc (count answer c))"
    and other_callback: "cb \<noteq> tcb \<Longrightarrow> cb \<noteq> Proxy_timeout \<Longrightarrow> same_timers c (run_callback S cb ec c)
      \<and> same_ops c (run_callback S cb ec c) \<and> count answer (run_callback S cb ec c) = count answer c"
    and other_op: "\<forall>j. op \<noteq> opr j \<Longrightarrow> \<not> proxy_op op \<Longrightarrow> op_ids c op \<Longrightarrow>
      \<exists>c' j. run_op S op r c = Inr c' \<and> ops c' = ops c \<and> count answer c' = count answer c
        \<and> (same_timers c c' \<or> \<not> timer_is c j tcb \<and> same_timers (cancel_timer j c) c')"
begin

text \<open>
  \<open>i\<close> is the timer of the operation. It is answered once the timer was cancelled or has run; when it
  can elapse or has elapsed there was no answer yet; and the handler of an operation still under way
  finds the timer past its time when the timer gave the answer.
\<close>

definition framed :: "nat \<Rightarrow> asio_con \<Rightarrow> bool" where
  "framed i c \<longleftrightarrow> direct c \<and> (\<forall>j. timer_is c j tcb \<longleftrightarrow> j = i)
     \<and> length (filter (\<lambda>op. op = opr i) (map fst (ops c))) \<le> 1"

definition phased :: "nat \<Rightarrow> asio_con \<Rightarrow> bool" where
  "phased i c \<longleftrightarrow>
     count answer c = (if t_wait (timers c ! i) \<in> {Waiting, Elapsed} then 0 else 1)
     \<and> (t_wait (timers c ! i) = Cancelled \<longrightarrow> \<not> under_way (opr i) c)
     \<and> (t_wait (timers c ! i) = Elapsed \<longrightarrow> t_expires (timers c ! i) \<le> now c)
     \<and> (t_wait (timers c ! i) = Done \<and> under_way (opr i) c \<longrightarrow> t_expires (timers c ! i) \<le> now c)"

definition guarded :: "nat \<Rightarrow> asio_con \<Rightarrow> bool" where
  "guarded i c \<longleftrightarrow> framed i c \<and> phased i c"

lemma framed_keeps:
  assumes "framed i c" and "same_ids c c'" and "same_ops c c'"
  shows "framed i c'"
proof -
  have "fst ` set (ops c') = fst ` set (ops c)"
    using assms(3) by (metis same_ops_def image_set)
  then have "direct c'" using assms(1,2) by (intro direct_keeps [of c c']) (auto simp: framed_def)
  then show ?thesis using assms by (simp add: framed_def same_ids_def same_ops_def)
qed

lemma framed_removed:
  assumes "framed i c" and "k < length (ops c)"
  shows "framed i (c\<lparr>ops := remove_nth k (ops c)\<rparr>)"
    and "fst (ops c ! k) = opr i \<Longrightarrow> \<not> under_way (opr i) (c\<lparr>ops := remove_nth k (ops c)\<rparr>)"
proof -
  let ?c = "c\<lparr>ops := remove_nth k (ops c)\<rparr>" and ?P = "\<lambda>op. op = opr i"
  have n: "length (filter ?P (map fst (ops c))) = length (filter ?P (map fst (ops ?c)))
      + (if fst (ops c ! k) = opr i then 1 else 0)"
    using remove_nth_parts(2) [of k "map fst (ops c)" ?P] assms(2) by (simp add: remove_nth_map)
  have "same_ids c ?c" by (simp add: same_ids_def timer_is_def)
  moreover have "fst ` set (ops ?c) \<subseteq> fst ` set (ops c)"
    using remove_nth_parts(1) [OF assms(2)] by auto
  ultimately have "direct ?c" using assms(1) by (intro direct_keeps [of c ?c]) (auto simp: framed_def)
  then show "framed i ?c"
    using assms(1) n by (simp add: framed_def timer_is_def)
  show "\<not> under_way (opr i) ?c" if "fst (ops c ! k) = opr i"
  proof -
    have "length (filter ?P (map fst (ops ?c))) = 0"
      using n [unfolded if_P [OF that]] assms(1) unfolding framed_def by linarith
    then have "filter ?P (map fst (ops ?c)) = []" unfolding length_0_conv .
    then show ?thesis by (auto simp: under_way_def filter_empty_conv)
  qed
qed

lemma phased_keeps:
  assumes "phased i c" and "timers c' ! i = timers c ! i" and "now c \<le> now c'"
    and "count answer c' = count answer c" and "under_way (opr i) c' \<longrightarrow> under_way (opr i) c"
  shows "phased i c'"
  using assms by (auto simp: phased_def)

lemma same_ops_under_way: "same_ops c c' \<Longrightarrow> under_way op c' = under_way op c"
  by (metis same_ops_def under_way_def image_set)

lemma guarded_keeps:
  assumes "guarded i c" and "same_ids c c'" and "same_ops c c'" and "timers c' ! i = timers c ! i"
    and "now c \<le> now c'" and "count answer c' = count answer c"
  shows "guarded i c'"
  unfolding guarded_def
proof
  show "framed i c'" by (rule framed_keeps [OF _ assms(2,3)]) (use assms(1) in \<open>simp add: guarded_def\<close>)
  show "phased i c'"
    by (rule phased_keeps [OF _ assms(4-6)])
      (use assms(1) same_ops_under_way [OF assms(3)] in \<open>simp_all add: guarded_def\<close>)
qed

text \<open>Another timer, or its callback.\<close>

lemma guarded_other_timer:
  assumes "guarded i c" and "j < length (timers c)" and "j \<noteq> i"
  shows "guarded i (run_callback S (t_callback (timers c ! j)) ec (set_wait j Done c))"
proof -
  let ?cb = "t_callback (timers c ! j)" and ?c = "set_wait j Done c"
  have "?cb \<noteq> tcb" "?cb \<noteq> Proxy_timeout"
    using assms by (auto simp: guarded_def framed_def direct_def timer_is_def)
  note o = other_callback [OF this, of ?c ec]
  let ?c' = "run_callback S ?cb ec ?c"
  have s: "same_ids c ?c'"
    using o same_ids_timers same_ids_trans [OF same_ids_wait] by blast
  have ops: "same_ops c ?c'" using o by (simp add: same_ops_def set_wait_def)
  have "timers ?c' ! i = timers c ! i" "now ?c' = now c" "count answer ?c' = count answer c"
    using o assms(3) by (simp_all add: same_timers_def set_wait_def count_def)
  then show ?thesis by (intro guarded_keeps [OF assms(1) s ops]) simp_all
qed

lemma guarded_own_timer:
  assumes "guarded i c" and "t_wait (timers c ! i) = Elapsed"
  shows "guarded i (run_callback S tcb None (set_wait i Done c))"
proof -
  let ?c = "set_wait i Done c" let ?c' = "run_callback S tcb None ?c"
  have i: "i < length (timers c)" using assms(1) by (auto simp: guarded_def framed_def timer_is_def)
  have s: "same_ids c ?c'" using fires(1) same_ids_timers same_ids_trans [OF same_ids_wait] by blast
  have ops: "same_ops c ?c'" using fires(2) [of ?c] by (simp add: same_ops_def set_wait_def)
  have "timers ?c' ! i = (timers c ! i)\<lparr>t_wait := Done\<rparr>" "now ?c' = now c"
    "count answer ?c' = Suc (count answer c)"
    using fires(1,3) [of ?c] i by (simp_all add: same_timers_def set_wait_def count_def)
  then have "phased i ?c'" using assms by (simp add: guarded_def phased_def)
  then show ?thesis using framed_keeps [OF _ s ops] assms(1) by (simp add: guarded_def)
qed

lemma guarded_cancelled_timer:
  assumes "guarded i c" and "t_wait (timers c ! i) = Cancelled"
  shows "guarded i (set_wait i Done c)"
proof -
  let ?c = "set_wait i Done c"
  have "i < length (timers c)" using assms(1) by (auto simp: guarded_def framed_def timer_is_def)
  then have "phased i ?c"
    using assms by (auto simp: guarded_def phased_def set_wait_def count_def under_way_def)
  moreover have "same_ops c ?c" by (simp add: same_ops_def set_wait_def)
  ultimately show ?thesis using framed_keeps [OF _ same_ids_wait] assms(1) by (simp add: guarded_def)
qed

text \<open>The operation itself, which is late unless its timer waits, and any other operation.\<close>

lemma guarded_own_op:
  assumes "guarded i c" and "k < length (ops c)" and "fst (ops c ! k) = opr i"
    and "t_wait (timers c ! i) = Waiting \<or> t_expires (timers c ! i) \<noteq> now c"
    and "run_op S (opr i) r (c\<lparr>ops := remove_nth k (ops c)\<rparr>) = Inr c'"
  shows "guarded i c'"
proof -
  let ?c = "c\<lparr>ops := remove_nth k (ops c)\<rparr>"
  have f: "framed i ?c" and u: "\<not> under_way (opr i) ?c"
    using framed_removed [of i c k] assms(1-3) by (simp_all add: guarded_def)
  have i: "i < length (timers c)" using assms(1) by (auto simp: guarded_def framed_def timer_is_def)
  have p: "phased i ?c"
    by (rule phased_keeps [of i c]) (use assms(1) u in \<open>simp_all add: guarded_def count_def\<close>)
  have "under_way (opr i) c"
    using assms(2,3) unfolding under_way_def by (metis image_eqI nth_mem)
  then have late': "expired i ?c" if "t_wait (timers c ! i) \<noteq> Waiting"
    using assms(1,4) that by (cases "t_wait (timers c ! i)") (auto simp: guarded_def phased_def expired_def)
  show ?thesis
  proof (cases "expired i ?c")
    case True
    then show ?thesis using late [OF True] assms(5) f p by (simp add: guarded_def)
  next
    case False
    then have w: "t_wait (timers c ! i) = Waiting" using late' by blast
    from in_time [OF False, of r] show ?thesis
    proof
      assume "run_op S (opr i) r ?c = Inr ?c"
      then show ?thesis using assms(5) f p by (simp add: guarded_def)
    next
      assume "\<exists>c''. run_op S (opr i) r ?c = Inr c'' \<and> same_timers (cancel_timer i ?c) c'' \<and> ops c'' = ops ?c
         \<and> count answer c'' = Suc (count answer ?c)"
      then have c': "same_timers (cancel_timer i ?c) c'" "ops c' = ops ?c" "count answer c' = Suc (count answer ?c)"
        using assms(5) by auto
      have "timers c' ! i = (timers c ! i)\<lparr>t_wait := Cancelled\<rparr>"
        using c'(1) i w by (simp add: same_timers_def cancel_timer_def cancelled_timer_def)
      then have "phased i c'"
        using p u w c'(2,3) by (simp add: phased_def under_way_def)
      moreover have "framed i c'"
        by (rule framed_keeps [OF f same_ids_trans [OF same_ids_cancel same_ids_timers [OF c'(1)]]])
          (simp add: same_ops_def c'(2))
      ultimately show ?thesis by (simp add: guarded_def)
    qed
  qed
qed

lemma guarded_other_op:
  assumes "guarded i c" and "k < length (ops c)" and "\<forall>j. fst (ops c ! k) \<noteq> opr j"
    and "run_op S (fst (ops c ! k)) r (c\<lparr>ops := remove_nth k (ops c)\<rparr>) = Inr c'"
  shows "guarded i c'"
proof -
  let ?c = "c\<lparr>ops := remove_nth k (ops c)\<rparr>" and ?op = "fst (ops c ! k)"
  have f: "framed i ?c" using framed_removed(1) [of i c k] assms(1,2) by (simp add: guarded_def)
  have "ops c ! k \<in> set (ops c)" using assms(2) by simp
  then have "\<not> proxy_op ?op" "op_ids c ?op"
    using assms(1) by (auto simp: guarded_def framed_def direct_def)
  moreover have "op_ids ?c ?op = op_ids c ?op"
    by (simp add: op_ids_def timer_is_def split: operation.split option.split)
  ultimately obtain j where c': "ops c' = ops ?c" "count answer c' = count answer ?c"
    "same_timers ?c c' \<or> \<not> timer_is ?c j tcb \<and> same_timers (cancel_timer j ?c) c'"
    using other_op [OF assms(3), of ?c r] assms(4) by auto
  have "same_ids ?c c'"
    using c'(3) same_ids_timers same_ids_trans [OF same_ids_cancel same_ids_timers] by blast
  then have fr: "framed i c'" by (rule framed_keeps [OF f]) (simp add: same_ops_def c'(1))
  have "timer_is ?c i tcb" using f by (simp add: framed_def)
  then have t: "timers c' ! i = timers c ! i" "now c \<le> now c'"
    using c'(3) by (cases "j = i"; auto simp: same_timers_def cancel_timer_def)+
  have "under_way (opr i) c' \<longrightarrow> under_way (opr i) c"
    using c'(1) remove_nth_parts(1) [OF assms(2)] by (auto simp: under_way_def)
  then have "phased i c'"
    by (intro phased_keeps [OF _ t]) (use assms(1) c'(2) in \<open>simp_all add: guarded_def count_def\<close>)
  with fr show ?thesis by (simp add: guarded_def)
qed

lemma guarded_step:
  assumes "guarded i c" and "asio_enabled ev c" and "off_deadline ev c" and "asio_step S ev c = Inr c'"
  shows "guarded i c'"
proof (cases ev)
  case (Tick n)
  have "same_ids c c'" "same_ops c c'" "timers c' = timers c" "now c \<le> now c'" "count answer c' = count answer c"
    using assms(4) Tick by (auto simp: same_ids_def timer_is_def same_ops_def count_def)
  then show ?thesis by (intro guarded_keeps [OF assms(1)]) simp_all
next
  case (Elapse j)
  then have c': "c' = set_wait j Elapsed c" and w: "t_wait (timers c ! j) = Waiting"
    "j < length (timers c)" "t_expires (timers c ! j) \<le> now c" using assms(2,4) by auto
  have "phased i c'"
    using assms(1) w unfolding c' by (cases "i = j") (auto simp: guarded_def phased_def set_wait_def count_def under_way_def)
  moreover have "same_ops c c'" unfolding c' by (simp add: same_ops_def set_wait_def)
  ultimately show ?thesis
    using framed_keeps [OF _ same_ids_wait, of i c j Elapsed] assms(1) c' by (simp add: guarded_def)
next
  case (Timer_runs j)
  then have j: "j < length (timers c)" "t_wait (timers c ! j) \<in> {Cancelled, Elapsed}" using assms(2) by auto
  show ?thesis
  proof (cases "j = i")
    case False
    then show ?thesis using guarded_other_timer [OF assms(1) j(1) False] assms(4) Timer_runs by (auto simp: Let_def)
  next
    case True
    then have cb: "t_callback (timers c ! j) = tcb"
      using assms(1) by (auto simp: guarded_def framed_def timer_is_def)
    show ?thesis
    proof (cases "t_wait (timers c ! j) = Cancelled")
      case cancelled: True
      then have "c' = set_wait i Done c"
        using assms(4) Timer_runs True cb aborted by (simp add: handle_timer_def is_system_def)
      then show ?thesis using guarded_cancelled_timer assms(1) cancelled True by simp
    next
      case False
      then have "c' = run_callback S tcb None (set_wait i Done c)"
        using assms(4) Timer_runs True cb by (simp add: handle_timer_def)
      then show ?thesis using guarded_own_timer assms(1) False j True by simp
    qed
  qed
next
  case (Op_completes k r)
  have "map fst ((ops c)[k := (fst (ops c ! k), Some r)]) = map fst (ops c)"
    using assms(2) Op_completes by (simp add: map_update list_update_same_conv)
  then have o: "same_ops c c'" using assms(4) Op_completes by (auto simp: same_ops_def)
  moreover have "same_ids c c'" "timers c' = timers c" "now c' = now c" "count answer c' = count answer c"
    using assms(4) Op_completes by (auto simp: same_ids_def timer_is_def count_def)
  ultimately show ?thesis by (intro guarded_keeps [OF assms(1)]) simp_all
next
  case (Op_runs k)
  then obtain op r where k: "k < length (ops c)" "ops c ! k = (op, Some r)"
    using assms(2) by (cases "ops c ! k") auto
  then have run: "run_op S op r (c\<lparr>ops := remove_nth k (ops c)\<rparr>) = Inr c'" using assms(4) Op_runs by simp
  show ?thesis
  proof (cases "\<exists>j. op = opr j")
    case True
    then obtain j where j: "op = opr j" by blast
    have "(op, Some r) \<in> set (ops c)" using k by (metis nth_mem)
    then have "op_ids c (opr j)" using assms(1) j by (fastforce simp: guarded_def framed_def direct_def)
    then have "j = i" using assms(1) its_timer by (simp add: guarded_def framed_def)
    moreover have "i < length (timers c)"
      using assms(1) unfolding guarded_def framed_def timer_is_def by blast
    then have "t_expires (timers c ! i) \<noteq> now c"
      using assms(3) Op_runs nth_mem by (simp add: off_deadline_def)
    ultimately show ?thesis using guarded_own_op [OF assms(1) k(1)] k(2) j run by simp
  next
    case False
    then show ?thesis using guarded_other_op [OF assms(1) k(1)] k(2) run by simp
  qed
qed

lemma guarded_reachable: "asio_reachable S c0 c \<Longrightarrow> guarded i c0 \<Longrightarrow> guarded i c"
  by (induction rule: asio_reachable.induct) (auto intro: guarded_step)

text \<open>At most one answer, and one when the timer has run; the timer alone brings it.\<close>

lemma answered_once: "guarded i c \<Longrightarrow> count answer c \<le> 1"
  by (simp add: guarded_def phased_def)

lemma answered_at_last: "guarded i c \<Longrightarrow> t_wait (timers c ! i) = Done \<Longrightarrow> count answer c = 1"
  by (simp add: guarded_def phased_def)

text \<open>Setting the timer and starting the operation, or running its handler at once.\<close>

lemma starts:
  assumes "direct c" and "\<forall>j. \<not> timer_is c j tcb" and "count answer c = 0"
  shows "guarded (length (timers c)) (start_op (opr (length (timers c))) (fst (set_timer d tcb c)))"
proof -
  let ?i = "length (timers c)"
  let ?c1 = "fst (set_timer d tcb c)"
  let ?c2 = "start_op (opr ?i) ?c1"
  have t: "timer_is ?c2 j cb \<longleftrightarrow> timer_is c j cb \<or> j = ?i \<and> cb = tcb" for j cb
    by (auto simp: timer_is_def start_op_def set_timer_def nth_append)
  have ids: "op_ids c op \<Longrightarrow> op_ids ?c2 op" for op
    using t by (auto simp: op_ids_def split: operation.splits option.splits)
  have o: "opr ?i \<notin> fst ` set (ops c)"
    using assms(1,2) its_timer [of c ?i] by (fastforce simp: direct_def)
  have "op_ids ?c2 (opr ?i)" using t its_timer by simp
  then have "direct ?c2"
    using assms(1) ids direct_op t by (auto simp: direct_def start_op_def set_timer_def)
  moreover have "filter (\<lambda>op. op = opr ?i) (map fst (ops c)) = []"
    using o by (metis (mono_tags, lifting) filter_False image_set)
  then have "length (filter (\<lambda>op. op = opr ?i) (map fst (ops ?c2))) \<le> 1"
    by (simp add: start_op_def set_timer_def del: filter_map)
  ultimately have "framed ?i ?c2" using t assms(2) by (simp add: framed_def)
  moreover have "phased ?i ?c2"
    using assms(3) by (simp add: phased_def start_op_def set_timer_def count_def)
  ultimately show ?thesis by (simp add: guarded_def)
qed

lemma starts_at_once:
  assumes "direct c" and "\<forall>j. \<not> timer_is c j tcb" and "count answer c = 0"
    and "run_op S (opr (length (timers c))) r (fst (set_timer d tcb c)) = Inr c'"
  shows "guarded (length (timers c)) c'"
proof -
  let ?c1 = "fst (set_timer d tcb c)"
  let ?c2 = "start_op (opr (length (timers c))) ?c1"
  have "?c2\<lparr>ops := remove_nth (length (ops c)) (ops ?c2)\<rparr> = ?c1"
    by (simp add: start_op_def set_timer_def remove_nth_def)
  then have "run_op S (opr (length (timers c))) r (?c2\<lparr>ops := remove_nth (length (ops c)) (ops ?c2)\<rparr>) = Inr c'"
    using assms(4) by simp
  then show ?thesis
    by (intro guarded_own_op [OF starts [OF assms(1-3)], where k = "length (ops c)" and r = r and d1 = d])
      (simp_all add: start_op_def set_timer_def)
qed

lemma guarded_timer: "guarded i c \<Longrightarrow> i < length (timers c)"
  by (auto simp: guarded_def framed_def timer_is_def)

lemma elapsed_is_answered:
  assumes "guarded i c" and "t_wait (timers c ! i) = Elapsed"
  shows "\<exists>c'. asio_reachable S c c' \<and> count answer c' = 1"
proof -
  let ?c' = "run_callback S tcb None (set_wait i Done c)"
  have i: "i < length (timers c)" "t_callback (timers c ! i) = tcb"
    using assms(1) by (auto simp: guarded_def framed_def timer_is_def)
  have "asio_step S (Timer_runs i) c = Inr ?c'" using assms(2) i by (simp add: handle_timer_def)
  moreover have "asio_enabled (Timer_runs i) c" using assms(2) i by simp
  moreover have "off_deadline (Timer_runs i) c" by (simp add: off_deadline_def)
  ultimately have "asio_reachable S c ?c'" using asio_event [OF asio_start] by blast
  moreover have "t_wait (timers ?c' ! i) = Done"
    using fires(1) i by (simp add: same_timers_def set_wait_def)
  ultimately show ?thesis using answered_at_last guarded_own_timer [OF assms] by blast
qed

lemma can_be_answered:
  assumes "guarded i c"
  shows "\<exists>c'. asio_reachable S c c' \<and> count answer c' = 1"
proof (cases "t_wait (timers c ! i)")
  case Waiting
  have i: "i < length (timers c)" using assms by (auto simp: guarded_def framed_def timer_is_def)
  let ?n = "t_expires (timers c ! i) - now c" let ?c1 = "c\<lparr>now := now c + ?n\<rparr>"
  have o: "off_deadline (Tick n) c'" "off_deadline (Elapse i) c'" for n c' by (simp_all add: off_deadline_def)
  have 1: "asio_reachable S c ?c1"
    by (rule asio_event [OF asio_start _ o(1) [of ?n]]) simp_all
  have e: "asio_enabled (Elapse i) ?c1" using i Waiting by simp
  have 2: "asio_reachable S c (set_wait i Elapsed ?c1)"
    by (rule asio_event [OF 1 e o(2)]) simp
  have "guarded i (set_wait i Elapsed ?c1)" by (rule guarded_reachable [OF 2 assms])
  moreover have "t_wait (timers (set_wait i Elapsed ?c1) ! i) = Elapsed" using i by (simp add: set_wait_def)
  ultimately show ?thesis using elapsed_is_answered asio_reachable_trans [OF 2] by blast
next
  case Elapsed
  then show ?thesis using elapsed_is_answered [OF assms] by blast
qed (use assms asio_start in \<open>auto simp: guarded_def phased_def\<close>)

end

subsection \<open>Initialisation and shutdown are guarded\<close>

definition is_shutdown_done :: "call \<Rightarrow> bool" where
  "is_shutdown_done k = (case k of Shutdown_done _ \<Rightarrow> True | _ \<Rightarrow> False)"

definition is_init_done :: "call \<Rightarrow> bool" where
  "is_init_done k = (case k of Init_done _ \<Rightarrow> True | _ \<Rightarrow> False)"

lemmas handler_defs = handle_post_init_timeout_def handle_post_init_def handle_async_shutdown_timeout_def
  handle_async_shutdown_def handle_async_read_def handle_async_write_def made_def same_timers_def
  same_ops_def count_def cancel_socket_checked_def is_shutdown_done_def is_init_done_def

lemma fst_aborted [simp]: "fst (aborted_op S x) = fst x"
  by (simp add: aborted_op_def case_prod_beta)

lemma cancel_timer_fields [simp]:
  "ops (cancel_timer i c) = ops c" "calls (cancel_timer i c) = calls c" "now (cancel_timer i c) = now c"
  by (simp_all add: cancel_timer_def)

interpretation shutdown: guarded_operation S Socket_shutdown Shutdown_timeout is_shutdown_done for S
proof (unfold_locales, goal_cases)
  case (9 i c r)
  then show ?case by (cases r) (auto simp: handler_defs Let_def split: option.splits)
next
  case (10 cb c ec)
  then show ?case by (cases cb) (simp_all add: handler_defs Let_def)
next
  case (11 op c r)
  obtain ec inp where r: "r = (ec, inp)" by (cases r)
  show ?case
  proof (cases op)
    case (Socket_post_init t)
    then obtain j where j: "t = Some j" "timer_is c j Post_init_timeout"
      using 11(3) by (cases t) (auto simp: op_ids_def)
    then have "\<not> timer_is c j Shutdown_timeout" by (simp add: timer_is_def)
    then show ?thesis using Socket_post_init j(1) r by (auto simp: handler_defs Let_def)
  qed (use 11 r in \<open>auto simp: handler_defs proxy_op_def split: option.splits\<close>)
qed (auto simp: handler_defs proxy_op_def op_ids_def Let_def split: option.splits)

interpretation initialisation:
  guarded_operation S "\<lambda>i. Socket_post_init (Some i)" Post_init_timeout is_init_done for S
proof (unfold_locales, goal_cases)
  case (9 i c r)
  then show ?case by (cases r) (auto simp: handler_defs Let_def split: option.splits)
next
  case (10 cb c ec)
  then show ?case by (cases cb) (simp_all add: handler_defs Let_def)
next
  case (11 op c r)
  obtain ec inp where r: "r = (ec, inp)" by (cases r)
  show ?case
  proof (cases op)
    case (Socket_shutdown j)
    then have "\<not> timer_is c j Post_init_timeout" using 11(3) by (simp add: op_ids_def timer_is_def)
    then show ?thesis using Socket_shutdown r by (auto simp: handler_defs Let_def split: option.splits)
  next
    case (Socket_post_init t)
    then show ?thesis using 11(1,3) by (cases t) (auto simp: op_ids_def)
  qed (use 11 r in \<open>auto simp: handler_defs proxy_op_def split: option.splits\<close>)
qed (auto simp: handler_defs proxy_op_def op_ids_def Let_def split: option.splits)

subsection \<open>Starting them\<close>

lemma shutdown_starts:
  assumes "direct c" and "\<forall>i. \<not> timer_is c i Shutdown_timeout" and "count is_shutdown_done c = 0"
  shows "shutdown.guarded (length (timers c)) (async_shutdown S c)"
proof (cases "shutdown_at_once S")
  case None
  then show ?thesis
    using shutdown.starts [OF assms] by (simp add: async_shutdown_def set_timer_def)
next
  case (Some ec)
  then show ?thesis
    using shutdown.starts_at_once [OF assms, of S "(ec, [])" "timeout_socket_shutdown S"]
    by (simp add: async_shutdown_def set_timer_def)
qed

lemma initialisation_starts:
  assumes "direct c" and "\<forall>i. \<not> timer_is c i Post_init_timeout" and "count is_init_done c = 0"
    and "0 < timeout_socket_post_init S" and "a_socket c = READY" and "a_proxy c = []"
  shows "initialisation.guarded (length (timers c)) (transport_init S c)"
proof -
  define c1 where "c1 = (if tcp_pre_init_set S then made Tcp_pre_init (c\<lparr>a_socket := READING\<rparr>)
      else c\<lparr>a_socket := READING\<rparr>)"
  have e: "transport_init S c = post_init S c1" "timers c1 = timers c"
    using assms(5,6) by (simp_all add: transport_init_def socket_pre_init_def handle_pre_init_def c1_def made_def)
  have "timer_is c1 i cb = timer_is c i cb" for i cb by (simp add: timer_is_def e(2))
  moreover have "ops c1 = ops c" by (simp add: c1_def made_def)
  ultimately have d: "direct c1" "\<forall>i. \<not> timer_is c1 i Post_init_timeout"
    using assms(2) direct_keeps [OF assms(1), of c1] by (simp_all add: same_ids_def)
  have n: "count is_init_done c1 = 0"
    using assms(3) by (simp add: c1_def made_def count_def is_init_done_def)
  show ?thesis
  proof (cases "post_init_at_once S")
    case None
    then show ?thesis
      using initialisation.starts [OF d n] assms(4) e by (simp add: post_init_def set_timer_def)
  next
    case (Some ec)
    then show ?thesis
      using initialisation.starts_at_once [OF d n, of S "(ec, [])" "timeout_socket_post_init S"] assms(4) e
      by (simp add: post_init_def set_timer_def)
  qed
qed



subsection \<open>What the callers have to know\<close>

text \<open>
  A socket that is not ready, as at a second call, has the initialisation answered twice: with its
  error, and then with the result of going on.
\<close>

theorem second_init_answers_twice:
  assumes "a_socket c \<noteq> READY" and "a_proxy c = []" and "post_init_at_once S = Some None"
    and "0 < timeout_socket_post_init S"
  shows "calls (transport_init S c) = calls c
    @ (if tcp_pre_init_set S then [Tcp_pre_init] else [])
    @ [Init_done (Some (SocketError S_invalid_state))]
    @ (if tcp_post_init_set S then [Tcp_post_init] else []) @ [Init_done None]"
  using assms
  by (simp add: transport_init_def socket_pre_init_def handle_pre_init_def post_init_def
      handle_post_init_def set_timer_def expired_def made_def)

text \<open>With the plain socket the initialisation is answered at once, without an error.\<close>

lemma plain_init_answers:
  assumes "a_socket c = READY" and "a_proxy c = []" and "post_init_at_once S = Some None"
    and "0 < timeout_socket_post_init S" and "\<not> tcp_pre_init_set S" and "\<not> tcp_post_init_set S"
  shows "calls (transport_init S c) = calls c @ [Init_done None] \<and> a_socket (transport_init S c) = READING
    \<and> ops (transport_init S c) = ops c"
  using assms
  by (simp add: transport_init_def socket_pre_init_def handle_pre_init_def post_init_def
      handle_post_init_def set_timer_def expired_def made_def cancel_timer_def)

text \<open>
  When the handler of the shutdown runs in the instant its timer is due and the callback of the timer
  is queued already, both answer.
\<close>

definition sample_transport :: transport_setting where
  "sample_transport =
     \<lparr>timeout_socket_post_init = 5000, timeout_socket_shutdown = 5000, timeout_proxy = 5000,
      post_init_at_once = Some None, shutdown_at_once = None, cancel_works = True,
      tcp_pre_init_set = False, tcp_post_init_set = False, socket_ec = None,
      translate_ec = (\<lambda>_. TransportError T_pass_through), system_message = (\<lambda>_. [])\<rparr>"

fun asio_run :: "transport_setting \<Rightarrow> asio_event list \<Rightarrow> asio_con \<Rightarrow> asio_con option" where
  "asio_run S [] c = Some c"
| "asio_run S (ev # evs) c =
     (if asio_enabled ev c
      then (case asio_step S ev c of Inl _ \<Rightarrow> None | Inr c' \<Rightarrow> asio_run S evs c')
      else None)"

lemma deadline_answers_twice:
  "map_option calls (asio_run sample_transport
      [Op_completes 0 (None, []), Tick 5000, Elapse 0, Op_runs 0, Timer_runs 0]
      (async_shutdown sample_transport new_asio_con))
    = Some [Shutdown_done None, Shutdown_done (Some (TransportError T_timeout))]"
  by code_simp

text \<open>
  The buffers of a write are kept until it is done: a write in its turn hands over its own buffers,
  one that overlaps another hands over those of the other again.
\<close>

lemma write_in_turn:
  "a_bufs (handle_async_write ec c) = []"
  "a_bufs c = [] \<Longrightarrow> ops (async_write bufs c) = ops c @ [(Socket_write bufs, None)]"
  by (simp_all add: handle_async_write_def made_def async_write_def start_op_def)

lemma overlapping_write_repeats:
  "a_bufs c = [] \<Longrightarrow> ops (async_write b2 (async_write b1 c))
     = ops c @ [(Socket_write b1, None), (Socket_write (b1 @ b2), None)]"
  by (simp add: async_write_def start_op_def)

text \<open>The request to a proxy names the authority, and its method raises no exception.\<close>

lemma proxy_request:
  assumes "a_proxy_data c = Some d"
  shows "\<exists>c' d'. proxy_init authority c = Inr (c', None) \<and> a_proxy_data c' = Some d'
    \<and> m_method (pd_req d') = ascii ''CONNECT'' \<and> m_uri (pd_req d') = authority
    \<and> m_version (pd_req d') = ascii ''HTTP/1.1''"
proof -
  have "\<not> list_ex is_not_token_char (ascii ''CONNECT'')" by code_simp
  then show ?thesis
    using assms by (simp add: proxy_init_def set_method_def replace_header_def)
qed

text \<open>An answer of the proxy that is no response raises an exception nobody catches.\<close>

lemma malformed_proxy_answer_escapes:
  assumes "a_proxy_data c = Some d" and "pd_timer d = Some i" and "\<not> expired i c"
    and "pd_res d = new_response"
  shows "\<exists>e. handle_proxy_read S None (ascii ''HTTP/1.1'' @ crlf @ crlf) c = Inl e"
proof -
  have "\<exists>e. consume_stream (ascii ''HTTP/1.1'' @ crlf @ crlf) 0 new_response = Inl e"
  proof -
    have "consume_stream (ascii ''HTTP/1.1'' @ crlf @ crlf) 0 new_response
        = Inl (Http_exception ''Invalid response line'' 400)" by code_simp
    then show ?thesis by blast
  qed
  then show ?thesis
    using assms by (auto simp: handle_proxy_read_def is_system_def proxy_timer_def)
qed


definition sample_ready_con :: asio_con where
  "sample_ready_con = fst (init_asio new_asio_con)"


end
