(* ===== verification/Endpoint.thy ===== *)
theory Endpoint
  imports AsioTransport
begin

text \<open>
  The server's endpoint: the transport's endpoint of \<open>transport/asio/endpoint.hpp\<close> (its \<open>io_service\<close>,
  listening and accepting), the settings \<open>impl/endpoint_impl.hpp\<close> gives a new connection, and the
  accept loop of \<open>roles/server_endpoint.hpp\<close>.
\<close>

subsection \<open>The transport's endpoint\<close>

datatype endpoint_state = Endpoint_uninitialized | Endpoint_ready | Endpoint_listening

record acceptor =
  acc_open :: bool
  acc_bound :: bool
  acc_listening :: bool

definition closed_acceptor :: acceptor where
  "closed_acceptor = \<lparr>acc_open = False, acc_bound = False, acc_listening = False\<rparr>"

text \<open>An \<open>io_service\<close> is a number here.\<close>

record asio_endpoint =
  e_io_service :: "nat option"
  e_external_io_service :: bool
  e_acceptor :: "acceptor option"
  e_listen_backlog :: int
  e_reuse_addr :: bool
  e_state :: endpoint_state

definition new_endpoint :: "int \<Rightarrow> asio_endpoint" where
  "new_endpoint max_connections =
     \<lparr>e_io_service = None, e_external_io_service = False, e_acceptor = None,
      e_listen_backlog = max_connections, e_reuse_addr = False, e_state = Endpoint_uninitialized\<rparr>"

text \<open>The \<open>io_service\<close> the destructor deletes.\<close>

definition destroy_endpoint :: "asio_endpoint \<Rightarrow> nat option" where
  "destroy_endpoint e =
     (if e_state e \<noteq> Endpoint_uninitialized \<and> \<not> e_external_io_service e then e_io_service e else None)"

definition init_external :: "nat \<Rightarrow> asio_endpoint \<Rightarrow> asio_endpoint \<times> error_code option" where
  "init_external p e =
     (if e_state e \<noteq> Endpoint_uninitialized then (e, Some (WsError E_invalid_state))
      else (e\<lparr>e_io_service := Some p, e_external_io_service := True,
              e_acceptor := Some closed_acceptor, e_state := Endpoint_ready\<rparr>, None))"

text \<open>With a service of its own, which is destroyed again when the call fails.\<close>

definition init_internal :: "nat \<Rightarrow> asio_endpoint \<Rightarrow> asio_endpoint \<times> error_code option" where
  "init_internal service e =
     (let (e, ec) = init_external service e in (e\<lparr>e_external_io_service := False\<rparr>, ec))"

definition init_throwing :: "nat \<Rightarrow> asio_endpoint \<Rightarrow> error_code + asio_endpoint" where
  "init_throwing service e =
     (case init_external service e of
        (_, Some ec) \<Rightarrow> Inl ec
      | (e, None) \<Rightarrow> Inr (e\<lparr>e_external_io_service := False\<rparr>))"

definition set_listen_backlog :: "int \<Rightarrow> asio_endpoint \<Rightarrow> asio_endpoint" where
  "set_listen_backlog backlog e = e\<lparr>e_listen_backlog := backlog\<rparr>"

definition set_reuse_addr :: "bool \<Rightarrow> asio_endpoint \<Rightarrow> asio_endpoint" where
  "set_reuse_addr value e = e\<lparr>e_reuse_addr := value\<rparr>"

text \<open>
  What the operating system answers to the calls of \<open>listen\<close>, the result of the program's pre-bind
  handler, and the translation of asio's codes by the socket policy.
\<close>

record listen_result =
  r_open :: "error_code option"
  r_option :: "error_code option"
  r_pre_bind :: "error_code option"
  r_bind :: "error_code option"
  r_listen :: "error_code option"

definition clean_up_listen_after_error ::
  "(error_code \<Rightarrow> error_code) \<Rightarrow> error_code \<Rightarrow> acceptor \<Rightarrow> acceptor \<times> error_code" where
  "clean_up_listen_after_error translate ec a = ((if acc_open a then closed_acceptor else a), translate ec)"

definition listen ::
  "(error_code \<Rightarrow> error_code) \<Rightarrow> listen_result \<Rightarrow> asio_endpoint \<Rightarrow> (asio_endpoint \<times> error_code option) option" where
  "listen translate r e =
     (if e_state e \<noteq> Endpoint_ready then Some (e, Some (WsError E_invalid_state))
      else case e_acceptor e of
             None \<Rightarrow> None
           | Some a \<Rightarrow>
               let fail = (\<lambda>a ec. let (a, ec) = clean_up_listen_after_error translate ec a
                                  in Some (e\<lparr>e_acceptor := Some a\<rparr>, Some ec))
               in case r_open r of
                    Some ec \<Rightarrow> fail a ec
                  | None \<Rightarrow>
                      let a = a\<lparr>acc_open := True\<rparr>
                      in case r_option r of
                           Some ec \<Rightarrow> fail a ec
                         | None \<Rightarrow>
                             (case r_pre_bind r of
                                Some ec \<Rightarrow> (case clean_up_listen_after_error id ec a of
                                               (a, ec) \<Rightarrow> Some (e\<lparr>e_acceptor := Some a\<rparr>, Some ec))
                              | None \<Rightarrow>
                                  (case r_bind r of
                                     Some ec \<Rightarrow> fail a ec
                                   | None \<Rightarrow>
                                       let a = a\<lparr>acc_bound := True\<rparr>
                                       in case r_listen r of
                                            Some ec \<Rightarrow> fail a ec
                                          | None \<Rightarrow> Some (e\<lparr>e_acceptor := Some (a\<lparr>acc_listening := True\<rparr>),
                                                            e_state := Endpoint_listening\<rparr>, None))))"

definition stop_listening :: "asio_endpoint \<Rightarrow> asio_endpoint \<times> error_code option" where
  "stop_listening e =
     (if e_state e \<noteq> Endpoint_listening then (e, Some (WsError E_invalid_state))
      else (e\<lparr>e_acceptor := map_option (\<lambda>_. closed_acceptor) (e_acceptor e), e_state := Endpoint_ready\<rparr>, None))"

definition is_listening :: "asio_endpoint \<Rightarrow> bool" where
  "is_listening e \<longleftrightarrow> e_state e = Endpoint_listening"

text \<open>The code a completed accept hands to its callback.\<close>

definition handle_asio_accept :: "(error_code \<Rightarrow> error_code) \<Rightarrow> error_code option \<Rightarrow> error_code option" where
  "handle_asio_accept translate asio_ec =
     (case asio_ec of
        None \<Rightarrow> None
      | Some e \<Rightarrow> if is_system Operation_aborted asio_ec then Some (WsError E_operation_canceled)
                  else Some (translate e))"

subsection \<open>The endpoint's settings\<close>

record con_settings =
  s_open_handshake_timeout :: int
  s_close_handshake_timeout :: int
  s_pong_timeout :: int
  s_max_message_size :: u64
  s_max_http_body_size :: u64

text \<open>
  A connection is made with the values of the configuration; what the endpoint was set to replaces
  them.
\<close>

definition create_settings :: "con_settings \<Rightarrow> con_settings \<Rightarrow> con_settings" where
  "create_settings config m =
     (let con = config;
          con = (if s_open_handshake_timeout m \<noteq> s_open_handshake_timeout config
                 then con\<lparr>s_open_handshake_timeout := s_open_handshake_timeout m\<rparr> else con);
          con = (if s_close_handshake_timeout m \<noteq> s_close_handshake_timeout config
                 then con\<lparr>s_close_handshake_timeout := s_close_handshake_timeout m\<rparr> else con);
          con = (if s_pong_timeout m \<noteq> s_pong_timeout config
                 then con\<lparr>s_pong_timeout := s_pong_timeout m\<rparr> else con);
          con = (if s_max_message_size m \<noteq> s_max_message_size config
                 then con\<lparr>s_max_message_size := s_max_message_size m\<rparr> else con)
      in con\<lparr>s_max_http_body_size := s_max_http_body_size m\<rparr>)"

lemma create_settings_copies: "create_settings config m = m"
  by (simp add: create_settings_def Let_def)

subsection \<open>The accept loop\<close>

text \<open>
  Connections are numbered as they are made. An accept is pending for a connection, with asio's code
  once it completed; a connection is then started or terminated.
\<close>

record accept_server =
  v_endpoint :: asio_endpoint
  v_accepts :: "(nat \<times> error_code option option) list"
  v_next :: nat
  v_started :: "nat list"
  v_terminated :: "(nat \<times> error_code option) list"

text \<open>\<open>None\<close> as a connection is the null pointer of a creation that failed.\<close>

definition create_connection :: "accept_server \<Rightarrow> accept_server \<times> nat option" where
  "create_connection v =
     (case init_asio new_asio_con of
        (_, Some ec) \<Rightarrow> (v, None)
      | (_, None) \<Rightarrow> (v\<lparr>v_next := v_next v + 1\<rparr>, Some (v_next v)))"

definition async_accept :: "nat \<Rightarrow> accept_server \<Rightarrow> accept_server \<times> error_code option" where
  "async_accept con v =
     (if e_state (v_endpoint v) \<noteq> Endpoint_listening \<or> e_acceptor (v_endpoint v) = None
      then (v, Some (WsError E_async_accept_not_listening))
      else (v\<lparr>v_accepts := v_accepts v @ [(con, None)]\<rparr>, None))"

definition terminate_con :: "nat \<Rightarrow> error_code option \<Rightarrow> accept_server \<Rightarrow> accept_server" where
  "terminate_con con ec v = v\<lparr>v_terminated := v_terminated v @ [(con, ec)]\<rparr>"

definition start_accept :: "accept_server \<Rightarrow> accept_server \<times> error_code option" where
  "start_accept v =
     (if \<not> is_listening (v_endpoint v) then (v, Some (WsError E_async_accept_not_listening))
      else case create_connection v of
             (v, None) \<Rightarrow> (v, Some (WsError E_con_creation_failed))
           | (v, Some con) \<Rightarrow>
               (case async_accept con v of
                  (v, None) \<Rightarrow> (v, None)
                | (v, Some ec) \<Rightarrow> (terminate_con con None v, Some ec)))"

definition handle_accept :: "nat \<Rightarrow> error_code option \<Rightarrow> accept_server \<Rightarrow> accept_server" where
  "handle_accept con ec v =
     (let v = (if ec \<noteq> None then terminate_con con ec v else v\<lparr>v_started := v_started v @ [con]\<rparr>)
      in fst (start_accept v))"

text \<open>
  The program calls \<open>listen\<close>, \<open>start_accept\<close> and \<open>stop_listening\<close>; an accept completes, and its
  handler runs. Closing the acceptor completes what is pending with asio's code for an aborted
  operation.
\<close>

datatype accept_event =
    Do_listen listen_result | Do_start_accept | Do_stop_listening
  | Accept_completes nat "error_code option" | Accept_runs nat

definition cancelled_accept ::
  "string \<Rightarrow> nat \<times> error_code option option \<Rightarrow> nat \<times> error_code option option" where
  "cancelled_accept msg = (\<lambda>(con, r). (con, case r of
     None \<Rightarrow> Some (Some (SystemError Operation_aborted msg)) | Some x \<Rightarrow> Some x))"

fun accept_enabled :: "accept_event \<Rightarrow> accept_server \<Rightarrow> bool" where
  "accept_enabled (Accept_completes k ec) v \<longleftrightarrow> k < length (v_accepts v) \<and> snd (v_accepts v ! k) = None"
| "accept_enabled (Accept_runs k) v \<longleftrightarrow> k < length (v_accepts v) \<and> snd (v_accepts v ! k) \<noteq> None"
| "accept_enabled _ v \<longleftrightarrow> True"

fun accept_step ::
  "transport_setting \<Rightarrow> accept_event \<Rightarrow> accept_server \<Rightarrow> accept_server option" where
  "accept_step S (Do_listen r) v =
     (case listen (translate_ec S) r (v_endpoint v) of
        None \<Rightarrow> None
      | Some (e, _) \<Rightarrow> Some (v\<lparr>v_endpoint := e\<rparr>))"
| "accept_step S Do_start_accept v = Some (fst (start_accept v))"
| "accept_step S Do_stop_listening v =
     (case stop_listening (v_endpoint v) of
        (e, Some ec) \<Rightarrow> Some v
      | (e, None) \<Rightarrow> Some (v\<lparr>v_endpoint := e,
          v_accepts := map (cancelled_accept (system_message S Operation_aborted)) (v_accepts v)\<rparr>))"
| "accept_step S (Accept_completes k ec) v =
     Some (v\<lparr>v_accepts := (v_accepts v)[k := (fst (v_accepts v ! k), Some ec)]\<rparr>)"
| "accept_step S (Accept_runs k) v =
     (case v_accepts v ! k of
        (con, Some ec) \<Rightarrow>
          Some (handle_accept con (handle_asio_accept (translate_ec S) ec)
                  (v\<lparr>v_accepts := remove_nth k (v_accepts v)\<rparr>))
      | (con, None) \<Rightarrow> Some v)"

fun accept_run :: "transport_setting \<Rightarrow> accept_event list \<Rightarrow> accept_server \<Rightarrow> accept_server option" where
  "accept_run S [] v = Some v"
| "accept_run S (ev # evs) v =
     (if accept_enabled ev v
      then (case accept_step S ev v of None \<Rightarrow> None | Some v' \<Rightarrow> accept_run S evs v')
      else None)"

definition new_accept_server :: "asio_endpoint \<Rightarrow> accept_server" where
  "new_accept_server e = \<lparr>v_endpoint = e, v_accepts = [], v_next = 0, v_started = [], v_terminated = []\<rparr>"

subsection \<open>Listening\<close>

text \<open>The state and the acceptor agree: it listens in the one, and is closed in the other.\<close>

definition endpoint_ok :: "asio_endpoint \<Rightarrow> bool" where
  "endpoint_ok e \<longleftrightarrow>
     (case e_state e of
        Endpoint_uninitialized \<Rightarrow> e_acceptor e = None
      | Endpoint_ready \<Rightarrow> e_acceptor e = Some closed_acceptor
      | Endpoint_listening \<Rightarrow> e_acceptor e = Some \<lparr>acc_open = True, acc_bound = True, acc_listening = True\<rparr>)"

lemma endpoint_ok_init:
  "endpoint_ok (new_endpoint n)"
  "endpoint_ok e \<Longrightarrow> endpoint_ok (fst (init_external p e))"
  "endpoint_ok e \<Longrightarrow> endpoint_ok (fst (init_internal p e))"
  "endpoint_ok e \<Longrightarrow> endpoint_ok (fst (stop_listening e))"
  by (auto simp: endpoint_ok_def new_endpoint_def init_external_def init_internal_def stop_listening_def
      Let_def split: endpoint_state.splits)

text \<open>The errors of the calls, in their order; the program's own code is not translated.\<close>

definition listen_errors :: "(error_code \<Rightarrow> error_code) \<Rightarrow> listen_result \<Rightarrow> error_code list" where
  "listen_errors translate r =
     concat (map (case_option [] (\<lambda>ec. [ec]))
       [map_option translate (r_open r), map_option translate (r_option r), r_pre_bind r,
        map_option translate (r_bind r), map_option translate (r_listen r)])"

definition now_listening :: "asio_endpoint \<Rightarrow> asio_endpoint" where
  "now_listening e =
     e\<lparr>e_acceptor := Some \<lparr>acc_open = True, acc_bound = True, acc_listening = True\<rparr>, e_state := Endpoint_listening\<rparr>"

lemma endpoint_ok_listening: "endpoint_ok (now_listening e)"
  by (simp add: endpoint_ok_def now_listening_def)

text \<open>C37: listen either listens, with the acceptor open, bound and listening, or returns the error of the
  first of its calls that failed and leaves the endpoint as it was, so that it can be tried again; an
  endpoint that is not ready is refused.\<close>
theorem listen_all_or_nothing:
  assumes "endpoint_ok e"
  shows "listen tr r e = Some (if e_state e \<noteq> Endpoint_ready then (e, Some (WsError E_invalid_state))
    else case listen_errors tr r of [] \<Rightarrow> (now_listening e, None) | ec # _ \<Rightarrow> (e, Some ec))"
proof (cases "e_state e = Endpoint_ready")
  case True
  then have a: "e_acceptor e = Some closed_acceptor" using assms by (simp add: endpoint_ok_def)
  then have "e\<lparr>e_acceptor := Some closed_acceptor\<rparr> = e" by simp
  with True a show ?thesis
    by (simp add: listen_def Let_def clean_up_listen_after_error_def closed_acceptor_def listen_errors_def
        now_listening_def split: option.split)
qed (simp add: listen_def)

definition ready_endpoint :: asio_endpoint where
  "ready_endpoint = fst (init_external 7 (new_endpoint 4096))"

lemma ready_endpoint_ok: "endpoint_ok ready_endpoint"
  unfolding ready_endpoint_def by (intro endpoint_ok_init)

text \<open>The address is in use; then it is free.\<close>

theorem listen_all_or_nothing_witness:
  "listen id \<lparr>r_open = None, r_option = None, r_pre_bind = None, r_bind = Some (AsioError A_pass_through), r_listen = None\<rparr>
      ready_endpoint = Some (ready_endpoint, Some (AsioError A_pass_through))
    \<and> listen id \<lparr>r_open = None, r_option = None, r_pre_bind = None, r_bind = None, r_listen = None\<rparr>
      ready_endpoint = Some (now_listening ready_endpoint, None)"
  using listen_all_or_nothing [OF ready_endpoint_ok, where tr = id]
  by (simp add: listen_errors_def ready_endpoint_def init_external_def new_endpoint_def)

text \<open>
  A second initialisation with a service of its own is refused, but makes the endpoint forget that its
  service is not its own: the destructor deletes it.
\<close>

lemma second_init_steals_service:
  assumes "e_state e = Endpoint_uninitialized"
  shows "snd (init_internal q (fst (init_external p e))) = Some (WsError E_invalid_state)
    \<and> destroy_endpoint (fst (init_external p e)) = None
    \<and> destroy_endpoint (fst (init_internal q (fst (init_external p e)))) = Some p"
  using assms by (simp add: init_external_def init_internal_def destroy_endpoint_def)

subsection \<open>One accept at a time\<close>

lemma creates: "create_connection v = (v\<lparr>v_next := v_next v + 1\<rparr>, Some (v_next v))"
  by (simp add: create_connection_def init_asio_def socket_init_asio_def new_asio_con_def)

definition listening :: "accept_server \<Rightarrow> bool" where
  "listening v \<longleftrightarrow> is_listening (v_endpoint v) \<and> e_acceptor (v_endpoint v) \<noteq> None"

lemma start_accept_listening:
  "listening v \<Longrightarrow> start_accept v =
     (v\<lparr>v_next := v_next v + 1, v_accepts := v_accepts v @ [(v_next v, None)]\<rparr>, None)"
  by (simp add: listening_def start_accept_def creates async_accept_def is_listening_def)

text \<open>One round of the loop: the accept completes, with or without an error, and its handler runs.\<close>

fun accept_rounds_of :: "error_code option list \<Rightarrow> accept_event list" where
  "accept_rounds_of [] = []"
| "accept_rounds_of (ec # ecs) = Accept_completes 0 ec # Accept_runs 0 # accept_rounds_of ecs"

definition served :: "nat \<Rightarrow> error_code option list \<Rightarrow> nat list" where
  "served n ecs = map fst (filter (\<lambda>(con, ec). ec = None) (enumerate n ecs))"

definition refused ::
  "(error_code \<Rightarrow> error_code) \<Rightarrow> nat \<Rightarrow> error_code option list \<Rightarrow> (nat \<times> error_code option) list" where
  "refused tr n ecs =
     map (\<lambda>(con, ec). (con, handle_asio_accept tr ec)) (filter (\<lambda>(con, ec). ec \<noteq> None) (enumerate n ecs))"

lemma handle_accept_ec: "handle_asio_accept tr ec = None \<longleftrightarrow> ec = None"
  by (simp add: handle_asio_accept_def split: option.split)

lemma one_accept:
  assumes "listening v" and "v_accepts v = [(con, None)]"
  shows "accept_run S (Accept_completes 0 ec # Accept_runs 0 # evs) v =
    accept_run S evs (v\<lparr>v_accepts := [(v_next v, None)], v_next := v_next v + 1,
      v_started := v_started v @ (if ec = None then [con] else []),
      v_terminated := v_terminated v
        @ (if ec = None then [] else [(con, handle_asio_accept (translate_ec S) ec)])\<rparr>)"
proof -
  have l: "listening (v\<lparr>v_accepts := [], v_started := x, v_terminated := y\<rparr>)" for x y
    using assms(1) by (simp add: listening_def)
  show ?thesis
    using assms start_accept_listening [OF l] start_accept_listening [of "v\<lparr>v_accepts := [], v_started := x\<rparr>" for x]
      start_accept_listening [of "v\<lparr>v_accepts := [], v_terminated := x\<rparr>" for x]
    by (cases v) (auto simp: handle_accept_def handle_accept_ec terminate_con_def remove_nth_def listening_def)
qed

lemma accept_rounds:
  assumes "listening v" and "v_accepts v = [(con, None)]" and "v_next v = Suc con"
  shows "accept_run S (accept_rounds_of ecs) v = Some (v\<lparr>v_accepts := [(con + length ecs, None)],
      v_next := Suc (con + length ecs),
      v_started := v_started v @ served con ecs,
      v_terminated := v_terminated v @ refused (translate_ec S) con ecs\<rparr>)"
  using assms
proof (induction ecs arbitrary: v con)
  case Nil
  then show ?case by (simp add: served_def refused_def)
next
  case (Cons ec ecs)
  let ?v = "v\<lparr>v_accepts := [(v_next v, None)], v_next := v_next v + 1,
      v_started := v_started v @ (if ec = None then [con] else []),
      v_terminated := v_terminated v
        @ (if ec = None then [] else [(con, handle_asio_accept (translate_ec S) ec)])\<rparr>"
  have "accept_run S (accept_rounds_of (ec # ecs)) v = accept_run S (accept_rounds_of ecs) ?v"
    using one_accept [OF Cons(2,3)] by simp
  also have "\<dots> = Some (?v\<lparr>v_accepts := [(Suc con + length ecs, None)],
      v_next := Suc (Suc con + length ecs),
      v_started := v_started ?v @ served (Suc con) ecs,
      v_terminated := v_terminated ?v @ refused (translate_ec S) (Suc con) ecs\<rparr>)"
    by (rule Cons(1)) (use Cons(2,4) in \<open>simp_all add: listening_def\<close>)
  finally show ?case by (simp add: served_def refused_def)
qed

text \<open>C38: A server that listens and has called start_accept never stops accepting: whatever each accept
  ends with, exactly one is pending after it, every connection accepted without an error was started, in
  order, and every other one was terminated with the code of its error.\<close>
theorem accept_loop_goes_on:
  assumes "endpoint_ok e" and "is_listening e"
  shows "accept_run S (Do_start_accept # accept_rounds_of ecs) (new_accept_server e) =
    Some (\<lparr>v_endpoint = e, v_accepts = [(length ecs, None)], v_next = Suc (length ecs),
      v_started = served 0 ecs, v_terminated = refused (translate_ec S) 0 ecs\<rparr>)"
proof -
  have l: "listening (new_accept_server e)"
    using assms by (simp add: listening_def new_accept_server_def endpoint_ok_def is_listening_def)
  let ?v = "\<lparr>v_endpoint = e, v_accepts = [(0, None)], v_next = 1, v_started = [], v_terminated = []\<rparr>"
  have "accept_run S (Do_start_accept # accept_rounds_of ecs) (new_accept_server e) = accept_run S (accept_rounds_of ecs) ?v"
    using start_accept_listening [OF l] by (simp add: new_accept_server_def)
  also have "\<dots> = Some (?v\<lparr>v_accepts := [(0 + length ecs, None)], v_next := Suc (0 + length ecs),
      v_started := v_started ?v @ served 0 ecs,
      v_terminated := v_terminated ?v @ refused (translate_ec S) 0 ecs\<rparr>)"
    by (rule accept_rounds) (use l in \<open>simp_all add: listening_def new_accept_server_def\<close>)
  finally show ?thesis by simp
qed

theorem accept_loop_goes_on_witness:
  "map_option (\<lambda>v. (map fst (v_accepts v), v_started v, map fst (v_terminated v)))
      (accept_run sample_transport (Do_start_accept # accept_rounds_of [None, Some (AsioError A_pass_through), None])
        (new_accept_server (now_listening ready_endpoint)))
    = Some ([3], [0, 2], [1])"
proof -
  have l: "is_listening (now_listening ready_endpoint)" by (simp add: is_listening_def now_listening_def)
  show ?thesis
    unfolding accept_loop_goes_on [OF endpoint_ok_listening l] by (simp add: served_def refused_def)
qed

text \<open>After \<open>stop_listening\<close> the pending accept ends the loop.\<close>

lemma stopped_loop_ends:
  assumes "listening v" and "v_accepts v = [(con, None)]"
  shows "accept_run S [Do_stop_listening, Accept_runs 0] v = Some (v\<lparr>
      v_endpoint := fst (stop_listening (v_endpoint v)), v_accepts := [],
      v_terminated := v_terminated v @ [(con, Some (WsError E_operation_canceled))]\<rparr>)"
  using assms
  by (simp add: listening_def is_listening_def stop_listening_def cancelled_accept_def handle_accept_def
      handle_asio_accept_def is_system_def terminate_con_def start_accept_def remove_nth_def)

text \<open>
  When the program listens and starts again before the handler of the cancelled accept ran, that handler
  goes on too: two accepts are pending from then on.
\<close>

lemma restart_doubles_loop:
  assumes "endpoint_ok e" and "is_listening e"
    and "r = \<lparr>r_open = None, r_option = None, r_pre_bind = None, r_bind = None, r_listen = None\<rparr>"
  shows "\<exists>v. accept_run S [Do_start_accept, Do_stop_listening, Do_listen r, Do_start_accept, Accept_runs 0]
      (new_accept_server e) = Some v \<and> map fst (v_accepts v) = [1, 2]"
  using assms
  by (simp add: endpoint_ok_def is_listening_def new_accept_server_def start_accept_def creates async_accept_def
      stop_listening_def cancelled_accept_def listen_def closed_acceptor_def handle_accept_def
      handle_asio_accept_def is_system_def terminate_con_def remove_nth_def)

end
