(* ===== verification/AsioConnect.thy ===== *)
theory AsioConnect
  imports AsioTransport Uri
begin

text \<open>
  The client side of the transport: \<open>async_connect\<close> of \<open>transport/asio/endpoint.hpp\<close> resolves the host
  and connects the socket, each with a timer, and \<open>roles/client_endpoint.hpp\<close> makes the connection and
  starts or terminates it. The timers are those of the connection (\<open>AsioTransport\<close>).
\<close>

subsection \<open>Resolving and connecting\<close>

text \<open>An operation under way knows its timer; \<open>q_calls\<close> are the calls of the connect handler.\<close>

datatype connect_op = Resolve_host bytes bytes nat | Connect_socket nat

record connecting =
  q_con :: asio_con
  q_ops :: "(connect_op \<times> error_code option option) list"
  q_calls :: "error_code option list"

record connect_setting =
  q_transport :: transport_setting
  timeout_dns_resolve :: nat
  timeout_connect :: nat

definition resolve_callback :: timer_callback where "resolve_callback = User_timer 0"
definition connect_callback :: timer_callback where "connect_callback = User_timer 1"

definition answer :: "error_code option \<Rightarrow> connecting \<Rightarrow> connecting" where
  "answer ec q = q\<lparr>q_calls := q_calls q @ [ec]\<rparr>"

text \<open>The port and the security of an invalid URI are whatever the object held.\<close>

definition async_connect ::
  "connect_setting \<Rightarrow> u16 \<Rightarrow> bool \<Rightarrow> uri \<Rightarrow> asio_con \<Rightarrow> connecting result" where
  "async_connect S port0 secure0 u tcon =
     (let q = \<lparr>q_con = tcon, q_ops = [], q_calls = []\<rparr>;
          resolve = (\<lambda>host port tcon.
            let (tcon, dns_timer) = set_timer (timeout_dns_resolve S) resolve_callback tcon
            in q\<lparr>q_con := tcon, q_ops := [(Resolve_host host port dns_timer, None)]\<rparr>)
      in if a_proxy tcon = [] then Inr (resolve (m_host u) (get_port_str u) tcon)
         else
           let pu = uri_of_string port0 secure0 (a_proxy tcon)
           in if \<not> m_valid pu then Inr (answer (Some (AsioError A_proxy_invalid)) q)
              else case proxy_init (get_authority u) tcon of
                     Inl e \<Rightarrow> Inl e
                   | Inr (tcon, Some ec) \<Rightarrow> Inr (answer (Some ec) (q\<lparr>q_con := tcon\<rparr>))
                   | Inr (tcon, None) \<Rightarrow> Inr (resolve (m_host pu) (get_port_str pu) tcon))"

text \<open>Cancelling the resolver, which all connections of the endpoint share.\<close>

definition cancel_resolver :: "transport_setting \<Rightarrow> connecting \<Rightarrow> connecting" where
  "cancel_resolver S q = q\<lparr>q_ops := map (\<lambda>(op, r). (op, case (op, r) of
     (Resolve_host _ _ _, None) \<Rightarrow> Some (Some (SystemError Operation_aborted (system_message S Operation_aborted)))
   | _ \<Rightarrow> r)) (q_ops q)\<rparr>"

definition handle_resolve_timeout :: "connect_setting \<Rightarrow> error_code option \<Rightarrow> connecting \<Rightarrow> connecting" where
  "handle_resolve_timeout S ec q =
     (if ec = Some (TransportError T_operation_aborted) then q
      else
        let ret_ec = (if ec \<noteq> None then ec else Some (TransportError T_timeout))
        in answer ret_ec (cancel_resolver (q_transport S) q))"

definition handle_resolve ::
  "connect_setting \<Rightarrow> nat \<Rightarrow> error_code option \<Rightarrow> connecting \<Rightarrow> connecting" where
  "handle_resolve S dns_timer ec q =
     (if is_system Operation_aborted ec \<or> expired dns_timer (q_con q) then q
      else
        let q = q\<lparr>q_con := cancel_timer dns_timer (q_con q)\<rparr>
        in case ec of
             Some e \<Rightarrow> answer (Some (translate_ec (q_transport S) e)) q
           | None \<Rightarrow>
               let (tcon, con_timer) = set_timer (timeout_connect S) connect_callback (q_con q)
               in q\<lparr>q_con := tcon, q_ops := q_ops q @ [(Connect_socket con_timer, None)]\<rparr>)"

definition cancel_socket :: "transport_setting \<Rightarrow> connecting \<Rightarrow> connecting" where
  "cancel_socket S q =
     (let q = q\<lparr>q_con := cancel_socket_checked S (q_con q)\<rparr>
      in if cancel_works S then
           q\<lparr>q_ops := map (\<lambda>(op, r). (op, case (op, r) of
             (Connect_socket _, None) \<Rightarrow>
               Some (Some (SystemError Operation_aborted (system_message S Operation_aborted)))
           | _ \<Rightarrow> r)) (q_ops q)\<rparr>
         else q)"

definition handle_connect_timeout :: "connect_setting \<Rightarrow> error_code option \<Rightarrow> connecting \<Rightarrow> connecting" where
  "handle_connect_timeout S ec q =
     (if ec = Some (TransportError T_operation_aborted) then q
      else
        let ret_ec = (if ec \<noteq> None then ec else Some (TransportError T_timeout))
        in answer ret_ec (cancel_socket (q_transport S) q))"

definition handle_asio_connect ::
  "connect_setting \<Rightarrow> nat \<Rightarrow> error_code option \<Rightarrow> connecting \<Rightarrow> connecting" where
  "handle_asio_connect S con_timer ec q =
     (if is_system Operation_aborted ec \<or> expired con_timer (q_con q) then q
      else
        let q = q\<lparr>q_con := cancel_timer con_timer (q_con q)\<rparr>
        in case ec of
             Some e \<Rightarrow> answer (Some (translate_ec (q_transport S) e)) q
           | None \<Rightarrow> answer None q)"

subsection \<open>Events\<close>

text \<open>Those of the connection, the completion of an operation, and the run of its handler.\<close>

datatype connect_event =
    Of_con asio_event | Connect_completes nat "error_code option" | Connect_runs nat

fun connect_enabled :: "connect_event \<Rightarrow> connecting \<Rightarrow> bool" where
  "connect_enabled (Of_con ev) q \<longleftrightarrow> asio_enabled ev (q_con q)"
| "connect_enabled (Connect_completes k r) q \<longleftrightarrow> k < length (q_ops q) \<and> snd (q_ops q ! k) = None"
| "connect_enabled (Connect_runs k) q \<longleftrightarrow> k < length (q_ops q) \<and> snd (q_ops q ! k) \<noteq> None"

definition timer_code :: "transport_setting \<Rightarrow> timer \<Rightarrow> error_code option" where
  "timer_code S t =
     handle_timer (if t_wait t = Cancelled
                   then Some (SystemError Operation_aborted (system_message S Operation_aborted)) else None)"

text \<open>The callbacks of the two timers are the endpoint's.\<close>

fun connect_step :: "connect_setting \<Rightarrow> connect_event \<Rightarrow> connecting \<Rightarrow> connecting result" where
  "connect_step S (Of_con (Timer_runs i)) q =
     (let t = timers (q_con q) ! i; ec = timer_code (q_transport S) t
      in if t_callback t = resolve_callback
         then Inr (handle_resolve_timeout S ec (q\<lparr>q_con := set_wait i Done (q_con q)\<rparr>))
         else if t_callback t = connect_callback
         then Inr (handle_connect_timeout S ec (q\<lparr>q_con := set_wait i Done (q_con q)\<rparr>))
         else map_sum id (\<lambda>c. q\<lparr>q_con := c\<rparr>) (asio_step (q_transport S) (Timer_runs i) (q_con q)))"
| "connect_step S (Of_con ev) q =
     map_sum id (\<lambda>c. q\<lparr>q_con := c\<rparr>) (asio_step (q_transport S) ev (q_con q))"
| "connect_step S (Connect_completes k r) q = Inr (q\<lparr>q_ops := (q_ops q)[k := (fst (q_ops q ! k), Some r)]\<rparr>)"
| "connect_step S (Connect_runs k) q =
     (let q' = q\<lparr>q_ops := remove_nth k (q_ops q)\<rparr>
      in case q_ops q ! k of
           (Resolve_host _ _ dns_timer, Some ec) \<Rightarrow> Inr (handle_resolve S dns_timer ec q')
         | (Connect_socket con_timer, Some ec) \<Rightarrow> Inr (handle_asio_connect S con_timer ec q')
         | (_, None) \<Rightarrow> Inr q)"

text \<open>As for the connection, no handler runs in the very instant a timer is due.\<close>

definition connect_off_deadline :: "connect_event \<Rightarrow> connecting \<Rightarrow> bool" where
  "connect_off_deadline ev q \<longleftrightarrow>
     (case ev of
        Connect_runs k \<Rightarrow> \<forall>t \<in> set (timers (q_con q)). t_expires t \<noteq> now (q_con q)
      | _ \<Rightarrow> True)"

inductive connect_reachable :: "connect_setting \<Rightarrow> connecting \<Rightarrow> connecting \<Rightarrow> bool" for S q0 where
  connect_start: "connect_reachable S q0 q0"
| connect_event: "connect_reachable S q0 q \<Longrightarrow> connect_enabled ev q \<Longrightarrow> connect_off_deadline ev q
     \<Longrightarrow> connect_step S ev q = Inr q' \<Longrightarrow> connect_reachable S q0 q'"

subsection \<open>The client endpoint\<close>

definition client_get_connection :: "bool \<Rightarrow> uri \<Rightarrow> error_code + asio_con \<times> uri" where
  "client_get_connection is_secure location =
     (if m_secure location \<and> \<not> is_secure then Inl (WsError E_endpoint_not_secure)
      else case init_asio new_asio_con of
             (_, Some ec) \<Rightarrow> Inl (WsError E_con_creation_failed)
           | (con, None) \<Rightarrow> Inr (con, location))"

definition client_get_connection_string ::
  "u16 \<Rightarrow> bool \<Rightarrow> bool \<Rightarrow> bytes \<Rightarrow> error_code + asio_con \<times> uri" where
  "client_get_connection_string port0 secure0 is_secure u =
     (let location = uri_of_string port0 secure0 u
      in if \<not> m_valid location then Inl (WsError E_invalid_uri)
         else client_get_connection is_secure location)"

definition client_connect :: "connect_setting \<Rightarrow> u16 \<Rightarrow> bool \<Rightarrow> asio_con \<times> uri \<Rightarrow> connecting result" where
  "client_connect S port0 secure0 con = async_connect S port0 secure0 (snd con) (fst con)"

datatype client_fate = Fate_started | Fate_terminated error_code

definition client_handle_connect :: "error_code option \<Rightarrow> client_fate" where
  "client_handle_connect ec = (case ec of None \<Rightarrow> Fate_started | Some e \<Rightarrow> Fate_terminated e)"


subsection \<open>One answer\<close>

text \<open>A timer whose callback is still to run with its time over, or that can still elapse.\<close>

definition live :: "asio_con \<Rightarrow> timer \<Rightarrow> bool" where
  "live c t \<longleftrightarrow> t_wait t = Waiting \<or> t_wait t = Elapsed \<and> t_expires t \<le> now c"

definition gone :: "timer \<Rightarrow> bool" where
  "gone t \<longleftrightarrow> t_wait t = Cancelled \<or> t_wait t = Done"

text \<open>
  One stage of the connect: no answer while its timer is live; after the answer either its timer ran in
  its time, and the operation may be left over, or the operation is over and its timer gone.
\<close>

definition stage :: "(connect_op \<Rightarrow> bool) \<Rightarrow> timer \<Rightarrow> connecting \<Rightarrow> bool" where
  "stage P t q \<longleftrightarrow>
     (q_ops q = [] \<or> (\<exists>op r. q_ops q = [(op, r)] \<and> P op))
     \<and> (q_calls q = [] \<and> live (q_con q) t
        \<or> length (q_calls q) = 1 \<and> t_wait t = Done \<and> t_expires t \<le> now (q_con q)
        \<or> length (q_calls q) = 1 \<and> gone t \<and> q_ops q = [])"

definition resolves :: "nat \<Rightarrow> connect_op \<Rightarrow> bool" where
  "resolves i op \<longleftrightarrow> (\<exists>h p. op = Resolve_host h p i)"

fun connect_ok :: "connecting \<Rightarrow> timer list \<Rightarrow> bool" where
  "connect_ok q [t0] \<longleftrightarrow> t_callback t0 = resolve_callback \<and> stage (resolves 0) t0 q"
| "connect_ok q [t0, t1] \<longleftrightarrow> t_callback t0 = resolve_callback \<and> gone t0
     \<and> t_callback t1 = connect_callback \<and> stage (\<lambda>op. op = Connect_socket (Suc 0)) t1 q"
| "connect_ok q _ \<longleftrightarrow> False"

definition connect_inv :: "connecting \<Rightarrow> bool" where
  "connect_inv q \<longleftrightarrow> ops (q_con q) = [] \<and> connect_ok q (timers (q_con q))"

lemma connect_inv_cases:
  assumes "connect_inv q"
  obtains (resolving) t0 where "timers (q_con q) = [t0]" "ops (q_con q) = []"
      "t_callback t0 = resolve_callback" "stage (resolves 0) t0 q"
    | (connecting) t0 t1 where "timers (q_con q) = [t0, t1]" "ops (q_con q) = []"
      "t_callback t0 = resolve_callback" "gone t0" "t_callback t1 = connect_callback"
      "stage (\<lambda>op. op = Connect_socket (Suc 0)) t1 q"
  using assms by (cases "(q, timers (q_con q))" rule: connect_ok.cases) (auto simp: connect_inv_def)

lemma timer_code_simps [simp]:
  "t_wait t = Cancelled \<Longrightarrow> timer_code S t = Some (TransportError T_operation_aborted)"
  "t_wait t \<noteq> Cancelled \<Longrightarrow> timer_code S t = None"
  by (simp_all add: timer_code_def handle_timer_def is_system_def)

lemma callbacks_differ [simp]: "resolve_callback \<noteq> connect_callback" "connect_callback \<noteq> resolve_callback"
  by (simp_all add: resolve_callback_def connect_callback_def)

text \<open>The timers of a stage, for the events of the connection.\<close>

lemma stage_tick:
  "stage P t q \<Longrightarrow> stage P t (q\<lparr>q_con := (q_con q)\<lparr>now := now (q_con q) + n\<rparr>\<rparr>)"
  by (auto simp: stage_def live_def)

lemma stage_elapse:
  "stage P t q \<Longrightarrow> t_wait t = Waiting \<Longrightarrow> t_expires t \<le> now (q_con q) \<Longrightarrow> now c = now (q_con q)
     \<Longrightarrow> stage P (t\<lparr>t_wait := Elapsed\<rparr>) (q\<lparr>q_con := c\<rparr>)"
  by (auto simp: stage_def live_def gone_def)

lemma stage_same:
  "stage P t q \<Longrightarrow> now c = now (q_con q) \<Longrightarrow> stage P t (q\<lparr>q_con := c\<rparr>)"
  by (auto simp: stage_def live_def)


lemma connect_inv_resolving:
  "timers (q_con q) = [t0] \<Longrightarrow> connect_inv q \<longleftrightarrow> ops (q_con q) = []
     \<and> t_callback t0 = resolve_callback \<and> stage (resolves 0) t0 q"
  "timers (q_con q) = [t0, t1] \<Longrightarrow> connect_inv q \<longleftrightarrow> ops (q_con q) = []
     \<and> t_callback t0 = resolve_callback \<and> gone t0 \<and> t_callback t1 = connect_callback
     \<and> stage (\<lambda>op. op = Connect_socket (Suc 0)) t1 q"
  by (simp_all add: connect_inv_def)

lemma tick_keeps: "connect_inv q \<Longrightarrow> connect_inv (q\<lparr>q_con := (q_con q)\<lparr>now := now (q_con q) + n\<rparr>\<rparr>)"
  by (erule connect_inv_cases) (auto simp: connect_inv_resolving stage_tick)

lemma elapse_keeps:
  assumes "connect_inv q" and "asio_enabled (Elapse i) (q_con q)"
  shows "connect_inv (q\<lparr>q_con := set_wait i Elapsed (q_con q)\<rparr>)"
  using assms(1)
proof (cases rule: connect_inv_cases)
  case (resolving t0)
  then have "i = 0" using assms(2) by simp
  then show ?thesis
    using resolving assms(2) by (auto simp: connect_inv_def set_wait_def intro!: stage_elapse)
next
  case (connecting t0 t1)
  then have "i = 1" using assms(2) by (cases i) (auto simp: gone_def less_Suc_eq)
  then show ?thesis
    using connecting assms(2) by (auto simp: connect_inv_def set_wait_def intro!: stage_elapse)
qed

lemma completes_keeps:
  assumes "connect_inv q" and "connect_enabled (Connect_completes k r) q"
  shows "connect_inv (q\<lparr>q_ops := (q_ops q)[k := (fst (q_ops q ! k), Some r)]\<rparr>)"
  using assms
  by (elim connect_inv_cases) (auto simp: connect_inv_def stage_def)

lemma stage_timer_cancelled:
  "stage P t q \<Longrightarrow> t_wait t = Cancelled \<Longrightarrow> now c = now (q_con q)
     \<Longrightarrow> stage P (t\<lparr>t_wait := Done\<rparr>) (q\<lparr>q_con := c\<rparr>)"
  by (auto simp: stage_def live_def gone_def)

text \<open>What is left over of an operation is of no consequence.\<close>

lemma stage_timer_elapsed:
  assumes "stage P t q" and "t_wait t = Elapsed" and "now (q_con q') = now (q_con q)"
    and "map fst (q_ops q') = map fst (q_ops q)" and "q_calls q' = q_calls q @ [ec]"
  shows "stage P (t\<lparr>t_wait := Done\<rparr>) q'"
  using assms by (auto simp: stage_def live_def gone_def) 

lemma cancel_view [simp]:
  "now (cancel_socket_checked S c) = now c" "timers (cancel_socket_checked S c) = timers c"
  "ops c = [] \<Longrightarrow> ops (cancel_socket_checked S c) = []"
  by (simp_all add: cancel_socket_checked_def)

lemma cancel_ops [simp]:
  "map fst (q_ops (cancel_resolver S q)) = map fst (q_ops q)" "q_con (cancel_resolver S q) = q_con q"
  "q_calls (cancel_resolver S q) = q_calls q"
  "map fst (q_ops (cancel_socket S q)) = map fst (q_ops q)"
  "q_con (cancel_socket S q) = cancel_socket_checked S (q_con q)" "q_calls (cancel_socket S q) = q_calls q"
  by (auto simp: cancel_resolver_def cancel_socket_def Let_def split: prod.splits)

lemma answer_view [simp]:
  "q_con (answer ec q) = q_con q" "q_ops (answer ec q) = q_ops q" "q_calls (answer ec q) = q_calls q @ [ec]"
  by (simp_all add: answer_def)

lemma timer_keeps:
  assumes "connect_inv q" and "asio_enabled (Timer_runs i) (q_con q)"
    and "connect_step S (Of_con (Timer_runs i)) q = Inr q'"
  shows "connect_inv q'"
  using assms(1)
proof (cases rule: connect_inv_cases)
  case (resolving t0)
  then have i: "i = 0" using assms(2) by simp
  have w: "t_wait t0 = Cancelled \<or> t_wait t0 = Elapsed" using assms(2) resolving i by simp
  then show ?thesis
    using assms(3) resolving i
    by (auto simp: handle_resolve_timeout_def connect_inv_def set_wait_def Let_def
        intro!: stage_timer_cancelled [OF resolving(4)] stage_timer_elapsed [OF resolving(4)])
next
  case (connecting t0 t1)
  show ?thesis
  proof (cases "i = 0")
    case True
    then have "t_wait t0 = Cancelled" using assms(2) connecting by (auto simp: gone_def)
    then show ?thesis
      using assms(3) connecting True
      by (auto simp: handle_resolve_timeout_def connect_inv_def set_wait_def Let_def gone_def
          intro!: stage_same [OF connecting(6)])
  next
    case False
    then have i: "i = 1" using assms(2) connecting by simp
    have w: "t_wait t1 = Cancelled \<or> t_wait t1 = Elapsed" using assms(2) connecting i by simp
    then show ?thesis
      using assms(3) connecting i
      by (auto simp: handle_connect_timeout_def connect_inv_def set_wait_def Let_def
          intro!: stage_timer_cancelled [OF connecting(6)] stage_timer_elapsed [OF connecting(6)])
  qed
qed


lemma expired_0: "timers c = t # ts \<Longrightarrow> expired 0 c \<longleftrightarrow> t_expires t < now c"
  by (simp add: expired_def)

text \<open>A handler that is late, or was cancelled, leaves the timer alone.\<close>

lemma stage_op_gone:
  assumes "stage P t q" and "q_ops q = [x]"
  shows "stage P t (q\<lparr>q_ops := []\<rparr>)"
  using assms by (auto simp: stage_def)

lemma stage_in_time:
  assumes "stage P t q" and "q_ops q = [x]" and "\<not> t_expires t < now (q_con q)"
    and "t_expires t \<noteq> now (q_con q)"
  shows "q_calls q = [] \<and> t_wait t = Waiting"
  using assms by (auto simp: stage_def live_def)

lemma runs_keeps:
  assumes "connect_inv q" and "connect_enabled (Connect_runs k) q"
    and "connect_off_deadline (Connect_runs k) q" and "connect_step S (Connect_runs k) q = Inr q'"
  shows "connect_inv q'"
  using assms(1)
proof (cases rule: connect_inv_cases)
  case (resolving t0)
  obtain h p r where o: "q_ops q = [(Resolve_host h p 0, Some r)]" and k: "k = 0"
    using resolving(4) assms(2) by (auto simp: stage_def resolves_def)
  have ne: "t_expires t0 \<noteq> now (q_con q)" using assms(3) resolving by (simp add: connect_off_deadline_def)
  let ?q = "q\<lparr>q_ops := []\<rparr>"
  have s: "q' = handle_resolve S 0 r ?q" using assms(4) o k by (simp add: remove_nth_def)
  have e: "expired 0 (q_con ?q) \<longleftrightarrow> t_expires t0 < now (q_con q)" using resolving by (simp add: expired_def)
  show ?thesis
  proof (cases "is_system Operation_aborted r \<or> expired 0 (q_con ?q)")
    case True
    then have "q' = ?q" using s by (simp add: handle_resolve_def)
    then show ?thesis using resolving stage_op_gone [OF resolving(4) o] by (simp add: connect_inv_def)
  next
    case False
    then have t: "q_calls q = [] \<and> t_wait t0 = Waiting"
      using stage_in_time [OF resolving(4) o] ne e by simp
    show ?thesis
      using False s t resolving
      by (cases r) (auto simp: handle_resolve_def connect_inv_def stage_def gone_def live_def
          cancel_timer_def cancelled_timer_def set_timer_def Let_def)
  qed
next
  case (connecting t0 t1)
  obtain r where o: "q_ops q = [(Connect_socket (Suc 0), Some r)]" and k: "k = 0"
    using connecting(6) assms(2) by (auto simp: stage_def)
  have ne: "t_expires t1 \<noteq> now (q_con q)" using assms(3) connecting by (simp add: connect_off_deadline_def)
  let ?q = "q\<lparr>q_ops := []\<rparr>"
  have s: "q' = handle_asio_connect S 1 r ?q" using assms(4) o k by (simp add: remove_nth_def)
  have e: "expired 1 (q_con ?q) \<longleftrightarrow> t_expires t1 < now (q_con q)" using connecting by (simp add: expired_def)
  show ?thesis
  proof (cases "is_system Operation_aborted r \<or> expired 1 (q_con ?q)")
    case True
    then have "q' = ?q" using s by (simp add: handle_asio_connect_def)
    then show ?thesis using connecting stage_op_gone [OF connecting(6) o] by (simp add: connect_inv_def)
  next
    case False
    then have t: "q_calls q = [] \<and> t_wait t1 = Waiting"
      using stage_in_time [OF connecting(6) o] ne e by simp
    show ?thesis
      using False s t connecting
      by (cases r) (auto simp: handle_asio_connect_def connect_inv_def stage_def gone_def live_def
          cancel_timer_def cancelled_timer_def Let_def)
  qed
qed

lemma connect_inv_step:
  assumes "connect_inv q" and "connect_enabled ev q" and "connect_off_deadline ev q"
    and "connect_step S ev q = Inr q'"
  shows "connect_inv q'"
proof (cases ev)
  case (Of_con e)
  have n: "ops (q_con q) = []" using assms(1) by (simp add: connect_inv_def)
  show ?thesis
  proof (cases e)
    case (Tick n)
    then show ?thesis using assms Of_con tick_keeps by auto
  next
    case (Elapse i)
    then show ?thesis using assms Of_con elapse_keeps [of q i] by auto
  next
    case (Timer_runs i)
    then show ?thesis using assms Of_con timer_keeps [of q i] by simp
  qed (use assms(2) Of_con n in auto)
next
  case (Connect_completes k r)
  then show ?thesis using assms completes_keeps [of q k r] by auto
next
  case (Connect_runs k)
  then show ?thesis using assms runs_keeps [of q k] by simp
qed

lemma connect_inv_reachable: "connect_reachable S q0 q \<Longrightarrow> connect_inv q0 \<Longrightarrow> connect_inv q"
  by (induction rule: connect_reachable.induct) (auto intro: connect_inv_step)

text \<open>While no answer was given, one of the timers can still give it.\<close>

lemma connect_reachable_trans:
  "connect_reachable S q0 q \<Longrightarrow> connect_reachable S q q' \<Longrightarrow> connect_reachable S q0 q'"
  by (rotate_tac, induction rule: connect_reachable.induct) (auto intro: connect_event)


lemma elapsed_answers:
  assumes "i < length (timers (q_con q))" and "t_wait (timers (q_con q) ! i) = Elapsed"
    and "t_callback (timers (q_con q) ! i) \<in> {resolve_callback, connect_callback}"
  shows "\<exists>q'. connect_reachable S q q' \<and> length (q_calls q') = Suc (length (q_calls q))"
proof -
  obtain q' where q': "connect_step S (Of_con (Timer_runs i)) q = Inr q'"
    "length (q_calls q') = Suc (length (q_calls q))"
    using assms by (auto simp: handle_resolve_timeout_def handle_connect_timeout_def Let_def)
  have "connect_reachable S q q'"
    by (rule connect_event [OF connect_start _ _ q'(1)]) (use assms in \<open>simp_all add: connect_off_deadline_def\<close>)
  then show ?thesis using q'(2) by blast
qed

lemma live_answers:
  assumes "i < length (timers (q_con q))" and "live (q_con q) (timers (q_con q) ! i)"
    and "t_callback (timers (q_con q) ! i) \<in> {resolve_callback, connect_callback}"
  shows "\<exists>q'. connect_reachable S q q' \<and> length (q_calls q') = Suc (length (q_calls q))"
proof (cases "t_wait (timers (q_con q) ! i) = Elapsed")
  case True
  then show ?thesis using assms by (intro elapsed_answers) auto
next
  case False
  then have w: "t_wait (timers (q_con q) ! i) = Waiting" using assms(2) by (simp add: live_def)
  let ?n = "t_expires (timers (q_con q) ! i) - now (q_con q)"
  let ?q1 = "q\<lparr>q_con := (q_con q)\<lparr>now := now (q_con q) + ?n\<rparr>\<rparr>"
  let ?q2 = "?q1\<lparr>q_con := set_wait i Elapsed (q_con ?q1)\<rparr>"
  have "connect_reachable S q ?q1"
    by (rule connect_event [OF connect_start, of "Of_con (Tick ?n)"]) (auto simp: connect_off_deadline_def)
  then have r: "connect_reachable S q ?q2"
    by (rule connect_event [where ev = "Of_con (Elapse i)"])
      (use assms(1) w in \<open>auto simp: connect_off_deadline_def\<close>)
  have "\<exists>q'. connect_reachable S ?q2 q' \<and> length (q_calls q') = Suc (length (q_calls ?q2))"
    by (rule elapsed_answers) (use assms in \<open>auto simp: set_wait_def\<close>)
  then show ?thesis using connect_reachable_trans [OF r] by auto
qed

lemma connect_inv_answers:
  assumes "connect_inv q"
  shows "length (q_calls q) \<le> 1"
    and "(\<forall>t \<in> set (timers (q_con q)). t_wait t = Done) \<Longrightarrow> length (q_calls q) = 1"
    and "\<exists>q'. connect_reachable S q q' \<and> length (q_calls q') = 1"
proof -
  show "length (q_calls q) \<le> 1"
    using assms by (elim connect_inv_cases) (auto simp: stage_def)
  show "length (q_calls q) = 1" if "\<forall>t \<in> set (timers (q_con q)). t_wait t = Done"
    using assms that by (elim connect_inv_cases) (auto simp: stage_def live_def)
  show "\<exists>q'. connect_reachable S q q' \<and> length (q_calls q') = 1"
    using assms
  proof (cases rule: connect_inv_cases)
    case (resolving t0)
    then show ?thesis
      using live_answers [of 0 q S] connect_start [of S q] by (auto simp: stage_def)
  next
    case (connecting t0 t1)
    then show ?thesis
      using live_answers [of 1 q S] connect_start [of S q] by (auto simp: stage_def)
  qed
qed

definition fresh_con :: "asio_con \<Rightarrow> bool" where
  "fresh_con c \<longleftrightarrow> timers c = [] \<and> ops c = []"

text \<open>A client's connect on a new connection is answered at most once, whatever the resolver, the
  socket and the timers do, exactly once when the timers have run, and an answer is always possible; with
  a proxy as without. A deadline that coincides with the run of a handler is left out.\<close>
theorem connect_answered_once:
  assumes "async_connect S port0 secure0 u c = Inr q0" and "fresh_con c" and "connect_reachable S q0 q"
    and "q_ops q0 \<noteq> []"
  shows "length (q_calls q) \<le> 1
    \<and> ((\<forall>t \<in> set (timers (q_con q)). t_wait t = Done) \<longrightarrow> length (q_calls q) = 1)
    \<and> (\<exists>q'. connect_reachable S q q' \<and> length (q_calls q') = 1)"
proof -
  have p: "timers c' = timers c \<and> ops c' = ops c" if "proxy_init a c = Inr (c', x)" for a c' x
    using that by (auto simp: proxy_init_def split: option.splits sum.splits)
  have "connect_inv q0"
    using assms(1,2,4)
    by (auto simp: async_connect_def Let_def set_timer_def connect_inv_def stage_def live_def resolves_def
        answer_def fresh_con_def dest!: p split: if_splits sum.splits option.splits prod.splits)
  from connect_inv_answers [OF connect_inv_reachable [OF assms(3) this]] show ?thesis by blast
qed

end
