(* ===== verification/Iostream.thy ===== *)
theory Iostream
  imports Errors
begin

text \<open>
  The iostream transport of \<open>transport/iostream/connection.hpp\<close>, which the program of a connection
  feeds with the bytes it received and which writes to a stream or to a handler. The read handlers of
  the library are names here; what the library asks for when a handler is called is a function \<open>app\<close>
  of the handler, the code and the bytes. \<open>None\<close> as a result is a call that does not return.
\<close>

subsection \<open>Error codes\<close>

datatype iostream_error =
    IO_general | IO_invalid_num_bytes | IO_double_read | IO_output_stream_required | IO_bad_stream

fun iostream_message :: "iostream_error \<Rightarrow> string" where
  "iostream_message IO_general = ''Generic iostream transport policy error''"
| "iostream_message IO_invalid_num_bytes =
     ''async_read_at_least call requested more bytes than buffer can store''"
| "iostream_message IO_double_read = ''Async read already in progress''"
| "iostream_message IO_output_stream_required =
     ''An output stream to be set before async_write can be used''"
| "iostream_message IO_bad_stream = ''A stream operation returned ios::bad''"

datatype io_code = IostreamError iostream_error | OtherError error_code

subsection \<open>The connection\<close>

text \<open>
  The buffer up to the cursor is \<open>i_buf\<close>. The output is an \<open>ostream\<close>, one of two handlers, or nothing;
  each is a function of what was written before and the bytes now.
\<close>

record io_output =
  o_stream_bad :: "(bytes list \<Rightarrow> bool) option"
  o_write :: "(bytes list \<Rightarrow> bytes \<Rightarrow> io_code option) option"
  o_vector_write :: "(bytes list \<Rightarrow> bytes list \<Rightarrow> io_code option) option"
  o_shutdown :: "io_code option option"

record 'h io_con =
  i_buf :: bytes
  i_len :: nat
  i_bytes_needed :: nat
  i_read_handler :: "'h option"
  i_reading :: bool
  i_is_secure :: bool
  i_remote_endpoint :: bytes
  i_output :: io_output
  i_written :: "bytes list"
  i_calls :: "('h \<times> io_code option \<times> bytes) list"

definition no_output :: io_output where
  "no_output = \<lparr>o_stream_bad = None, o_write = None, o_vector_write = None, o_shutdown = None\<rparr>"

text \<open>The buffer, its length and the bytes needed are set by the first read.\<close>

definition new_io_con :: "'h io_con" where
  "new_io_con =
     \<lparr>i_buf = [], i_len = 0, i_bytes_needed = 0, i_read_handler = None, i_reading = False,
      i_is_secure = False, i_remote_endpoint = ascii ''iostream transport'', i_output = no_output,
      i_written = [], i_calls = []\<rparr>"

definition register_ostream :: "(bytes list \<Rightarrow> bool) option \<Rightarrow> 'h io_con \<Rightarrow> 'h io_con" where
  "register_ostream os c = c\<lparr>i_output := (i_output c)\<lparr>o_stream_bad := os\<rparr>\<rparr>"

subsection \<open>Reading\<close>

text \<open>A read that cannot begin calls its handler at once.\<close>

definition begin_read :: "nat \<Rightarrow> nat \<Rightarrow> 'h \<Rightarrow> 'h io_con \<Rightarrow> io_code option + 'h io_con" where
  "begin_read num_bytes len handler c =
     (if num_bytes > len then Inl (Some (IostreamError IO_invalid_num_bytes))
      else if i_reading c then Inl (Some (IostreamError IO_double_read))
      else if num_bytes = 0 \<or> len = 0 then Inl None
      else Inr (c\<lparr>i_buf := [], i_len := len, i_bytes_needed := num_bytes,
                  i_read_handler := Some handler, i_reading := True\<rparr>))"

type_synonym 'h app = "'h \<Rightarrow> io_code option \<Rightarrow> bytes \<Rightarrow> (nat \<times> nat \<times> 'h) option"

text \<open>A call of a handler, and the read it may ask for.\<close>

partial_function (option) call_handler ::
  "'h app \<Rightarrow> 'h \<Rightarrow> io_code option \<Rightarrow> bytes \<Rightarrow> 'h io_con \<Rightarrow> 'h io_con option" where
  "call_handler app h ec data c =
     (let c = c\<lparr>i_calls := i_calls c @ [(h, ec, data)]\<rparr>
      in case app h ec data of
           None \<Rightarrow> Some c
         | Some (num_bytes, len, h') \<Rightarrow>
             (case begin_read num_bytes len h' c of
                Inl ec' \<Rightarrow> call_handler app h' ec' [] c
              | Inr c' \<Rightarrow> Some c'))"

declare call_handler.simps [code]

definition async_read_at_least :: "'h app \<Rightarrow> nat \<Rightarrow> nat \<Rightarrow> 'h \<Rightarrow> 'h io_con \<Rightarrow> 'h io_con option" where
  "async_read_at_least app num_bytes len handler c =
     (case begin_read num_bytes len handler c of
        Inl ec \<Rightarrow> call_handler app handler ec [] c
      | Inr c \<Rightarrow> Some c)"

text \<open>The handler is forgotten before it is called; calling none raises an exception.\<close>

datatype io_fault = Bad_function_call

definition complete_read :: "'h app \<Rightarrow> io_code option \<Rightarrow> 'h io_con \<Rightarrow> (io_fault + 'h io_con) option" where
  "complete_read app ec c =
     (let handler = i_read_handler c;
          c = c\<lparr>i_reading := False, i_read_handler := None\<rparr>
      in case handler of
           None \<Rightarrow> Some (Inl Bad_function_call)
         | Some h \<Rightarrow> map_option Inr (call_handler app h ec (i_buf c) c))"

definition read_some_impl ::
  "'h app \<Rightarrow> bytes \<Rightarrow> 'h io_con \<Rightarrow> (io_fault + 'h io_con \<times> nat) option" where
  "read_some_impl app buf c =
     (if \<not> i_reading c then Some (Inr (c, 0))
      else
        let bytes_to_copy = min (length buf) (i_len c - length (i_buf c));
            c = c\<lparr>i_buf := i_buf c @ take bytes_to_copy buf\<rparr>
        in if length (i_buf c) \<ge> i_bytes_needed c
           then map_option (map_sum id (\<lambda>c. (c, bytes_to_copy))) (complete_read app None c)
           else Some (Inr (c, bytes_to_copy)))"

definition read_some ::
  "'h app \<Rightarrow> bytes \<Rightarrow> 'h io_con \<Rightarrow> (io_fault + 'h io_con \<times> nat) option" where
  "read_some app buf c = read_some_impl app buf c"

text \<open>The loop of \<open>read_all\<close>; it reads at least once.\<close>

function read_all_loop ::
  "'h app \<Rightarrow> bytes \<Rightarrow> nat \<Rightarrow> 'h io_con \<Rightarrow> (io_fault + 'h io_con \<times> nat) option" where
  "read_all_loop app buf total_read c =
     (case read_some_impl app buf c of
        None \<Rightarrow> None
      | Some (Inl f) \<Rightarrow> Some (Inl f)
      | Some (Inr (c, temp_read)) \<Rightarrow>
          if temp_read \<noteq> 0 \<and> temp_read < length buf
          then read_all_loop app (drop temp_read buf) (total_read + temp_read) c
          else Some (Inr (c, total_read + temp_read)))"
  by pat_completeness auto

termination
  by (relation "measure (\<lambda>(app, buf, n, c). length buf)") auto

declare read_all_loop.simps [simp del]

definition read_all ::
  "'h app \<Rightarrow> bytes \<Rightarrow> 'h io_con \<Rightarrow> (io_fault + 'h io_con \<times> nat) option" where
  "read_all app buf c = read_all_loop app buf 0 c"

definition io_eof :: "'h app \<Rightarrow> 'h io_con \<Rightarrow> (io_fault + 'h io_con) option" where
  "io_eof app c =
     (if i_reading c then complete_read app (Some (OtherError (TransportError T_eof))) c else Some (Inr c))"

definition io_fatal_error :: "'h app \<Rightarrow> 'h io_con \<Rightarrow> (io_fault + 'h io_con) option" where
  "io_fatal_error app c =
     (if i_reading c then complete_read app (Some (OtherError (TransportError T_pass_through))) c
      else Some (Inr c))"

text \<open>
  An \<open>istream\<close>: whether it is good, and one call of \<open>read\<close> for at most so many bytes, which gives the
  bytes and whether the stream is bad after it.
\<close>

record 's istream =
  is_good :: "'s \<Rightarrow> bool"
  is_read :: "'s \<Rightarrow> nat \<Rightarrow> 's \<times> bytes \<times> bool"

partial_function (option) read_stream ::
  "'h app \<Rightarrow> 's istream \<Rightarrow> 's \<Rightarrow> 'h io_con \<Rightarrow> (io_fault + 's \<times> 'h io_con) option" where
  "read_stream app I s c =
     (if \<not> is_good I s then Some (Inr (s, c))
      else if \<not> i_reading c then Some (Inr (s, c))
      else case is_read I s (i_len c - length (i_buf c)) of
             (s, got, bad) \<Rightarrow>
               if got = [] then Some (Inr (s, c))
               else
                 let c = c\<lparr>i_buf := i_buf c @ got\<rparr>
                 in case (if bad
                          then complete_read app (Some (IostreamError IO_bad_stream)) (c\<lparr>i_reading := False\<rparr>)
                          else Some (Inr c)) of
                      None \<Rightarrow> None
                    | Some (Inl f) \<Rightarrow> Some (Inl f)
                    | Some (Inr c) \<Rightarrow>
                        if length (i_buf c) \<ge> i_bytes_needed c then
                          (case complete_read app None (c\<lparr>i_reading := False\<rparr>) of
                             None \<Rightarrow> None
                           | Some (Inl f) \<Rightarrow> Some (Inl f)
                           | Some (Inr c) \<Rightarrow> read_stream app I s c)
                        else read_stream app I s c)"

declare read_stream.simps [code]

subsection \<open>Writing and shutdown\<close>

text \<open>The code the handler of the write is given, at once.\<close>

definition write_one :: "bytes \<Rightarrow> 'h io_con \<Rightarrow> 'h io_con \<times> io_code option" where
  "write_one buf c =
     (case o_stream_bad (i_output c) of
        Some bad \<Rightarrow>
          let c = c\<lparr>i_written := i_written c @ [buf]\<rparr>
          in (c, if bad (i_written c) then Some (IostreamError IO_bad_stream) else None)
      | None \<Rightarrow>
          (case o_write (i_output c) of
             Some h \<Rightarrow> (c\<lparr>i_written := i_written c @ [buf]\<rparr>, h (i_written c) buf)
           | None \<Rightarrow> (c, Some (IostreamError IO_output_stream_required))))"

fun write_each :: "bytes list \<Rightarrow> 'h io_con \<Rightarrow> 'h io_con \<times> io_code option" where
  "write_each [] c = (c, None)"
| "write_each (b # bufs) c =
     (case write_one b c of (c, Some ec) \<Rightarrow> (c, Some ec) | (c, None) \<Rightarrow> write_each bufs c)"

definition write_buffers :: "bytes list \<Rightarrow> 'h io_con \<Rightarrow> 'h io_con \<times> io_code option" where
  "write_buffers bufs c =
     (if o_stream_bad (i_output c) \<noteq> None then write_each bufs c
      else case o_vector_write (i_output c) of
             Some h \<Rightarrow> (c\<lparr>i_written := i_written c @ bufs\<rparr>, h (i_written c) bufs)
           | None \<Rightarrow>
               if o_write (i_output c) \<noteq> None then write_each bufs c
               else (c, Some (IostreamError IO_output_stream_required)))"

definition io_shutdown :: "'h io_con \<Rightarrow> io_code option" where
  "io_shutdown c = (case o_shutdown (i_output c) of None \<Rightarrow> None | Some ec \<Rightarrow> ec)"


subsection \<open>What is fed is what is read\<close>

definition io_ok :: "'h io_con \<Rightarrow> bool" where
  "io_ok c \<longleftrightarrow> (i_reading c \<longrightarrow> i_read_handler c \<noteq> None \<and> length (i_buf c) < i_bytes_needed c
     \<and> i_bytes_needed c \<le> i_len c)"

text \<open>A library that asks for at least a byte, and for no more than its buffer holds.\<close>

definition asks_well :: "'h app \<Rightarrow> bool" where
  "asks_well app \<longleftrightarrow> (\<forall>h ec d n len h'. app h ec d = Some (n, len, h') \<longrightarrow> 0 < n \<and> n \<le> len)"

definition received :: "'h io_con \<Rightarrow> bytes" where
  "received c = concat (map (\<lambda>(h, ec, d). d) (i_calls c)) @ (if i_reading c then i_buf c else [])"

lemma io_ok_new: "io_ok new_io_con"
  by (simp add: io_ok_def new_io_con_def)

lemma call_handler_asks_well:
  assumes "asks_well app" and "\<not> i_reading c"
  shows "\<exists>c'. call_handler app h ec d c = Some c' \<and> io_ok c' \<and> received c' = received c @ d"
proof (cases "app h ec d")
  case None
  then show ?thesis
    using assms by (subst call_handler.simps) (auto simp: io_ok_def received_def)
next
  case (Some r)
  then obtain n len h' where r: "app h ec d = Some (n, len, h')" by (cases r) auto
  then have "0 < n" "n \<le> len" using assms(1) unfolding asks_well_def by blast+
  then show ?thesis
    using assms(2) r by (subst call_handler.simps) (auto simp: begin_read_def io_ok_def received_def)
qed

lemma complete_read_asks_well:
  assumes "asks_well app" and "i_read_handler c \<noteq> None" and "i_reading c"
  shows "\<exists>c'. complete_read app ec c = Some (Inr c') \<and> io_ok c' \<and> received c' = received c"
proof -
  obtain h where h: "i_read_handler c = Some h" using assms(2) by blast
  have "\<exists>c'. call_handler app h ec (i_buf c) (c\<lparr>i_reading := False, i_read_handler := None\<rparr>) = Some c'
      \<and> io_ok c' \<and> received c' = received (c\<lparr>i_reading := False, i_read_handler := None\<rparr>) @ i_buf c"
    by (rule call_handler_asks_well [OF assms(1)]) simp
  then show ?thesis using h assms(3) by (auto simp: complete_read_def received_def)
qed

lemma read_some_asks_well:
  assumes "asks_well app" and "io_ok c"
  obtains c' n where "read_some_impl app buf c = Some (Inr (c', n))" "n \<le> length buf" "io_ok c'"
    "received c' = received c @ take n buf" "n = 0 \<longrightarrow> buf = [] \<or> \<not> i_reading c'"
proof (cases "i_reading c")
  case False
  then show thesis using that [of c 0] assms(2) by (simp add: read_some_impl_def)
next
  case True
  define k where "k = min (length buf) (i_len c - length (i_buf c))"
  let ?c = "c\<lparr>i_buf := i_buf c @ take k buf\<rparr>"
  have r: "received ?c = received c @ take k buf" using True by (simp add: received_def)
  have room: "length (i_buf c) < i_len c" using assms(2) True by (simp add: io_ok_def)
  have k0: "k = 0 \<longrightarrow> buf = []" "k \<le> length buf" "length (i_buf c) + k \<le> i_len c"
    using room by (auto simp: k_def min_def split: if_splits)
  show thesis
  proof (cases "length (i_buf ?c) \<ge> i_bytes_needed ?c")
    case t: True
    obtain c' where c': "complete_read app None ?c = Some (Inr c')" "io_ok c'" "received c' = received ?c"
      using complete_read_asks_well [OF assms(1), of ?c] assms(2) True by (auto simp: io_ok_def)
    show thesis
      by (rule that [of c' k])
        (use c' r t True k0 in \<open>auto simp: read_some_impl_def k_def [symmetric] Let_def\<close>)
  next
    case f: False
    show thesis
      by (rule that [of ?c k])
        (use r f True k0 assms(2) in \<open>auto simp: read_some_impl_def k_def [symmetric] Let_def io_ok_def\<close>)
  qed
qed

text \<open>Reading a portion always returns without an exception; the bytes it says it read are those the
  handlers are given and the pending read holds, in their order and without loss, whatever the portions
  are; it reads everything unless no read is pending any more.\<close>
theorem read_all_in_order:
  assumes "asks_well app" and "io_ok c"
  shows "\<exists>c' n. read_all app buf c = Some (Inr (c', n)) \<and> n \<le> length buf \<and> io_ok c'
    \<and> received c' = received c @ take n buf \<and> (n = length buf \<or> \<not> i_reading c')"
proof -
  have "\<exists>c' n. read_all_loop app buf total c = Some (Inr (c', total + n)) \<and> n \<le> length buf \<and> io_ok c'
    \<and> received c' = received c @ take n buf \<and> (n = length buf \<or> \<not> i_reading c')" for total
    using assms(2)
  proof (induction "length buf" arbitrary: buf total c rule: less_induct)
    case less
    obtain c1 k where k: "read_some_impl app buf c = Some (Inr (c1, k))" "k \<le> length buf" "io_ok c1"
      "received c1 = received c @ take k buf" "k = 0 \<longrightarrow> buf = [] \<or> \<not> i_reading c1"
      by (rule read_some_asks_well [OF assms(1) less(2)])
    show ?case
    proof (cases "k \<noteq> 0 \<and> k < length buf")
      case True
      then have "length (drop k buf) < length buf" unfolding length_drop by arith
      from less(1) [OF this k(3), of "total + k"]
      obtain c' n where n: "read_all_loop app (drop k buf) (total + k) c1 = Some (Inr (c', total + k + n))"
        "n \<le> length (drop k buf)" "io_ok c'" "received c' = received c1 @ take n (drop k buf)"
        "n = length (drop k buf) \<or> \<not> i_reading c'"
        by blast
      have "read_all_loop app buf total c = Some (Inr (c', total + (k + n)))"
        using k(1) n(1) True by (subst read_all_loop.simps) (simp add: add.assoc)
      moreover have "received c' = received c @ take (k + n) buf"
        using n(4) k(4) by (simp add: take_add)
      ultimately show ?thesis using n(2,3,5) True by (intro exI [of _ c'] exI [of _ "k + n"]) auto
    next
      case False
      then have "read_all_loop app buf total c = Some (Inr (c1, total + k))"
        using k(1) by (subst read_all_loop.simps) auto
      then show ?thesis using k False by (intro exI [of _ c1] exI [of _ k]) auto
    qed
  qed
  from this [of 0] show ?thesis unfolding read_all_def by simp
qed

text \<open>
  A stream that turns bad while it gives the bytes a read needs has that read completed twice; the
  second time there is no handler left.
\<close>

lemma bad_stream_completes_twice:
  assumes "is_good I s" and "i_reading c" and "i_read_handler c = Some h"
    and "is_read I s (i_len c - length (i_buf c)) = (s', got, True)" and "got \<noteq> []"
    and "i_bytes_needed c \<le> length (i_buf c @ got)"
    and "app h (Some (IostreamError IO_bad_stream)) (i_buf c @ got) = None"
  shows "read_stream app I s c = Some (Inl Bad_function_call)"
  using assms
  by (subst read_stream.simps) (simp add: complete_read_def call_handler.simps Let_def)

text \<open>A second read is refused at once, and leaves the pending one as it is.\<close>

lemma double_read_refused:
  assumes "i_reading c" and "n \<le> len" and "app h (Some (IostreamError IO_double_read)) [] = None"
  shows "async_read_at_least app n len h c =
    Some (c\<lparr>i_calls := i_calls c @ [(h, Some (IostreamError IO_double_read), [])]\<rparr>)"
  using assms by (simp add: async_read_at_least_def begin_read_def call_handler.simps)

text \<open>After the end of the stream a library that asks no more is no longer reading.\<close>

lemma eof_ends_reading:
  assumes "io_ok c" and "i_reading c" and "\<And>h d. app h (Some (OtherError (TransportError T_eof))) d = None"
  shows "\<exists>c'. io_eof app c = Some (Inr c') \<and> \<not> i_reading c' \<and> received c' = received c"
proof -
  obtain h where "i_read_handler c = Some h" using assms(1,2) by (auto simp: io_ok_def)
  then show ?thesis
    using assms(2,3) by (simp add: io_eof_def complete_read_def call_handler.simps received_def)
qed

text \<open>Writing to a stream stops at the buffer after which it is bad.\<close>

lemma write_each_prefix:
  "write_each bufs c = (c', ec) \<Longrightarrow> \<exists>n \<le> length bufs. i_written c' = i_written c @ take n bufs
     \<and> (ec = None \<longrightarrow> n = length bufs)"
proof (induction bufs arbitrary: c)
  case Nil
  then show ?case by simp
next
  case (Cons b bufs)
  obtain c1 ec1 where w: "write_one b c = (c1, ec1)" by fastforce
  then have i: "i_written c1 = i_written c @ [b] \<or> i_written c1 = i_written c \<and> ec1 \<noteq> None"
    by (auto simp: write_one_def Let_def split: option.splits)
  show ?case
  proof (cases ec1)
    case (Some e)
    then have "c' = c1 \<and> ec \<noteq> None" using Cons.prems w by auto
    then show ?thesis
      using i by (elim disjE) (auto intro: exI [of _ "Suc 0"] exI [of _ 0])
  next
    case None
    then have "write_each bufs c1 = (c', ec)" using Cons.prems w by simp
    from Cons.IH [OF this] obtain n where "n \<le> length bufs" "i_written c' = i_written c1 @ take n bufs"
      "ec = None \<longrightarrow> n = length bufs" by blast
    with i None show ?thesis by (intro exI [of _ "Suc n"]) auto
  qed
qed

text \<open>A sample: each read asks for another one of between two and four bytes.\<close>

definition rereads :: "nat app" where
  "rereads = (\<lambda>h ec d. Some (2, 4, Suc h))"

theorem read_all_in_order_witness:
  "case read_all rereads [1, 2, 3, 4, 5] (the (async_read_at_least rereads 2 4 0 new_io_con)) of
     Some (Inr (c, n)) \<Rightarrow> received c = [1, 2, 3, 4, 5] | _ \<Rightarrow> False"
proof -
  let ?c = "the (async_read_at_least rereads 2 4 0 new_io_con)"
  have "asks_well rereads" by (simp add: asks_well_def rereads_def)
  moreover have "io_ok ?c \<and> received ?c = []"
    by (simp add: async_read_at_least_def begin_read_def new_io_con_def io_ok_def received_def)
  ultimately obtain c' n where r: "read_all rereads [1, 2, 3, 4, 5] ?c = Some (Inr (c', n))"
    "received c' = take n [1, 2, 3, 4, 5]" "n = 5 \<or> \<not> i_reading c'"
    using read_all_in_order [of rereads ?c "[1, 2, 3, 4, 5]"] by auto
  moreover have "case read_all rereads [1, 2, 3, 4, 5] ?c of Some (Inr (c, n)) \<Rightarrow> i_reading c | _ \<Rightarrow> False"
    by code_simp
  ultimately show ?thesis by auto
qed

end
