(* ===== verification/CameraTools.thy ===== *)
theory CameraTools
  imports Camera
begin

text \<open>
  The two command-line programs \<open>Camera.cpp\<close> and \<open>Camera2.cpp\<close>, which show one frame of the camera.
  Each has a version of the class of \<open>CameraLib.cpp\<close>, in \<open>Camera\<close> here, but makes its object on the
  stack, where the two pointers and the mutex start with whatever the memory held. Functions that are
  the same as the library's (\<open>GB2312ToUTF8\<close>, \<open>getData\<close>, \<open>resetData\<close>) are the library's here; a
  window that is shown is an image of the result, and the key that closes it is pressed.
\<close>

subsection \<open>An object on the stack\<close>

datatype 'a pointer = Null | Wild | At 'a

fun free_pointer :: "'a pointer \<Rightarrow> 's env \<Rightarrow> 's env outcome" where
  "free_pointer Null e = Inr e"
| "free_pointer Wild e = Inl UndefinedBehaviour"
| "free_pointer (At _) e = Inr (free_block e)"

record stack_camera =
  k_nRet :: u32
  k_handle :: "handle option"
  k_bIsNormalRun :: bool
  k_bExit :: bool
  k_nMaxImageSize :: u32
  k_pstImageInfoEx2 :: "image_info pointer"
  k_pcDataBuf :: "bytes pointer"
  k_mutex :: pmutex

text \<open>A mutex that was never initialised is as unusable as one that was destroyed.\<close>

definition fresh_stack_camera :: stack_camera where
  "fresh_stack_camera =
     \<lparr>k_nRet = MV_OK, k_handle = None, k_bIsNormalRun = True, k_bExit = False, k_nMaxImageSize = 0,
      k_pstImageInfoEx2 = Wild, k_pcDataBuf = Wild, k_mutex = MutexDestroyed\<rparr>"

text \<open>The frame into the buffer, as both programs do it; a test of a wild pointer is undefined.\<close>

definition put_info :: "image_info \<Rightarrow> image_info pointer \<Rightarrow> image_info pointer outcome" where
  "put_info info p = (case p of Wild \<Rightarrow> Inl UndefinedBehaviour | Null \<Rightarrow> Inr Null | At _ \<Rightarrow> Inr (At info))"

definition put_data :: "u32 \<Rightarrow> image_info \<Rightarrow> bytes \<Rightarrow> bytes pointer \<Rightarrow> bytes pointer outcome" where
  "put_data lim info pData p =
     (case p of
        Wild \<Rightarrow> Inl UndefinedBehaviour
      | Null \<Rightarrow> Inr Null
      | At buf \<Rightarrow>
          if nFrameLen info < lim then
            and_then (require (unat (nFrameLen info) \<le> length pData \<and> unat (nFrameLen info) \<le> length buf))
              (\<lambda>_. Inr (At (take (unat (nFrameLen info)) pData @ drop (unat (nFrameLen info)) buf)))
          else Inr (At buf))"

definition decode_pointers :: "'img vision \<Rightarrow> image_info pointer \<Rightarrow> bytes pointer \<Rightarrow> 'img outcome" where
  "decode_pointers V p q =
     (case (p, q) of
        (At info, At buf) \<Rightarrow>
          and_then (require (unat (nFrameLen info) \<le> length buf)) (\<lambda>_.
            (case resize_mat V (imdecode V (take (unat (nFrameLen info)) buf)) of
               None \<Rightarrow> Inl CvException
             | Some img \<Rightarrow> Inr img))
      | _ \<Rightarrow> Inl UndefinedBehaviour)"

definition draw_codes :: "'img vision \<Rightarrow> BcrInfo \<Rightarrow> 'img \<Rightarrow> 'img outcome" where
  "draw_codes V BI scaledImage =
     (case bi_count BI of
        None \<Rightarrow> Inl UndefinedBehaviour
      | Some n \<Rightarrow>
          and_then (require (unat n \<le> length (bi_info BI))) (\<lambda>_.
            draw V (take (unat n) (bi_info BI)) scaledImage))"

subsection \<open>Camera.cpp\<close>

definition DeInitResources1 :: "'s sdk \<Rightarrow> stack_camera \<Rightarrow> 's env \<Rightarrow> (int \<times> stack_camera \<times> 's env) outcome" where
  "DeInitResources1 S c e =
     (let (e, r) = sdk_call (\<lambda>s. StopGrabbing S s (k_handle c)) e; c = c\<lparr>k_nRet := r\<rparr>
      in if k_nRet c \<noteq> MV_OK then Inr (0, c\<lparr>k_bIsNormalRun := False\<rparr>, e)
         else let (e, r) = sdk_call (\<lambda>s. CloseDevice S s (k_handle c)) e; c = c\<lparr>k_nRet := r\<rparr>
         in if k_nRet c \<noteq> MV_OK then Inr (0, c\<lparr>k_bIsNormalRun := False\<rparr>, e)
            else let (e, r) = sdk_call (\<lambda>s. DestroyHandle S s (k_handle c)) e; c = c\<lparr>k_nRet := r\<rparr>
            in if k_nRet c \<noteq> MV_OK then Inr (0, c\<lparr>k_bIsNormalRun := False\<rparr>, e)
               else
                 let c = c\<lparr>k_handle := None\<rparr>
                 in and_then (free_pointer (k_pcDataBuf c) e) (\<lambda>e.
                    and_then (free_pointer (k_pstImageInfoEx2 c) e) (\<lambda>e.
                      Inr (1, c\<lparr>k_pcDataBuf := Null, k_pstImageInfoEx2 := Null,
                                k_mutex := MutexDestroyed\<rparr>, e))))"

definition InitResource1 ::
  "'s sdk \<Rightarrow> stack_camera \<Rightarrow> handle option \<Rightarrow> 's env \<Rightarrow> (u32 \<times> stack_camera \<times> 's env) outcome" where
  "InitResource1 S c h e =
     (let catch = (\<lambda>r c e. and_then (DeInitResources1 S c e) (\<lambda>(_, c, e). Inr (r, c, e)))
      in and_then (image_size S h e) (\<lambda>((r, sz), e).
         if r \<noteq> MV_OK then catch r c e
         else
           let c = c\<lparr>k_nMaxImageSize := sz\<rparr>; (e, ok) = malloc S e (unat sz)
           in if \<not> ok then catch MV_E_RESOURCE (c\<lparr>k_pcDataBuf := Null\<rparr>) e
              else
                let c = c\<lparr>k_pcDataBuf := At (replicate (unat sz) 0)\<rparr>;
                    (e, ok) = malloc S e SIZEOF_IMAGE_OUT_INFO
                in if \<not> ok then catch MV_E_RESOURCE (c\<lparr>k_pstImageInfoEx2 := Null\<rparr>) e
                   else Inr (r, c\<lparr>k_pstImageInfoEx2 := At zero_info, k_mutex := MutexFree\<rparr>, e)))"

definition init1 :: "'s sdk \<Rightarrow> stack_camera \<Rightarrow> 's env \<Rightarrow> (int \<times> stack_camera \<times> 's env) outcome" where
  "init1 S c e =
     (let (e, r, dev) = sdk_call (EnumDevices S) e; c = c\<lparr>k_nRet := r\<rparr>
      in if k_nRet c \<noteq> MV_OK then Inr (0, c, e)
         else let (e, r, h) = sdk_call (\<lambda>s. CreateHandle S s dev) e;
                  c = c\<lparr>k_nRet := r, k_handle := h\<rparr>
         in if k_nRet c \<noteq> MV_OK then Inr (0, c, e)
            else let (e, r) = sdk_call (\<lambda>s. OpenDevice S s (k_handle c)) e; c = c\<lparr>k_nRet := r\<rparr>
            in and_then (InitResource1 S c (k_handle c) e) (\<lambda>(r, c, e).
                 let c = c\<lparr>k_nRet := r\<rparr>
                 in if k_nRet c \<noteq> MV_OK then Inr (0, c, e)
                    else let (e, r) = sdk_call (\<lambda>s. SetEnumValue S s (k_handle c) ''TriggerMode'' 0) e;
                             c = c\<lparr>k_nRet := r\<rparr>
                    in if k_nRet c \<noteq> MV_OK then Inr (0, c, e)
                       else let (e, r) = sdk_call (\<lambda>s. StartGrabbing S s (k_handle c)) e;
                                c = c\<lparr>k_nRet := r\<rparr>
                       in if k_nRet c \<noteq> MV_OK then Inr (0, c, e) else Inr (1, c, e)))"

text \<open>The image that is shown, if there is one.\<close>

definition getImage1 ::
  "'s sdk \<Rightarrow> 'img vision \<Rightarrow> stack_camera \<Rightarrow> 's env \<Rightarrow> ('img option \<times> stack_camera \<times> 's env) outcome" where
  "getImage1 S V c e =
     (let (e, r, pData, stImageInfo) = sdk_call (\<lambda>s. GetOneFrame S s (k_handle c)) e;
          c = c\<lparr>k_nRet := r\<rparr>
      in if k_nRet c = MV_OK then
           if k_mutex c = MutexHeld then Inl Blocked
           else if k_mutex c = MutexDestroyed then Inl UndefinedBehaviour
           else
             and_then (put_info stImageInfo (k_pstImageInfoEx2 c)) (\<lambda>p.
             and_then (put_data (k_nMaxImageSize c) stImageInfo pData (k_pcDataBuf c)) (\<lambda>q.
             and_then (decode_pointers V p q) (\<lambda>scaledImage.
             and_then (getData S (pstCodeListEx2 stImageInfo) e) (\<lambda>(BI, e).
             and_then (draw_codes V BI scaledImage) (\<lambda>img.
               Inr (Some img, c\<lparr>k_pstImageInfoEx2 := p, k_pcDataBuf := q\<rparr>, e))))))
         else Inr (None, c, e))"

definition getString1 :: "'s sdk \<Rightarrow> stack_camera \<Rightarrow> 's env \<Rightarrow> (bytes option \<times> 's env) outcome" where
  "getString1 S c e =
     (let (e, nnRet, pData, stImageInfo) = sdk_call (\<lambda>s. GetOneFrame S s (k_handle c)) e
      in and_then
           (if nnRet = MV_OK then
              (case pstCodeListEx stImageInfo of
                 None \<Rightarrow> Inl UndefinedBehaviour
               | Some res \<Rightarrow> getString_loop S res 0 [] 0 e)
            else Inr ([], 0, e))
           (\<lambda>(temp_string, total_length, e).
              let (e, ok) = malloc S e (total_length + 1)
              in if \<not> ok then Inr (None, e)
                 else and_then (require (length temp_string \<le> total_length)) (\<lambda>_.
                   Inr (Some temp_string, e))))"

text \<open>
  \<open>capture\<close> has an \<open>imageData\<close> of its own, with a size of zero and two pointers nobody sets. The image
  it writes to a file named after the time is the result; its \<open>vision\<close> scales by a thousandth where
  that of \<open>getImage1\<close> scales by a tenth.
\<close>

record image_data =
  d_nMaxImageSize :: u32
  d_pstImageInfoEx2 :: "image_info pointer"
  d_pcDataBuf :: "bytes pointer"

definition fresh_image_data :: image_data where
  "fresh_image_data = \<lparr>d_nMaxImageSize = 0, d_pstImageInfoEx2 = Wild, d_pcDataBuf = Wild\<rparr>"

definition capture1 ::
  "'s sdk \<Rightarrow> 'img vision \<Rightarrow> image_data \<Rightarrow> stack_camera \<Rightarrow> 's env
     \<Rightarrow> ('img option \<times> stack_camera \<times> 's env) outcome" where
  "capture1 S V iD c e =
     (let (e, r, pData, stImageInfo) = sdk_call (\<lambda>s. GetOneFrame S s (k_handle c)) e;
          c = c\<lparr>k_nRet := r\<rparr>
      in if k_nRet c = MV_OK then
           (case pstCodeListEx2 stImageInfo of
              None \<Rightarrow> Inl UndefinedBehaviour
            | Some res \<Rightarrow>
                and_then (if nCodeNum res \<noteq> 0 then getData S (Some res) e else Inr (resetData, e)) (\<lambda>(BI, e).
                and_then (put_info stImageInfo (d_pstImageInfoEx2 iD)) (\<lambda>p.
                and_then (put_data (d_nMaxImageSize iD) stImageInfo pData (d_pcDataBuf iD)) (\<lambda>q.
                  (case p of
                     At info \<Rightarrow>
                       if nFrameLen info > 1 then
                         and_then (decode_pointers V p q) (\<lambda>scaledImage.
                         and_then (draw_codes V BI scaledImage) (\<lambda>img. Inr (Some img, c, e)))
                       else Inr (None, c, e)
                   | _ \<Rightarrow> Inl UndefinedBehaviour)))))
         else Inr (None, c, e))"

definition main1 ::
  "'s sdk \<Rightarrow> 'img vision \<Rightarrow> 's env \<Rightarrow> ('img option \<times> stack_camera \<times> 's env) outcome" where
  "main1 S V e =
     and_then (init1 S fresh_stack_camera e) (\<lambda>(_, cam1, e).
     and_then (getImage1 S V cam1 e) (\<lambda>(shown, cam1, e).
     and_then (DeInitResources1 S cam1 e) (\<lambda>(_, cam1, e). Inr (shown, cam1, e))))"

subsection \<open>Camera2.cpp\<close>

definition DeInitResources2 :: "stack_camera \<Rightarrow> 's env \<Rightarrow> (stack_camera \<times> 's env) outcome" where
  "DeInitResources2 c e =
     and_then (free_pointer (k_pcDataBuf c) e) (\<lambda>e.
     and_then (free_pointer (k_pstImageInfoEx2 c) e) (\<lambda>e.
       Inr (c\<lparr>k_pcDataBuf := Null, k_pstImageInfoEx2 := Null, k_mutex := MutexDestroyed\<rparr>, e)))"

definition InitResource2 ::
  "'s sdk \<Rightarrow> stack_camera \<Rightarrow> handle option \<Rightarrow> 's env \<Rightarrow> (u32 \<times> stack_camera \<times> 's env) outcome" where
  "InitResource2 S c h e =
     (let catch = (\<lambda>r c e. and_then (DeInitResources2 c e) (\<lambda>(c, e). Inr (r, c, e)))
      in and_then (image_size S h e) (\<lambda>((r, sz), e).
         if r \<noteq> MV_OK then catch r c e
         else
           let c = c\<lparr>k_nMaxImageSize := sz\<rparr>; (e, ok) = malloc S e (unat sz)
           in if \<not> ok then catch MV_E_RESOURCE (c\<lparr>k_pcDataBuf := Null\<rparr>) e
              else
                let c = c\<lparr>k_pcDataBuf := At (replicate (unat sz) 0)\<rparr>;
                    (e, ok) = malloc S e SIZEOF_IMAGE_OUT_INFO
                in if \<not> ok then catch MV_E_RESOURCE (c\<lparr>k_pstImageInfoEx2 := Null\<rparr>) e
                   else Inr (r, c\<lparr>k_pstImageInfoEx2 := At zero_info, k_mutex := MutexFree\<rparr>, e)))"

text \<open>It reports what failed and goes on.\<close>

definition init2 :: "'s sdk \<Rightarrow> stack_camera \<Rightarrow> 's env \<Rightarrow> (stack_camera \<times> 's env) outcome" where
  "init2 S c e =
     (let (e, r, dev) = sdk_call (EnumDevices S) e; c = c\<lparr>k_nRet := r\<rparr>;
          (e, r, h) = sdk_call (\<lambda>s. CreateHandle S s dev) e; c = c\<lparr>k_nRet := r, k_handle := h\<rparr>;
          (e, r) = sdk_call (\<lambda>s. OpenDevice S s (k_handle c)) e; c = c\<lparr>k_nRet := r\<rparr>
      in and_then (InitResource2 S c (k_handle c) e) (\<lambda>(r, c, e).
           let c = c\<lparr>k_nRet := r\<rparr>;
               (e, r) = sdk_call (\<lambda>s. SetEnumValue S s (k_handle c) ''TriggerMode'' 0) e
           in Inr (c\<lparr>k_nRet := r\<rparr>, e)))"

text \<open>
  The bytes of a matrix of \<open>height\<close> rows, each of \<open>width\<close> times \<open>channels\<close> bytes. Element \<open>c\<close> of
  \<open>at<cv::Vec3b>(y, x)\<close> is three bytes times \<open>x\<close> into row \<open>y\<close>, whatever the matrix holds.
\<close>

fun copy_pixels ::
  "bytes \<Rightarrow> int \<Rightarrow> int \<Rightarrow> (int \<times> int \<times> int) list \<Rightarrow> bytes \<Rightarrow> bytes outcome" where
  "copy_pixels buffer width channels [] img = Inr img"
| "copy_pixels buffer width channels ((y, x, c) # ps) img =
     (let index = y * width * channels + x * channels + c;
          off = y * (width * channels) + 3 * x + c
      in and_then (require (in_int (y * width) \<and> in_int (y * width * channels) \<and> in_int (x * channels)
              \<and> in_int (y * width * channels + x * channels) \<and> in_int index
              \<and> c < 3 \<and> 0 \<le> index \<and> nat index < length buffer \<and> nat off < length img)) (\<lambda>_.
           copy_pixels buffer width channels ps (img[nat off := buffer ! nat index])))"

definition bufferToImage :: "bytes \<Rightarrow> int \<Rightarrow> int \<Rightarrow> int \<Rightarrow> bytes outcome" where
  "bufferToImage buffer width height channels =
     copy_pixels buffer width channels
       [(y, x, c). y \<leftarrow> [0..height - 1], x \<leftarrow> [0..width - 1], c \<leftarrow> [0..channels - 1]]
       (replicate (nat (height * width * channels)) 0)"

text \<open>The image that is shown has the height of the frame as its width.\<close>

definition getImage2 ::
  "'s sdk \<Rightarrow> stack_camera \<Rightarrow> 's env \<Rightarrow> (bytes option \<times> stack_camera \<times> 's env) outcome" where
  "getImage2 S c e =
     (let (e, r) = sdk_call (\<lambda>s. StartGrabbing S s (k_handle c)) e; c = c\<lparr>k_nRet := r\<rparr>;
          (e, r, pData, stImageInfo) = sdk_call (\<lambda>s. GetOneFrame S s (k_handle c)) e;
          c = c\<lparr>k_nRet := r\<rparr>
      in if k_nRet c = MV_OK then
           if k_mutex c = MutexHeld then Inl Blocked
           else if k_mutex c = MutexDestroyed then Inl UndefinedBehaviour
           else
             and_then (put_info stImageInfo (k_pstImageInfoEx2 c)) (\<lambda>p.
             and_then (put_data (k_nMaxImageSize c) stImageInfo pData (k_pcDataBuf c)) (\<lambda>q.
             and_then (bufferToImage (case q of At buf \<Rightarrow> buf | _ \<Rightarrow> [])
                         (uint (nHeight stImageInfo)) (uint (nWidth stImageInfo)) 1) (\<lambda>img.
               Inr (Some img, c\<lparr>k_pstImageInfoEx2 := p, k_pcDataBuf := q\<rparr>, e))))
         else Inr (None, c, e))"

text \<open>\<open>capture\<close> starts the grabbing itself and goes on as that of \<open>Camera.cpp\<close>.\<close>

definition capture2 ::
  "'s sdk \<Rightarrow> 'img vision \<Rightarrow> image_data \<Rightarrow> stack_camera \<Rightarrow> 's env
     \<Rightarrow> ('img option \<times> stack_camera \<times> 's env) outcome" where
  "capture2 S V iD c e =
     (let (e, r) = sdk_call (\<lambda>s. StartGrabbing S s (k_handle c)) e
      in capture1 S V iD (c\<lparr>k_nRet := r\<rparr>) e)"

definition main2 :: "'s sdk \<Rightarrow> 's env \<Rightarrow> (bytes option \<times> stack_camera \<times> 's env) outcome" where
  "main2 S e =
     and_then (init2 S fresh_stack_camera e) (\<lambda>(cam1, e).
     and_then (getImage2 S cam1 e) (\<lambda>(shown, cam1, e).
     and_then (DeInitResources2 cam1 e) (\<lambda>(cam1, e). Inr (shown, cam1, e))))"

subsection \<open>The object of the library\<close>

definition pointer_of :: "'a option \<Rightarrow> 'a pointer" where
  "pointer_of x = (case x of None \<Rightarrow> Null | Some a \<Rightarrow> At a)"

lemma pointer_of_simps [simp]:
  "pointer_of None = Null" "pointer_of (Some a) = At a" "pointer_of x \<noteq> Wild"
  "pointer_of x = Null \<longleftrightarrow> x = None" "pointer_of x = At a \<longleftrightarrow> x = Some a"
  by (auto simp: pointer_of_def split: option.splits)

definition on_stack :: "camera \<Rightarrow> stack_camera" where
  "on_stack c =
     \<lparr>k_nRet = nRet c, k_handle = cam_handle c, k_bIsNormalRun = bIsNormalRun c, k_bExit = g_bExit c,
      k_nMaxImageSize = g_nMaxImageSize c, k_pstImageInfoEx2 = pointer_of (g_pstImageInfoEx2 c),
      k_pcDataBuf = pointer_of (g_pcDataBuf c), k_mutex = cam_mutex c\<rparr>"

lemma on_stack_simps [simp]:
  "k_nRet (on_stack c) = nRet c" "k_handle (on_stack c) = cam_handle c"
  "k_bIsNormalRun (on_stack c) = bIsNormalRun c" "k_nMaxImageSize (on_stack c) = g_nMaxImageSize c"
  "k_pstImageInfoEx2 (on_stack c) = pointer_of (g_pstImageInfoEx2 c)"
  "k_pcDataBuf (on_stack c) = pointer_of (g_pcDataBuf c)" "k_mutex (on_stack c) = cam_mutex c"
  by (simp_all add: on_stack_def)

lemma on_stack_update:
  "(on_stack c)\<lparr>k_nRet := r\<rparr> = on_stack (c\<lparr>nRet := r\<rparr>)"
  "(on_stack c)\<lparr>k_handle := h\<rparr> = on_stack (c\<lparr>cam_handle := h\<rparr>)"
  "(on_stack c)\<lparr>k_bIsNormalRun := b\<rparr> = on_stack (c\<lparr>bIsNormalRun := b\<rparr>)"
  "(on_stack c)\<lparr>k_nMaxImageSize := n\<rparr> = on_stack (c\<lparr>g_nMaxImageSize := n\<rparr>)"
  "(on_stack c)\<lparr>k_pcDataBuf := pointer_of q\<rparr> = on_stack (c\<lparr>g_pcDataBuf := q\<rparr>)"
  "(on_stack c)\<lparr>k_pstImageInfoEx2 := pointer_of p\<rparr> = on_stack (c\<lparr>g_pstImageInfoEx2 := p\<rparr>)"
  "(on_stack c)\<lparr>k_mutex := m\<rparr> = on_stack (c\<lparr>cam_mutex := m\<rparr>)"
  by (simp_all add: on_stack_def)

lemmas on_stack_pointers =
  on_stack_update(5) [where q = None, unfolded pointer_of_simps]
  on_stack_update(5) [where q = "Some b" for b, unfolded pointer_of_simps]
  on_stack_update(6) [where p = None, unfolded pointer_of_simps]
  on_stack_update(6) [where p = "Some i" for i, unfolded pointer_of_simps]

lemma free_pointer_of:
  "free_pointer (pointer_of x) e = Inr (if x = None then e else free_block e)"
  by (cases x) auto

lemma DeInitResources1_library:
  "DeInitResources1 S (on_stack c) e =
     (case DeInitResources S c e of (r, c', e') \<Rightarrow> Inr (r, on_stack c', e'))"
  by (simp add: DeInitResources1_def DeInitResources_def Let_def on_stack_update on_stack_pointers
      free_pointer_of split: prod.split) (auto simp: on_stack_def)

lemma put_library:
  "and_then (put_info info (pointer_of (g_pstImageInfoEx2 c))) (\<lambda>p.
   and_then (put_data (g_nMaxImageSize c) info pData (pointer_of (g_pcDataBuf c))) (\<lambda>q.
     F p q ((on_stack c)\<lparr>k_pstImageInfoEx2 := p, k_pcDataBuf := q\<rparr>))) =
   and_then (store_frame c pData info) (\<lambda>c.
     F (pointer_of (g_pstImageInfoEx2 c)) (pointer_of (g_pcDataBuf c)) (on_stack c))"
  by (cases "g_pstImageInfoEx2 c"; cases "g_pcDataBuf c")
    (simp_all add: store_frame_def put_info_def put_data_def Let_def and_then_def require_def on_stack_def)

lemma decode_library:
  "decode_frame V c = decode_pointers V (pointer_of (g_pstImageInfoEx2 c)) (pointer_of (g_pcDataBuf c))"
  by (simp add: decode_frame_def decode_pointers_def split: option.split)

lemma and_then_assoc: "and_then (and_then m f) g = and_then m (\<lambda>x. and_then (f x) g)"
  by (cases m) simp_all

lemma getImage1_library:
  "getImage1 S V (on_stack c) e =
     and_then (getImage S V c e) (\<lambda>(img, c', e').
       Inr (if nRet c' = MV_OK then Some img else None, on_stack c', e'))"
proof -
  obtain e1 r pData info where f: "sdk_call (\<lambda>s. GetOneFrame S s (cam_handle c)) e = (e1, r, pData, info)"
    by (metis prod_cases4)
  show ?thesis
  proof (cases "r = MV_OK \<and> cam_mutex c = MutexFree")
    case False
    then show ?thesis
      using f by (cases "cam_mutex c") (auto simp: getImage1_def getImage_def Let_def on_stack_update)
  next
    case True
    let ?c = "c\<lparr>nRet := r\<rparr>"
    have "getImage1 S V (on_stack c) e =
        and_then (put_info info (pointer_of (g_pstImageInfoEx2 ?c))) (\<lambda>p.
        and_then (put_data (g_nMaxImageSize ?c) info pData (pointer_of (g_pcDataBuf ?c))) (\<lambda>q.
        (\<lambda>p q k. and_then (decode_pointers V p q) (\<lambda>im.
          and_then (getData S (pstCodeListEx2 info) e1) (\<lambda>(BI, e).
          and_then (draw_codes V BI im) (\<lambda>img. Inr (Some img, k, e)))))
        p q ((on_stack ?c)\<lparr>k_pstImageInfoEx2 := p, k_pcDataBuf := q\<rparr>)))"
      using f True by (simp add: getImage1_def Let_def on_stack_update)
    also have "\<dots> = and_then (store_frame ?c pData info) (\<lambda>c1.
        and_then (decode_frame V c1) (\<lambda>im.
          and_then (getData S (pstCodeListEx2 info) e1) (\<lambda>(BI, e).
          and_then (draw_codes V BI im) (\<lambda>img. Inr (Some img, on_stack c1, e)))))"
      by (subst put_library) (simp add: decode_library)
    finally show ?thesis
      using f True store_frame_info [of ?c pData info]
      by (auto simp: getImage_def Let_def and_then_def draw_codes_def split: sum.splits option.splits)
  qed
qed


text \<open>What the memory held at first does not matter once the initialisation has succeeded.\<close>

definition dirty :: "image_info pointer \<Rightarrow> bytes pointer \<Rightarrow> pmutex \<Rightarrow> stack_camera \<Rightarrow> stack_camera" where
  "dirty p q m k = k\<lparr>k_pstImageInfoEx2 := p, k_pcDataBuf := q, k_mutex := m\<rparr>"

lemma fresh_is_dirty: "fresh_stack_camera = dirty Wild Wild MutexDestroyed (on_stack new_camera)"
  by (simp add: fresh_stack_camera_def dirty_def on_stack_def new_camera_def)

lemma InitResource1_library:
  assumes "InitResource S c h e = Inr (MV_OK, c', e')"
  shows "InitResource1 S (dirty p q m (on_stack c)) h e = Inr (MV_OK, on_stack c', e')"
proof -
  obtain sz e1 e2 where a: "image_size S h e = Inr ((MV_OK, sz), e1)" "malloc S e1 (unat sz) = (e2, True)"
    "malloc S e2 SIZEOF_IMAGE_OUT_INFO = (e', True)"
    "c' = c\<lparr>g_nMaxImageSize := sz, g_pcDataBuf := Some (replicate (unat sz) 0),
      g_pstImageInfoEx2 := Some zero_info, cam_mutex := MutexFree\<rparr>"
    using assms
    by (auto simp: InitResource_def Let_def and_then_Inr MV_E_RESOURCE_def MV_OK_def
        split: if_splits prod.splits)
  show ?thesis
    unfolding InitResource1_def Let_def a(1) and_then_simps prod.case a(2) a(3)
    by (simp add: a(4) dirty_def on_stack_def)
qed

lemma dirty_simps [simp]:
  "k_nRet (dirty p q m k) = k_nRet k" "k_handle (dirty p q m k) = k_handle k"
  "(dirty p q m k)\<lparr>k_nRet := r\<rparr> = dirty p q m (k\<lparr>k_nRet := r\<rparr>)"
  "(dirty p q m k)\<lparr>k_handle := h\<rparr> = dirty p q m (k\<lparr>k_handle := h\<rparr>)"
  by (simp_all add: dirty_def)

lemma init1_library:
  assumes "init S c e = Inr (1, c', e')"
  shows "init1 S (dirty p q m (on_stack c)) e = Inr (1, on_stack c', e')"
proof -
  obtain e1 dev where 1: "sdk_call (EnumDevices S) e = (e1, MV_OK, dev)"
    using assms by (auto simp: init_def Let_def split: if_splits prod.splits)
  obtain e2 h where 2: "sdk_call (\<lambda>s. CreateHandle S s dev) e1 = (e2, MV_OK, h)"
    using assms by (auto simp: init_def Let_def 1 split: if_splits prod.splits)
  obtain e3 r where 3: "sdk_call (\<lambda>s. OpenDevice S s h) e2 = (e3, r)" by fastforce
  obtain c4 e4 where 4: "InitResource S (c\<lparr>cam_handle := h, nRet := r\<rparr>) h e3 = Inr (MV_OK, c4, e4)"
    using assms by (auto simp: init_def Let_def 1 2 3 and_then_Inr split: if_splits prod.splits)
  obtain e5 where 5: "sdk_call (\<lambda>s. SetEnumValue S s (cam_handle c4) ''TriggerMode'' 0) e4 = (e5, MV_OK)"
    using assms by (auto simp: init_def Let_def 1 2 3 4 split: if_splits prod.splits)
  have 6: "sdk_call (\<lambda>s. StartGrabbing S s (cam_handle c4)) e5 = (e', MV_OK) \<and> c' = c4\<lparr>nRet := MV_OK\<rparr>"
    using assms by (auto simp: init_def Let_def 1 2 3 4 5 split: if_splits prod.splits)
  have "InitResource1 S (dirty p q m (on_stack (c\<lparr>cam_handle := h, nRet := r\<rparr>))) h e3 = Inr (MV_OK, on_stack c4, e4)"
    by (rule InitResource1_library [OF 4])
  then show ?thesis
    by (simp add: init1_def Let_def 1 2 3 5 6 on_stack_update)
qed

text \<open>C39: Once the camera is initialised, the program \<open>Camera.cpp\<close> does what the library does: it shows
  the image \<open>getImage\<close> of the library returns, if a frame came, and releases the camera as the library
  does; the uninitialised members of its object are never read.\<close>
theorem main1_runs_library:
  assumes "init S new_camera e = Inr (1, c, e1)"
  shows "main1 S V e =
    and_then (getImage S V c e1) (\<lambda>(img, c, e).
      case DeInitResources S c e of (_, c', e) \<Rightarrow>
        Inr (if nRet c = MV_OK then Some img else None, on_stack c', e))"
proof -
  have "init1 S fresh_stack_camera e = Inr (1, on_stack c, e1)"
    unfolding fresh_is_dirty by (rule init1_library [OF assms])
  then show ?thesis
    by (auto simp: main1_def getImage1_library DeInitResources1_library and_then_def
        split: sum.splits prod.splits)
qed


subsection \<open>Undefined behaviour of the two programs\<close>

text \<open>Everything but \<open>imdecode\<close> and the mutex fails in one way only.\<close>

definition undefined_only :: "'a outcome \<Rightarrow> bool" where
  "undefined_only m \<longleftrightarrow> (\<forall>f. m = Inl f \<longrightarrow> f = UndefinedBehaviour)"

lemma undefined_only_intros [intro]:
  "undefined_only (Inr x)" "undefined_only (Inl UndefinedBehaviour)" "undefined_only (require b)"
  "undefined_only m \<Longrightarrow> (\<And>x. undefined_only (f x)) \<Longrightarrow> undefined_only (and_then m f)"
  by (auto simp: undefined_only_def require_def and_then_def split: sum.splits)

lemma and_then_undefined:
  "undefined_only m \<Longrightarrow> (\<And>x. m = Inr x \<Longrightarrow> f x = Inl UndefinedBehaviour)
     \<Longrightarrow> and_then m f = Inl UndefinedBehaviour"
  by (cases m) (auto simp: undefined_only_def)

lemma make_entry_undefined: "undefined_only (make_entry i info)"
  by (auto simp: make_entry_def sum4_def split: list.split)

lemma getData_undefined: "undefined_only (getData S r e)"
proof -
  have "undefined_only (getData_loop S res i BI e)" for res i BI e
  proof (induction "unat (nCodeNum res) - i" arbitrary: i BI e)
    case 0
    then show ?case by (auto simp: getData_loop.simps [of S res i])
  next
    case (Suc d)
    then have "undefined_only (getData_loop S res (Suc i) BI e)" for BI e by simp
    then show ?case
      by (subst getData_loop.simps)
        (auto simp: Let_def split: prod.split intro!: undefined_only_intros make_entry_undefined)
  qed
  then show ?thesis by (auto simp: getData_def split: option.split)
qed

lemma put_undefined: "undefined_only (put_info info p)" "undefined_only (put_data n info pData q)"
  by (auto simp: put_info_def put_data_def split: pointer.split)

text \<open>capture is undefined as soon as a frame arrives: it tests and follows the pointers of its own
  imageData, which nothing sets.\<close>
theorem capture_undefined:
  assumes "GetOneFrame S (e_sdk e) (k_handle c) = (s, MV_OK, pData, info)"
  shows "capture1 S V fresh_image_data c e = Inl UndefinedBehaviour"
proof -
  have "undefined_only (if nCodeNum res \<noteq> 0 then getData S (Some res) e' else Inr (resetData, e'))" for res e'
    using getData_undefined by auto
  then show ?thesis
    using assms getData_undefined
    by (auto simp: capture1_def sdk_call_def Let_def fresh_image_data_def put_info_def
        intro!: and_then_undefined split: option.split prod.splits)
qed

lemma copy_pixels_undefined: "undefined_only (copy_pixels buf w ch ps img)"
  by (induction buf w ch ps img rule: copy_pixels.induct) (auto simp: Let_def)

lemma copy_pixels_in_image:
  "copy_pixels buf w ch ps img = Inr img' \<Longrightarrow>
     \<forall>(y, x, c) \<in> set ps. nat (y * (w * ch) + 3 * x + c) < length img"
  by (induction buf w ch ps img rule: copy_pixels.induct) (auto simp: Let_def and_then_Inr require_Inr)

lemma bufferToImage_overflow:
  assumes "1 < width" and "0 < height"
  shows "bufferToImage buf width height 1 = Inl UndefinedBehaviour"
proof (cases "bufferToImage buf width height 1")
  case (Inl f)
  then show ?thesis using copy_pixels_undefined by (auto simp: bufferToImage_def undefined_only_def)
next
  case (Inr img)
  have "(height - 1, width - 1, 0)
      \<in> set [(y, x, c). y \<leftarrow> [0..height - 1], x \<leftarrow> [0..width - 1], c \<leftarrow> [0..1 - 1]]"
    using assms by (auto intro!: bexI [of _ "height - 1"])
  from bspec [OF copy_pixels_in_image [OF Inr [unfolded bufferToImage_def]] this]
  have "nat ((height - 1) * width + 3 * (width - 1)) < nat (height * width)" by simp
  moreover have "height * width \<le> (height - 1) * width + 3 * (width - 1)"
    using assms(1) by (simp add: algebra_simps)
  ultimately show ?thesis by linarith
qed

lemma free_pointer_undefined: "undefined_only (free_pointer p e)"
  by (cases p) auto

lemma image_size_undefined: "undefined_only (image_size S h e)"
  by (auto simp: image_size_def Let_def split: prod.split intro!: undefined_only_intros)

lemma DeInitResources2_undefined: "undefined_only (DeInitResources2 c e)"
  by (auto simp: DeInitResources2_def intro!: undefined_only_intros free_pointer_undefined)

lemma DeInitResources2_mutex: "DeInitResources2 c e = Inr (c', e') \<Longrightarrow> k_mutex c' = MutexDestroyed"
  by (auto simp: DeInitResources2_def and_then_Inr)

lemma InitResource2_undefined: "undefined_only (InitResource2 S c h e)"
  by (auto simp: InitResource2_def Let_def split: prod.split
      intro!: undefined_only_intros image_size_undefined DeInitResources2_undefined)

lemma InitResource2_mutex:
  "InitResource2 S c h e = Inr x \<Longrightarrow> k_mutex (fst (snd x)) \<noteq> MutexHeld"
  by (cases x) (auto simp: InitResource2_def Let_def and_then_Inr dest!: DeInitResources2_mutex
      split: if_splits prod.splits)

lemma init2_undefined: "undefined_only (init2 S c e)"
  by (auto simp: init2_def Let_def split: prod.split intro!: undefined_only_intros InitResource2_undefined)

lemma init2_mutex: "init2 S c e = Inr (c', e') \<Longrightarrow> k_mutex c' \<noteq> MutexHeld"
  by (auto simp: init2_def Let_def and_then_Inr case_prod_beta dest!: InitResource2_mutex)

text \<open>When the size of an image cannot be read, the clean-up of the initialisation frees the pointers
  that were never set.\<close>
theorem InitResource2_frees_wild:
  assumes "image_size S h e = Inr ((r, sz), e')" and "r \<noteq> MV_OK" and "k_pcDataBuf c = Wild"
  shows "InitResource2 S c h e = Inl UndefinedBehaviour"
  using assms by (simp add: InitResource2_def DeInitResources2_def)

text \<open>C40: With a camera that delivers frames of at least two rows, \<open>Camera2.cpp\<close> always ends in undefined
  behaviour, whatever the calls before the frame return.\<close>
theorem main2_undefined:
  assumes "\<And>s h. \<exists>s' pData info. GetOneFrame S s h = (s', MV_OK, pData, info)
    \<and> 1 < nHeight info \<and> 0 < nWidth info"
  shows "main2 S e = Inl UndefinedBehaviour"
proof -
  have g2: "getImage2 S c e = Inl UndefinedBehaviour" if m: "k_mutex c \<noteq> MutexHeld" for c e
  proof -
    obtain e1 r where 1: "sdk_call (\<lambda>s. StartGrabbing S s (k_handle c)) e = (e1, r)" by fastforce
    obtain s' pData info where g: "GetOneFrame S (e_sdk e1) (k_handle c) = (s', MV_OK, pData, info)"
      "1 < nHeight info" "0 < nWidth info"
      using assms by blast
    have "uint (1 :: u16) < uint (nHeight info)" "uint (0 :: u16) < uint (nWidth info)"
      using g(2,3) by (simp_all only: word_less_def)
    then have b: "bufferToImage buf (uint (nHeight info)) (uint (nWidth info)) 1 = Inl UndefinedBehaviour" for buf
      using bufferToImage_overflow by simp
    show ?thesis
      using 1 g(1) m
      by (cases "k_mutex c") (auto simp: getImage2_def sdk_call_def [of "\<lambda>s. GetOneFrame S s h" for h] Let_def b
          intro!: and_then_undefined put_undefined)
  qed
  have "getImage2 S (fst x) (snd x) = Inl UndefinedBehaviour" if "init2 S fresh_stack_camera e = Inr x" for x
    using that by (cases x) (auto intro!: g2 dest: init2_mutex)
  then show ?thesis
    unfolding main2_def
    by (intro and_then_undefined init2_undefined) (simp add: case_prod_beta)
qed


subsection \<open>Witnesses\<close>

theorem main1_runs_library_witness:
  "case main1 demo_sdk demo_vision demo_env of
     Inr (shown, cam1, e) \<Rightarrow> map_option snd shown = Some [[(0, 0), (4, 0), (4, 4), (0, 4)]] \<and> e_blocks e = 11
   | Inl _ \<Rightarrow> False"
proof -
  let ?i = "init demo_sdk new_camera demo_env"
  have i: "?i = Inr (1, fst (snd (projr ?i)), snd (snd (projr ?i)))" by code_simp
  show ?thesis unfolding main1_runs_library [OF i] by code_simp
qed

theorem capture_undefined_witness:
  "capture1 demo_sdk demo_vision fresh_image_data fresh_stack_camera demo_env = Inl UndefinedBehaviour"
  by (rule capture_undefined [of _ _ _ "()" "[1, 2, 3, 4]" demo_info]) (simp add: demo_sdk_def)

definition two_rows_sdk :: "unit sdk" where
  "two_rows_sdk =
     demo_sdk\<lparr>GetOneFrame := (\<lambda>s h. (s, MV_OK, [1, 2, 3, 4], demo_info\<lparr>nWidth := 2, nHeight := 2\<rparr>))\<rparr>"

theorem main2_undefined_witness: "main2 two_rows_sdk demo_env = Inl UndefinedBehaviour"
  by (rule main2_undefined) (simp add: two_rows_sdk_def)

end
