(* ===== verification/Spec2Isabelle.thy ===== *)
theory Spec2Isabelle
  imports CompressedFrames SaveSession OpeningSafety Endpoint AsioConnect Iostream CameraTools
begin

text \<open>
  Verification of the aggregation program: a camera that reads barcodes and a WebSocket server
  that sends the codes it reads to its client. The program is \<open>broadcastTest.cpp\<close> with the class
  of \<open>CameraLib.cpp\<close>; its server is the vendored library \<open>websocketcpp\<close>; \<open>SaveImage.cpp\<close> is a
  second program, which saves the camera's frames; \<open>Camera.cpp\<close> and \<open>Camera2.cpp\<close> show one frame.

  \<^bold>\<open>How the parts interact.\<close> The endpoint listens and accepts (\<open>transport/asio/endpoint.hpp\<close>,
  \<open>roles/server_endpoint.hpp\<close>) and starts a connection (\<open>impl/connection_impl.hpp\<close>) on the transport
  of \<open>transport/asio/connection.hpp\<close>. The connection reads the request of the client (\<open>http\<close>, \<open>uri.hpp\<close>),
  chooses the processor of the protocol version, answers with the key of \<open>processors/hybi13.hpp\<close>
  (\<open>sha1\<close>, \<open>base64\<close>) and is open. From then on bytes arrive in its read handler, which gives them to
  the processor. The processor reads headers and payloads (\<open>frame.hpp\<close>), removes the mask, undoes the
  compression when it was negotiated (\<open>permessage_deflate/enabled.hpp\<close>), validates UTF-8
  (\<open>utf8_validator.hpp\<close>) and hands out messages; control messages are answered by the connection itself
  (pong, close acknowledgement with the codes of \<open>close.hpp\<close>), data messages go to the program's
  \<open>on_message\<close>. In the other direction \<open>send\<close> prepares a frame, puts it on the write queue and
  dispatches \<open>write_frame\<close>. The program queues what its handlers get for a second thread
  (\<open>process_messages\<close>) and sends camera strings from a third one (\<open>looping\<close>).

  \<^bold>\<open>Theories and sources.\<close>

  \<^item> Prelude: types of machine words and bytes, lemmas on lists and words, the collections of facts.
    Text: the string functions of the C library the code uses, and \<open>utilities.hpp\<close>.
  \<^item> Network: \<open>common/network.hpp\<close> and the conversion unions of \<open>frame.hpp\<close>, on a little-endian host.
  \<^item> Errors: the error enumerations of \<open>error.hpp\<close>, the processors, the transports, the socket policy and
    the extensions, with their messages. An \<open>error_code\<close> is a category with a value, or none.
  \<^item> Utf8: \<open>utf8_validator.hpp\<close>, table and decoder, against the definition of well-formed UTF-8.
  \<^item> CloseStatus: \<open>close.hpp\<close> and the mapping of processor errors to close codes.
  \<^item> Frame: \<open>frame.hpp\<close>: headers, serialisation, the byte-wise and word-wise masking routines; the
    locale \<open>stream_mask\<close> is their common contract.
  \<^item> Message: \<open>message_buffer\<close>, and an extension as a value of functions, with the disabled
    permessage-deflate extension.
  \<^item> Hybi13: the frame part of \<open>processors/hybi13.hpp\<close>: \<open>consume\<close>, the preparation of frames, the
    checks of incoming headers. FrameReader: what \<open>consume\<close> keeps and delivers, for any bytes in any
    portions. FrameTransfer: what one side prepares the other side reads.
  \<^item> Sha1, Base64, Md5: \<open>sha1.hpp\<close>, \<open>base64.hpp\<close>, \<open>common/md5.hpp\<close>, against FIPS 180-4, RFC 4648 and
    RFC 1321. Uri: \<open>uri.hpp\<close>.
  \<^item> Http, HeaderMap, Request, Response: \<open>http/\<close>, the extraction functions, the header map, and requests
    and responses read in portions and written.
  \<^item> Handshake: the handshake of \<open>processors/hybi13.hpp\<close> and the functions of \<open>processor.hpp\<close>. Hybi00:
    \<open>hybi00.hpp\<close>, \<open>hybi07.hpp\<close>, \<open>hybi08.hpp\<close>.
  \<^item> Deflate: negotiation and the loops of \<open>permessage_deflate/enabled.hpp\<close>; CompressedFrames: frames
    with that extension.
  \<^item> Connection: the life of a connection after the handshake in \<open>impl/connection_impl.hpp\<close>;
    ConnectionRuns: its invariants over all sequences of events; ServerConnection: the program's
    handlers as the application of a connection, and the properties.
  \<^item> Opening: the handshake of a connection of either role in \<open>impl/connection_impl.hpp\<close>, step by step;
    OpeningRuns: its runs between the two roles and to the open connection; OpeningSafety: its
    invariant over all events.
  \<^item> AsioTransport: \<open>transport/asio/connection.hpp\<close> over asio's timers and operations, with the locale
    \<open>guarded_operation\<close> of an operation with a deadline, interpreted by the initialisation and by the
    shutdown. AsioConnect: the client side of \<open>transport/asio/endpoint.hpp\<close> and
    \<open>roles/client_endpoint.hpp\<close>. Endpoint: listening, accepting and the accept loop. Iostream:
    \<open>transport/iostream/connection.hpp\<close>.
  \<^item> Broadcast: the server class of \<open>broadcastTest.cpp\<close>, its handlers and threads as interleaved
    steps.
  \<^item> Camera: \<open>CameraLib.cpp\<close>. CameraTools: \<open>Camera.cpp\<close> and \<open>Camera2.cpp\<close>. SaveImage, SaveSession:
    \<open>SaveImage.cpp\<close>, its operations and the program with its two threads.

  \<^bold>\<open>State and errors.\<close> A class is a record with the members of the class; a method is a function
  from the object to its result and the new object. A returned \<open>error_code\<close> is an optional value. What
  would be undefined behaviour, an uncaught exception or a wait for ever is a value (\<open>None\<close>, or a
  \<open>fault\<close>), and the safety properties say it does not come up. Words keep their width; sizes are
  64-bit words where the code compares or adds them.

  \<^bold>\<open>What the lemmas show.\<close> In Frame: layout and round trips of headers, equivalence of the masking
  routines. In FrameReader: the invariant of the processor, totality of \<open>consume\<close>, independence from the
  portions in which bytes arrive. In FrameTransfer: the round trips of data, control and close
  frames, over any extension; in CompressedFrames that of a compressed message. In Request and Response:
  reading what was written, limits, and safety for any portions. In Handshake: agreement of the two
  sides on URI, key and subprotocol. In Deflate: the settings both sides end with are the same and are
  ones zlib supports, and the loop of \<open>compress\<close> ends. In ConnectionRuns: the order of the write queue,
  the absence of lost wake-ups, one shutdown. In OpeningRuns: the handshake of a well-formed request ends
  in the open connection ServerConnection starts from, and both sides come to be open. In OpeningSafety:
  no event of a connection is undefined, and a handshake that has not ended has one step under way. In
  AsioTransport and AsioConnect: initialisation, shutdown and connect are answered once. In Endpoint:
  listening is all or nothing, and the accept loop goes on. In Broadcast: the invariant of the server,
  to whom data is sent, which requests are served and which are lost. In Camera, SaveSession and
  CameraTools: memory and mutex accounting, bounds of the copies, release.

  \<^bold>\<open>Bounds.\<close> \<open>consume\<close> and the other read loops are recursive with termination proofs; no fuel is used.
  The waiting loop of \<open>PressEnterToExit\<close>, the loops of \<open>compress\<close> and \<open>decompress\<close>, the calls of read
  handlers and the reading of a stream in Iostream are partial functions whose value \<open>None\<close> is a loop
  without end; for \<open>compress\<close>, for Enter and for the portions of Iostream it is
  proved when they return. The interleavings are lists of turns, or reachable states, of arbitrary length.

  \<^bold>\<open>Parameters.\<close> The vendor's SDK, \<open>malloc\<close>, \<open>iconv\<close>, OpenCV, files and the clock; the random number
  generator of the processor; zlib, of which the hypotheses of CompressedFrames and Deflate state what its
  documentation says of one call; what the uninitialised buffers of the hash routines hold; the transport
  of a connection, whose calls are recorded in the order they are made and whose completions are events,
  and likewise asio's timers and operations in AsioTransport, whose callbacks run one at a time; the
  program's handlers of a connection.

  \<^bold>\<open>Not modelled.\<close> TLS, a wrapper of OpenSSL; the loggers, which only write; the stub and debug
  transports; overloads of \<open>listen\<close> that resolve a name, and the functions of \<open>endpoint.hpp\<close> that look up
  a handle and forward to a connection or to asio. A handshake with the first draft (version 0) is
  modelled up to the open state and its frames by themselves, not the connection over them. The
  examples and tests of the vendored library, its configuration classes, the headers of the SDK and of
  turbojpeg, which are declarations, and the Python scripts. Of the camera programs, \<open>SaveImage copy.cpp\<close> has
  the functions of \<open>SaveImage.cpp\<close>; the streaming loop of \<open>broadcastTest copy.cpp\<close> and \<open>getString\<close> of
  \<open>Camera2.cpp\<close>, which its \<open>main\<close> does not call, are left out.
\<close>

end
